(* ===== verification/Go_Float.thy ===== *)
theory Go_Float
  imports Complex_Main "HOL-Library.Log_Nat"
begin

text \<open>
  The float64 arithmetic of Go, as executable rational arithmetic with explicit rounding.
  A float64 value is a \<^typ>\<open>rat\<close> \<open>x\<close> with \<open>f64 x = x\<close>; an operation of the source is the exact
  rational operation followed by \<open>f64\<close> (round to nearest, ties to even). The lemmas are the ones
  the components use: rounding is monotone, odd, idempotent and exact on every integer up to
  $2^{53}$ and on its multiples by powers of two.
\<close>

section \<open>Rounding to float64\<close>

text \<open>
  \<open>ilog2 x\<close> is the binary exponent of a positive rational; \<open>rne\<close> rounds to the nearest
  integer, ties to even; \<open>f64\<close> rounds a rational to 53 significant bits, which is what every
  float64 operation of the sources does to its exact result. Infinities, NaN and subnormals are
  not represented: the exponent is unbounded, so the model agrees with IEEE 754 binary64 for
  results whose magnitude lies between $2^{-1022}$ and $2^{1024}$.
\<close>

definition ilog2 :: "rat \<Rightarrow> int" where
  "ilog2 x = (let (a, b) = quotient_of x; k = int (floorlog 2 (nat a)) - int (floorlog 2 (nat b))
     in if 2 powi k \<le> x then k else k - 1)"

definition rne :: "rat \<Rightarrow> int" where
  "rne q = (let f = \<lfloor>q\<rfloor>; d = q - of_int f
     in if d < 1 / 2 then f else if 1 / 2 < d then f + 1 else if even f then f else f + 1)"

definition f64 :: "rat \<Rightarrow> rat" where
  "f64 x = (if x = 0 then 0
     else let u = 2 powi (ilog2 \<bar>x\<bar> - 52) in of_int (rne (x / u)) * u)"

lemma floorlog2_bounds:
  assumes "0 < n"
  obtains k where "floorlog 2 n = Suc k" "2 ^ k \<le> n" "n < 2 * 2 ^ k"
proof -
  from assms have "floorlog 2 n \<noteq> 0" by (simp add: floorlog_def)
  then obtain k where k: "floorlog 2 n = Suc k" by (cases "floorlog 2 n") auto
  have "2 ^ (floorlog 2 n - 1) \<le> n \<and> n < 2 ^ floorlog 2 n"
    using assms by (intro floorlog_bounds) auto
  with k that show thesis by simp
qed

lemma ilog2_bounds:
  assumes "0 < x"
  shows "2 powi ilog2 x \<le> x" "x < 2 powi (ilog2 x + 1)"
proof -
  obtain a b where q: "quotient_of x = (a, b)" by (cases "quotient_of x")
  have b: "0 < b" using quotient_of_denom_pos[OF q] .
  have x: "x = of_int a / of_int b" using quotient_of_div[OF q] .
  with assms b have a: "0 < a" by (simp add: zero_less_divide_iff)
  from a have na: "0 < nat a" by simp
  from b have nb: "0 < nat b" by simp
  obtain j where j: "floorlog 2 (nat a) = Suc j" "2 ^ j \<le> nat a" "nat a < 2 * 2 ^ j"
    using floorlog2_bounds[OF na] .
  obtain l where l: "floorlog 2 (nat b) = Suc l" "2 ^ l \<le> nat b" "nat b < 2 * 2 ^ l"
    using floorlog2_bounds[OF nb] .
  define k where "k = int j - int l"
  have aj: "(2::rat) ^ j \<le> of_int a" "of_int a < (2::rat) * 2 ^ j"
  proof -
    have "(2::int) ^ j \<le> a" using j(2) a by (simp add: le_nat_iff)
    then show "(2::rat) ^ j \<le> of_int a" by (metis of_int_le_iff of_int_numeral of_int_power)
    have "a < 2 * 2 ^ j" using j(3) a by (simp add: nat_less_iff)
    then show "of_int a < (2::rat) * 2 ^ j" by (metis of_int_less_iff of_int_mult of_int_numeral of_int_power)
  qed
  have bl: "(2::rat) ^ l \<le> of_int b" "of_int b < (2::rat) * 2 ^ l"
  proof -
    have "(2::int) ^ l \<le> b" using l(2) b by (simp add: le_nat_iff)
    then show "(2::rat) ^ l \<le> of_int b" by (metis of_int_le_iff of_int_numeral of_int_power)
    have "b < 2 * 2 ^ l" using l(3) b by (simp add: nat_less_iff)
    then show "of_int b < (2::rat) * 2 ^ l" by (metis of_int_less_iff of_int_mult of_int_numeral of_int_power)
  qed
  have p: "(2::rat) powi k = 2 ^ j / 2 ^ l"
    by (simp add: k_def power_int_diff)
  have bq: "(0::rat) < of_int b" using b by simp
  have lo: "(2::rat) powi (k - 1) \<le> x"
  proof -
    have "(2::rat) powi (k - 1) = 2 ^ j / (2 * 2 ^ l)"
      using p by (simp add: power_int_diff)
    also have "\<dots> \<le> of_int a / of_int b"
      using aj bl bq a by (intro frac_le) auto
    finally show ?thesis by (simp add: x)
  qed
  have hi: "x < (2::rat) powi (k + 1)"
  proof -
    have "of_int a / of_int b < ((2::rat) * 2 ^ j) / 2 ^ l"
      using aj bl bq a by (intro frac_less) auto
    also have "\<dots> = (2::rat) powi (k + 1)" using p by (simp add: power_int_add)
    finally show ?thesis by (simp add: x)
  qed
  have i: "ilog2 x = (if 2 powi k \<le> x then k else k - 1)"
    using j(1) l(1) by (simp add: ilog2_def q k_def)
  show "2 powi ilog2 x \<le> x" using lo i by auto
  show "x < 2 powi (ilog2 x + 1)" using hi i by auto
qed

lemma powi2_less_imp: "(2::rat) powi a < 2 powi b \<Longrightarrow> a < b"
  using power_int_increasing[of b a "2::rat"] by fastforce

lemma ilog2_unique:
  assumes "2 powi e \<le> x" "x < 2 powi (e + 1)"
  shows "ilog2 x = e"
proof -
  have "0 < (2::rat) powi e" by simp
  with assms have x: "0 < x" by linarith
  note b = ilog2_bounds[OF x]
  have "(2::rat) powi ilog2 x < 2 powi (e + 1)" "(2::rat) powi e < 2 powi (ilog2 x + 1)"
    using assms b by linarith+
  then have "ilog2 x < e + 1" "e < ilog2 x + 1" by (blast dest: powi2_less_imp)+
  then show ?thesis by simp
qed

lemma rne_of_int [simp]: "rne (of_int n) = n" by (simp add: rne_def)

lemma rne_near: "\<lfloor>q\<rfloor> \<le> rne q" "rne q \<le> \<lfloor>q\<rfloor> + 1" by (simp_all add: rne_def Let_def)

lemma rne_mono: assumes "p \<le> q" shows "rne p \<le> rne q"
proof (cases "\<lfloor>p\<rfloor> = \<lfloor>q\<rfloor>")
  case True
  with assms show ?thesis by (auto simp: rne_def Let_def)
next
  case False
  with floor_mono[OF assms] have "\<lfloor>p\<rfloor> + 1 \<le> \<lfloor>q\<rfloor>" by simp
  with rne_near[of p] rne_near[of q] show ?thesis by linarith
qed

lemma rne_minus: "rne (- q) = - rne q"
proof (cases "q = of_int \<lfloor>q\<rfloor>")
  case True
  then obtain n where "q = of_int n" by blast
  then show ?thesis by (metis of_int_minus rne_of_int)
next
  case False
  with of_int_floor_le[of q] have "of_int \<lfloor>q\<rfloor> < q" by linarith
  then have f: "\<lfloor>- q\<rfloor> = - \<lfloor>q\<rfloor> - 1"
    by (intro floor_unique) (use floor_correct[of q] in auto)
  show ?thesis by (auto simp: rne_def Let_def f)
qed
lemma f64_0 [simp]: "f64 0 = 0"
  by (simp add: f64_def)

lemma f64_minus [simp]: "f64 (- x) = - f64 x"
  by (simp add: f64_def Let_def rne_minus)

lemma f64_pos_bounds:
  assumes "0 < x"
  shows "2 powi ilog2 x \<le> f64 x" "f64 x \<le> 2 powi (ilog2 x + 1)"
proof -
  define u :: rat where "u = 2 powi (ilog2 x - 52)"
  have u: "0 < u" by (simp add: u_def)
  have fx: "f64 x = of_int (rne (x / u)) * u"
    using assms by (simp add: f64_def u_def Let_def)
  have e: "2 powi ilog2 x = (2::rat) ^ 52 * u" "2 powi (ilog2 x + 1) = (2::rat) ^ 53 * u"
    by (simp_all add: u_def power_int_diff power_int_add)
  have "of_int (2 ^ 52) \<le> x / u"
    using ilog2_bounds(1)[OF assms] e(1) u by (simp add: le_divide_eq)
  then have "2 ^ 52 \<le> rne (x / u)" using rne_mono rne_of_int by metis
  then have "(2::rat) ^ 52 \<le> of_int (rne (x / u))"
    by (metis of_int_le_iff of_int_numeral of_int_power)
  with u show "2 powi ilog2 x \<le> f64 x" unfolding fx e by (simp add: mult_right_mono)
  have "x / u \<le> of_int (2 ^ 53)"
    using ilog2_bounds(2)[OF assms] e(2) u by (simp add: divide_le_eq)
  then have "rne (x / u) \<le> 2 ^ 53" using rne_mono rne_of_int by metis
  then have "of_int (rne (x / u)) \<le> (2::rat) ^ 53"
    by (metis of_int_le_iff of_int_numeral of_int_power)
  with u show "f64 x \<le> 2 powi (ilog2 x + 1)" unfolding fx e by (simp add: mult_right_mono)
qed

lemma f64_pos_mono:
  assumes "0 < x" "x \<le> y"
  shows "f64 x \<le> f64 y"
proof (cases "ilog2 x = ilog2 y")
  case True
  have "rne (x / 2 powi (ilog2 y - 52)) \<le> rne (y / 2 powi (ilog2 y - 52))"
    using assms by (intro rne_mono divide_right_mono) auto
  with True assms show ?thesis by (auto simp: f64_def Let_def intro!: mult_right_mono)
next
  case False
  have "ilog2 x \<le> ilog2 y"
  proof (rule ccontr)
    assume "\<not> ?thesis"
    then have "(2::rat) powi (ilog2 y + 1) \<le> 2 powi ilog2 x"
      by (intro power_int_increasing) auto
    with ilog2_bounds(1)[of x] ilog2_bounds(2)[of y] assms show False by linarith
  qed
  with False have "(2::rat) powi (ilog2 x + 1) \<le> 2 powi ilog2 y"
    by (intro power_int_increasing) auto
  with f64_pos_bounds(2)[of x] f64_pos_bounds(1)[of y] assms show ?thesis by linarith
qed

lemma f64_nonneg: "0 \<le> x \<Longrightarrow> 0 \<le> f64 x"
proof (cases "x = 0")
  case False
  assume "0 \<le> x"
  with False have "2 powi ilog2 x \<le> f64 x" by (intro f64_pos_bounds) auto
  moreover have "(0::rat) \<le> 2 powi ilog2 x" by simp
  ultimately show ?thesis by (rule order_trans[rotated])
qed simp

lemma f64_mono:
  assumes "x \<le> y"
  shows "f64 x \<le> f64 y"
proof -
  consider "0 < x" | "x \<le> 0" "0 \<le> y" | "y < 0" by linarith
  then show ?thesis
  proof cases
    case 1
    with assms show ?thesis by (simp add: f64_pos_mono)
  next
    case 2
    then have "0 \<le> f64 y" "0 \<le> f64 (- x)" by (simp_all add: f64_nonneg del: f64_minus)
    then show ?thesis by simp
  next
    case 3
    with assms have "f64 (- y) \<le> f64 (- x)" by (intro f64_pos_mono) auto
    then show ?thesis by simp
  qed
qed

lemma f64_dyadic_pos:
  assumes "0 < m" "m < 2 ^ 53"
  shows "f64 (of_int m * 2 powi k) = of_int m * 2 powi k"
proof -
  define x :: rat where "x = of_int m * 2 powi k"
  define e where "e = ilog2 x"
  have x: "0 < x" using assms by (simp add: x_def)
  define u :: rat where "u = 2 powi (e - 52)"
  have "(2::rat) powi e \<le> x" using ilog2_bounds(1)[OF x] by (simp add: e_def)
  also have "x < 2 powi (53 + k)"
  proof -
    have "of_int m < (2::rat) ^ 53" using assms(2) by (metis of_int_less_iff of_int_numeral of_int_power)
    then show ?thesis by (simp add: x_def power_int_add)
  qed
  finally have "e < 53 + k" by (rule powi2_less_imp)
  then have "0 \<le> k - (e - 52)" by simp
  then have "2 powi (k - (e - 52)) = (2::rat) ^ nat (k - (e - 52))"
    by (simp add: power_int_def)
  then have "2 powi k / u = (of_int (2 ^ nat (k - (e - 52))) :: rat)"
    unfolding u_def by (subst power_int_diff [symmetric]) auto
  then have "x / u = of_int (m * 2 ^ nat (k - (e - 52)))"
    by (simp add: x_def flip: times_divide_eq_right)
  then have "of_int (rne (x / u)) * u = x / u * u" by (metis rne_of_int)
  with x show ?thesis by (simp add: f64_def Let_def u_def e_def flip: x_def)
qed
lemma f64_dyadic:
  assumes "\<bar>m\<bar> \<le> 2 ^ 53"
  shows "f64 (of_int m * 2 powi k) = of_int m * 2 powi k"
proof -
  have *: "f64 (of_int n * 2 powi k) = of_int n * 2 powi k" if "0 < n" "n \<le> 2 ^ 53" for n
  proof (cases "n = 2 ^ 53")
    case True
    then have "of_int n * 2 powi k = (of_int 1 * 2 powi (k + 53) :: rat)"
      by (simp add: power_int_add)
    then show ?thesis using f64_dyadic_pos[of 1 "k + 53"] by simp
  next
    case False
    with that show ?thesis by (intro f64_dyadic_pos) auto
  qed
  consider "m = 0" | "0 < m" | "0 < - m" by linarith
  then show ?thesis
  proof cases
    case 3
    with assms have "f64 (of_int (- m) * 2 powi k) = of_int (- m) * 2 powi k" by (intro *) auto
    then show ?thesis by simp
  qed (use assms * in auto)
qed

lemma f64_of_int: "\<bar>m\<bar> \<le> 2 ^ 53 \<Longrightarrow> f64 (of_int m) = of_int m"
  using f64_dyadic[of m 0] by simp

lemma f64_le: "x \<le> y \<Longrightarrow> f64 y = y \<Longrightarrow> f64 x \<le> y"
  using f64_mono by fastforce

lemma f64_ge: "y \<le> x \<Longrightarrow> f64 y = y \<Longrightarrow> y \<le> f64 x"
  using f64_mono by fastforce

lemma f64_of_nat: "n \<le> 2 ^ 53 \<Longrightarrow> f64 (of_nat n) = of_nat n"
  using f64_of_int[of "int n"] by simp

lemma f64_pos: "0 < x \<Longrightarrow> 0 < f64 x"
  using f64_pos_bounds(1)[of x] zero_less_power_int[of "2::rat" "ilog2 x"] by linarith
lemma f64_idem [simp]: "f64 (f64 x) = f64 x"
proof (cases "x = 0")
  case False
  define u :: rat where "u = 2 powi (ilog2 \<bar>x\<bar> - 52)"
  have u: "0 < u" by (simp add: u_def)
  have fx: "f64 x = of_int (rne (x / u)) * u"
    using False by (simp add: f64_def u_def Let_def)
  have "\<bar>f64 x\<bar> = f64 \<bar>x\<bar>"
    using f64_nonneg[of x] f64_nonneg[of "- x"] by (cases "0 \<le> x") auto
  then have "\<bar>f64 x\<bar> \<le> 2 ^ 53 * u"
    using f64_pos_bounds(2)[of "\<bar>x\<bar>"] False
    by (simp add: u_def power_int_add power_int_diff)
  then have "\<bar>of_int (rne (x / u))\<bar> \<le> (2::rat) ^ 53"
    using u by (simp add: fx abs_mult)
  then have "\<bar>rne (x / u)\<bar> \<le> 2 ^ 53"
    by (metis of_int_abs of_int_le_iff of_int_numeral of_int_power)
  then show ?thesis unfolding fx u_def by (rule f64_dyadic)
qed simp
end
