(* ===== verification/Go_Prelude.thy ===== *)
theory Go_Prelude
  imports Go_Float "HOL-Library.Word" "HOL-Library.Monad_Syntax"
begin

text \<open>
  What the components share of the Go language and its standard library: 64-bit integers, the
  truncating division, conversions from float64, \<open>time.Time\<close> and \<open>time.Duration\<close>, slices with
  bounds checks, and loops that may panic. A run-time panic is the value \<open>None\<close> of an option.
\<close>

named_theorems go_arith \<open>definitions of the integer and time operations of Go\<close>
named_theorems wf_intros \<open>introduction rules: an operation keeps a component's invariant\<close>

type_synonym go_time = int \<comment> \<open>nanoseconds since the Unix epoch\<close>
type_synonym duration = int \<comment> \<open>nanoseconds, an int64\<close>
type_synonym float64 = rat \<comment> \<open>see \<^theory_text>\<open>Go_Float\<close>\<close>

section \<open>Integers\<close>

abbreviation min64 :: int where "min64 \<equiv> - (2 ^ 63)"
abbreviation max64 :: int where "max64 \<equiv> 2 ^ 63 - 1"

text \<open>Two's complement wrap-around of an int64 result.\<close>

definition i64 :: "int \<Rightarrow> int" where
  "i64 x = (x + 2 ^ 63) mod 2 ^ 64 - 2 ^ 63"

text \<open>\<open>/\<close> and \<open>%\<close> truncate towards zero; a zero divisor panics at the use sites.\<close>

definition go_quot :: "int \<Rightarrow> int \<Rightarrow> int" where
  "go_quot a b = sgn a * sgn b * (\<bar>a\<bar> div \<bar>b\<bar>)"

definition go_rem :: "int \<Rightarrow> int \<Rightarrow> int" where
  "go_rem a b = a - b * go_quot a b"

lemma i64_id [simp]: "min64 \<le> x \<Longrightarrow> x \<le> max64 \<Longrightarrow> i64 x = x"
  by (simp add: i64_def)

lemma i64_bounds: "min64 \<le> i64 x" "i64 x \<le> max64"
proof -
  have "0 \<le> (x + 2 ^ 63) mod 2 ^ 64" "(x + 2 ^ 63) mod 2 ^ 64 < (2::int) ^ 64"
    by (rule pos_mod_sign, simp, rule pos_mod_bound, simp)
  then show "min64 \<le> i64 x" "i64 x \<le> max64" by (simp_all add: i64_def)
qed

lemma go_quot_nonneg [simp]: "0 \<le> a \<Longrightarrow> 0 < b \<Longrightarrow> go_quot a b = a div b"
  by (cases "a = 0") (auto simp: go_quot_def)

lemma go_rem_nonneg [simp]: "0 \<le> a \<Longrightarrow> 0 < b \<Longrightarrow> go_rem a b = a mod b"
  by (simp add: go_rem_def minus_mult_div_eq_mod)

lemma go_quot_neg_le: "a < 0 \<Longrightarrow> 0 < b \<Longrightarrow> go_quot a b \<le> 0"
  by (simp add: go_quot_def pos_imp_zdiv_nonneg_iff)

lemma go_quot_pos_iff: "0 < b \<Longrightarrow> 0 < go_quot a b \<longleftrightarrow> b \<le> a"
proof (cases "0 \<le> a")
  case True
  assume "0 < b"
  with True show ?thesis by (auto simp: pos_imp_zdiv_pos_iff)
next
  case False
  assume "0 < b"
  with False show ?thesis using go_quot_neg_le[of a b] by auto
qed

section \<open>Conversions from float64\<close>

definition rat_trunc :: "rat \<Rightarrow> int" where
  "rat_trunc x = (if 0 \<le> x then \<lfloor>x\<rfloor> else \<lceil>x\<rceil>)"

text \<open>
  \<open>int64(x)\<close> truncates; outside the range of int64 the language leaves the result to the
  implementation, which is the parameter \<open>oor\<close>.
\<close>

definition f2i :: "(float64 \<Rightarrow> int) \<Rightarrow> float64 \<Rightarrow> int" where
  "f2i oor x = (if min64 \<le> rat_trunc x \<and> rat_trunc x \<le> max64 then rat_trunc x else oor x)"

lemma rat_trunc_of_int [simp]: "rat_trunc (of_int n) = n"
  by (simp add: rat_trunc_def)

lemma rat_trunc_mono: "x \<le> y \<Longrightarrow> rat_trunc x \<le> rat_trunc y"
proof -
  assume le: "x \<le> y"
  consider "0 \<le> x" | "x < 0" "0 \<le> y" | "y < 0" by linarith
  then show ?thesis
  proof cases
    case 2
    then have "\<lceil>x\<rceil> \<le> 0" "0 \<le> \<lfloor>y\<rfloor>" by (simp_all add: ceiling_le_iff)
    then have "\<lceil>x\<rceil> \<le> \<lfloor>y\<rfloor>" by linarith
    with 2 show ?thesis by (simp add: rat_trunc_def)
  qed (use le in \<open>auto simp: rat_trunc_def floor_mono ceiling_mono\<close>)
qed

lemma f2i_in_range: "min64 \<le> rat_trunc x \<Longrightarrow> rat_trunc x \<le> max64 \<Longrightarrow> f2i oor x = rat_trunc x"
  by (simp add: f2i_def)

section \<open>Time\<close>

text \<open>\<open>t.Sub(u)\<close> saturates at the bounds of a Duration. The zero \<open>time.Time\<close> is year 1.\<close>

definition time_Sub :: "go_time \<Rightarrow> go_time \<Rightarrow> duration" where
  "time_Sub t u = max min64 (min max64 (t - u))"

definition zero_Time :: go_time where
  "zero_Time = - 62135596800000000000"

abbreviation Second :: duration where "Second \<equiv> 1000000000"
abbreviation Millisecond :: duration where "Millisecond \<equiv> 1000000"

text \<open>\<open>d.Seconds()\<close>: whole seconds and the fraction are converted separately, then added.\<close>

definition dur_Seconds :: "duration \<Rightarrow> float64" where
  "dur_Seconds d = f64 (f64 (of_int (go_quot d Second)) +
     f64 (f64 (of_int (go_rem d Second)) / of_int Second))"

lemma time_Sub_in_range [simp]:
  "min64 \<le> t - u \<Longrightarrow> t - u \<le> max64 \<Longrightarrow> time_Sub t u = t - u"
  by (simp add: time_Sub_def)

lemma time_Sub_ge_iff: "min64 < d \<Longrightarrow> d \<le> max64 \<Longrightarrow> d \<le> time_Sub t u \<longleftrightarrow> d \<le> t - u"
  by (auto simp: time_Sub_def)

lemma time_Sub_bounds: "min64 \<le> time_Sub t u" "time_Sub t u \<le> max64"
  by (auto simp: time_Sub_def)

section \<open>Slices and loops\<close>

definition slice_get :: "'a list \<Rightarrow> int \<Rightarrow> 'a option" where
  "slice_get xs i = (if 0 \<le> i \<and> i < int (length xs) then Some (xs ! nat i) else None)"

definition slice_set :: "'a list \<Rightarrow> int \<Rightarrow> 'a \<Rightarrow> 'a list option" where
  "slice_set xs i x = (if 0 \<le> i \<and> i < int (length xs) then Some (xs[nat i := x]) else None)"

primrec fold_opt :: "('a \<Rightarrow> 's \<Rightarrow> 's option) \<Rightarrow> 'a list \<Rightarrow> 's \<Rightarrow> 's option" where
  "fold_opt f [] s = Some s"
| "fold_opt f (x # xs) s = Option.bind (f x s) (fold_opt f xs)"

lemma slice_get_in [simp]: "k < length xs \<Longrightarrow> slice_get xs (int k) = Some (xs ! k)"
  by (simp add: slice_get_def)

lemma slice_set_in [simp]: "k < length xs \<Longrightarrow> slice_set xs (int k) x = Some (xs[k := x])"
  by (simp add: slice_set_def)

lemma slice_set_length: "slice_set xs i x = Some ys \<Longrightarrow> length ys = length xs"
  by (auto simp: slice_set_def split: if_splits)

lemma fold_opt_append: "fold_opt f (xs @ ys) s = Option.bind (fold_opt f xs s) (fold_opt f ys)"
proof (induction xs arbitrary: s)
  case (Cons a xs)
  then show ?case by (cases "f a s") auto
qed simp

lemma fold_opt_inv:
  assumes "\<And>x s s'. f x s = Some s' \<Longrightarrow> I s \<Longrightarrow> I s'" "fold_opt f xs s = Some s'" "I s"
  shows "I s'"
  using assms(2,3) by (induction xs arbitrary: s) (auto simp: bind_eq_Some_conv dest: assms(1))

lemmas [go_arith] = i64_def go_quot_def go_rem_def time_Sub_def

end
