(* ===== verification/Circuit_Breaker.thy ===== *)
theory Circuit_Breaker
  imports Go_Prelude
begin

text \<open>
  The contract of \<open>circuitbreaker/circuitbreaker.go\<close>: the three states and their names, the
  rejection error, the interface as a locale over the operations a client calls, and the client
  facts that hold of every implementation: no operation panics in a run from a well-formed
  breaker, and after \<open>Close\<close> every \<open>Allow\<close> of every run is rejected.
\<close>

section \<open>States and errors\<close>

datatype cb_state = StateClosed | StateOpen | StateHalfOpen

text \<open>The Go type \<open>State\<close> is an int; the constants are 0, 1, 2 (\<open>iota\<close>).\<close>

fun cb_state_int :: "cb_state \<Rightarrow> int" where
  "cb_state_int StateClosed = 0"
| "cb_state_int StateOpen = 1"
| "cb_state_int StateHalfOpen = 2"

definition cb_String :: "int \<Rightarrow> string" where
  "cb_String s =
     (if s = cb_state_int StateClosed then ''closed''
      else if s = cb_state_int StateOpen then ''open''
      else if s = cb_state_int StateHalfOpen then ''half-open''
      else ''unknown'')"

datatype cb_error = ErrCircuitOpen

lemma cb_String_inj: "cb_String (cb_state_int s) = cb_String (cb_state_int t) \<Longrightarrow> s = t"
  by (cases s; cases t) (simp_all add: cb_String_def)

section \<open>Calls of a client\<close>

text \<open>
  A call carries what the operation reads from its environment (clock readings, a random number,
  a latency). Every operation holds the breaker's mutex from start to end, so a concurrent use is
  some sequence of calls.
\<close>

datatype 'e cb_call =
    CallAllow 'e
  | CallSuccess 'e
  | CallFailure 'e
  | CallState 'e
  | CallClose

datatype cb_reply = Replied "cb_error option" | Reported cb_state | Done

section \<open>The interface\<close>

text \<open>
  The method table of the Go interface. \<open>None\<close> is a run-time panic. The body of \<open>Execute\<close> is the same
  in \<open>hystrix\<close> and \<open>sres\<close> and is written once over the table; \<open>vegas\<close> has its own.
\<close>

record ('e, 'b) cb_iface =
  Allow :: "'e \<Rightarrow> 'b \<Rightarrow> (cb_error option \<times> 'b) option"
  MarkSuccess :: "'e \<Rightarrow> 'b \<Rightarrow> 'b option"
  MarkFailure :: "'e \<Rightarrow> 'b \<Rightarrow> 'b option"
  State :: "'e \<Rightarrow> 'b \<Rightarrow> cb_state \<times> 'b"
  Close :: "'b \<Rightarrow> 'b"

text \<open>
  \<open>Execute\<close>: the caller's \<open>fn\<close> runs without the lock, so it may find the breaker changed by other
  goroutines; it is a function on the rest of the world and the breaker.
\<close>

definition cb_Execute ::
  "('e, 'b) cb_iface \<Rightarrow> 'e \<Rightarrow> 'e \<Rightarrow> ('w \<times> 'b \<Rightarrow> 'x option \<times> 'w \<times> 'b) \<Rightarrow> 'w \<times> 'b \<Rightarrow>
   ((cb_error + 'x) option \<times> 'w \<times> 'b) option" where
  "cb_Execute m eA e fn wb =
     Option.bind (Allow m eA (snd wb)) (\<lambda>(r, b).
       case r of
         Some err \<Rightarrow> Some (Some (Inl err), fst wb, b)
       | None \<Rightarrow>
           (case fn (fst wb, b) of
              (Some err, w, b) \<Rightarrow> map_option (\<lambda>b. (Some (Inr err), w, b)) (MarkFailure m e b)
            | (None, w, b) \<Rightarrow> map_option (\<lambda>b. (None, w, b)) (MarkSuccess m e b)))"

fun cb_do :: "('e, 'b) cb_iface \<Rightarrow> 'e cb_call \<Rightarrow> 'b \<Rightarrow> (cb_reply \<times> 'b) option" where
  "cb_do m (CallAllow e) b = map_option (map_prod Replied id) (Allow m e b)"
| "cb_do m (CallSuccess e) b = map_option (Pair Done) (MarkSuccess m e b)"
| "cb_do m (CallFailure e) b = map_option (Pair Done) (MarkFailure m e b)"
| "cb_do m (CallState e) b = Some (map_prod Reported id (State m e b))"
| "cb_do m CallClose b = Some (Done, Close m b)"

fun cb_call_ok :: "('e \<Rightarrow> bool) \<Rightarrow> 'e cb_call \<Rightarrow> bool" where
  "cb_call_ok env (CallAllow e) = env e"
| "cb_call_ok env (CallSuccess e) = env e"
| "cb_call_ok env (CallFailure e) = env e"
| "cb_call_ok env _ = True"

fun cb_run :: "('e, 'b) cb_iface \<Rightarrow> 'e cb_call list \<Rightarrow> 'b \<Rightarrow> (cb_reply list \<times> 'b) option" where
  "cb_run m [] b = Some ([], b)"
| "cb_run m (c # cs) b =
     Option.bind (cb_do m c b) (\<lambda>(r, b1).
       map_option (\<lambda>(rs, b2). (r # rs, b2)) (cb_run m cs b1))"

lemma cb_run_Cons_Some:
  assumes "cb_run m (c # cs) b = Some (rs, b')"
  obtains r b1 rs1 where "cb_do m c b = Some (r, b1)" "cb_run m cs b1 = Some (rs1, b')" "rs = r # rs1"
  using assms by (auto simp: bind_eq_Some_conv)

section \<open>The contract\<close>

locale circuit_breaker =
  fixes m :: "('e, 'b) cb_iface"
    and closed :: "'b \<Rightarrow> bool"
    and inv :: "'b \<Rightarrow> bool"
    and env :: "'e \<Rightarrow> bool"
  assumes closed_rejects: "closed b \<Longrightarrow> Allow m e b = Some (Some ErrCircuitOpen, b)"
    and allow_total: "inv b \<Longrightarrow> env e \<Longrightarrow> \<exists>r b'. Allow m e b = Some (r, b') \<and> inv b'"
    and success_total: "inv b \<Longrightarrow> env e \<Longrightarrow>
      \<exists>b'. MarkSuccess m e b = Some b' \<and> inv b' \<and> closed b' = closed b"
    and failure_total: "inv b \<Longrightarrow> env e \<Longrightarrow>
      \<exists>b'. MarkFailure m e b = Some b' \<and> inv b' \<and> closed b' = closed b"
    and state_inv: "inv b \<Longrightarrow> inv (snd (State m e b))"
    and state_closed: "closed (snd (State m e b)) = closed b"
    and close_inv: "inv b \<Longrightarrow> inv (Close m b)"
    and close_closed: "closed (Close m b)"
begin

lemma call_total:
  assumes "inv b" "cb_call_ok env c"
  obtains r b' where "cb_do m c b = Some (r, b')" "inv b'"
proof (cases c)
  case (CallAllow e)
  then show thesis using assms that allow_total[of b e] by auto
next
  case (CallSuccess e)
  then show thesis using assms that success_total[of b e] by auto
next
  case (CallFailure e)
  then show thesis using assms that failure_total[of b e] by auto
next
  case (CallState e)
  then show thesis using assms that state_inv[of b e] by (cases "State m e b") auto
next
  case CallClose
  then show thesis using assms that close_inv by auto
qed

lemma run_total:
  "inv b \<Longrightarrow> list_all (cb_call_ok env) cs \<Longrightarrow> \<exists>rs b'. cb_run m cs b = Some (rs, b') \<and> inv b'"
proof (induction cs arbitrary: b)
  case (Cons c cs)
  then obtain r b1 where "cb_do m c b = Some (r, b1)" "inv b1" by (auto elim: call_total)
  with Cons.IH[of b1] Cons.prems show ?case by auto
qed simp

lemma call_closed:
  assumes "inv b" "closed b" "cb_call_ok env c" "cb_do m c b = Some (r, b')"
  shows "inv b' \<and> closed b' \<and> r \<noteq> Replied None"
proof (cases c)
  case (CallAllow e)
  with assms show ?thesis by (auto simp: closed_rejects)
next
  case (CallSuccess e)
  with assms success_total[of b e] show ?thesis by auto
next
  case (CallFailure e)
  with assms failure_total[of b e] show ?thesis by auto
next
  case (CallState e)
  with assms state_inv[of b e] state_closed[of e b] show ?thesis by (cases "State m e b") auto
next
  case CallClose
  with assms close_inv close_closed show ?thesis by auto
qed

lemma run_closed_rejects:
  "inv b \<Longrightarrow> closed b \<Longrightarrow> list_all (cb_call_ok env) cs \<Longrightarrow> cb_run m cs b = Some (rs, b') \<Longrightarrow>
     closed b' \<and> Replied None \<notin> set rs"
proof (induction cs arbitrary: b rs)
  case (Cons c cs)
  from Cons.prems(4) obtain r b1 rs1 where c: "cb_do m c b = Some (r, b1)"
    and rs: "cb_run m cs b1 = Some (rs1, b')" "rs = r # rs1"
    by (rule cb_run_Cons_Some)
  from call_closed[OF Cons.prems(1,2) _ c] Cons.prems(3)
  have b1: "inv b1" "closed b1" "r \<noteq> Replied None" by auto
  from Cons.IH[OF b1(1,2) _ rs(1)] Cons.prems(3) have "closed b'" "Replied None \<notin> set rs1" by auto
  with b1(3) rs(2) show ?case by auto
qed simp

lemma execute_closed:
  "closed b \<Longrightarrow> cb_Execute m eA e fn (w, b) = Some (Some (Inl ErrCircuitOpen), w, b)"
  by (simp add: cb_Execute_def closed_rejects)

lemma execute_total:
  assumes "inv b" "env eA" "env e" "\<And>w b. inv b \<Longrightarrow> inv (snd (snd (fn (w, b))))"
  shows "\<exists>r w' b'. cb_Execute m eA e fn (w, b) = Some (r, w', b') \<and> inv b' \<and>
    (r = Some (Inl ErrCircuitOpen) \<and> w' = w \<or>
     (\<exists>b1. Allow m eA b = Some (None, b1) \<and> w' = fst (snd (fn (w, b1))) \<and>
        r = map_option Inr (fst (fn (w, b1)))))"
proof -
  obtain r b1 where a: "Allow m eA b = Some (r, b1)" "inv b1" using allow_total[OF assms(1,2)] by blast
  show ?thesis
  proof (cases r)
    case (Some err)
    then show ?thesis using a by (cases err) (simp add: cb_Execute_def)
  next
    case None
    obtain x w' b2 where f: "fn (w, b1) = (x, w', b2)" by (metis prod.exhaust)
    then have "inv b2" using assms(4)[OF a(2), of w] by simp
    then show ?thesis
      using None a f success_total[OF _ assms(3), of b2] failure_total[OF _ assms(3), of b2]
      by (cases x) (auto simp: cb_Execute_def)
  qed
qed

lemma after_close_rejects:
  assumes "inv b" "list_all (cb_call_ok env) cs" "cb_run m cs (Close m b) = Some (rs, b')"
  shows "Replied None \<notin> set rs"
  using run_closed_rejects[OF close_inv[OF assms(1)] close_closed assms(2,3)] by blast

end

end
