(* ===== verification/Ring_Window.thy ===== *)
theory Ring_Window
  imports Go_Prelude
begin

text \<open>
  The ring of time buckets that \<open>circuitbreaker/hystrix\<close> and \<open>circuitbreaker/sres\<close> share word for
  word (\<open>rotateLocked\<close>, \<open>bucketIndexLocked\<close>, \<open>resetBucketsLocked\<close>), over an arbitrary bucket type
  with its zero value. The main lemma says which buckets a rotation clears: the \<open>steps\<close> buckets
  that end at the current one.
\<close>

section \<open>Operations\<close>

definition bucketIndexLocked :: "duration \<Rightarrow> 'b list \<Rightarrow> go_time \<Rightarrow> int option" where
  "bucketIndexLocked bd bks now =
     (if bd = 0 \<or> bks = [] then None
      else Some (go_rem (go_quot now bd) (int (length bks))))"

definition resetBucketsLocked :: "'b \<Rightarrow> 'b list \<Rightarrow> 'b list" where
  "resetBucketsLocked z bks = map (\<lambda>_. z) bks"

text \<open>One iteration of the clearing loop of \<open>rotateLocked\<close>.\<close>

definition rotate_clear :: "'b \<Rightarrow> duration \<Rightarrow> go_time \<Rightarrow> int \<Rightarrow> nat \<Rightarrow> 'b list \<Rightarrow> 'b list option" where
  "rotate_clear z bd now steps i bks = do {
     ix \<leftarrow> bucketIndexLocked bd bks now;
     let n = int (length bks);
     slice_set bks (go_rem (ix - steps + int i + 1 + n) n) z
   }"

definition rotateLocked ::
  "'b \<Rightarrow> duration \<Rightarrow> go_time \<Rightarrow> 'b list \<Rightarrow> go_time \<Rightarrow> ('b list \<times> go_time) option" where
  "rotateLocked z bd now bks lastR =
     (if bd = 0 then None
      else let elapsed = time_Sub now lastR;
               steps = go_quot elapsed bd;
               n = int (length bks)
           in if steps \<le> 0 then Some (bks, lastR)
              else if n \<le> steps then Some (resetBucketsLocked z bks, now)
              else map_option (\<lambda>bks'. (bks', now))
                     (fold_opt (rotate_clear z bd now steps) [0..<nat steps] bks))"

text \<open>
  What a rotation by \<open>steps\<close> leaves: bucket \<open>k\<close> is zero exactly when it is one of the \<open>steps\<close>
  buckets that end at the current index.
\<close>

definition ring_cleared :: "'b \<Rightarrow> int \<Rightarrow> int \<Rightarrow> 'b list \<Rightarrow> 'b list" where
  "ring_cleared z ix steps bks =
     map (\<lambda>k. if (ix - int k) mod int (length bks) < steps then z else bks ! k) [0..<length bks]"

section \<open>Lemmas\<close>

lemma resetBucketsLocked_length [simp]: "length (resetBucketsLocked z bks) = length bks"
  by (simp add: resetBucketsLocked_def)

lemma set_resetBucketsLocked: "set (resetBucketsLocked z bks) \<subseteq> {z}"
  by (auto simp: resetBucketsLocked_def)

lemma ring_cleared_length [simp]: "length (ring_cleared z ix steps bks) = length bks"
  by (simp add: ring_cleared_def)

lemma bucketIndexLocked_eq:
  "0 < bd \<Longrightarrow> bks \<noteq> [] \<Longrightarrow> 0 \<le> now \<Longrightarrow>
     bucketIndexLocked bd bks now = Some ((now div bd) mod int (length bks))"
  by (simp add: bucketIndexLocked_def pos_imp_zdiv_nonneg_iff)

lemma ring_index_range:
  "bks \<noteq> [] \<Longrightarrow> 0 \<le> (t::int) mod int (length bks) \<and> t mod int (length bks) < int (length bks)"
  by simp

text \<open>Before iteration \<open>i\<close> the loop has cleared the buckets at distance at least \<open>steps - i\<close>.\<close>

lemma rotate_clear_fold:
  assumes bd: "0 < bd" and ne: "bks \<noteq> []" and now: "0 \<le> now"
    and st: "0 < steps" "steps < int (length bks)" and m: "int m \<le> steps"
  defines "ix \<equiv> (now div bd) mod int (length bks)"
  shows "fold_opt (rotate_clear z bd now steps) [0..<m] bks =
    Some (map (\<lambda>k. if steps - int m \<le> (ix - int k) mod int (length bks) \<and>
                      (ix - int k) mod int (length bks) < steps then z else bks ! k)
              [0..<length bks])"
  using m
proof (induction m)
  case 0
  show ?case by (auto intro!: nth_equalityI)
next
  case (Suc m)
  let ?n = "int (length bks)"
  let ?d = "\<lambda>k. (ix - int k) mod ?n"
  let ?cur = "map (\<lambda>k. if steps - int m \<le> ?d k \<and> ?d k < steps then z else bks ! k) [0..<length bks]"
  let ?j = "(ix - steps + int m + 1) mod ?n"
  have ix: "0 \<le> ix" "ix < ?n" using ne by (simp_all add: ix_def)
  have IH: "fold_opt (rotate_clear z bd now steps) [0..<m] bks = Some ?cur"
    using Suc.IH Suc.prems by simp
  have nn: "0 \<le> ix - steps + int m + 1 + ?n" using ix st Suc.prems by linarith
  have j: "0 \<le> ?j" "?j < ?n" using ne by simp_all
  have step: "rotate_clear z bd now steps m ?cur = Some (?cur[nat ?j := z])"
    using ne nn j by (simp add: rotate_clear_def bucketIndexLocked_eq[OF bd _ now] ix_def [symmetric]
        slice_set_def Let_def)
  have dist: "?d k = steps - int m - 1 \<longleftrightarrow> int k = ?j" if "k < length bks" for k
  proof
    assume "?d k = steps - int m - 1"
    then have "(ix - (ix - int k) mod ?n) mod ?n = (ix - (steps - int m - 1)) mod ?n" by simp
    then have "int k mod ?n = (ix - (steps - int m - 1)) mod ?n"
      by (simp add: mod_diff_right_eq)
    with that show "int k = ?j" by (simp add: algebra_simps)
  next
    assume k: "int k = ?j"
    have "?d k = (ix - ?j) mod ?n" using k by simp
    also have "\<dots> = (ix - (ix - steps + int m + 1)) mod ?n" by (rule mod_diff_right_eq)
    also have "\<dots> = steps - int m - 1" using st Suc.prems by (simp add: algebra_simps)
    finally show "?d k = steps - int m - 1" .
  qed
  have upd: "?cur[nat ?j := z] =
      map (\<lambda>k. if steps - int (Suc m) \<le> ?d k \<and> ?d k < steps then z else bks ! k) [0..<length bks]"
  proof (rule nth_equalityI)
    fix k assume "k < length (?cur[nat ?j := z])"
    then have k: "k < length bks" by simp
    show "?cur[nat ?j := z] ! k =
        map (\<lambda>k. if steps - int (Suc m) \<le> ?d k \<and> ?d k < steps then z else bks ! k) [0..<length bks] ! k"
      using k dist[OF k] j by (auto simp: nth_list_update nat_eq_iff2)
  qed simp
  show ?case using IH step upd by (simp add: fold_opt_append)
qed

lemma rotate_clear_all:
  assumes "0 < bd" "bks \<noteq> []" "0 \<le> now" "0 < steps" "steps < int (length bks)"
  shows "fold_opt (rotate_clear z bd now steps) [0..<nat steps] bks =
    Some (ring_cleared z ((now div bd) mod int (length bks)) steps bks)"
  using rotate_clear_fold[OF assms, of "nat steps" z] assms by (simp add: ring_cleared_def)

lemma rotateLocked_eq:
  assumes "0 < bd" "bks \<noteq> []" "0 \<le> now"
  shows "rotateLocked z bd now bks lastR =
    (let steps = go_quot (time_Sub now lastR) bd
     in Some (if steps \<le> 0 then (bks, lastR)
              else (ring_cleared z ((now div bd) mod int (length bks)) steps bks, now)))"
proof -
  have "ring_cleared z ix steps bks = resetBucketsLocked z bks" if "int (length bks) \<le> steps" for ix steps
  proof -
    have "(ix - int k) mod int (length bks) < steps" for k
      using ring_index_range[OF assms(2), of "ix - int k"] that by linarith
    then show ?thesis
      by (simp add: ring_cleared_def resetBucketsLocked_def map_replicate_const)
  qed
  with assms show ?thesis
    by (auto simp: rotateLocked_def Let_def rotate_clear_all)
qed

lemma rotateLocked_total:
  assumes "0 < bd" "bks \<noteq> []" "0 \<le> now"
  obtains bks' lastR' where "rotateLocked z bd now bks lastR = Some (bks', lastR')"
    "length bks' = length bks" "set bks' \<subseteq> insert z (set bks)"
proof -
  have "set (ring_cleared z ix steps bks) \<subseteq> insert z (set bks)" for ix steps
    by (auto simp: ring_cleared_def)
  then show thesis
    using that by (cases "go_quot (time_Sub now lastR) bd \<le> 0")
      (auto simp: rotateLocked_eq[OF assms] Let_def)
qed

end
