(* ===== verification/Hystrix.thy ===== *)
theory Hystrix
  imports Circuit_Breaker Ring_Window
begin

text \<open>
  \<open>circuitbreaker/hystrix/hystrix.go\<close>: the Hystrix-style breaker. Every method of the Go type is
  one definition on the record \<^theory_text>\<open>hx_breaker\<close>; a clock reading is an argument (\<open>now\<close>, and \<open>now2\<close>
  for the second reading that \<open>evaluateLocked\<close> makes). The lemmas give the breaker's invariant, the
  exact condition under which it trips, that at most one trial passes in the half-open state, and
  what \<open>Allow\<close> does on an open breaker. The breaker is an instance of the locale
  \<open>circuit_breaker\<close>.
\<close>

section \<open>Configuration\<close>

record hx_config =
  hx_errorThreshold :: float64
  hx_requestVolumeThreshold :: int
  hx_sleepWindow :: duration
  hx_window :: duration
  hx_bucketCount :: int

definition hx_defaults :: hx_config where
  "hx_defaults = \<lparr>hx_errorThreshold = 1/2, hx_requestVolumeThreshold = 20,
     hx_sleepWindow = 5 * Second, hx_window = 10 * Second, hx_bucketCount = 10\<rparr>"

datatype hx_option =
    Hx_WithErrorThreshold float64
  | Hx_WithRequestVolumeThreshold int
  | Hx_WithSleepWindow duration
  | Hx_WithWindow duration
  | Hx_WithBucketCount int

fun hx_apply :: "hx_option \<Rightarrow> hx_config \<Rightarrow> hx_config" where
  "hx_apply (Hx_WithErrorThreshold rate) c =
     (if rate > 0 \<and> rate \<le> 1 then c\<lparr>hx_errorThreshold := rate\<rparr> else c)"
| "hx_apply (Hx_WithRequestVolumeThreshold n) c =
     (if n > 0 then c\<lparr>hx_requestVolumeThreshold := n\<rparr> else c)"
| "hx_apply (Hx_WithSleepWindow d) c = (if d > 0 then c\<lparr>hx_sleepWindow := d\<rparr> else c)"
| "hx_apply (Hx_WithWindow d) c = (if d > 0 then c\<lparr>hx_window := d\<rparr> else c)"
| "hx_apply (Hx_WithBucketCount n) c = (if n > 0 then c\<lparr>hx_bucketCount := n\<rparr> else c)"

section \<open>State and methods\<close>

record hx_bucket =
  hx_requests :: int
  hx_errors :: int

definition hx_zero :: hx_bucket where
  "hx_zero = \<lparr>hx_requests = 0, hx_errors = 0\<rparr>"

record hx_breaker =
  hx_cfg :: hx_config
  hx_bucketDuration :: duration
  hx_buckets :: "hx_bucket list"
  hx_lastRotate :: go_time
  hx_state :: cb_state
  hx_openedAt :: go_time
  hx_halfOpenIn :: bool
  hx_closed :: bool

definition hx_New :: "hx_option list \<Rightarrow> go_time \<Rightarrow> hx_breaker" where
  "hx_New opts now =
     (let cfg = fold hx_apply opts hx_defaults
      in \<lparr>hx_cfg = cfg,
          hx_bucketDuration = go_quot (hx_window cfg) (hx_bucketCount cfg),
          hx_buckets = replicate (nat (hx_bucketCount cfg)) hx_zero,
          hx_lastRotate = now,
          hx_state = StateClosed,
          hx_openedAt = zero_Time,
          hx_halfOpenIn = False,
          hx_closed = False\<rparr>)"

definition hx_rotateLocked :: "go_time \<Rightarrow> hx_breaker \<Rightarrow> hx_breaker option" where
  "hx_rotateLocked now b =
     map_option (\<lambda>(bks, lastR). b\<lparr>hx_buckets := bks, hx_lastRotate := lastR\<rparr>)
       (rotateLocked hx_zero (hx_bucketDuration b) now (hx_buckets b) (hx_lastRotate b))"

definition hx_bucketIndexLocked :: "go_time \<Rightarrow> hx_breaker \<Rightarrow> int option" where
  "hx_bucketIndexLocked now b = bucketIndexLocked (hx_bucketDuration b) (hx_buckets b) now"

definition hx_resetBucketsLocked :: "hx_breaker \<Rightarrow> hx_breaker" where
  "hx_resetBucketsLocked b = b\<lparr>hx_buckets := resetBucketsLocked hx_zero (hx_buckets b)\<rparr>"

definition hx_totals :: "hx_bucket list \<Rightarrow> int \<times> int" where
  "hx_totals bks = (sum_list (map hx_requests bks), sum_list (map hx_errors bks))"

definition hx_evaluateLocked :: "go_time \<Rightarrow> hx_breaker \<Rightarrow> hx_breaker" where
  "hx_evaluateLocked now2 b =
     (if hx_state b \<noteq> StateClosed then b
      else let (totalReqs, totalErrs) = hx_totals (hx_buckets b)
           in if totalReqs < hx_requestVolumeThreshold (hx_cfg b) then b
              else if totalReqs = 0 then b
              else let errorRate = f64 (f64 (of_int totalErrs) / f64 (of_int totalReqs))
                   in if hx_errorThreshold (hx_cfg b) \<le> errorRate
                      then b\<lparr>hx_state := StateOpen, hx_openedAt := now2\<rparr>
                      else b)"

definition hx_count :: "(hx_bucket \<Rightarrow> hx_bucket) \<Rightarrow> go_time \<Rightarrow> hx_breaker \<Rightarrow> hx_breaker option" where
  "hx_count f now b = do {
     idx \<leftarrow> hx_bucketIndexLocked now b;
     bk \<leftarrow> slice_get (hx_buckets b) idx;
     bks \<leftarrow> slice_set (hx_buckets b) idx (f bk);
     Some (b\<lparr>hx_buckets := bks\<rparr>)
   }"

definition hx_Allow :: "go_time \<Rightarrow> hx_breaker \<Rightarrow> cb_error option \<times> hx_breaker" where
  "hx_Allow now b =
     (if hx_closed b then (Some ErrCircuitOpen, b)
      else let halfOpenCase = (\<lambda>b. if hx_halfOpenIn b then (Some ErrCircuitOpen, b)
                                   else (None, b\<lparr>hx_halfOpenIn := True\<rparr>))
           in case hx_state b of
                StateOpen \<Rightarrow>
                  if hx_sleepWindow (hx_cfg b) \<le> time_Sub now (hx_openedAt b)
                  then halfOpenCase (b\<lparr>hx_state := StateHalfOpen, hx_halfOpenIn := True\<rparr>)
                  else (Some ErrCircuitOpen, b)
              | StateHalfOpen \<Rightarrow> halfOpenCase b
              | StateClosed \<Rightarrow> (None, b))"

definition hx_MarkSuccess :: "go_time \<Rightarrow> go_time \<Rightarrow> hx_breaker \<Rightarrow> hx_breaker option" where
  "hx_MarkSuccess now now2 b = do {
     b \<leftarrow> hx_rotateLocked now b;
     if hx_state b = StateHalfOpen
     then Some (hx_resetBucketsLocked (b\<lparr>hx_state := StateClosed, hx_halfOpenIn := False\<rparr>))
     else do {
       b \<leftarrow> hx_count (hx_requests_update (\<lambda>r. r + 1)) now b;
       Some (hx_evaluateLocked now2 b)
     }
   }"

definition hx_MarkFailure :: "go_time \<Rightarrow> go_time \<Rightarrow> hx_breaker \<Rightarrow> hx_breaker option" where
  "hx_MarkFailure now now2 b = do {
     b \<leftarrow> hx_rotateLocked now b;
     if hx_state b = StateHalfOpen
     then Some (b\<lparr>hx_state := StateOpen, hx_openedAt := now, hx_halfOpenIn := False\<rparr>)
     else do {
       b \<leftarrow> hx_count (\<lambda>bk. hx_errors_update (\<lambda>e. e + 1) (hx_requests_update (\<lambda>r. r + 1) bk)) now b;
       Some (hx_evaluateLocked now2 b)
     }
   }"

definition hx_State :: "go_time \<Rightarrow> hx_breaker \<Rightarrow> cb_state \<times> hx_breaker" where
  "hx_State now b =
     (let b = (if hx_state b = StateOpen \<and> hx_sleepWindow (hx_cfg b) \<le> time_Sub now (hx_openedAt b)
               then b\<lparr>hx_state := StateHalfOpen\<rparr> else b)
      in (hx_state b, b))"

definition hx_Close :: "hx_breaker \<Rightarrow> hx_breaker" where
  "hx_Close b = b\<lparr>hx_closed := True\<rparr>"

section \<open>Invariant\<close>

definition hx_bucket_ok :: "hx_bucket \<Rightarrow> bool" where
  "hx_bucket_ok bk \<longleftrightarrow> 0 \<le> hx_errors bk \<and> hx_errors bk \<le> hx_requests bk"

definition hx_inv :: "hx_breaker \<Rightarrow> bool" where
  "hx_inv b \<longleftrightarrow> 0 < hx_bucketDuration b \<and> hx_buckets b \<noteq> [] \<and>
     list_all hx_bucket_ok (hx_buckets b) \<and>
     (hx_halfOpenIn b \<longrightarrow> hx_state b = StateHalfOpen)"

definition hx_env_ok :: "go_time \<times> go_time \<Rightarrow> bool" where
  "hx_env_ok e \<longleftrightarrow> 0 \<le> fst e"

definition hx_iface :: "(go_time \<times> go_time, hx_breaker) cb_iface" where
  "hx_iface = \<lparr>Allow = (\<lambda>e b. Some (hx_Allow (fst e) b)),
     MarkSuccess = (\<lambda>e. hx_MarkSuccess (fst e) (snd e)),
     MarkFailure = (\<lambda>e. hx_MarkFailure (fst e) (snd e)),
     State = (\<lambda>e. hx_State (fst e)), Close = hx_Close\<rparr>"

definition hx_Execute ::
  "go_time \<Rightarrow> go_time \<times> go_time \<Rightarrow> ('w \<times> hx_breaker \<Rightarrow> 'x option \<times> 'w \<times> hx_breaker) \<Rightarrow>
   'w \<times> hx_breaker \<Rightarrow> ((cb_error + 'x) option \<times> 'w \<times> hx_breaker) option" where
  "hx_Execute nowA e fn wb = cb_Execute hx_iface (nowA, nowA) e fn wb"

section \<open>Configuration lemmas\<close>

definition hx_config_ok :: "hx_config \<Rightarrow> bool" where
  "hx_config_ok c \<longleftrightarrow> 0 < hx_errorThreshold c \<and> hx_errorThreshold c \<le> 1 \<and>
     0 < hx_requestVolumeThreshold c \<and> 0 < hx_sleepWindow c \<and> 0 < hx_window c \<and> 0 < hx_bucketCount c"

lemma hx_apply_ok: "hx_config_ok c \<Longrightarrow> hx_config_ok (hx_apply opt c)"
  by (cases opt) (auto simp: hx_config_ok_def)

lemma hx_fold_apply_ok: "hx_config_ok c \<Longrightarrow> hx_config_ok (fold hx_apply opts c)"
  by (induction opts arbitrary: c) (auto intro: hx_apply_ok)

lemma hx_defaults_ok: "hx_config_ok hx_defaults"
  by (simp add: hx_config_ok_def hx_defaults_def)

lemma hx_New_config: "hx_config_ok (hx_cfg (hx_New opts now))"
  by (simp add: hx_New_def Let_def hx_fold_apply_ok hx_defaults_ok)

lemma hx_New_inv:
  assumes "hx_bucketCount (hx_cfg (hx_New opts now)) \<le> hx_window (hx_cfg (hx_New opts now))"
  shows "hx_inv (hx_New opts now)"
proof -
  let ?c = "fold hx_apply opts hx_defaults"
  have ok: "hx_config_ok ?c" by (simp add: hx_fold_apply_ok hx_defaults_ok)
  have le: "hx_bucketCount ?c \<le> hx_window ?c" using assms by (simp add: hx_New_def Let_def)
  have "0 < go_quot (hx_window ?c) (hx_bucketCount ?c)"
    using ok le by (auto simp: hx_config_ok_def pos_imp_zdiv_pos_iff)
  moreover have "hx_bucket_ok hx_zero" by (simp add: hx_bucket_ok_def hx_zero_def)
  ultimately show ?thesis
    using ok le by (auto simp: hx_inv_def hx_New_def Let_def hx_config_ok_def list_all_iff
        pos_imp_zdiv_pos_iff)
qed

section \<open>Preservation of the invariant\<close>

lemma hx_zero_ok [simp]: "hx_bucket_ok hx_zero"
  by (simp add: hx_bucket_ok_def hx_zero_def)

lemma hx_rotateLocked_total:
  assumes "hx_inv b" "0 \<le> now"
  obtains bks lastR where "hx_rotateLocked now b = Some (b\<lparr>hx_buckets := bks, hx_lastRotate := lastR\<rparr>)"
    "hx_inv (b\<lparr>hx_buckets := bks, hx_lastRotate := lastR\<rparr>)"
proof -
  obtain bks lastR where r: "rotateLocked hx_zero (hx_bucketDuration b) now (hx_buckets b) (hx_lastRotate b) =
      Some (bks, lastR)" "length bks = length (hx_buckets b)" "set bks \<subseteq> insert hx_zero (set (hx_buckets b))"
    using assms rotateLocked_total[of "hx_bucketDuration b" "hx_buckets b" now hx_zero "hx_lastRotate b"]
    by (metis hx_inv_def)
  have "list_all hx_bucket_ok bks" "bks \<noteq> []"
    using r(2,3) assms(1) by (auto simp: hx_inv_def list_all_iff)
  then show thesis
    using that[of lastR bks] r(1) assms(1) by (simp add: hx_rotateLocked_def hx_inv_def)
qed

lemma hx_count_total:
  assumes "hx_inv b" "0 \<le> now"
  obtains i where "i < length (hx_buckets b)"
    "int i = (now div hx_bucketDuration b) mod int (length (hx_buckets b))"
    "hx_count f now b = Some (b\<lparr>hx_buckets := (hx_buckets b)[i := f (hx_buckets b ! i)]\<rparr>)"
proof -
  let ?k = "(now div hx_bucketDuration b) mod int (length (hx_buckets b))"
  have k: "0 \<le> ?k" "?k < int (length (hx_buckets b))"
    using assms(1) by (simp_all add: hx_inv_def)
  have "hx_bucketIndexLocked now b = Some ?k"
    using assms by (simp add: hx_bucketIndexLocked_def hx_inv_def bucketIndexLocked_eq)
  then have "hx_count f now b =
      Some (b\<lparr>hx_buckets := (hx_buckets b)[nat ?k := f (hx_buckets b ! nat ?k)]\<rparr>)"
    using k by (simp add: hx_count_def slice_get_def slice_set_def)
  with k show thesis using that[of "nat ?k"] by simp
qed

lemma hx_evaluateLocked_inv: "hx_inv b \<Longrightarrow> hx_inv (hx_evaluateLocked now2 b)"
  by (auto simp: hx_inv_def hx_evaluateLocked_def Let_def split: prod.split)

lemma hx_evaluateLocked_closed [simp]: "hx_closed (hx_evaluateLocked now2 b) = hx_closed b"
  by (auto simp: hx_evaluateLocked_def Let_def split: prod.split)

lemma hx_evaluateLocked_buckets [simp]: "hx_buckets (hx_evaluateLocked now2 b) = hx_buckets b"
  by (auto simp: hx_evaluateLocked_def Let_def split: prod.split)

lemma hx_Allow_inv: "hx_inv b \<Longrightarrow> hx_inv (snd (hx_Allow now b))"
  by (auto simp: hx_inv_def hx_Allow_def Let_def split: cb_state.splits)

lemma hx_State_inv: "hx_inv b \<Longrightarrow> hx_inv (snd (hx_State now b))"
  by (auto simp: hx_inv_def hx_State_def Let_def)

text \<open>
  Both marks share one shape: rotate, settle a half-open trial, else count in the current bucket
  and evaluate.
\<close>

lemma hx_mark_total:
  assumes inv: "hx_inv b" and now: "0 \<le> now"
    and f: "\<And>bk. hx_bucket_ok bk \<Longrightarrow> hx_bucket_ok (f bk)"
    and g: "\<And>b. hx_inv b \<Longrightarrow> hx_inv (g b) \<and> hx_closed (g b) = hx_closed b"
  shows "\<exists>b'. (hx_rotateLocked now b \<bind> (\<lambda>b. if hx_state b = StateHalfOpen then Some (g b)
       else hx_count f now b \<bind> (\<lambda>b. Some (hx_evaluateLocked now2 b)))) = Some b' \<and>
     hx_inv b' \<and> hx_closed b' = hx_closed b"
proof -
  obtain bks lastR where r: "hx_rotateLocked now b = Some (b\<lparr>hx_buckets := bks, hx_lastRotate := lastR\<rparr>)"
      "hx_inv (b\<lparr>hx_buckets := bks, hx_lastRotate := lastR\<rparr>)"
    using hx_rotateLocked_total[OF inv now] by blast
  let ?b = "b\<lparr>hx_buckets := bks, hx_lastRotate := lastR\<rparr>"
  show ?thesis
  proof (cases "hx_state b = StateHalfOpen")
    case True
    then show ?thesis using r g[of ?b] by simp
  next
    case False
    obtain i where i: "i < length bks" "hx_count f now ?b = Some (?b\<lparr>hx_buckets := bks[i := f (bks ! i)]\<rparr>)"
      using hx_count_total[OF r(2) now, of f] by auto
    have "hx_inv (?b\<lparr>hx_buckets := bks[i := f (bks ! i)]\<rparr>)"
      using r(2) i(1) f by (auto simp: hx_inv_def list_all_iff dest: set_update_subset_insert[THEN subsetD])
    then show ?thesis using False r i(2) by (simp add: hx_evaluateLocked_inv)
  qed
qed

lemma hx_MarkSuccess_total:
  assumes "hx_inv b" "0 \<le> now"
  shows "\<exists>b'. hx_MarkSuccess now now2 b = Some b' \<and> hx_inv b' \<and> hx_closed b' = hx_closed b"
  unfolding hx_MarkSuccess_def
  by (rule hx_mark_total[OF assms])
    (auto simp: hx_bucket_ok_def hx_inv_def hx_zero_def hx_resetBucketsLocked_def
        resetBucketsLocked_def list_all_iff)

lemma hx_MarkFailure_total:
  assumes "hx_inv b" "0 \<le> now"
  shows "\<exists>b'. hx_MarkFailure now now2 b = Some b' \<and> hx_inv b' \<and> hx_closed b' = hx_closed b"
  unfolding hx_MarkFailure_def
  by (rule hx_mark_total[OF assms]) (auto simp: hx_bucket_ok_def hx_inv_def)

interpretation hx: circuit_breaker hx_iface hx_closed hx_inv hx_env_ok
proof unfold_locales
  fix b e assume "hx_inv b" "hx_env_ok e"
  then show "\<exists>b'. MarkSuccess hx_iface e b = Some b' \<and> hx_inv b' \<and> hx_closed b' = hx_closed b"
    "\<exists>b'. MarkFailure hx_iface e b = Some b' \<and> hx_inv b' \<and> hx_closed b' = hx_closed b"
    using hx_MarkSuccess_total hx_MarkFailure_total by (simp_all add: hx_iface_def hx_env_ok_def)
next
  fix b e assume "hx_inv b" "hx_env_ok e"
  then show "\<exists>r b'. Allow hx_iface e b = Some (r, b') \<and> hx_inv b'"
    using hx_Allow_inv[of b "fst e"] by (cases "hx_Allow (fst e) b") (simp add: hx_iface_def)
qed (auto simp: hx_iface_def hx_State_inv hx_Close_def hx_inv_def hx_State_def hx_Allow_def Let_def)

section \<open>When the breaker trips\<close>

lemma sum_list_map_update:
  "i < length xs \<Longrightarrow> sum_list (map f (xs[i := y])) = sum_list (map f xs) + f y - (f (xs ! i) :: int)"
  by (induction xs arbitrary: i) (auto split: nat.split)

lemma hx_totals_update:
  assumes "i < length bks" "hx_totals bks = (r, e)"
  shows "hx_totals (bks[i := hx_errors_update (\<lambda>e. e + 1) (hx_requests_update (\<lambda>r. r + 1) (bks ! i))]) =
      (r + 1, e + 1)"
    and "hx_totals (bks[i := hx_requests_update (\<lambda>r. r + 1) (bks ! i)]) = (r + 1, e)"
  using assms by (simp_all add: hx_totals_def sum_list_map_update)

lemma hx_totals_bounds:
  "list_all hx_bucket_ok bks \<Longrightarrow> 0 \<le> snd (hx_totals bks) \<and> snd (hx_totals bks) \<le> fst (hx_totals bks)"
  by (induction bks) (auto simp: hx_totals_def hx_bucket_ok_def)

lemma hx_evaluateLocked_state:
  assumes "hx_state b = StateClosed" "hx_totals (hx_buckets b) = (r, e)" "0 < r"
  shows "hx_state (hx_evaluateLocked now2 b) =
    (if hx_requestVolumeThreshold (hx_cfg b) \<le> r \<and>
        hx_errorThreshold (hx_cfg b) \<le> f64 (f64 (of_int e) / f64 (of_int r))
     then StateOpen else StateClosed)"
  using assms by (auto simp: hx_evaluateLocked_def Let_def)

text \<open>The computed rate compares with one half as the exact rate does, up to \<open>2 ^ 53\<close> requests.\<close>

lemma f64_ratio_half:
  assumes e: "0 \<le> e" "e \<le> r" and r: "0 < r" "r \<le> 2 ^ 53"
  shows "1 / 2 \<le> f64 (f64 (of_int e) / f64 (of_int r)) \<longleftrightarrow> r \<le> 2 * e"
proof -
  have ex: "f64 (of_int e) = of_int e" "f64 (of_int r) = of_int r"
    using e r by (auto intro!: f64_of_int)
  have half: "f64 (1 / 2) = 1 / 2" using f64_dyadic[of 1 "-1"] by simp
  have below: "f64 (of_int (2 ^ 53 - 1) * 2 powi (- 54)) = of_int (2 ^ 53 - 1) * 2 powi (- 54)"
    by (rule f64_dyadic) simp
  have "f64 (of_int e / of_int r) < 1 / 2" if "2 * e < r"
  proof -
    have "(of_int (2 * e) :: rat) \<le> of_int (r - 1)" using that by (intro of_int_le_iff[THEN iffD2]) simp
    then have "(of_int e :: rat) / of_int r \<le> 1 / 2 - 1 / (2 * of_int r)"
      using r(1) by (simp add: field_simps)
    moreover have "(1::rat) / 2 ^ 54 \<le> 1 / (2 * of_int r)"
    proof -
      have "(of_int r :: rat) \<le> of_int (2 ^ 53)" using r(2) by (rule of_int_le_iff[THEN iffD2])
      then show ?thesis using r(1) by (simp add: field_simps)
    qed
    moreover have "(of_int (2 ^ 53 - 1) * 2 powi (- 54) :: rat) = 1 / 2 - 1 / 2 ^ 54"
      by (simp add: power_int_def power_divide)
    ultimately have "(of_int e :: rat) / of_int r \<le> of_int (2 ^ 53 - 1) * 2 powi (- 54)"
      by linarith
    from f64_le[OF this below] show ?thesis by (simp add: power_int_def power_divide)
  qed
  moreover have "1 / 2 \<le> f64 (of_int e / of_int r)" if "r \<le> 2 * e"
  proof (rule f64_ge[OF _ half])
    have "(of_int r :: rat) \<le> of_int (2 * e)" using that by (rule of_int_le_iff[THEN iffD2])
    then show "1 / 2 \<le> (of_int e :: rat) / of_int r" using r(1) by (simp add: field_simps)
  qed
  ultimately show ?thesis by (auto simp: ex not_le[symmetric])
qed

lemma hx_mark_closed:
  assumes inv: "hx_inv b" and now: "0 \<le> now" and st: "hx_state b = StateClosed"
    and rot: "hx_rotateLocked now b = Some b1" and tot: "hx_totals (hx_buckets b1) = (r, e)"
  obtains b2 b3 where "hx_MarkFailure now now2 b = Some (hx_evaluateLocked now2 b2)"
      "hx_totals (hx_buckets b2) = (r + 1, e + 1)" "hx_state b2 = StateClosed" "hx_cfg b2 = hx_cfg b"
      "hx_MarkSuccess now now2 b = Some (hx_evaluateLocked now2 b3)"
      "hx_totals (hx_buckets b3) = (r + 1, e)" "hx_state b3 = StateClosed" "hx_cfg b3 = hx_cfg b"
      "0 \<le> e" "e \<le> r"
proof -
  obtain bks lastR where b1: "b1 = b\<lparr>hx_buckets := bks, hx_lastRotate := lastR\<rparr>" "hx_inv b1"
    using rot hx_rotateLocked_total[OF inv now] by (metis option.inject)
  let ?f = "\<lambda>bk. hx_errors_update (\<lambda>e. e + 1) (hx_requests_update (\<lambda>r. r + 1) bk)"
  let ?g = "hx_requests_update (\<lambda>r. r + 1)"
  obtain i where i: "i < length bks" "hx_count ?f now b1 = Some (b1\<lparr>hx_buckets := bks[i := ?f (bks ! i)]\<rparr>)"
    using hx_count_total[OF b1(2) now, of ?f] b1(1) by auto
  obtain j where j: "j < length bks" "hx_count ?g now b1 = Some (b1\<lparr>hx_buckets := bks[j := ?g (bks ! j)]\<rparr>)"
    using hx_count_total[OF b1(2) now, of ?g] b1(1) by auto
  have t: "hx_totals bks = (r, e)" using tot b1(1) by simp
  have "0 \<le> e" "e \<le> r" using hx_totals_bounds[of bks] b1 t by (auto simp: hx_inv_def)
  then show thesis
    using that[of "b1\<lparr>hx_buckets := bks[i := ?f (bks ! i)]\<rparr>" "b1\<lparr>hx_buckets := bks[j := ?g (bks ! j)]\<rparr>"]
      hx_totals_update(1)[OF i(1) t] hx_totals_update(2)[OF j(1) t] i j b1(1) st rot
    by (simp add: hx_MarkFailure_def hx_MarkSuccess_def)
qed

text \<open>
  C10: a breaker in the closed state with the default threshold of one half trips on \<open>MarkFailure\<close>
  exactly when the rotated window, with this failure counted, holds at least the configured number
  of requests and at least half of them failed. The comparison is the one of the code's float64
  quotient; up to \<open>2 ^ 53\<close> requests rounding does not change it.
\<close>

theorem hx_MarkFailure_trips:
  assumes "hx_inv b" "0 \<le> now" "hx_state b = StateClosed" "hx_errorThreshold (hx_cfg b) = 1 / 2"
    "hx_rotateLocked now b = Some b1" "hx_totals (hx_buckets b1) = (r, e)" "r < 2 ^ 53"
  shows "\<exists>b'. hx_MarkFailure now now2 b = Some b' \<and> hx_totals (hx_buckets b') = (r + 1, e + 1) \<and>
    hx_state b' = (if hx_requestVolumeThreshold (hx_cfg b) \<le> r + 1 \<and> r + 1 \<le> 2 * (e + 1)
                   then StateOpen else StateClosed)"
proof -
  obtain b2 where b2: "hx_MarkFailure now now2 b = Some (hx_evaluateLocked now2 b2)"
      "hx_totals (hx_buckets b2) = (r + 1, e + 1)" "hx_state b2 = StateClosed" "hx_cfg b2 = hx_cfg b"
      "0 \<le> e" "e \<le> r"
    using hx_mark_closed[OF assms(1-3,5,6)] by metis
  moreover have "1 / 2 \<le> f64 (f64 (of_int (e + 1)) / f64 (of_int (r + 1))) \<longleftrightarrow> r + 1 \<le> 2 * (e + 1)"
    using b2(5,6) assms(7) by (intro f64_ratio_half) auto
  ultimately show ?thesis
    using assms(4) hx_evaluateLocked_state[OF b2(3,2), of now2]
    by (intro exI[of _ "hx_evaluateLocked now2 b2"]) (simp only: hx_evaluateLocked_buckets simp_thms)
qed

theorem hx_MarkFailure_trips_witness:
  "\<exists>b'. hx_MarkFailure 5 6 (hx_New [Hx_WithRequestVolumeThreshold 1] 0) = Some b' \<and>
     hx_state b' = StateOpen"
proof -
  let ?b = "hx_New [Hx_WithRequestVolumeThreshold 1] 0"
  have "hx_inv ?b" "hx_state ?b = StateClosed" "hx_errorThreshold (hx_cfg ?b) = 1 / 2"
    "hx_rotateLocked 5 ?b = Some ?b" "hx_totals (hx_buckets ?b) = (0, 0)"
    "hx_requestVolumeThreshold (hx_cfg ?b) = 1"
    by code_simp+
  then show ?thesis
    using hx_MarkFailure_trips[of ?b 5 ?b 0 0 6] by auto
qed

section \<open>Half-open trials\<close>

fun hx_quiet :: "'e cb_call \<Rightarrow> bool" where
  "hx_quiet (CallAllow e) = True"
| "hx_quiet (CallState e) = True"
| "hx_quiet _ = False"

lemma hx_quiet_step:
  assumes "hx_quiet c" "cb_do hx_iface c b = Some (r, b')" "hx_state b \<noteq> StateClosed"
  shows "hx_state b' \<noteq> StateClosed"
    and "hx_state b = StateHalfOpen \<Longrightarrow> hx_halfOpenIn b \<Longrightarrow>
           hx_state b' = StateHalfOpen \<and> hx_halfOpenIn b' \<and> r \<noteq> Replied None"
    and "r = Replied None \<Longrightarrow> hx_state b' = StateHalfOpen \<and> hx_halfOpenIn b'"
  using assms
  by (cases c; auto simp: hx_iface_def hx_State_def hx_Allow_def Let_def split: cb_state.splits if_splits)+

lemma hx_quiet_inflight:
  "list_all hx_quiet cs \<Longrightarrow> hx_state b = StateHalfOpen \<Longrightarrow> hx_halfOpenIn b \<Longrightarrow>
     cb_run hx_iface cs b = Some (rs, b') \<Longrightarrow> Replied None \<notin> set rs"
proof (induction cs arbitrary: b rs)
  case (Cons c cs)
  from Cons.prems(4) obtain r b1 rs1 where c: "cb_do hx_iface c b = Some (r, b1)"
    and rs: "cb_run hx_iface cs b1 = Some (rs1, b')" "rs = r # rs1"
    by (rule cb_run_Cons_Some)
  have q: "hx_quiet c" using Cons.prems by simp
  have "hx_state b1 = StateHalfOpen \<and> hx_halfOpenIn b1 \<and> r \<noteq> Replied None"
    using hx_quiet_step(2)[OF q c] Cons.prems by simp
  with Cons.IH[of b1 rs1] Cons.prems rs show ?case by auto
qed simp

text \<open>
  C11: from a breaker that is open or half-open, any interleaving of \<open>Allow\<close> and \<open>State\<close> calls, in
  which no outcome is marked, admits at most one request: the single trial of the half-open state.
\<close>

theorem hx_single_trial:
  assumes "hx_state b \<noteq> StateClosed" "list_all hx_quiet cs" "cb_run hx_iface cs b = Some (rs, b')"
  shows "length (filter (\<lambda>r. r = Replied None) rs) \<le> 1"
  using assms
proof (induction cs arbitrary: b rs)
  case (Cons c cs)
  from Cons.prems(3) obtain r b1 rs1 where c: "cb_do hx_iface c b = Some (r, b1)"
    and rs: "cb_run hx_iface cs b1 = Some (rs1, b')" "rs = r # rs1"
    by (rule cb_run_Cons_Some)
  have q: "hx_quiet c" using Cons.prems by simp
  show ?case
  proof (cases "r = Replied None")
    case True
    then have "Replied None \<notin> set rs1"
      using hx_quiet_step(3)[OF q c Cons.prems(1)] hx_quiet_inflight[OF _ _ _ rs(1)] Cons.prems(2) by simp
    then have "filter (\<lambda>r. r = Replied None) rs1 = []" by (auto simp: filter_empty_conv)
    then show ?thesis using rs(2) by simp
  next
    case False
    then show ?thesis
      using Cons.IH[OF _ _ rs(1)] hx_quiet_step(1)[OF q c Cons.prems(1)] Cons.prems(2) rs(2) by simp
  qed
qed simp

theorem hx_single_trial_witness:
  "\<exists>b. hx_state b = StateOpen \<and>
     (\<exists>rs b'. cb_run hx_iface [CallState (10, 0), CallAllow (11, 0), CallAllow (12, 0)] b = Some (rs, b') \<and>
       length (filter (\<lambda>r. r = Replied None) rs) \<le> 1)"
proof -
  let ?b = "(hx_New [Hx_WithSleepWindow 4] 0)\<lparr>hx_state := StateOpen, hx_openedAt := 1\<rparr>"
  let ?cs = "[CallState (10, 0), CallAllow (11, 0), CallAllow (12, 0)]"
  have run: "cb_run hx_iface ?cs ?b =
      Some ([Reported StateHalfOpen, Replied None, Replied (Some ErrCircuitOpen)],
        ?b\<lparr>hx_state := StateHalfOpen, hx_halfOpenIn := True\<rparr>)"
    by code_simp
  have "hx_state ?b = StateOpen" "hx_state ?b \<noteq> StateClosed" "list_all hx_quiet ?cs" by simp_all
  then show ?thesis using hx_single_trial[OF _ _ run] run by blast
qed

text \<open>
  On an open breaker no sequence of \<open>Allow\<close> calls, whatever the clock reads, admits a request:
  the call that finds the sleep window over moves to half-open with the trial already marked in
  flight, falls through to the half-open case and rejects.
\<close>

theorem hx_open_Allow_rejects:
  assumes "hx_state b = StateOpen \<or> hx_state b = StateHalfOpen \<and> hx_halfOpenIn b"
    "cb_run hx_iface (map CallAllow es) b = Some (rs, b')"
  shows "list_all (\<lambda>r. r = Replied (Some ErrCircuitOpen)) rs \<and>
    (hx_state b' = StateOpen \<or> hx_state b' = StateHalfOpen \<and> hx_halfOpenIn b')"
  using assms
proof (induction es arbitrary: b rs)
  case (Cons e es)
  from Cons.prems(2)[unfolded list.map(2)]
  obtain r b1 rs1 where c: "cb_do hx_iface (CallAllow e) b = Some (r, b1)"
    and rs: "cb_run hx_iface (map CallAllow es) b1 = Some (rs1, b')" "rs = r # rs1"
    by (rule cb_run_Cons_Some)
  have "r = Replied (Some ErrCircuitOpen) \<and>
      (hx_state b1 = StateOpen \<or> hx_state b1 = StateHalfOpen \<and> hx_halfOpenIn b1)"
    using c Cons.prems(1) by (auto simp: hx_iface_def hx_Allow_def Let_def split: if_splits)
  with Cons.IH[of b1 rs1] rs show ?case by simp
qed simp

theorem hx_open_Allow_rejects_witness:
  "\<exists>b rs b'. hx_state b = StateOpen \<and> hx_sleepWindow (hx_cfg b) = 4 \<and> hx_openedAt b = 1 \<and>
     cb_run hx_iface (map CallAllow [(5, 0), (100, 0), (100000, 0)]) b = Some (rs, b') \<and>
     list_all (\<lambda>r. r = Replied (Some ErrCircuitOpen)) rs"
proof -
  let ?b = "(hx_New [Hx_WithSleepWindow 4] 0)\<lparr>hx_state := StateOpen, hx_openedAt := 1\<rparr>"
  have run: "cb_run hx_iface (map CallAllow [(5, 0), (100, 0), (100000, 0)]) ?b =
      Some (replicate 3 (Replied (Some ErrCircuitOpen)), ?b\<lparr>hx_state := StateHalfOpen, hx_halfOpenIn := True\<rparr>)"
    by code_simp
  have "list_all (\<lambda>r. r = Replied (Some ErrCircuitOpen)) (replicate 3 (Replied (Some ErrCircuitOpen)))"
    using hx_open_Allow_rejects[OF _ run] by simp
  moreover have "hx_state ?b = StateOpen" "hx_sleepWindow (hx_cfg ?b) = 4" "hx_openedAt ?b = 1"
    by code_simp+
  ultimately show ?thesis using run by blast
qed

text \<open>
  C23: the recovery that the code does offer. When the sleep window is over, a \<open>State\<close> call moves an
  open breaker to half-open without a trial; the next \<open>Allow\<close> is admitted; a success then closes the
  breaker with an empty window, a failure opens it again and restarts the sleep timer.
\<close>

theorem hx_recovery_after_State:
  assumes "hx_inv b" "hx_state b = StateOpen" "\<not> hx_closed b"
    "hx_sleepWindow (hx_cfg b) \<le> time_Sub t (hx_openedAt b)" "0 \<le> now"
  shows "fst (hx_State t b) = StateHalfOpen \<and>
    (\<exists>b1. hx_Allow t' (snd (hx_State t b)) = (None, b1) \<and>
       (\<exists>b2. hx_MarkSuccess now now2 b1 = Some b2 \<and> hx_state b2 = StateClosed \<and>
          hx_totals (hx_buckets b2) = (0, 0)) \<and>
       (\<exists>b3. hx_MarkFailure now now2 b1 = Some b3 \<and> hx_state b3 = StateOpen \<and> hx_openedAt b3 = now))"
proof -
  have inf: "\<not> hx_halfOpenIn b" using assms by (auto simp: hx_inv_def)
  let ?b1 = "b\<lparr>hx_state := StateHalfOpen, hx_halfOpenIn := True\<rparr>"
  have A: "hx_State t b = (StateHalfOpen, b\<lparr>hx_state := StateHalfOpen\<rparr>)"
    using assms by (simp add: hx_State_def)
  have B: "hx_Allow t' (b\<lparr>hx_state := StateHalfOpen\<rparr>) = (None, ?b1)"
    using assms inf by (simp add: hx_Allow_def)
  have "hx_inv ?b1" using assms by (simp add: hx_inv_def)
  then obtain bks lastR where r: "hx_rotateLocked now ?b1 = Some (?b1\<lparr>hx_buckets := bks, hx_lastRotate := lastR\<rparr>)"
    using hx_rotateLocked_total[of ?b1 now] assms(5) by blast
  have "hx_totals (resetBucketsLocked hx_zero bks) = (0, 0)"
    by (simp add: hx_totals_def resetBucketsLocked_def hx_zero_def comp_def)
  then show ?thesis
    using A B r by (simp add: hx_MarkSuccess_def hx_MarkFailure_def hx_resetBucketsLocked_def)
qed

theorem hx_recovery_after_State_witness:
  "\<exists>b. hx_state b = StateOpen \<and> (\<exists>b1. hx_Allow 11 (snd (hx_State 10 b)) = (None, b1) \<and>
     (\<exists>b2. hx_MarkSuccess 12 12 b1 = Some b2 \<and> hx_state b2 = StateClosed))"
proof -
  let ?b = "(hx_New [Hx_WithSleepWindow 4] 0)\<lparr>hx_state := StateOpen, hx_openedAt := 1\<rparr>"
  have "hx_inv ?b" "\<not> hx_closed ?b" "hx_sleepWindow (hx_cfg ?b) \<le> time_Sub 10 (hx_openedAt ?b)"
    by code_simp+
  then show ?thesis
    using hx_recovery_after_State[of ?b 10 12 11 12] by (intro exI[of _ ?b]) auto
qed

section \<open>Runs\<close>

text \<open>
  A breaker made by \<open>New\<close> whose window is at least as many nanoseconds as it has buckets
  never panics: every sequence of calls with clock readings after 1970 returns, and once \<open>Close\<close>
  has been called every \<open>Allow\<close> is rejected.
\<close>

theorem hx_run_safe:
  assumes "hx_bucketCount (hx_cfg (hx_New opts t0)) \<le> hx_window (hx_cfg (hx_New opts t0))"
    "list_all (cb_call_ok hx_env_ok) cs" "list_all (cb_call_ok hx_env_ok) ds"
  shows "\<exists>rs b rs' b'. cb_run hx_iface cs (hx_New opts t0) = Some (rs, b) \<and>
    cb_run hx_iface ds (hx_Close b) = Some (rs', b') \<and> Replied None \<notin> set rs'"
proof -
  obtain rs b where b: "cb_run hx_iface cs (hx_New opts t0) = Some (rs, b)" "hx_inv b"
    using hx.run_total[OF hx_New_inv[OF assms(1)] assms(2)] by blast
  have cl: "Close hx_iface b = hx_Close b" by (simp add: hx_iface_def)
  obtain rs' b' where b': "cb_run hx_iface ds (hx_Close b) = Some (rs', b')"
    using hx.run_total[OF hx.close_inv[OF b(2)] assms(3)] cl by auto
  then show ?thesis using b hx.after_close_rejects[OF b(2) assms(3)] cl by metis
qed

theorem hx_run_safe_witness:
  "\<exists>rs b rs' b'. cb_run hx_iface [CallAllow (3, 0), CallFailure (4, 5)] (hx_New [] 0) = Some (rs, b) \<and>
    cb_run hx_iface [CallAllow (6, 0)] (hx_Close b) = Some (rs', b') \<and> Replied None \<notin> set rs'"
proof -
  have "hx_bucketCount (hx_cfg (hx_New [] 0)) \<le> hx_window (hx_cfg (hx_New [] 0))" by code_simp
  then show ?thesis
    by (rule hx_run_safe) (simp_all add: hx_env_ok_def)
qed

text \<open>
  The hypothesis of the previous theorem is needed. The options accept any positive window and
  any positive bucket count; when the window has fewer nanoseconds than there are buckets the
  bucket duration is zero and the first \<open>MarkSuccess\<close> or \<open>MarkFailure\<close> panics (division by zero).
\<close>

theorem hx_tiny_window_panics:
  assumes "hx_window (hx_cfg (hx_New opts t0)) < hx_bucketCount (hx_cfg (hx_New opts t0))"
  shows "hx_MarkSuccess now now2 (hx_New opts t0) = None \<and> hx_MarkFailure now now2 (hx_New opts t0) = None"
proof -
  let ?b = "hx_New opts t0"
  have "0 < hx_window (hx_cfg ?b)" using hx_New_config[of opts t0] by (simp add: hx_config_ok_def)
  with assms have "go_quot (hx_window (hx_cfg ?b)) (hx_bucketCount (hx_cfg ?b)) = 0"
    by (simp add: div_pos_pos_trivial)
  then have "hx_bucketDuration ?b = 0" by (simp add: hx_New_def Let_def)
  then show ?thesis
    by (simp add: hx_MarkSuccess_def hx_MarkFailure_def hx_rotateLocked_def rotateLocked_def)
qed

theorem hx_tiny_window_panics_witness:
  "hx_MarkFailure 7 8 (hx_New [Hx_WithWindow 5] 0) = None"
proof -
  have "hx_window (hx_cfg (hx_New [Hx_WithWindow 5] 0)) < hx_bucketCount (hx_cfg (hx_New [Hx_WithWindow 5] 0))"
    by code_simp
  then show ?thesis using hx_tiny_window_panics[of "[Hx_WithWindow 5]" 0 7 8] by simp
qed

end
