(* ===== verification/Sres.thy ===== *)
theory Sres
  imports Circuit_Breaker Ring_Window
begin

text \<open>
  \<open>circuitbreaker/sres/sres.go\<close>: the probabilistic breaker. The random number of \<open>Allow\<close> is an
  argument \<open>u\<close>. The window sums are accumulated in float64 as the code does. The lemmas show that
  the sums are exact below \<open>2 ^ 53\<close>, that an admission stays an admission when fewer requests fail,
  and what the acceptance formula does on a window without errors. The breaker is an instance of
  the locale \<open>circuit_breaker\<close>.
\<close>

section \<open>Configuration\<close>

record sr_config =
  sr_k :: float64
  sr_window :: duration
  sr_bucketCount :: int

definition sr_defaults :: sr_config where
  "sr_defaults = \<lparr>sr_k = 2, sr_window = 10 * Second, sr_bucketCount = 40\<rparr>"

datatype sr_option =
    Sr_WithK float64
  | Sr_WithWindow duration
  | Sr_WithBucketCount int

fun sr_apply :: "sr_option \<Rightarrow> sr_config \<Rightarrow> sr_config" where
  "sr_apply (Sr_WithK k) c = (if k > 0 then c\<lparr>sr_k := k\<rparr> else c)"
| "sr_apply (Sr_WithWindow d) c = (if d > 0 then c\<lparr>sr_window := d\<rparr> else c)"
| "sr_apply (Sr_WithBucketCount n) c = (if n > 0 then c\<lparr>sr_bucketCount := n\<rparr> else c)"

section \<open>State and methods\<close>

record sr_bucket =
  sr_requests :: int
  sr_errors :: int

definition sr_zero :: sr_bucket where
  "sr_zero = \<lparr>sr_requests = 0, sr_errors = 0\<rparr>"

record sr_breaker =
  sr_cfg :: sr_config
  sr_bucketDuration :: duration
  sr_buckets :: "sr_bucket list"
  sr_lastRotate :: go_time
  sr_closed :: bool

definition sr_New :: "sr_option list \<Rightarrow> go_time \<Rightarrow> sr_breaker" where
  "sr_New opts now =
     (let cfg = fold sr_apply opts sr_defaults
      in \<lparr>sr_cfg = cfg,
          sr_bucketDuration = go_quot (sr_window cfg) (sr_bucketCount cfg),
          sr_buckets = replicate (nat (sr_bucketCount cfg)) sr_zero,
          sr_lastRotate = now,
          sr_closed = False\<rparr>)"

definition sr_rotateLocked :: "go_time \<Rightarrow> sr_breaker \<Rightarrow> sr_breaker option" where
  "sr_rotateLocked now b =
     map_option (\<lambda>(bks, lastR). b\<lparr>sr_buckets := bks, sr_lastRotate := lastR\<rparr>)
       (rotateLocked sr_zero (sr_bucketDuration b) now (sr_buckets b) (sr_lastRotate b))"

definition sr_bucketIndexLocked :: "go_time \<Rightarrow> sr_breaker \<Rightarrow> int option" where
  "sr_bucketIndexLocked now b = bucketIndexLocked (sr_bucketDuration b) (sr_buckets b) now"

text \<open>\<open>windowStats\<close> is the pair (requests, errors) of float64 sums.\<close>

definition sr_statsLocked :: "sr_breaker \<Rightarrow> float64 \<times> float64" where
  "sr_statsLocked b =
     fold (\<lambda>bk (rq, er). (f64 (rq + f64 (of_int (sr_requests bk))), f64 (er + f64 (of_int (sr_errors bk)))))
       (sr_buckets b) (0, 0)"

definition sr_formula :: "float64 \<Rightarrow> float64 \<times> float64 \<Rightarrow> float64" where
  "sr_formula k s = f64 (f64 (fst s - f64 (k * snd s)) / f64 (fst s + 1))"

definition sr_accept :: "float64 \<Rightarrow> float64 \<times> float64 \<Rightarrow> float64" where
  "sr_accept k s =
     (let accept = (if fst s > 0 then sr_formula k s else 1)
      in if accept < 0 then 0 else accept)"

definition sr_Allow :: "go_time \<Rightarrow> float64 \<Rightarrow> sr_breaker \<Rightarrow> (cb_error option \<times> sr_breaker) option" where
  "sr_Allow now u b =
     (if sr_closed b then Some (Some ErrCircuitOpen, b)
      else do {
        b \<leftarrow> sr_rotateLocked now b;
        let accept = sr_accept (sr_k (sr_cfg b)) (sr_statsLocked b);
        Some (if accept \<ge> 1 then (None, b)
              else if u < accept then (None, b)
              else (Some ErrCircuitOpen, b))
      })"

definition sr_mark :: "(sr_bucket \<Rightarrow> sr_bucket) \<Rightarrow> go_time \<Rightarrow> sr_breaker \<Rightarrow> sr_breaker option" where
  "sr_mark f now b = do {
     b \<leftarrow> sr_rotateLocked now b;
     idx \<leftarrow> sr_bucketIndexLocked now b;
     bk \<leftarrow> slice_get (sr_buckets b) idx;
     bks \<leftarrow> slice_set (sr_buckets b) idx (f bk);
     Some (b\<lparr>sr_buckets := bks\<rparr>)
   }"

definition sr_MarkSuccess :: "go_time \<Rightarrow> sr_breaker \<Rightarrow> sr_breaker option" where
  "sr_MarkSuccess = sr_mark (sr_requests_update (\<lambda>r. r + 1))"

definition sr_MarkFailure :: "go_time \<Rightarrow> sr_breaker \<Rightarrow> sr_breaker option" where
  "sr_MarkFailure = sr_mark (\<lambda>bk. sr_errors_update (\<lambda>e. e + 1) (sr_requests_update (\<lambda>r. r + 1) bk))"

definition sr_State :: "sr_breaker \<Rightarrow> cb_state" where
  "sr_State b =
     (let s = sr_statsLocked b
      in if fst s = 0 then StateClosed
         else let accept = sr_formula (sr_k (sr_cfg b)) s
              in if accept \<le> 0 then StateOpen
                 else if accept < 1 then StateHalfOpen
                 else StateClosed)"

definition sr_Close :: "sr_breaker \<Rightarrow> sr_breaker" where
  "sr_Close b = b\<lparr>sr_closed := True\<rparr>"

text \<open>The environment of a call is the clock reading and the random number.\<close>

definition sr_iface :: "(go_time \<times> float64, sr_breaker) cb_iface" where
  "sr_iface = \<lparr>Allow = (\<lambda>e. sr_Allow (fst e) (snd e)),
     MarkSuccess = (\<lambda>e. sr_MarkSuccess (fst e)),
     MarkFailure = (\<lambda>e. sr_MarkFailure (fst e)),
     State = (\<lambda>e b. (sr_State b, b)), Close = sr_Close\<rparr>"

definition sr_Execute ::
  "go_time \<times> float64 \<Rightarrow> go_time \<Rightarrow> ('w \<times> sr_breaker \<Rightarrow> 'x option \<times> 'w \<times> sr_breaker) \<Rightarrow>
   'w \<times> sr_breaker \<Rightarrow> ((cb_error + 'x) option \<times> 'w \<times> sr_breaker) option" where
  "sr_Execute eA now fn wb = cb_Execute sr_iface eA (now, 0) fn wb"

section \<open>Invariant\<close>

definition sr_bucket_ok :: "sr_bucket \<Rightarrow> bool" where
  "sr_bucket_ok bk \<longleftrightarrow> 0 \<le> sr_errors bk \<and> sr_errors bk \<le> sr_requests bk"

definition sr_config_ok :: "sr_config \<Rightarrow> bool" where
  "sr_config_ok c \<longleftrightarrow> 0 < sr_k c \<and> 0 < sr_window c \<and> 0 < sr_bucketCount c"

definition sr_inv :: "sr_breaker \<Rightarrow> bool" where
  "sr_inv b \<longleftrightarrow> 0 < sr_bucketDuration b \<and> sr_buckets b \<noteq> [] \<and> list_all sr_bucket_ok (sr_buckets b)"

definition sr_env_ok :: "go_time \<times> float64 \<Rightarrow> bool" where
  "sr_env_ok e \<longleftrightarrow> 0 \<le> fst e"

lemma sr_fold_apply_ok: "sr_config_ok c \<Longrightarrow> sr_config_ok (fold sr_apply opts c)"
proof (induction opts arbitrary: c)
  case (Cons opt opts)
  have "sr_config_ok (sr_apply opt c)" using Cons.prems by (cases opt) (auto simp: sr_config_ok_def)
  with Cons.IH show ?case by simp
qed simp

lemma sr_zero_ok [simp]: "sr_bucket_ok sr_zero"
  by (simp add: sr_bucket_ok_def sr_zero_def)

lemma sr_New_inv:
  assumes "sr_bucketCount (sr_cfg (sr_New opts now)) \<le> sr_window (sr_cfg (sr_New opts now))"
  shows "sr_inv (sr_New opts now)"
proof -
  have "sr_config_ok (fold sr_apply opts sr_defaults)"
    by (rule sr_fold_apply_ok) (simp add: sr_config_ok_def sr_defaults_def)
  with assms show ?thesis
    by (auto simp: sr_inv_def sr_New_def Let_def sr_config_ok_def list_all_iff pos_imp_zdiv_pos_iff)
qed

lemma sr_rotateLocked_total:
  assumes "sr_inv b" "0 \<le> now"
  obtains bks lastR where "sr_rotateLocked now b = Some (b\<lparr>sr_buckets := bks, sr_lastRotate := lastR\<rparr>)"
    "sr_inv (b\<lparr>sr_buckets := bks, sr_lastRotate := lastR\<rparr>)"
proof -
  obtain bks lastR where r: "rotateLocked sr_zero (sr_bucketDuration b) now (sr_buckets b) (sr_lastRotate b) =
      Some (bks, lastR)" "length bks = length (sr_buckets b)" "set bks \<subseteq> insert sr_zero (set (sr_buckets b))"
    using assms rotateLocked_total[of "sr_bucketDuration b" "sr_buckets b" now sr_zero "sr_lastRotate b"]
    by (metis sr_inv_def)
  have "list_all sr_bucket_ok bks" "bks \<noteq> []"
    using r(2,3) assms(1) by (auto simp: sr_inv_def list_all_iff)
  then show thesis
    using that[of lastR bks] r(1) assms(1) by (simp add: sr_rotateLocked_def sr_inv_def)
qed

lemma sr_Allow_total:
  assumes "sr_inv b" "0 \<le> now"
  shows "\<exists>r b'. sr_Allow now u b = Some (r, b') \<and> sr_inv b'"
proof -
  obtain b1 where "sr_rotateLocked now b = Some b1" "sr_inv b1"
    using sr_rotateLocked_total[OF assms] by blast
  then show ?thesis using assms(1) by (auto simp: sr_Allow_def Let_def)
qed

lemma sr_mark_total:
  assumes "sr_inv b" "0 \<le> now" "\<And>bk. sr_bucket_ok bk \<Longrightarrow> sr_bucket_ok (f bk)"
  shows "\<exists>b'. sr_mark f now b = Some b' \<and> sr_inv b' \<and> sr_closed b' = sr_closed b"
proof -
  obtain bks lastR where r: "sr_rotateLocked now b = Some (b\<lparr>sr_buckets := bks, sr_lastRotate := lastR\<rparr>)"
      "sr_inv (b\<lparr>sr_buckets := bks, sr_lastRotate := lastR\<rparr>)"
    using sr_rotateLocked_total[OF assms(1,2)] by blast
  let ?b = "b\<lparr>sr_buckets := bks, sr_lastRotate := lastR\<rparr>"
  let ?k = "(now div sr_bucketDuration b) mod int (length bks)"
  have ne: "bks \<noteq> []" "0 < sr_bucketDuration b" using r(2) by (auto simp: sr_inv_def)
  have k: "0 \<le> ?k" "?k < int (length bks)" using ne by simp_all
  have "sr_bucketIndexLocked now ?b = Some ?k"
    using ne assms(2) by (simp add: sr_bucketIndexLocked_def bucketIndexLocked_eq)
  then have m: "sr_mark f now b = Some (?b\<lparr>sr_buckets := bks[nat ?k := f (bks ! nat ?k)]\<rparr>)"
    using k r(1) by (simp add: sr_mark_def slice_get_def slice_set_def)
  have "sr_bucket_ok (f (bks ! nat ?k))"
  proof (rule assms(3))
    have "nat ?k < length bks" using k by linarith
    then show "sr_bucket_ok (bks ! nat ?k)" using r(2) by (simp add: sr_inv_def list_all_length)
  qed
  then have "sr_inv (?b\<lparr>sr_buckets := bks[nat ?k := f (bks ! nat ?k)]\<rparr>)"
    using r(2) by (auto simp: sr_inv_def list_all_iff dest: set_update_subset_insert[THEN subsetD])
  with m show ?thesis by simp
qed

interpretation sr: circuit_breaker sr_iface sr_closed sr_inv sr_env_ok
proof unfold_locales
  fix b e assume b: "sr_inv b" "sr_env_ok e"
  then show "\<exists>r b'. Allow sr_iface e b = Some (r, b') \<and> sr_inv b'"
    using sr_Allow_total[of b "fst e"] by (simp add: sr_iface_def sr_env_ok_def)
  show "\<exists>b'. MarkSuccess sr_iface e b = Some b' \<and> sr_inv b' \<and> sr_closed b' = sr_closed b"
    using b sr_mark_total[of b "fst e"]
    by (simp add: sr_iface_def sr_env_ok_def sr_MarkSuccess_def sr_bucket_ok_def)
  show "\<exists>b'. MarkFailure sr_iface e b = Some b' \<and> sr_inv b' \<and> sr_closed b' = sr_closed b"
    using b sr_mark_total[of b "fst e"]
    by (simp add: sr_iface_def sr_env_ok_def sr_MarkFailure_def sr_bucket_ok_def)
qed (auto simp: sr_iface_def sr_Close_def sr_inv_def sr_Allow_def)

section \<open>The window sums\<close>

lemma f64_add_ints:
  assumes "0 \<le> a" "0 \<le> c" "a + c \<le> 2 ^ 53"
  shows "f64 (of_int a + f64 (of_int c)) = of_int (a + c)"
proof -
  have "f64 (of_int c) = of_int c" "f64 (of_int (a + c)) = of_int (a + c)"
    by (rule f64_of_int, use assms in simp)+
  then show ?thesis by simp
qed

text \<open>Below \<open>2 ^ 53\<close> requests the float64 accumulation gives the exact integer sums.\<close>

lemma sr_stats_fold:
  assumes "list_all sr_bucket_ok bks" "0 \<le> er" "er \<le> rq" "rq + sum_list (map sr_requests bks) \<le> 2 ^ 53"
  shows "fold (\<lambda>bk (rq, er). (f64 (rq + f64 (of_int (sr_requests bk))), f64 (er + f64 (of_int (sr_errors bk)))))
      bks (of_int rq, of_int er) =
    (of_int (rq + sum_list (map sr_requests bks)), of_int (er + sum_list (map sr_errors bks)))"
  using assms
proof (induction bks arbitrary: rq er)
  case (Cons bk bks)
  have bk: "0 \<le> sr_errors bk" "sr_errors bk \<le> sr_requests bk" and rest: "list_all sr_bucket_ok bks"
    using Cons.prems(1) by (simp_all add: sr_bucket_ok_def[of bk])
  have nn: "0 \<le> sum_list (map sr_requests bks)"
    using rest by (intro sum_list_nonneg) (auto simp: list_all_iff sr_bucket_ok_def)
  have "f64 (of_int rq + f64 (of_int (sr_requests bk))) = of_int (rq + sr_requests bk)"
      "f64 (of_int er + f64 (of_int (sr_errors bk))) = of_int (er + sr_errors bk)"
    using f64_add_ints[of rq "sr_requests bk"] f64_add_ints[of er "sr_errors bk"] Cons.prems bk nn
    by simp_all
  moreover have "er + sr_errors bk \<le> rq + sr_requests bk" "0 \<le> er + sr_errors bk"
    "rq + sr_requests bk + sum_list (map sr_requests bks) \<le> 2 ^ 53"
    using Cons.prems bk by auto
  ultimately show ?case using Cons.IH[OF rest, of "er + sr_errors bk" "rq + sr_requests bk"]
    by (simp add: algebra_simps)
qed simp

lemma sr_stats_exact:
  assumes "sr_inv b" "sum_list (map sr_requests (sr_buckets b)) \<le> 2 ^ 53"
  shows "sr_statsLocked b =
    (of_int (sum_list (map sr_requests (sr_buckets b))), of_int (sum_list (map sr_errors (sr_buckets b))))"
  using sr_stats_fold[of "sr_buckets b" 0 0] assms by (simp add: sr_statsLocked_def sr_inv_def)

section \<open>The acceptance formula\<close>

lemma sr_formula_antimono:
  assumes "0 < k" "0 \<le> r" "e \<le> e'"
  shows "sr_formula k (r, e') \<le> sr_formula k (r, e)"
proof -
  have "0 \<le> f64 (r + 1)" using assms by (intro f64_nonneg) simp
  moreover have "f64 (r - f64 (k * e')) \<le> f64 (r - f64 (k * e))"
    using assms by (intro f64_mono diff_left_mono mult_left_mono) auto
  ultimately show ?thesis unfolding sr_formula_def fst_conv snd_conv
    by (rule f64_mono[OF divide_right_mono[rotated]])
qed

lemma sr_accept_antimono:
  assumes "0 < k" "0 \<le> r" "e \<le> e'"
  shows "sr_accept k (r, e') \<le> sr_accept k (r, e)"
  using sr_formula_antimono[OF assms] by (auto simp: sr_accept_def Let_def)

text \<open>
  Fewer errors never turn an admission into a rejection. For two windows with the same number
  of requests, the same configuration and the same random number, if \<open>Allow\<close> admits a request at
  the higher error count it admits it at the lower one.
\<close>

theorem sr_Allow_antimono:
  assumes "sr_rotateLocked now b = Some b1" "sr_rotateLocked now c = Some c1"
    "\<not> sr_closed b" "\<not> sr_closed c" "sr_cfg b1 = sr_cfg c1" "0 < sr_k (sr_cfg c1)"
    "sr_statsLocked b1 = (r, e)" "sr_statsLocked c1 = (r, e')" "0 \<le> r" "e \<le> e'"
    "sr_Allow now u c = Some (None, c')"
  shows "\<exists>b'. sr_Allow now u b = Some (None, b')"
  using assms sr_accept_antimono[of "sr_k (sr_cfg c1)" r e e']
  by (auto simp: sr_Allow_def Let_def split: if_splits)

theorem sr_Allow_antimono_witness:
  "\<exists>b b'. \<not> sr_closed b \<and> sr_statsLocked b = (8, 1) \<and> sr_Allow 5 (1 / 4) b = Some (None, b')"
proof -
  let ?b = "(sr_New [] 0)\<lparr>sr_buckets := [\<lparr>sr_requests = 8, sr_errors = 1\<rparr>]\<rparr>"
  let ?c = "(sr_New [] 0)\<lparr>sr_buckets := [\<lparr>sr_requests = 8, sr_errors = 2\<rparr>]\<rparr>"
  have "sr_rotateLocked 5 ?b = Some ?b" "sr_rotateLocked 5 ?c = Some ?c" "\<not> sr_closed ?b" "\<not> sr_closed ?c"
    "sr_cfg ?b = sr_cfg ?c" "0 < sr_k (sr_cfg ?c)" "sr_statsLocked ?b = (8, 1)" "sr_statsLocked ?c = (8, 2)"
    "sr_Allow 5 (1 / 4) ?c = Some (None, ?c)"
    by code_simp+
  then have "\<exists>b'. sr_Allow 5 (1 / 4) ?b = Some (None, b')"
    using sr_Allow_antimono[of 5 ?b ?b ?c ?c 8 1 2 "1 / 4" ?c] by simp
  with \<open>\<not> sr_closed ?b\<close> \<open>sr_statsLocked ?b = (8, 1)\<close> show ?thesis by blast
qed

lemma sr_formula_no_errors:
  assumes "0 < n" "n < 2 ^ 53"
  shows "0 < sr_formula k (of_int n, 0)" "sr_formula k (of_int n, 0) \<le> 1 - 1 / 2 ^ 53"
proof -
  have ex: "f64 (of_int n) = of_int n" "f64 (of_int (n + 1)) = of_int (n + 1)"
    by (rule f64_of_int, use assms in simp)+
  then have eq: "sr_formula k (of_int n, 0) = f64 (of_int n / of_int (n + 1))"
    by (simp add: sr_formula_def)
  have "0 < (of_int n / of_int (n + 1) :: rat)" using assms by simp
  then show "0 < sr_formula k (of_int n, 0)" unfolding eq by (rule f64_pos)
  have top: "(of_int (2 ^ 53 - 1) * 2 powi (- 53) :: rat) = 1 - 1 / 2 ^ 53"
    by (simp add: power_int_def power_divide)
  have "f64 (1 - 1 / 2 ^ 53) = 1 - 1 / 2 ^ 53"
    using f64_dyadic[of "2 ^ 53 - 1" "- 53"] unfolding top by simp
  moreover have "(of_int n / of_int (n + 1) :: rat) \<le> 1 - 1 / 2 ^ 53"
  proof -
    have "(of_int (n + 1) :: rat) \<le> of_int (2 ^ 53)" using assms by (intro of_int_le_iff[THEN iffD2]) simp
    then have "(1::rat) / 2 ^ 53 \<le> 1 / of_int (n + 1)" using assms by (intro divide_left_mono) auto
    moreover have "(of_int n / of_int (n + 1) :: rat) = 1 - 1 / of_int (n + 1)"
      using assms by (simp add: field_simps)
    ultimately show ?thesis by linarith
  qed
  ultimately show "sr_formula k (of_int n, 0) \<le> 1 - 1 / 2 ^ 53" unfolding eq by (intro f64_le)
qed

text \<open>
  A window of successful requests only is not fully open to traffic. With \<open>n\<close> requests and no
  error the acceptance is the rounding of \<open>n / (n + 1)\<close>, which is below 1: \<open>State\<close> reports half-open
  and \<open>Allow\<close> rejects for the largest random number that \<open>rand.Float64\<close> returns.
\<close>

theorem sr_healthy_rejects:
  assumes "sr_rotateLocked now b = Some b1" "\<not> sr_closed b" "sr_inv b1"
    "sum_list (map sr_errors (sr_buckets b1)) = 0"
    "0 < sum_list (map sr_requests (sr_buckets b1))" "sum_list (map sr_requests (sr_buckets b1)) < 2 ^ 53"
  shows "sr_State b1 = StateHalfOpen \<and> sr_Allow now (1 - 1 / 2 ^ 53) b = Some (Some ErrCircuitOpen, b1)"
proof -
  let ?n = "sum_list (map sr_requests (sr_buckets b1))"
  have st: "sr_statsLocked b1 = (of_int ?n, 0)" using sr_stats_exact[OF assms(3)] assms(4,6) by simp
  note f = sr_formula_no_errors[OF assms(5,6), of "sr_k (sr_cfg b1)"]
  have lt: "sr_formula (sr_k (sr_cfg b1)) (of_int ?n, 0) < 1" using f(2) by (rule le_less_trans) simp
  have "sr_State b1 = StateHalfOpen"
    using f(1) lt assms(5) by (simp add: sr_State_def st Let_def)
  moreover have "sr_Allow now (1 - 1 / 2 ^ 53) b = Some (Some ErrCircuitOpen, b1)"
    using f lt assms(1,2,5) by (simp add: sr_Allow_def sr_accept_def st Let_def)
  ultimately show ?thesis ..
qed

theorem sr_healthy_rejects_witness:
  "\<exists>b. sr_State b = StateHalfOpen \<and> sr_Allow 5 (1 - 1 / 2 ^ 53) b = Some (Some ErrCircuitOpen, b)"
proof -
  let ?b = "(sr_New [] 0)\<lparr>sr_buckets := [\<lparr>sr_requests = 8, sr_errors = 0\<rparr>]\<rparr>"
  have "sr_rotateLocked 5 ?b = Some ?b" "\<not> sr_closed ?b" "sr_inv ?b"
    "sum_list (map sr_errors (sr_buckets ?b)) = 0" "0 < sum_list (map sr_requests (sr_buckets ?b))"
    "sum_list (map sr_requests (sr_buckets ?b)) < 2 ^ 53"
    by code_simp+
  from sr_healthy_rejects[OF this] show ?thesis by blast
qed

end
