(* ===== verification/Vegas.thy ===== *)
theory Vegas
  imports Circuit_Breaker
begin

text \<open>
  \<open>circuitbreaker/vegas/vegas.go\<close>: the latency-based breaker. The lemmas show that the float64
  smoothing is the integer formula \<open>(7 * cur + rtt) div 8\<close>, that the baseline never exceeds the
  smoothed latency in any reachable breaker, when a latency trips the breaker, and that
  \<open>Execute\<close> cannot leave the open state.
\<close>

section \<open>Configuration\<close>

record vg_config =
  vg_alpha :: float64
  vg_beta :: float64
  vg_warmupSamples :: int
  vg_minRTT :: duration
  vg_maxRTT :: duration

definition vg_defaults :: vg_config where
  "vg_defaults = \<lparr>vg_alpha = 1 / 2, vg_beta = f64 (3 / 10), vg_warmupSamples = 10,
     vg_minRTT = Millisecond, vg_maxRTT = 30 * Second\<rparr>"

datatype vg_option =
    Vg_WithAlpha float64
  | Vg_WithBeta float64
  | Vg_WithWarmupSamples int

fun vg_apply :: "vg_option \<Rightarrow> vg_config \<Rightarrow> vg_config" where
  "vg_apply (Vg_WithAlpha a) c = (if a > 0 then c\<lparr>vg_alpha := a\<rparr> else c)"
| "vg_apply (Vg_WithBeta b) c = (if b > 0 then c\<lparr>vg_beta := b\<rparr> else c)"
| "vg_apply (Vg_WithWarmupSamples n) c = (if n > 0 then c\<lparr>vg_warmupSamples := n\<rparr> else c)"

section \<open>State and methods\<close>

record vg_breaker =
  vg_cfg :: vg_config
  vg_baseRTT :: duration
  vg_currentRTT :: duration
  vg_sampleCount :: int
  vg_state :: cb_state
  vg_closed :: bool

definition vg_New :: "vg_option list \<Rightarrow> vg_breaker" where
  "vg_New opts = \<lparr>vg_cfg = fold vg_apply opts vg_defaults, vg_baseRTT = 0, vg_currentRTT = 0,
     vg_sampleCount = 0, vg_state = StateClosed, vg_closed = False\<rparr>"

definition vg_Allow :: "vg_breaker \<Rightarrow> cb_error option" where
  "vg_Allow b =
     (if vg_closed b then Some ErrCircuitOpen
      else if vg_state b = StateOpen then Some ErrCircuitOpen
      else None)"

text \<open>
  The smoothing step. Both operands lie between \<open>minRTT\<close> and \<open>maxRTT\<close>, which no option changes,
  so the conversion back to a Duration is in range (\<open>vg_smooth_eq\<close> below).
\<close>

definition vg_smooth :: "duration \<Rightarrow> duration \<Rightarrow> duration" where
  "vg_smooth cur rtt =
     rat_trunc (f64 (f64 (f64 (of_int cur) * (7 / 8)) + f64 (f64 (of_int rtt) * (1 / 8))))"

definition vg_updateRTTLocked :: "duration \<Rightarrow> vg_breaker \<Rightarrow> vg_breaker" where
  "vg_updateRTTLocked rtt b =
     (if rtt < vg_minRTT (vg_cfg b) \<or> rtt > vg_maxRTT (vg_cfg b) then b
      else b\<lparr>vg_sampleCount := vg_sampleCount b + 1,
             vg_currentRTT := (if vg_currentRTT b = 0 then rtt else vg_smooth (vg_currentRTT b) rtt),
             vg_baseRTT := (if vg_baseRTT b = 0 \<or> rtt < vg_baseRTT b then rtt else vg_baseRTT b)\<rparr>)"

definition vg_ratio :: "vg_breaker \<Rightarrow> float64" where
  "vg_ratio b = f64 (f64 (of_int (vg_currentRTT b - vg_baseRTT b)) / f64 (of_int (vg_baseRTT b)))"

definition vg_evaluateLocked :: "vg_breaker \<Rightarrow> vg_breaker" where
  "vg_evaluateLocked b =
     (if vg_sampleCount b < vg_warmupSamples (vg_cfg b) \<or> vg_baseRTT b = 0 then b
      else let inflation = vg_ratio b
           in case vg_state b of
                StateClosed \<Rightarrow> if inflation > vg_alpha (vg_cfg b) then b\<lparr>vg_state := StateOpen\<rparr> else b
              | StateOpen \<Rightarrow> if inflation < vg_beta (vg_cfg b) then b\<lparr>vg_state := StateHalfOpen\<rparr> else b
              | StateHalfOpen \<Rightarrow>
                  if inflation < vg_beta (vg_cfg b) then b\<lparr>vg_state := StateClosed\<rparr>
                  else if inflation > vg_alpha (vg_cfg b) then b\<lparr>vg_state := StateOpen\<rparr> else b)"

definition vg_RecordLatency :: "duration \<Rightarrow> vg_breaker \<Rightarrow> vg_breaker" where
  "vg_RecordLatency rtt b =
     (let b = (if vg_state b = StateHalfOpen then b\<lparr>vg_state := StateClosed\<rparr> else b)
      in vg_evaluateLocked (vg_updateRTTLocked rtt b))"

definition vg_MarkSuccess :: "vg_breaker \<Rightarrow> vg_breaker" where
  "vg_MarkSuccess b = vg_RecordLatency 0 b"

definition vg_MarkFailure :: "vg_breaker \<Rightarrow> vg_breaker" where
  "vg_MarkFailure b =
     (if vg_state b = StateHalfOpen then b\<lparr>vg_state := StateOpen\<rparr>
      else vg_evaluateLocked (vg_updateRTTLocked (vg_maxRTT (vg_cfg b)) b))"

definition vg_State :: "vg_breaker \<Rightarrow> cb_state" where
  "vg_State b = vg_state b"

definition vg_Close :: "vg_breaker \<Rightarrow> vg_breaker" where
  "vg_Close b = b\<lparr>vg_closed := True\<rparr>"

definition vg_BaseRTT :: "vg_breaker \<Rightarrow> duration" where
  "vg_BaseRTT b = vg_baseRTT b"

definition vg_CurrentRTT :: "vg_breaker \<Rightarrow> duration" where
  "vg_CurrentRTT b = vg_currentRTT b"

definition vg_Inflation :: "vg_breaker \<Rightarrow> float64" where
  "vg_Inflation b = (if vg_baseRTT b = 0 then 0 else max 0 (vg_ratio b))"

text \<open>\<open>elapsed\<close> is the measured duration of \<open>fn\<close>.\<close>

definition vg_Execute ::
  "duration \<Rightarrow> ('w \<times> vg_breaker \<Rightarrow> 'x option \<times> 'w \<times> vg_breaker) \<Rightarrow> 'w \<times> vg_breaker \<Rightarrow>
   (cb_error + 'x) option \<times> 'w \<times> vg_breaker" where
  "vg_Execute elapsed fn wb =
     (case vg_Allow (snd wb) of
        Some err \<Rightarrow> (Some (Inl err), wb)
      | None \<Rightarrow>
          (case fn wb of
             (Some err, w, b) \<Rightarrow> (Some (Inr err), w, vg_MarkFailure b)
           | (None, w, b) \<Rightarrow> (None, w, vg_RecordLatency elapsed b)))"

definition vg_iface :: "(unit, vg_breaker) cb_iface" where
  "vg_iface = \<lparr>Allow = (\<lambda>_ b. Some (vg_Allow b, b)),
     MarkSuccess = (\<lambda>_ b. Some (vg_MarkSuccess b)),
     MarkFailure = (\<lambda>_ b. Some (vg_MarkFailure b)),
     State = (\<lambda>_ b. (vg_State b, b)), Close = vg_Close\<rparr>"

section \<open>Invariant\<close>

definition vg_inv :: "vg_breaker \<Rightarrow> bool" where
  "vg_inv b \<longleftrightarrow> vg_minRTT (vg_cfg b) = Millisecond \<and> vg_maxRTT (vg_cfg b) = 30 * Second \<and>
     0 < vg_alpha (vg_cfg b) \<and> 0 < vg_beta (vg_cfg b) \<and> 0 < vg_warmupSamples (vg_cfg b) \<and>
     (if vg_sampleCount b = 0 then vg_baseRTT b = 0 \<and> vg_currentRTT b = 0
      else 0 < vg_sampleCount b \<and> Millisecond \<le> vg_baseRTT b \<and> vg_baseRTT b \<le> vg_currentRTT b \<and>
           vg_currentRTT b \<le> 30 * Second)"

lemma vg_smooth_eq:
  assumes "0 \<le> cur" "cur \<le> 2 ^ 49" "0 \<le> rtt" "rtt \<le> 2 ^ 49"
  shows "vg_smooth cur rtt = (7 * cur + rtt) div 8"
proof -
  have e: "f64 (of_int m / 8) = of_int m / 8" if "0 \<le> m" "m \<le> 2 ^ 52" for m
    using f64_dyadic[of m "- 3"] that by (simp add: power_int_def power_divide)
  have "f64 (of_int cur) = of_int cur" "f64 (of_int rtt) = of_int rtt"
    by (rule f64_of_int, use assms in simp)+
  moreover have "f64 (of_int cur * (7 / 8)) = of_int (7 * cur) / 8"
    using e[of "7 * cur"] assms by (simp add: algebra_simps)
  moreover have "f64 (of_int rtt * (1 / 8)) = of_int rtt / 8"
    using e[of rtt] assms by simp
  moreover have "f64 (of_int (7 * cur) / 8 + of_int rtt / 8) = of_int (7 * cur + rtt) / 8"
    using e[of "7 * cur + rtt"] assms by (simp add: add_divide_distrib)
  ultimately have "vg_smooth cur rtt = rat_trunc (of_int (7 * cur + rtt) / 8)"
    unfolding vg_smooth_def by (simp only:)
  also have "\<dots> = \<lfloor>(of_int (7 * cur + rtt) / of_int 8 :: rat)\<rfloor>"
    using assms by (simp add: rat_trunc_def)
  also have "\<dots> = (7 * cur + rtt) div 8" by (rule floor_divide_of_int_eq)
  finally show ?thesis .
qed

lemma vg_New_inv: "vg_inv (vg_New opts)"
proof -
  have "vg_inv (vg_New [])" by (simp add: vg_inv_def vg_New_def vg_defaults_def f64_pos)
  moreover have "vg_inv (b\<lparr>vg_cfg := fold vg_apply opts (vg_cfg b)\<rparr>)" if "vg_inv b" for b
    using that
  proof (induction opts arbitrary: b)
    case (Cons opt opts)
    have "vg_inv (b\<lparr>vg_cfg := vg_apply opt (vg_cfg b)\<rparr>)"
      using Cons.prems by (cases opt) (auto simp: vg_inv_def)
    from Cons.IH[OF this] show ?case by simp
  qed simp
  ultimately have "vg_inv ((vg_New [])\<lparr>vg_cfg := fold vg_apply opts (vg_cfg (vg_New []))\<rparr>)" by blast
  then show ?thesis by (simp add: vg_New_def)
qed

lemma vg_updateRTTLocked_inv: "vg_inv b \<Longrightarrow> vg_inv (vg_updateRTTLocked rtt b)"
  by (auto simp: vg_inv_def vg_updateRTTLocked_def vg_smooth_eq split: if_splits)

lemma vg_evaluateLocked_eqs [simp]:
  "vg_cfg (vg_evaluateLocked b) = vg_cfg b" "vg_baseRTT (vg_evaluateLocked b) = vg_baseRTT b"
  "vg_currentRTT (vg_evaluateLocked b) = vg_currentRTT b" "vg_closed (vg_evaluateLocked b) = vg_closed b"
  "vg_sampleCount (vg_evaluateLocked b) = vg_sampleCount b"
  by (auto simp: vg_evaluateLocked_def Let_def split: cb_state.split)

lemma vg_inv_state [simp]: "vg_inv (b\<lparr>vg_state := s\<rparr>) = vg_inv b" "vg_inv (b\<lparr>vg_closed := c\<rparr>) = vg_inv b"
  by (simp_all add: vg_inv_def)

lemma vg_evaluateLocked_inv [simp]: "vg_inv (vg_evaluateLocked b) = vg_inv b"
  by (simp add: vg_inv_def)

lemma vg_RecordLatency_inv: "vg_inv b \<Longrightarrow> vg_inv (vg_RecordLatency rtt b)"
  by (simp add: vg_RecordLatency_def Let_def vg_updateRTTLocked_inv)

lemma vg_MarkFailure_inv: "vg_inv b \<Longrightarrow> vg_inv (vg_MarkFailure b)"
  by (simp add: vg_MarkFailure_def vg_updateRTTLocked_inv)

lemma vg_closed_eqs [simp]:
  "vg_closed (vg_updateRTTLocked rtt b) = vg_closed b"
  "vg_closed (vg_RecordLatency rtt b) = vg_closed b" "vg_closed (vg_MarkFailure b) = vg_closed b"
  by (simp_all add: vg_RecordLatency_def vg_MarkFailure_def vg_updateRTTLocked_def Let_def)

interpretation vg: circuit_breaker vg_iface vg_closed vg_inv "\<lambda>_. True"
  by unfold_locales
    (auto simp: vg_iface_def vg_Allow_def vg_Close_def vg_MarkSuccess_def vg_RecordLatency_inv vg_MarkFailure_inv)

section \<open>Reachable breakers\<close>

inductive vg_reachable :: "vg_breaker \<Rightarrow> bool" where
  R_New: "vg_reachable (vg_New opts)"
| R_Success: "vg_reachable b \<Longrightarrow> vg_reachable (vg_MarkSuccess b)"
| R_Failure: "vg_reachable b \<Longrightarrow> vg_reachable (vg_MarkFailure b)"
| R_Latency: "vg_reachable b \<Longrightarrow> vg_reachable (vg_RecordLatency rtt b)"
| R_Close: "vg_reachable b \<Longrightarrow> vg_reachable (vg_Close b)"

lemma vg_reachable_inv: "vg_reachable b \<Longrightarrow> vg_inv b"
  by (induction rule: vg_reachable.induct)
    (auto simp: vg_New_inv vg_MarkSuccess_def vg_RecordLatency_inv vg_MarkFailure_inv vg_Close_def)

lemma vg_ratio_nonneg: "vg_inv b \<Longrightarrow> 0 \<le> vg_ratio b"
  unfolding vg_ratio_def by (intro f64_nonneg divide_nonneg_nonneg) (auto simp: vg_inv_def split: if_splits)

text \<open>
  In every breaker reachable from \<open>New\<close> by any sequence of calls, whatever latencies are
  reported, the baseline is at most the smoothed latency and both lie between \<open>minRTT\<close> and
  \<open>maxRTT\<close> once a sample was taken; so the clamp at zero in \<open>Inflation\<close> is never needed.
\<close>

theorem vg_reachable_rtt:
  assumes "vg_reachable b"
  shows "(0 < vg_sampleCount b \<longrightarrow> Millisecond \<le> vg_BaseRTT b \<and> vg_BaseRTT b \<le> vg_CurrentRTT b \<and>
           vg_CurrentRTT b \<le> 30 * Second) \<and>
    (vg_sampleCount b = 0 \<longrightarrow> vg_BaseRTT b = 0 \<and> vg_CurrentRTT b = 0) \<and>
    (vg_baseRTT b \<noteq> 0 \<longrightarrow> vg_Inflation b = vg_ratio b)"
  using vg_reachable_inv[OF assms] vg_ratio_nonneg[OF vg_reachable_inv[OF assms]]
  by (simp add: vg_inv_def vg_BaseRTT_def vg_CurrentRTT_def vg_Inflation_def split: if_splits)

theorem vg_reachable_rtt_witness:
  "vg_sampleCount (vg_RecordLatency 2000000 (vg_New [])) = 1 \<and>
   vg_BaseRTT (vg_RecordLatency 2000000 (vg_New [])) \<le> vg_CurrentRTT (vg_RecordLatency 2000000 (vg_New []))"
proof -
  have "vg_sampleCount (vg_RecordLatency 2000000 (vg_New [])) = 1" by code_simp
  then show ?thesis
    using vg_reachable_rtt[OF R_Latency[OF R_New, of 2000000 "[]"]] by simp
qed

section \<open>Tripping and recovery\<close>

text \<open>The computed ratio is above one half exactly when the exact ratio is.\<close>

lemma f64_ratio_above_half:
  assumes "0 \<le> d" "0 < n" "d \<le> 2 ^ 51" "n \<le> 2 ^ 51"
  shows "1 / 2 < f64 (f64 (of_int d) / f64 (of_int n)) \<longleftrightarrow> n < 2 * d"
proof -
  have ex: "f64 (of_int d) = of_int d" "f64 (of_int n) = of_int n"
    by (rule f64_of_int, use assms in simp)+
  have "f64 (of_int d / of_int n) \<le> 1 / 2" if "2 * d \<le> n"
  proof (rule f64_le)
    have "(of_int (2 * d) :: rat) \<le> of_int n" using that by (rule of_int_le_iff[THEN iffD2])
    then show "of_int d / of_int n \<le> (1 / 2 :: rat)" using assms by (simp add: field_simps)
    show "f64 (1 / 2) = 1 / 2" using f64_dyadic[of 1 "-1"] by simp
  qed
  moreover have "1 / 2 < f64 (of_int d / of_int n)" if "n < 2 * d"
  proof -
    have e: "(of_int (2 ^ 51 + 1) * 2 powi (- 52) :: rat) = 1 / 2 + 1 / 2 ^ 52"
      by (simp add: power_int_def power_divide)
    have fe: "f64 (1 / 2 + 1 / 2 ^ 52) = 1 / 2 + 1 / 2 ^ 52"
      using f64_dyadic[of "2 ^ 51 + 1" "- 52"] unfolding e by simp
    have "(of_int (n + 1) :: rat) \<le> of_int (2 * d)" using that by (intro of_int_le_iff[THEN iffD2]) simp
    then have "of_int (n + 1) / (2 * of_int n) \<le> (of_int (2 * d) / (2 * of_int n) :: rat)"
      using assms by (intro divide_right_mono) auto
    then have "1 / 2 + 1 / (2 * of_int n) \<le> (of_int d / of_int n :: rat)"
      using assms by (simp add: add_divide_distrib)
    moreover have "(1 :: rat) / 2 ^ 52 \<le> 1 / (2 * of_int n)"
    proof -
      have "(of_int n :: rat) \<le> of_int (2 ^ 51)" using assms by (intro of_int_le_iff[THEN iffD2])
      then show ?thesis using assms by (simp add: field_simps)
    qed
    ultimately have "1 / 2 + 1 / 2 ^ 52 \<le> (of_int d / of_int n :: rat)" by linarith
    from f64_ge[OF this fe] have "(1::rat) / 2 + 1 / 2 ^ 52 \<le> f64 (of_int d / of_int n)" .
    then show ?thesis by (rule less_le_trans[rotated]) simp
  qed
  ultimately show ?thesis by (auto simp: ex not_less[symmetric])
qed

text \<open>
  What a plausible latency does to a breaker in the closed state with the default threshold of
  one half and at least one earlier sample: the smoothed latency becomes \<open>(7 * cur + rtt) div 8\<close>
  and the baseline the minimum, both exactly in spite of the float64 arithmetic; the breaker opens
  if and only if the warm-up is over and the smoothed latency exceeds one and a half baselines.
\<close>

theorem vg_RecordLatency_closed:
  assumes "vg_inv b" "vg_state b = StateClosed" "vg_alpha (vg_cfg b) = 1 / 2"
    "Millisecond \<le> rtt" "rtt \<le> 30 * Second" "0 < vg_sampleCount b"
  defines "cur \<equiv> (7 * vg_currentRTT b + rtt) div 8" and "base \<equiv> min (vg_baseRTT b) rtt"
  shows "vg_RecordLatency rtt b = b\<lparr>vg_sampleCount := vg_sampleCount b + 1, vg_currentRTT := cur,
     vg_baseRTT := base,
     vg_state := (if vg_warmupSamples (vg_cfg b) \<le> vg_sampleCount b + 1 \<and> 3 * base < 2 * cur
                  then StateOpen else StateClosed)\<rparr>"
proof -
  have i: "Millisecond \<le> vg_baseRTT b" "vg_baseRTT b \<le> vg_currentRTT b" "vg_currentRTT b \<le> 30 * Second"
    "vg_minRTT (vg_cfg b) = Millisecond" "vg_maxRTT (vg_cfg b) = 30 * Second"
    using assms(1,6) by (auto simp: vg_inv_def)
  have sm: "vg_smooth (vg_currentRTT b) rtt = cur"
    unfolding cur_def using i assms(4,5) by (intro vg_smooth_eq) auto
  have bc: "0 < base" "base \<le> cur" "cur \<le> 30 * Second" "base = (if rtt < vg_baseRTT b then rtt else vg_baseRTT b)"
    using i assms(4,5) by (auto simp: base_def cur_def)
  let ?b = "b\<lparr>vg_sampleCount := vg_sampleCount b + 1, vg_currentRTT := cur, vg_baseRTT := base\<rparr>"
  have u: "vg_updateRTTLocked rtt b = ?b"
    using i assms(4,5) sm bc(4) by (auto simp: vg_updateRTTLocked_def)
  have "vg_ratio ?b = f64 (f64 (of_int (cur - base)) / f64 (of_int base))" by (simp add: vg_ratio_def)
  then have "1 / 2 < vg_ratio ?b \<longleftrightarrow> base < 2 * (cur - base)"
    using f64_ratio_above_half[of "cur - base" base] bc(1-3) by simp
  then show ?thesis
    using assms(2,3) bc(1) by (auto simp: vg_RecordLatency_def u vg_evaluateLocked_def Let_def)
qed

theorem vg_RecordLatency_closed_witness:
  "\<exists>b. vg_reachable b \<and> vg_state b = StateClosed \<and> vg_state (vg_RecordLatency 30000000 b) = StateOpen"
proof -
  let ?b = "vg_RecordLatency 2000000 (vg_New [Vg_WithWarmupSamples 2])"
  have r: "vg_reachable ?b" by (rule R_Latency[OF R_New])
  have "vg_state ?b = StateClosed" "vg_alpha (vg_cfg ?b) = 1 / 2" "vg_sampleCount ?b = 1"
    "vg_warmupSamples (vg_cfg ?b) = 2" "vg_currentRTT ?b = 2000000" "vg_baseRTT ?b = 2000000"
    by code_simp+
  with vg_RecordLatency_closed[OF vg_reachable_inv[OF r], of 30000000]
  have "vg_state (vg_RecordLatency 30000000 ?b) = StateOpen" by simp
  with r \<open>vg_state ?b = StateClosed\<close> show ?thesis by blast
qed

text \<open>A sequence of \<open>Execute\<close> calls, each with its function and the duration that was measured.\<close>

fun vg_Executes ::
  "(duration \<times> ('w \<times> vg_breaker \<Rightarrow> 'x option \<times> 'w \<times> vg_breaker)) list \<Rightarrow> 'w \<times> vg_breaker \<Rightarrow>
   (cb_error + 'x) option list \<times> 'w \<times> vg_breaker" where
  "vg_Executes [] wb = ([], wb)"
| "vg_Executes ((d, fn) # es) wb =
     (let (r, wb) = vg_Execute d fn wb; (rs, wb) = vg_Executes es wb in (r # rs, wb))"

text \<open>
  \<open>Execute\<close> cannot leave the open state: on an open breaker every sequence of \<open>Execute\<close> calls,
  whatever the functions and the measured durations, rejects each call without running its
  function and leaves the breaker and the rest of the world unchanged.
\<close>

theorem vg_open_absorbs_Execute:
  assumes "vg_state b = StateOpen"
  shows "vg_Executes es (w, b) = (replicate (length es) (Some (Inl ErrCircuitOpen)), w, b)"
  using assms by (induction es) (auto simp: vg_Execute_def vg_Allow_def)

theorem vg_open_absorbs_Execute_witness:
  "\<exists>b. vg_state b = StateOpen \<and>
     vg_Executes [(2000000, \<lambda>(w, b). (None :: unit option, w + (1::nat), b))] (0, b) =
       ([Some (Inl ErrCircuitOpen)], 0, b)"
  using vg_open_absorbs_Execute[of "(vg_New [])\<lparr>vg_state := StateOpen\<rparr>"
      "[(2000000, \<lambda>(w, b). (None :: unit option, w + (1::nat), b))]" 0]
  by (intro exI[of _ "(vg_New [])\<lparr>vg_state := StateOpen\<rparr>"]) simp

end
