(* ===== verification/Rate_Limit.thy ===== *)
theory Rate_Limit
  imports Go_Prelude
begin

text \<open>
  The contract of \<open>ratelimit/ratelimit.go\<close>: the error, the interface as a locale over \<open>Allow\<close> and
  \<open>Close\<close>, and what every limiter promises in any run: no panic, \<open>ok\<close> exactly when there is no
  error, nothing admitted after \<open>Close\<close>. \<open>Wait\<close> is modelled with each limiter.
\<close>

datatype rl_error = ErrLimited

type_synonym 'l rl_answer = "(bool \<times> rl_error option) \<times> 'l"

fun rl_run :: "('e \<Rightarrow> 'l \<Rightarrow> 'l rl_answer option) \<Rightarrow> 'e list \<Rightarrow> 'l \<Rightarrow> (bool list \<times> 'l) option" where
  "rl_run allow [] l = Some ([], l)"
| "rl_run allow (e # es) l =
     Option.bind (allow e l) (\<lambda>((ok, _), l).
       map_option (\<lambda>(oks, l). (ok # oks, l)) (rl_run allow es l))"

lemma rl_run_keeps:
  assumes "\<And>e l a l'. allow e l = Some (a, l') \<Longrightarrow> f l' = f l" "rl_run allow es l = Some (oks, l')"
  shows "f l' = f l"
  using assms(2)
proof (induction es arbitrary: l oks)
  case (Cons e es)
  then obtain a l1 oks1 where "allow e l = Some (a, l1)" "rl_run allow es l1 = Some (oks1, l')"
    by (auto simp: bind_eq_Some_conv)
  with Cons.IH assms(1) show ?case by metis
qed simp

locale limiter =
  fixes allow :: "'e \<Rightarrow> 'l \<Rightarrow> 'l rl_answer option"
    and close :: "'l \<Rightarrow> 'l"
    and closed :: "'l \<Rightarrow> bool"
    and inv :: "'l \<Rightarrow> bool"
    and env :: "'e \<Rightarrow> bool"
  assumes closed_limited: "closed l \<Longrightarrow> allow e l = Some ((False, Some ErrLimited), l)"
    and allow_total: "inv l \<Longrightarrow> env e \<Longrightarrow>
      \<exists>ok err l'. allow e l = Some ((ok, err), l') \<and> inv l' \<and> ok = (err = None) \<and> closed l' = closed l"
    and close_inv: "inv l \<Longrightarrow> inv (close l)"
    and close_closed: "closed (close l)"
begin

lemma run_total:
  "inv l \<Longrightarrow> list_all env es \<Longrightarrow>
     \<exists>oks l'. rl_run allow es l = Some (oks, l') \<and> inv l' \<and> closed l' = closed l \<and> length oks = length es"
proof (induction es arbitrary: l)
  case (Cons e es)
  then obtain ok err l1 where "allow e l = Some ((ok, err), l1)" "inv l1" "closed l1 = closed l"
    using allow_total[of l e] by auto
  with Cons.IH[of l1] Cons.prems show ?case by auto
qed simp

lemma after_close: "rl_run allow es (close l) = Some (replicate (length es) False, close l)"
  by (induction es) (simp_all add: closed_limited close_closed)

end

end
