(* ===== verification/Token_Bucket.thy ===== *)
theory Token_Bucket
  imports Rate_Limit
begin

text \<open>
  \<open>ratelimit/tokenbucket/tokenbucket.go\<close>: the token bucket over float64. The clock is an argument;
  \<open>oor\<close> is the value an out-of-range conversion from float64 to int64 has on the machine. The
  lemmas show that the bucket holds between 0 and \<open>burst\<close> tokens in every run, that a full bucket
  admits exactly its burst at one instant, how \<open>Wait\<close> ends, and where an admission costs no token.
\<close>

section \<open>State and operations\<close>

datatype tb_error = ErrInvalidConfig

record tb_limiter =
  tb_rate :: float64
  tb_burst :: float64
  tb_tokens :: float64
  tb_last :: go_time
  tb_closed :: bool

definition tb_New :: "float64 \<Rightarrow> float64 \<Rightarrow> go_time \<Rightarrow> tb_error + tb_limiter" where
  "tb_New rate burst now =
     (if rate \<le> 0 \<or> burst \<le> 0 then Inl ErrInvalidConfig
      else Inr \<lparr>tb_rate = rate, tb_burst = burst, tb_tokens = burst, tb_last = now, tb_closed = False\<rparr>)"

definition tb_replenish :: "go_time \<Rightarrow> tb_limiter \<Rightarrow> tb_limiter" where
  "tb_replenish now l =
     (let elapsed = dur_Seconds (time_Sub now (tb_last l))
      in if elapsed > 0
         then l\<lparr>tb_tokens := min (tb_burst l) (f64 (tb_tokens l + f64 (elapsed * tb_rate l))),
                tb_last := now\<rparr>
         else l)"

definition tb_takeLocked ::
  "(float64 \<Rightarrow> int) \<Rightarrow> go_time \<Rightarrow> float64 \<Rightarrow> tb_limiter \<Rightarrow> (go_time \<times> duration) \<times> tb_limiter" where
  "tb_takeLocked oor now n l =
     (let l = tb_replenish now l
      in if tb_tokens l \<ge> n then ((now, 0), l\<lparr>tb_tokens := f64 (tb_tokens l - n)\<rparr>)
         else let deficit = f64 (n - tb_tokens l);
                  wait = f2i oor (f64 (f64 (deficit / tb_rate l) * of_int Second))
              in ((now, wait), l))"

definition tb_Allow :: "(float64 \<Rightarrow> int) \<Rightarrow> go_time \<Rightarrow> tb_limiter \<Rightarrow> tb_limiter rl_answer" where
  "tb_Allow oor now l =
     (if tb_closed l then ((False, Some ErrLimited), l)
      else let ((_, wait), l) = tb_takeLocked oor now 1 l
           in if wait > 0 then ((False, Some ErrLimited), l) else ((True, None), l))"

text \<open>
  \<open>Wait\<close> as a loop over what happens in each turn: the clock reading, what the \<open>select\<close> receives if
  the turn has to wait, and what other goroutines do to the limiter before the next turn. Nothing
  in the package sends on \<open>notify\<close>. \<open>None\<close> means still blocked when the given turns are used up.
\<close>

datatype 'x tb_wake = CtxDone 'x | TimerFired

datatype 'x tb_outcome = WaitOk | WaitLimited | WaitCtx 'x

type_synonym 'x tb_turn = "go_time \<times> 'x tb_wake \<times> (tb_limiter \<Rightarrow> tb_limiter)"

fun tb_Wait ::
  "(float64 \<Rightarrow> int) \<Rightarrow> 'x tb_turn list \<Rightarrow> tb_limiter \<Rightarrow> 'x tb_outcome option \<times> tb_limiter" where
  "tb_Wait oor [] l = (None, l)"
| "tb_Wait oor ((now, wake, others) # ts) l =
     (if tb_closed l then (Some WaitLimited, l)
      else let ((_, wait), l) = tb_takeLocked oor now 1 l
           in if wait \<le> 0 then (Some WaitOk, l)
              else case wake of
                     CtxDone err \<Rightarrow> (Some (WaitCtx err), l)
                   | TimerFired \<Rightarrow> tb_Wait oor ts (others l))"

definition tb_Close :: "tb_limiter \<Rightarrow> tb_limiter" where
  "tb_Close l = l\<lparr>tb_closed := True\<rparr>"

section \<open>Invariant\<close>

definition tb_inv :: "tb_limiter \<Rightarrow> bool" where
  "tb_inv l \<longleftrightarrow> 0 < tb_rate l \<and> f64 (tb_burst l) = tb_burst l \<and> 0 \<le> tb_tokens l \<and> tb_tokens l \<le> tb_burst l \<and>
     f64 (tb_tokens l) = tb_tokens l"

lemma tb_New_inv: "f64 burst = burst \<Longrightarrow> tb_New rate burst now = Inr l \<Longrightarrow> tb_inv l"
  by (auto simp: tb_New_def tb_inv_def split: if_splits)

lemma tb_replenish_inv:
  assumes "tb_inv l"
  shows "tb_inv (tb_replenish now l)"
proof (cases "dur_Seconds (time_Sub now (tb_last l)) > 0")
  case True
  let ?t = "f64 (tb_tokens l + f64 (dur_Seconds (time_Sub now (tb_last l)) * tb_rate l))"
  have "0 \<le> ?t" using True assms by (intro f64_nonneg add_nonneg_nonneg) (auto simp: tb_inv_def)
  then show ?thesis using True assms by (auto simp: tb_inv_def tb_replenish_def Let_def min_def)
qed (use assms in \<open>simp add: tb_replenish_def\<close>)

lemma tb_replenish_eqs [simp]:
  "tb_rate (tb_replenish now l) = tb_rate l" "tb_burst (tb_replenish now l) = tb_burst l"
  "tb_closed (tb_replenish now l) = tb_closed l"
  by (simp_all add: tb_replenish_def Let_def)

lemma tb_takeLocked_inv:
  assumes "tb_inv l" "0 \<le> n"
  shows "tb_inv (snd (tb_takeLocked oor now n l))"
proof -
  have r: "tb_inv (tb_replenish now l)" using assms(1) by (rule tb_replenish_inv)
  let ?t = "tb_tokens (tb_replenish now l)"
  have "f64 (?t - n) \<le> tb_burst l \<and> 0 \<le> f64 (?t - n)" if "n \<le> ?t"
    using that r assms(2) by (auto simp: tb_inv_def intro!: f64_le f64_nonneg)
  then show ?thesis using r by (auto simp: tb_takeLocked_def Let_def tb_inv_def)
qed

lemma tb_takeLocked_closed [simp]: "tb_closed (snd (tb_takeLocked oor now n l)) = tb_closed l"
  by (simp add: tb_takeLocked_def Let_def)

lemma tb_Allow_total:
  assumes "tb_inv l"
  shows "\<exists>ok err l'. tb_Allow oor now l = ((ok, err), l') \<and> tb_inv l' \<and> ok = (err = None) \<and>
    tb_closed l' = tb_closed l"
  using tb_takeLocked_inv[OF assms, of 1 oor now] tb_takeLocked_closed[of oor now 1 l] assms
  by (cases "tb_takeLocked oor now 1 l") (auto simp: tb_Allow_def)

interpretation tb: limiter "\<lambda>e l. Some (tb_Allow (fst e) (snd e) l)" tb_Close tb_closed tb_inv "\<lambda>_. True"
proof unfold_locales
  fix l and e :: "(float64 \<Rightarrow> int) \<times> go_time"
  assume "tb_inv l"
  then show "\<exists>ok err l'. Some (tb_Allow (fst e) (snd e) l) = Some ((ok, err), l') \<and> tb_inv l' \<and>
      ok = (err = None) \<and> tb_closed l' = tb_closed l"
    using tb_Allow_total by auto
qed (auto simp: tb_Allow_def tb_Close_def tb_inv_def)

section \<open>Properties\<close>

abbreviation tb_runs :: "(float64 \<Rightarrow> int) \<Rightarrow> go_time list \<Rightarrow> tb_limiter \<Rightarrow> (bool list \<times> tb_limiter) option" where
  "tb_runs oor ts l \<equiv> rl_run (\<lambda>e l. Some (tb_Allow (fst e) (snd e) l)) (map (Pair oor) ts) l"

text \<open>
  C15: in every run of \<open>Allow\<close> calls from a new limiter, at whatever clock readings, the bucket
  holds between 0 and \<open>burst\<close> tokens, and after \<open>Close\<close> every further call is rejected.
\<close>

theorem tb_tokens_bounded:
  assumes "tb_New rate burst t0 = Inr l" "f64 burst = burst"
  shows "\<exists>oks l'. tb_runs oor ts l = Some (oks, l') \<and> 0 \<le> tb_tokens l' \<and> tb_tokens l' \<le> burst \<and>
    tb_runs oor us (tb_Close l') = Some (replicate (length us) False, tb_Close l')"
proof -
  have burst: "tb_burst l' = burst" if "tb_runs oor ts l = Some (oks, l')" for oks l'
  proof -
    have "tb_burst l' = tb_burst l"
      using that by (rule rl_run_keeps[rotated])
        (auto simp: tb_Allow_def tb_takeLocked_def Let_def split: if_splits)
    then show ?thesis using assms(1) by (auto simp: tb_New_def split: if_splits)
  qed
  obtain oks l' where r: "tb_runs oor ts l = Some (oks, l')" "tb_inv l'"
    using tb.run_total[OF tb_New_inv[OF assms(2,1)], of "map (Pair oor) ts"] by (auto simp: list_all_iff)
  then show ?thesis
    using burst[OF r(1)] tb.after_close[of "map (Pair oor) us" l'] by (auto simp: tb_inv_def)
qed

theorem tb_tokens_bounded_witness:
  "\<exists>l oks l'. tb_New 100 3 0 = Inr l \<and> tb_runs (\<lambda>_. 0) [0, 5, 1000000000] l = Some (oks, l') \<and>
     0 \<le> tb_tokens l' \<and> tb_tokens l' \<le> 3"
proof -
  obtain l where l: "tb_New 100 3 0 = Inr l" by (simp add: tb_New_def)
  have "f64 3 = 3" by code_simp
  from tb_tokens_bounded[OF l this, of "\<lambda>_. 0" "[0, 5, 1000000000]" "[]"] l show ?thesis by blast
qed

lemma f64_int_pred: "0 < k \<Longrightarrow> k \<le> 2 ^ 53 \<Longrightarrow> f64 (of_int k - 1) = of_int (k - 1)"
  using f64_of_int[of "k - 1"] by simp

text \<open>
  The wait for one missing token: positive for rates up to \<open>2 ^ 29\<close> per second, truncated to zero
  for any deficit at rates from \<open>2 ^ 30\<close> on.
\<close>

lemma f64_pow2 [simp]: "f64 (2 powi k) = 2 powi k"
  using f64_dyadic[of 1 k] by simp

lemma tb_wait_pos:
  assumes "1 / 2 ^ 30 \<le> r" "r \<le> 2 ^ 29"
  shows "0 < f2i oor (f64 (f64 (1 / r) * of_int Second))"
proof -
  have r: "0 < r" using assms(1) by (rule less_le_trans[rotated]) simp
  have b: "2 powi (- 29) \<le> 1 / r" "1 / r \<le> 2 powi 30"
    using assms r by (simp_all add: field_simps power_int_def)
  have i: "2 powi (- 29) \<le> f64 (1 / r)" "f64 (1 / r) \<le> 2 powi 30"
    by (rule f64_ge[OF b(1) f64_pow2], rule f64_le[OF b(2) f64_pow2])
  have "1 \<le> 2 powi (- 29) * (of_int Second :: rat)" by (simp add: power_int_def power_divide)
  also have "\<dots> \<le> f64 (1 / r) * of_int Second" by (rule mult_right_mono[OF i(1)]) simp
  finally have lo: "1 \<le> f64 (f64 (1 / r) * of_int Second)"
    using f64_of_int[of 1] by (intro f64_ge) simp_all
  have "f64 (1 / r) * of_int Second \<le> 2 powi 30 * (of_int Second :: rat)"
    by (rule mult_right_mono[OF i(2)]) simp
  also have "\<dots> \<le> 2 powi 60" by (simp add: power_int_def)
  finally have hi: "f64 (f64 (1 / r) * of_int Second) \<le> of_int (2 ^ 60)"
    using f64_le[OF _ f64_pow2[of 60]] by (simp add: power_int_def)
  have "1 \<le> rat_trunc (f64 (f64 (1 / r) * of_int Second))"
    using rat_trunc_mono[OF lo] rat_trunc_of_int[of 1] by simp
  moreover have "rat_trunc (f64 (f64 (1 / r) * of_int Second)) \<le> 2 ^ 60"
    using rat_trunc_mono[OF hi] unfolding rat_trunc_of_int .
  ultimately show ?thesis by (simp add: f2i_in_range)
qed

lemma tb_wait_zero:
  assumes "2 ^ 30 \<le> r" "0 \<le> d" "d \<le> 1"
  shows "f2i oor (f64 (f64 (d / r) * of_int Second)) = 0"
proof -
  have "d / r \<le> 1 / 2 ^ 30" using assms by (intro frac_le) auto
  then have "f64 (d / r) \<le> 2 powi (- 30)"
    by (intro f64_le f64_pow2) (simp add: power_int_def power_divide)
  then have "f64 (d / r) * of_int Second \<le> 2 powi (- 30) * of_int Second" by (rule mult_right_mono) simp
  also have "\<dots> \<le> of_int 15 * 2 powi (- 4)" by (simp add: power_int_def power_divide)
  finally have "f64 (f64 (d / r) * of_int Second) \<le> of_int 15 * 2 powi (- 4)"
    using f64_dyadic[of 15 "- 4"] by (intro f64_le) auto
  moreover have "0 \<le> f64 (f64 (d / r) * of_int Second)"
    using assms by (intro f64_nonneg mult_nonneg_nonneg) auto
  ultimately have "rat_trunc (f64 (f64 (d / r) * of_int Second)) = 0"
    by (simp add: rat_trunc_def floor_eq_iff power_int_def power_divide)
  then show ?thesis by (simp add: f2i_in_range)
qed

lemma tb_replenish_same [simp]: "tb_replenish (tb_last l) l = l"
  by (simp add: tb_replenish_def dur_Seconds_def go_quot_def go_rem_def)

lemma tb_Allow_instant:
  assumes "\<not> tb_closed l" "tb_tokens l = of_nat k" "k \<le> 2 ^ 53" "1 / 2 ^ 30 \<le> tb_rate l" "tb_rate l \<le> 2 ^ 29"
  shows "tb_Allow oor (tb_last l) l =
    (if k = 0 then ((False, Some ErrLimited), l) else ((True, None), l\<lparr>tb_tokens := of_nat (k - 1)\<rparr>))"
proof (cases k)
  case 0
  then show ?thesis using assms tb_wait_pos[OF assms(4,5), of oor] f64_of_int[of 1]
    by (simp add: tb_Allow_def tb_takeLocked_def)
next
  case (Suc j)
  then have "f64 (of_nat k - 1) = of_nat j" using f64_of_nat[of j] assms(3) by simp
  with Suc assms show ?thesis by (simp add: tb_Allow_def tb_takeLocked_def)
qed

text \<open>
  The burst. At one instant, a bucket with \<open>k\<close> whole tokens admits exactly the first \<open>k\<close> of
  any number of \<open>Allow\<close> calls and rejects the rest, for every rate between \<open>2 ^ -30\<close> and \<open>2 ^ 29\<close>
  tokens per second.
\<close>

theorem tb_burst_exact:
  assumes "\<not> tb_closed l" "tb_tokens l = of_nat k" "k \<le> 2 ^ 53" "1 / 2 ^ 30 \<le> tb_rate l" "tb_rate l \<le> 2 ^ 29"
  shows "tb_runs oor (replicate m (tb_last l)) l =
    Some (map (\<lambda>i. i < k) [0..<m], l\<lparr>tb_tokens := of_nat (k - m)\<rparr>)"
  using assms
proof (induction m arbitrary: l k)
  case 0
  then show ?case by simp
next
  case (Suc m)
  have up: "[0..<Suc m] = 0 # map Suc [0..<m]" by (simp add: upt_conv_Cons map_Suc_upt del: upt_Suc)
  note a = tb_Allow_instant[OF Suc.prems, of oor]
  show ?case
  proof (cases k)
    case 0
    then show ?thesis using a Suc.IH[OF Suc.prems] by (simp add: up comp_def del: upt_Suc)
  next
    case (Suc j)
    then show ?thesis using a Suc.prems Suc.IH[of "l\<lparr>tb_tokens := of_nat j\<rparr>" j]
      by (simp add: up comp_def del: upt_Suc)
  qed
qed

theorem tb_burst_exact_witness:
  "\<exists>l l'. tb_New 100 2 7 = Inr l \<and> tb_runs (\<lambda>_. 0) [7, 7, 7] l = Some ([True, True, False], l')"
proof -
  obtain l where l: "tb_New 100 2 7 = Inr l" "\<not> tb_closed l" "tb_tokens l = of_nat 2" "tb_rate l = 100"
    "tb_last l = 7" by (simp add: tb_New_def)
  then have "tb_runs (\<lambda>_. 0) [7, 7, 7] l = Some ([True, True, False], l\<lparr>tb_tokens := of_nat (2 - 3)\<rparr>)"
    using tb_burst_exact[of l 2 "\<lambda>_. 0" 3] by (simp add: numeral_3_eq_3)
  with l(1) show ?thesis by blast
qed

text \<open>
  At rates from \<open>2 ^ 30\<close> tokens per second on, the limiter never rejects: the wait for a
  missing token is below a nanosecond, is truncated to zero, and \<open>Allow\<close> takes a zero wait for a
  token consumed. Every \<open>Allow\<close> on an open limiter is admitted, and one that finds less than a
  token leaves the bucket as it is.
\<close>

theorem tb_fast_rate_never_limits:
  assumes "tb_inv l" "\<not> tb_closed l" "2 ^ 30 \<le> tb_rate l"
  shows "fst (tb_Allow oor now l) = (True, None) \<and>
    (tb_tokens (tb_replenish now l) < 1 \<longrightarrow> snd (tb_Allow oor now l) = tb_replenish now l)"
proof -
  let ?l = "tb_replenish now l"
  have "0 \<le> tb_tokens ?l" using tb_replenish_inv[OF assms(1), of now] by (simp add: tb_inv_def)
  then have "f64 (1 - tb_tokens ?l) \<le> 1" using f64_of_int[of 1] by (intro f64_le) simp_all
  moreover have "0 \<le> f64 (1 - tb_tokens ?l)" if "tb_tokens ?l < 1" using that by (intro f64_nonneg) simp
  ultimately show ?thesis
    using assms(2) tb_wait_zero[OF assms(3), of "f64 (1 - tb_tokens ?l)" oor]
    by (auto simp: tb_Allow_def tb_takeLocked_def Let_def)
qed

theorem tb_fast_rate_never_limits_witness:
  "\<exists>l. tb_New (2 ^ 30) 1 7 = Inr l \<and> fst (tb_Allow (\<lambda>_. 0) 7 (l\<lparr>tb_tokens := 0\<rparr>)) = (True, None)"
proof -
  have f: "f64 1 = 1" using f64_of_int[of 1] by simp
  obtain l where l: "tb_New (2 ^ 30) 1 7 = Inr l" "tb_rate l = 2 ^ 30" "\<not> tb_closed l" "tb_burst l = 1"
    by (simp add: tb_New_def)
  have "tb_inv (l\<lparr>tb_tokens := 0\<rparr>)" using l f by (simp add: tb_inv_def)
  from tb_fast_rate_never_limits[OF this, of "\<lambda>_. 0" 7] l show ?thesis by auto
qed

text \<open>
  How \<open>Wait\<close> ends, whatever other goroutines do to the limiter while it is blocked: with
  \<open>WaitOk\<close> only on a limiter that was open in that turn and whose take left no positive wait, with
  the limiter's own error only once it was found closed, and with the context's error only if the
  context was done. It is still blocked only if every turn ended with the timer.
\<close>

theorem tb_Wait_outcomes:
  "case fst (tb_Wait oor ts l) of
     Some WaitOk \<Rightarrow> \<exists>now wake others l0. (now, wake, others) \<in> set ts \<and> \<not> tb_closed l0 \<and>
        snd (fst (tb_takeLocked oor now 1 l0)) \<le> 0 \<and> snd (tb_Wait oor ts l) = snd (tb_takeLocked oor now 1 l0)
   | Some WaitLimited \<Rightarrow> tb_closed (snd (tb_Wait oor ts l))
   | Some (WaitCtx err) \<Rightarrow> \<exists>now others. (now, CtxDone err, others) \<in> set ts
   | None \<Rightarrow> \<forall>t. t \<in> set ts \<longrightarrow> fst (snd t) = TimerFired"
proof (induction ts arbitrary: l)
  case (Cons t ts)
  obtain now wake others where t: "t = (now, wake, others)" by (metis prod.exhaust)
  obtain n w l1 where k: "tb_takeLocked oor now 1 l = ((n, w), l1)" by (metis prod.exhaust)
  show ?case
  proof (cases "\<not> tb_closed l \<and> 0 < w \<and> wake = TimerFired")
    case True
    then have "tb_Wait oor (t # ts) l = tb_Wait oor ts (others l1)" by (simp add: t k)
    then show ?thesis using Cons.IH[of "others l1"] True
      by (auto simp: t split: option.splits tb_outcome.splits)
  next
    case False
    have ok: "\<exists>now' wake' others' l0. (now', wake', others') \<in> set (t # ts) \<and> \<not> tb_closed l0 \<and>
        snd (fst (tb_takeLocked oor now' 1 l0)) \<le> 0 \<and> l1 = snd (tb_takeLocked oor now' 1 l0)"
      if "\<not> tb_closed l" "w \<le> 0"
      using that k by (intro exI[of _ now] exI[of _ wake] exI[of _ others] exI[of _ l]) (simp add: t)
    consider "tb_closed l" | "\<not> tb_closed l" "w \<le> 0" | err where "\<not> tb_closed l" "0 < w" "wake = CtxDone err"
      using False by (metis not_less tb_wake.exhaust)
    then show ?thesis
    proof cases
      case 2
      then have "tb_Wait oor (t # ts) l = (Some WaitOk, l1)" by (simp add: t k)
      with ok 2 show ?thesis by simp
    qed (use k in \<open>auto simp: t\<close>)
  qed
qed simp

theorem tb_Wait_outcomes_witness:
  "\<exists>l. tb_New 100 1 7 = Inr l \<and> tb_closed (tb_Close l) \<and>
     tb_Wait (\<lambda>_. 0) [(7, CtxDone (), id)] (tb_Close l) = (Some WaitLimited, tb_Close l)"
proof -
  obtain l where l: "tb_New 100 1 7 = Inr l" by (simp add: tb_New_def)
  have "fst (tb_Wait (\<lambda>_. 0) [(7, CtxDone (), id)] (tb_Close l)) = Some WaitLimited"
    by (simp add: tb_Close_def)
  with tb_Wait_outcomes[where oor = "\<lambda>_. 0" and ts = "[(7, CtxDone (), id)]" and l = "tb_Close l"] l
  show ?thesis by (simp add: tb_Close_def)
qed

end
