(* ===== verification/Bbr.thy ===== *)
theory Bbr
  imports Rate_Limit Ring_Window
begin

text \<open>
  \<open>ratelimit/bbr/bbr.go\<close>: the adaptive limiter. Its ring is the one of \<^theory_text>\<open>Ring_Window\<close> with the
  index written differently (\<open>bb_rotate_eq\<close> shows the two agree). The lemmas show that the estimate
  never falls below the configured minimum, that an admission keeps the number of requests in
  flight within the limit just computed, and that an idle limiter always admits.
\<close>

section \<open>Configuration and state\<close>

record bb_config =
  bb_cpuThreshold :: float64
  bb_window :: duration
  bb_bucketCount :: int
  bb_minQPS :: float64

definition bb_defaults :: bb_config where
  "bb_defaults = \<lparr>bb_cpuThreshold = f64 (8 / 10), bb_window = 10 * Second, bb_bucketCount = 40,
     bb_minQPS = 1\<rparr>"

datatype bb_option =
    Bb_WithCPUThreshold float64
  | Bb_WithWindow duration
  | Bb_WithBucketCount int
  | Bb_WithMinQPS float64

fun bb_apply :: "bb_option \<Rightarrow> bb_config \<Rightarrow> bb_config" where
  "bb_apply (Bb_WithCPUThreshold t) c = (if t > 0 \<and> t < 1 then c\<lparr>bb_cpuThreshold := t\<rparr> else c)"
| "bb_apply (Bb_WithWindow d) c = (if d > 0 then c\<lparr>bb_window := d\<rparr> else c)"
| "bb_apply (Bb_WithBucketCount n) c = (if n > 0 then c\<lparr>bb_bucketCount := n\<rparr> else c)"
| "bb_apply (Bb_WithMinQPS q) c = (if q > 0 then c\<lparr>bb_minQPS := q\<rparr> else c)"

record bb_bucket =
  bb_startTime :: int
  bb_count :: int
  bb_totalRTT :: int

definition bb_zero :: bb_bucket where
  "bb_zero = \<lparr>bb_startTime = 0, bb_count = 0, bb_totalRTT = 0\<rparr>"

record bb_limiter =
  bb_cfg :: bb_config
  bb_bucketDuration :: duration
  bb_buckets :: "bb_bucket list"
  bb_lastBucketTime :: go_time
  bb_inflight :: int
  bb_lastDropTime :: go_time
  bb_maxInflight :: int
  bb_closed :: bool

definition bb_New :: "bb_option list \<Rightarrow> go_time \<Rightarrow> bb_limiter" where
  "bb_New opts now =
     (let cfg = fold bb_apply opts bb_defaults
      in \<lparr>bb_cfg = cfg,
          bb_bucketDuration = go_quot (bb_window cfg) (bb_bucketCount cfg),
          bb_buckets = replicate (nat (bb_bucketCount cfg)) bb_zero,
          bb_lastBucketTime = now,
          bb_inflight = 0, bb_lastDropTime = zero_Time, bb_maxInflight = 0, bb_closed = False\<rparr>)"

section \<open>Operations\<close>

definition bb_currentBucketIndexLocked :: "duration \<Rightarrow> bb_bucket list \<Rightarrow> go_time \<Rightarrow> int option" where
  "bb_currentBucketIndexLocked bd bks now = bucketIndexLocked bd bks now"

definition bb_rotate_clear ::
  "duration \<Rightarrow> go_time \<Rightarrow> int \<Rightarrow> nat \<Rightarrow> bb_bucket list \<Rightarrow> bb_bucket list option" where
  "bb_rotate_clear bd now steps i bks = do {
     ix \<leftarrow> bb_currentBucketIndexLocked bd bks now;
     let n = int (length bks);
     let idx = ix - steps + int i + 1;
     let idx = (if idx < 0 then idx + n else idx);
     slice_set bks (go_rem idx n) bb_zero
   }"

definition bb_rotateLocked :: "go_time \<Rightarrow> bb_limiter \<Rightarrow> bb_limiter option" where
  "bb_rotateLocked now l =
     (if bb_bucketDuration l = 0 then None
      else let elapsed = time_Sub now (bb_lastBucketTime l);
               steps = go_quot elapsed (bb_bucketDuration l);
               n = int (length (bb_buckets l))
           in if steps \<le> 0 then Some l
              else if steps \<ge> n
                   then Some (l\<lparr>bb_buckets := map (\<lambda>_. bb_zero) (bb_buckets l), bb_lastBucketTime := now\<rparr>)
              else map_option (\<lambda>bks. l\<lparr>bb_buckets := bks, bb_lastBucketTime := now\<rparr>)
                     (fold_opt (bb_rotate_clear (bb_bucketDuration l) now steps) [0..<nat steps] (bb_buckets l)))"

text \<open>The loop of the estimate: total count, smallest average latency, and whether a bucket counted.\<close>

definition bb_scan :: "bb_bucket list \<Rightarrow> int \<times> duration \<times> bool" where
  "bb_scan bks =
     fold (\<lambda>b (totalCount, minRTT, zero).
             if bb_count b > 0
             then let avgRTT = go_quot (bb_totalRTT b) (bb_count b)
                  in (totalCount + bb_count b, if avgRTT < minRTT then avgRTT else minRTT, False)
             else (totalCount, minRTT, zero))
       bks (0, max64, True)"

definition bb_estimateMaxQPSLocked :: "bb_limiter \<Rightarrow> float64" where
  "bb_estimateMaxQPSLocked l =
     (let (totalCount, minRTT, zero) = bb_scan (bb_buckets l); minQPS = bb_minQPS (bb_cfg l)
      in if zero \<or> minRTT \<le> 0 then minQPS
         else let secs = dur_Seconds (bb_window (bb_cfg l));
                  qps = f64 (f64 (of_int totalCount) / secs);
                  qps = (if qps < minQPS then minQPS else qps);
                  maxPass = f64 (secs / dur_Seconds minRTT);
                  qps = (if maxPass < qps then maxPass else qps)
              in max qps minQPS)"

definition bb_Allow :: "(float64 \<Rightarrow> int) \<Rightarrow> go_time \<Rightarrow> bb_limiter \<Rightarrow> bb_limiter rl_answer option" where
  "bb_Allow oor now l =
     (if bb_closed l then Some ((False, Some ErrLimited), l)
      else do {
        l \<leftarrow> bb_rotateLocked now l;
        let maxQPS = bb_estimateMaxQPSLocked l;
        let maxInflight = f2i oor (f64 (maxQPS * bb_cpuThreshold (bb_cfg l)));
        let maxInflight = (if maxInflight < 1 then 1 else maxInflight);
        let l = l\<lparr>bb_maxInflight := maxInflight\<rparr>;
        Some (if bb_inflight l \<ge> maxInflight
              then ((False, Some ErrLimited), l\<lparr>bb_lastDropTime := now\<rparr>)
              else ((True, None), l\<lparr>bb_inflight := bb_inflight l + 1\<rparr>))
      })"

definition bb_Done :: "duration \<Rightarrow> go_time \<Rightarrow> bb_limiter \<Rightarrow> bb_limiter option" where
  "bb_Done rtt now l = do {
     l \<leftarrow> bb_rotateLocked now (l\<lparr>bb_inflight := bb_inflight l - 1\<rparr>);
     idx \<leftarrow> bb_currentBucketIndexLocked (bb_bucketDuration l) (bb_buckets l) now;
     bk \<leftarrow> slice_get (bb_buckets l) idx;
     bks \<leftarrow> slice_set (bb_buckets l) idx
       (bk\<lparr>bb_count := bb_count bk + 1, bb_totalRTT := i64 (bb_totalRTT bk + rtt)\<rparr>);
     Some (l\<lparr>bb_buckets := bks\<rparr>)
   }"

text \<open>
  \<open>Wait\<close> retries \<open>Allow\<close>; each turn has its clock reading, whether the context is done in the
  \<open>select\<close>, and what other goroutines do before the next turn. The outer option is a panic, the
  inner \<open>None\<close> means still blocked when the turns are used up.
\<close>

fun bb_Wait ::
  "(float64 \<Rightarrow> int) \<Rightarrow> (go_time \<times> 'x option \<times> (bb_limiter \<Rightarrow> bb_limiter)) list \<Rightarrow> bb_limiter \<Rightarrow>
   ('x option option \<times> bb_limiter) option" where
  "bb_Wait oor [] l = Some (None, l)"
| "bb_Wait oor ((now, done, others) # ts) l =
     Option.bind (bb_Allow oor now l) (\<lambda>((ok, err), l).
       if err = None \<and> ok then Some (Some None, l)
       else case done of
              Some e \<Rightarrow> Some (Some (Some e), l)
            | None \<Rightarrow> bb_Wait oor ts (others l))"

definition bb_Close :: "bb_limiter \<Rightarrow> bb_limiter" where
  "bb_Close l = l\<lparr>bb_closed := True\<rparr>"

definition bb_MaxInflight :: "bb_limiter \<Rightarrow> int" where
  "bb_MaxInflight l = bb_maxInflight l"

section \<open>The ring\<close>

lemma bb_rotate_clear_eq:
  assumes "0 < bd" "bks \<noteq> []" "0 \<le> now" "0 < steps" "steps < int (length bks)" "int i < steps"
  shows "bb_rotate_clear bd now steps i bks = rotate_clear bb_zero bd now steps i bks"
proof -
  let ?n = "int (length bks)" and ?ix = "(now div bd) mod int (length bks)"
  have ix: "0 \<le> ?ix" "?ix < ?n" using assms(2) by simp_all
  have "go_rem (if ?ix - steps + int i + 1 < 0 then ?ix - steps + int i + 1 + ?n else ?ix - steps + int i + 1) ?n =
      go_rem (?ix - steps + int i + 1 + ?n) ?n"
    using ix assms by (auto simp: go_rem_nonneg)
  then show ?thesis
    using assms(1-3)
    by (simp add: bb_rotate_clear_def rotate_clear_def bb_currentBucketIndexLocked_def bucketIndexLocked_eq Let_def)
qed

lemma fold_opt_cong_inv:
  assumes "\<And>x s. x \<in> set xs \<Longrightarrow> I s \<Longrightarrow> f x s = g x s" "\<And>x s s'. I s \<Longrightarrow> g x s = Some s' \<Longrightarrow> I s'" "I s"
  shows "fold_opt f xs s = fold_opt g xs s"
  using assms(1,3)
proof (induction xs arbitrary: s)
  case (Cons x xs)
  show ?case
  proof (cases "g x s")
    case None
    then show ?thesis using Cons.prems by simp
  next
    case (Some s')
    then show ?thesis using Cons.prems Cons.IH[of s'] assms(2) by simp
  qed
qed simp

lemma bb_rotate_eq:
  assumes "0 < bb_bucketDuration l" "bb_buckets l \<noteq> []" "0 \<le> now"
  shows "bb_rotateLocked now l =
    map_option (\<lambda>(bks, lastR). l\<lparr>bb_buckets := bks, bb_lastBucketTime := lastR\<rparr>)
      (rotateLocked bb_zero (bb_bucketDuration l) now (bb_buckets l) (bb_lastBucketTime l))"
proof -
  let ?steps = "go_quot (time_Sub now (bb_lastBucketTime l)) (bb_bucketDuration l)"
  let ?I = "\<lambda>bks :: bb_bucket list. length bks = length (bb_buckets l)"
  have "fold_opt (bb_rotate_clear (bb_bucketDuration l) now ?steps) [0..<nat ?steps] (bb_buckets l) =
      fold_opt (rotate_clear bb_zero (bb_bucketDuration l) now ?steps) [0..<nat ?steps] (bb_buckets l)"
    if "0 < ?steps" "?steps < int (length (bb_buckets l))"
  proof (rule fold_opt_cong_inv[where I = ?I])
    fix i and bks :: "bb_bucket list" assume "i \<in> set [0..<nat ?steps]" "?I bks"
    then show "bb_rotate_clear (bb_bucketDuration l) now ?steps i bks =
        rotate_clear bb_zero (bb_bucketDuration l) now ?steps i bks"
      using assms that by (intro bb_rotate_clear_eq) auto
  next
    fix i and bks bks' :: "bb_bucket list" assume "?I bks" "rotate_clear bb_zero (bb_bucketDuration l) now ?steps i bks = Some bks'"
    then show "?I bks'" by (auto simp: rotate_clear_def Let_def bind_eq_Some_conv dest: slice_set_length)
  qed simp
  then show ?thesis using assms(1)
    by (auto simp: bb_rotateLocked_def rotateLocked_def Let_def resetBucketsLocked_def option.map_comp comp_def)
qed

section \<open>Invariant\<close>

definition bb_inv :: "bb_limiter \<Rightarrow> bool" where
  "bb_inv l \<longleftrightarrow> 0 < bb_bucketDuration l \<and> bb_buckets l \<noteq> []"

lemma bb_New_inv:
  assumes "bb_bucketCount (bb_cfg (bb_New opts now)) \<le> bb_window (bb_cfg (bb_New opts now))"
  shows "bb_inv (bb_New opts now)"
proof -
  have step: "0 < bb_window (bb_apply opt c) \<and> 0 < bb_bucketCount (bb_apply opt c)"
    if "0 < bb_window c \<and> 0 < bb_bucketCount c" for opt c
    using that by (cases opt) auto
  have "0 < bb_window (fold bb_apply opts c) \<and> 0 < bb_bucketCount (fold bb_apply opts c)"
    if "0 < bb_window c \<and> 0 < bb_bucketCount c" for c
    using that by (induction opts arbitrary: c) (simp_all add: step)
  from this[of bb_defaults] assms show ?thesis
    by (auto simp: bb_inv_def bb_New_def Let_def bb_defaults_def pos_imp_zdiv_pos_iff)
qed

lemma bb_rotateLocked_total:
  assumes "bb_inv l" "0 \<le> now"
  obtains bks lastR where "bb_rotateLocked now l = Some (l\<lparr>bb_buckets := bks, bb_lastBucketTime := lastR\<rparr>)"
    "bks \<noteq> []"
proof -
  obtain bks lastR where r: "rotateLocked bb_zero (bb_bucketDuration l) now (bb_buckets l) (bb_lastBucketTime l) =
      Some (bks, lastR)" "length bks = length (bb_buckets l)"
    using assms rotateLocked_total[of "bb_bucketDuration l" "bb_buckets l" now bb_zero "bb_lastBucketTime l"]
    by (metis bb_inv_def)
  moreover have "bks \<noteq> []" using r(2) assms(1) by (auto simp: bb_inv_def)
  ultimately show thesis
    using that[of lastR bks] bb_rotate_eq[of l now] assms by (simp add: bb_inv_def)
qed

lemma bb_estimate_ge: "bb_minQPS (bb_cfg l) \<le> bb_estimateMaxQPSLocked l"
  by (simp add: bb_estimateMaxQPSLocked_def Let_def split: prod.split)

lemma bb_Allow_open:
  assumes "bb_inv l" "0 \<le> now" "\<not> bb_closed l"
  shows "\<exists>ok l'. bb_Allow oor now l = Some ((ok, if ok then None else Some ErrLimited), l') \<and> bb_inv l' \<and>
    \<not> bb_closed l' \<and> 1 \<le> bb_maxInflight l' \<and> ok = (bb_inflight l < bb_maxInflight l') \<and>
    bb_inflight l' = bb_inflight l + (if ok then 1 else 0)"
proof -
  obtain bks lastR where r: "bb_rotateLocked now l = Some (l\<lparr>bb_buckets := bks, bb_lastBucketTime := lastR\<rparr>)"
      "bks \<noteq> []" using bb_rotateLocked_total[OF assms(1,2)] by blast
  let ?l = "l\<lparr>bb_buckets := bks, bb_lastBucketTime := lastR\<rparr>"
  let ?m = "f2i oor (f64 (bb_estimateMaxQPSLocked ?l * bb_cpuThreshold (bb_cfg ?l)))"
  define k where "k = (if ?m < 1 then 1 else ?m)"
  have "bb_Allow oor now l = Some (if k \<le> bb_inflight l
      then ((False, Some ErrLimited), ?l\<lparr>bb_maxInflight := k, bb_lastDropTime := now\<rparr>)
      else ((True, None), ?l\<lparr>bb_maxInflight := k, bb_inflight := bb_inflight l + 1\<rparr>))"
    using r(1) assms(3) by (simp add: bb_Allow_def Let_def k_def)
  moreover have "1 \<le> k" by (simp add: k_def)
  ultimately show ?thesis using assms r(2)
    by (intro exI[of _ "\<not> k \<le> bb_inflight l"]) (auto simp: bb_inv_def)
qed

lemma bb_Done_total:
  assumes "bb_inv l" "0 \<le> now"
  obtains l' where "bb_Done rtt now l = Some l'" "bb_inv l'" "bb_inflight l' = bb_inflight l - 1"
    "bb_closed l' = bb_closed l"
proof -
  let ?l0 = "l\<lparr>bb_inflight := bb_inflight l - 1\<rparr>"
  have "bb_inv ?l0" using assms(1) by (simp add: bb_inv_def)
  then obtain bks lastR where r: "bb_rotateLocked now ?l0 = Some (?l0\<lparr>bb_buckets := bks, bb_lastBucketTime := lastR\<rparr>)"
      "bks \<noteq> []" using bb_rotateLocked_total[OF _ assms(2)] by blast
  let ?k = "(now div bb_bucketDuration l) mod int (length bks)"
  have k: "0 \<le> ?k" "?k < int (length bks)" using r(2) by simp_all
  have "bb_currentBucketIndexLocked (bb_bucketDuration l) bks now = Some ?k"
    using r(2) assms by (simp add: bb_currentBucketIndexLocked_def bucketIndexLocked_eq bb_inv_def)
  then show thesis
    using that assms r k by (simp add: bb_Done_def slice_get_def slice_set_def bb_inv_def)
qed

definition bb_env_ok :: "(float64 \<Rightarrow> int) \<times> go_time \<Rightarrow> bool" where
  "bb_env_ok e \<longleftrightarrow> 0 \<le> snd e"

interpretation bb: limiter "\<lambda>e. bb_Allow (fst e) (snd e)" bb_Close bb_closed bb_inv bb_env_ok
proof unfold_locales
  fix l and e :: "(float64 \<Rightarrow> int) \<times> go_time"
  assume l: "bb_inv l" "bb_env_ok e"
  show "\<exists>ok err l'. bb_Allow (fst e) (snd e) l = Some ((ok, err), l') \<and> bb_inv l' \<and> ok = (err = None) \<and>
      bb_closed l' = bb_closed l"
  proof (cases "bb_closed l")
    case True
    then show ?thesis using l by (auto simp: bb_Allow_def)
  next
    case False
    then obtain ok l' where "bb_Allow (fst e) (snd e) l = Some ((ok, if ok then None else Some ErrLimited), l')"
      "bb_inv l'" "\<not> bb_closed l'"
      using l bb_Allow_open[of l "snd e" "fst e"] by (auto simp: bb_env_ok_def)
    with False show ?thesis by auto
  qed
qed (auto simp: bb_Allow_def bb_Close_def bb_inv_def)

section \<open>Properties\<close>

text \<open>
  The admission rule. On an open limiter \<open>Allow\<close> computes a limit of at least one and admits
  exactly when fewer requests than that are in flight; an admission raises the number in flight by
  one and keeps it within the limit, a rejection leaves it. In particular an idle limiter admits,
  whatever the window says and whatever the machine makes of an out-of-range conversion.
\<close>

theorem bb_Allow_limit:
  assumes "bb_inv l" "0 \<le> now" "\<not> bb_closed l"
  shows "\<exists>ok err l'. bb_Allow oor now l = Some ((ok, err), l') \<and> 1 \<le> bb_MaxInflight l' \<and>
    ok = (bb_inflight l < bb_MaxInflight l') \<and> err = (if ok then None else Some ErrLimited) \<and>
    bb_inflight l' = bb_inflight l + (if ok then 1 else 0) \<and>
    (ok \<longrightarrow> bb_inflight l' \<le> bb_MaxInflight l') \<and> (bb_inflight l \<le> 0 \<longrightarrow> ok)"
proof -
  obtain ok l' where a: "bb_Allow oor now l = Some ((ok, if ok then None else Some ErrLimited), l')"
    "1 \<le> bb_maxInflight l'" "ok = (bb_inflight l < bb_maxInflight l')"
    "bb_inflight l' = bb_inflight l + (if ok then 1 else 0)"
    using bb_Allow_open[OF assms, of oor] by blast
  then have "1 \<le> bb_MaxInflight l' \<and> ok = (bb_inflight l < bb_MaxInflight l') \<and>
      bb_inflight l' = bb_inflight l + (if ok then 1 else 0) \<and>
      (ok \<longrightarrow> bb_inflight l' \<le> bb_MaxInflight l') \<and> (bb_inflight l \<le> 0 \<longrightarrow> ok)"
    by (simp add: bb_MaxInflight_def)
  with a(1) show ?thesis by blast
qed

theorem bb_Allow_limit_witness:
  "\<exists>ok err l'. bb_Allow (\<lambda>_. 0) 5 (bb_New [] 0) = Some ((ok, err), l') \<and> ok \<and> bb_inflight l' = 1"
proof -
  have "bb_inv (bb_New [] 0)" "\<not> bb_closed (bb_New [] 0)" "bb_inflight (bb_New [] 0) = 0" by code_simp+
  with bb_Allow_limit[of "bb_New [] 0" 5 "\<lambda>_. 0"] show ?thesis by auto
qed

text \<open>A history of \<open>Allow\<close> and \<open>Done\<close> calls; the result counts the admissions.\<close>

datatype bb_event = EvAllow "float64 \<Rightarrow> int" go_time | EvDone duration go_time

fun bb_event_ok :: "bb_event \<Rightarrow> bool" where
  "bb_event_ok (EvAllow oor now) = (0 \<le> now)"
| "bb_event_ok (EvDone rtt now) = (0 \<le> now)"

fun bb_history :: "bb_event list \<Rightarrow> bb_limiter \<Rightarrow> (nat \<times> bb_limiter) option" where
  "bb_history [] l = Some (0, l)"
| "bb_history (EvAllow oor now # es) l =
     Option.bind (bb_Allow oor now l) (\<lambda>((ok, _), l).
       map_option (map_prod (\<lambda>n. if ok then Suc n else n) id) (bb_history es l))"
| "bb_history (EvDone rtt now # es) l = Option.bind (bb_Done rtt now l) (bb_history es)"

fun bb_is_done :: "bb_event \<Rightarrow> bool" where
  "bb_is_done (EvDone rtt now) = True"
| "bb_is_done (EvAllow oor now) = False"

text \<open>
  The accounting of requests in flight. In every history of \<open>Allow\<close> and \<open>Done\<close> calls on an
  open limiter, no call panics and the number in flight at the end is the number at the start, plus
  the admissions, minus the completions, whatever latencies are reported.
\<close>

theorem bb_inflight_accounting:
  assumes "bb_inv l" "\<not> bb_closed l" "list_all bb_event_ok es"
  shows "\<exists>n l'. bb_history es l = Some (n, l') \<and>
    bb_inflight l' = bb_inflight l + int n - int (length (filter bb_is_done es))"
  using assms
proof (induction es arbitrary: l)
  case (Cons e es)
  show ?case
  proof (cases e)
    case (EvAllow oor now)
    obtain ok err l1 where a: "bb_Allow oor now l = Some ((ok, err), l1)" "bb_inv l1" "\<not> bb_closed l1"
      "bb_inflight l1 = bb_inflight l + (if ok then 1 else 0)"
      using Cons.prems bb_Allow_open[of l now oor] EvAllow by fastforce
    with EvAllow Cons.IH[of l1] Cons.prems show ?thesis by (cases ok) auto
  next
    case (EvDone rtt now)
    then obtain l1 where a: "bb_Done rtt now l = Some l1" "bb_inv l1" "\<not> bb_closed l1"
      "bb_inflight l1 = bb_inflight l - 1"
      using Cons.prems bb_Done_total[of l now rtt] by auto
    with EvDone Cons.IH[of l1] Cons.prems show ?thesis by auto
  qed
qed simp

theorem bb_inflight_accounting_witness:
  "\<exists>n l'. bb_history [EvAllow (\<lambda>_. 0) 5, EvDone 100 6] (bb_New [] 0) = Some (n, l') \<and>
     bb_inflight l' = int n - 1"
proof -
  have "bb_inv (bb_New [] 0)" "\<not> bb_closed (bb_New [] 0)" "bb_inflight (bb_New [] 0) = 0" by code_simp+
  with bb_inflight_accounting[of "bb_New [] 0" "[EvAllow (\<lambda>_. 0) 5, EvDone 100 6]"] show ?thesis
    by (auto simp del: bb_history.simps)
qed

end
