(* ===== verification/Retry.thy ===== *)
theory Retry
  imports Go_Prelude
begin

text \<open>
  \<open>retry/retry.go\<close>: the retrier, its backoff strategies, jitters and classifiers. \<open>Do\<close> is a loop on
  the number of attempts left; what an attempt reads from outside (the context, the clock, the
  random number) is a \<^theory_text>\<open>rt_turn\<close>, the caller's function acts on a world. The lemmas give the
  exact outcome of \<open>Do\<close>, the closed form of the exponential backoff and the range of the jitters.
\<close>

section \<open>Backoff strategies\<close>

text \<open>The Go interface is open; \<open>CustomBackoff\<close> stands for an implementation of the caller.\<close>

datatype rt_backoff =
    ExponentialBackoff duration float64 duration \<comment> \<open>Initial, Factor, Max\<close>
  | FixedBackoff duration
  | LinearBackoff duration duration duration \<comment> \<open>Initial, Step, Max\<close>
  | CustomBackoff "int \<Rightarrow> duration"

text \<open>The loop of the exponential delay; \<open>Inl\<close> is the early return of \<open>Max\<close>.\<close>

fun rt_exp_loop :: "(float64 \<Rightarrow> int) \<Rightarrow> float64 \<Rightarrow> duration \<Rightarrow> nat \<Rightarrow> float64 \<Rightarrow> duration + float64" where
  "rt_exp_loop oor factor mx 0 d = Inr d"
| "rt_exp_loop oor factor mx (Suc n) d =
     (let d = f64 (d * factor)
      in if mx > 0 \<and> f2i oor d > mx then Inl mx else rt_exp_loop oor factor mx n d)"

definition rt_exp_delay :: "(float64 \<Rightarrow> int) \<Rightarrow> duration \<Rightarrow> float64 \<Rightarrow> duration \<Rightarrow> int \<Rightarrow> duration" where
  "rt_exp_delay oor initial factor mx attempt =
     (case rt_exp_loop oor factor mx (nat attempt) (f64 (of_int initial)) of
        Inl w \<Rightarrow> w
      | Inr d \<Rightarrow> if mx > 0 \<and> f2i oor d > mx then mx else f2i oor d)"

definition rt_linear_delay :: "duration \<Rightarrow> duration \<Rightarrow> duration \<Rightarrow> int \<Rightarrow> duration" where
  "rt_linear_delay initial step mx attempt =
     (let d = i64 (initial + i64 (step * attempt)) in if mx > 0 \<and> d > mx then mx else d)"

fun rt_Delay :: "(float64 \<Rightarrow> int) \<Rightarrow> rt_backoff \<Rightarrow> int \<Rightarrow> duration" where
  "rt_Delay oor (ExponentialBackoff initial factor mx) attempt = rt_exp_delay oor initial factor mx attempt"
| "rt_Delay oor (FixedBackoff d) attempt = d"
| "rt_Delay oor (LinearBackoff initial step mx) attempt = rt_linear_delay initial step mx attempt"
| "rt_Delay oor (CustomBackoff f) attempt = f attempt"

section \<open>Jitter strategies\<close>

text \<open>A jitter receives the delay and the random number it draws.\<close>

definition rt_NoJitter :: "duration \<Rightarrow> float64 \<Rightarrow> duration" where
  "rt_NoJitter delay u = delay"

definition rt_FullJitter :: "(float64 \<Rightarrow> int) \<Rightarrow> duration \<Rightarrow> float64 \<Rightarrow> duration" where
  "rt_FullJitter oor delay u = f2i oor (f64 (f64 (of_int delay) * u))"

definition rt_EqualJitter :: "(float64 \<Rightarrow> int) \<Rightarrow> duration \<Rightarrow> float64 \<Rightarrow> duration" where
  "rt_EqualJitter oor delay u =
     (let half = go_quot delay 2 in i64 (half + f2i oor (f64 (f64 (of_int half) * u))))"

section \<open>Classifiers\<close>

definition rt_RetryAny :: "'e \<Rightarrow> bool" where
  "rt_RetryAny err = True"

definition rt_RetryNever :: "'e \<Rightarrow> bool" where
  "rt_RetryNever err = False"

definition rt_RetryIf :: "('e \<Rightarrow> bool) \<Rightarrow> 'e \<Rightarrow> bool" where
  "rt_RetryIf pred = pred"

section \<open>The retrier\<close>

record 'e rt_retrier =
  rt_maxAttempts :: int
  rt_backoff :: rt_backoff
  rt_jitter :: "duration \<Rightarrow> float64 \<Rightarrow> duration"
  rt_classifier :: "'e \<Rightarrow> bool"
  rt_maxTotalWait :: duration

datatype 'e rt_option =
    Rt_WithMaxAttempts int
  | Rt_WithBackoff rt_backoff
  | Rt_WithJitter "duration \<Rightarrow> float64 \<Rightarrow> duration"
  | Rt_WithClassifier "'e \<Rightarrow> bool"
  | Rt_WithMaxTotalWait duration

fun rt_apply :: "'e rt_option \<Rightarrow> 'e rt_retrier \<Rightarrow> 'e rt_retrier" where
  "rt_apply (Rt_WithMaxAttempts n) r = (if n \<ge> 1 then r\<lparr>rt_maxAttempts := n\<rparr> else r)"
| "rt_apply (Rt_WithBackoff b) r = r\<lparr>rt_backoff := b\<rparr>"
| "rt_apply (Rt_WithJitter j) r = r\<lparr>rt_jitter := j\<rparr>"
| "rt_apply (Rt_WithClassifier c) r = r\<lparr>rt_classifier := c\<rparr>"
| "rt_apply (Rt_WithMaxTotalWait d) r = r\<lparr>rt_maxTotalWait := d\<rparr>"

definition rt_New :: "'e rt_option list \<Rightarrow> 'e rt_retrier" where
  "rt_New opts = fold rt_apply opts
     \<lparr>rt_maxAttempts = 3, rt_backoff = ExponentialBackoff (200 * Millisecond) 2 (10 * Second),
      rt_jitter = rt_NoJitter, rt_classifier = rt_RetryAny, rt_maxTotalWait = 0\<rparr>"

datatype ('e, 'c) rt_error =
    ContextErr 'c
  | FnErr 'e
  | Join_ErrTimeout 'e
  | Join_ErrMaxAttempts "'e option"

text \<open>
  What the loop reads in one attempt: the context's error before the call, the random number, the
  clock after the failed call, and the context's error if it is done during the sleep.
\<close>

record 'c rt_turn =
  rt_ctxErr :: "'c option"
  rt_random :: float64
  rt_now :: go_time
  rt_sleepErr :: "'c option"

text \<open>
  One failed, retryable attempt that is not the last: the wait to sleep for, or \<open>None\<close> if the total
  wait is used up.
\<close>

definition rt_wait :: "(float64 \<Rightarrow> int) \<Rightarrow> 'e rt_retrier \<Rightarrow> go_time \<Rightarrow> 'c rt_turn \<Rightarrow> int \<Rightarrow> duration option" where
  "rt_wait oor r start t attempt =
     (let wait = rt_jitter r (rt_Delay oor (rt_backoff r) attempt) (rt_random t)
      in if rt_maxTotalWait r > 0
         then let elapsed = time_Sub (rt_now t) start;
                  remaining = i64 (rt_maxTotalWait r - elapsed)
              in if remaining \<le> 0 then None
                 else Some (if wait > remaining then remaining else wait)
         else Some wait)"

text \<open>
  The loop with \<open>k\<close> attempts left, the attempt number being \<open>maxAttempts - k\<close>. The result holds the
  returned error, the durations slept, the errors that \<open>fn\<close> returned, and the world.
\<close>

fun rt_loop ::
  "(float64 \<Rightarrow> int) \<Rightarrow> 'e rt_retrier \<Rightarrow> go_time \<Rightarrow> (int \<Rightarrow> 'c rt_turn) \<Rightarrow> ('w \<Rightarrow> 'e option \<times> 'w) \<Rightarrow> nat \<Rightarrow>
   'e option \<Rightarrow> 'w \<Rightarrow> ('e, 'c) rt_error option \<times> duration list \<times> 'e option list \<times> 'w" where
  "rt_loop oor r start env fn 0 lastErr w = (Some (Join_ErrMaxAttempts lastErr), [], [], w)"
| "rt_loop oor r start env fn (Suc k) lastErr w =
     (let attempt = rt_maxAttempts r - int (Suc k); t = env attempt
      in case rt_ctxErr t of
           Some err \<Rightarrow> (Some (ContextErr err), [], [], w)
         | None \<Rightarrow>
             (case fn w of
                (None, w) \<Rightarrow> (None, [], [None], w)
              | (Some err, w) \<Rightarrow>
                  if \<not> rt_classifier r err then (Some (FnErr err), [], [Some err], w)
                  else if attempt = rt_maxAttempts r - 1
                       then (Some (Join_ErrMaxAttempts (Some err)), [], [Some err], w)
                  else (case rt_wait oor r start t attempt of
                          None \<Rightarrow> (Some (Join_ErrTimeout err), [], [Some err], w)
                        | Some wait \<Rightarrow>
                            (case rt_sleepErr t of
                               Some cerr \<Rightarrow> (Some (ContextErr cerr), [], [Some err], w)
                             | None \<Rightarrow>
                                 let (res, ws, es, w) = rt_loop oor r start env fn k (Some err) w
                                 in (res, wait # ws, Some err # es, w)))))"

definition rt_Do ::
  "(float64 \<Rightarrow> int) \<Rightarrow> 'e rt_retrier \<Rightarrow> go_time \<Rightarrow> (int \<Rightarrow> 'c rt_turn) \<Rightarrow> ('w \<Rightarrow> 'e option \<times> 'w) \<Rightarrow> 'w \<Rightarrow>
   ('e, 'c) rt_error option \<times> duration list \<times> 'e option list \<times> 'w" where
  "rt_Do oor r start env fn w = rt_loop oor r start env fn (nat (rt_maxAttempts r)) None w"

section \<open>The outcome of Do\<close>

text \<open>
  What a result says about the outcomes of the calls of \<open>fn\<close>: all but the last failed with a
  retryable error, and the last decides.
\<close>

fun rt_outcome_ok :: "'e rt_retrier \<Rightarrow> nat \<Rightarrow> ('e, 'c) rt_error option \<Rightarrow> 'e option list \<Rightarrow> bool" where
  "rt_outcome_ok r k None es = (es \<noteq> [] \<and> last es = None)"
| "rt_outcome_ok r k (Some (FnErr err)) es = (es \<noteq> [] \<and> last es = Some err \<and> \<not> rt_classifier r err)"
| "rt_outcome_ok r k (Some (Join_ErrMaxAttempts e)) es =
     (length es = k \<and> (k > 0 \<longrightarrow> last es = e \<and> (\<exists>err. e = Some err \<and> rt_classifier r err)))"
| "rt_outcome_ok r k (Some (Join_ErrTimeout err)) es =
     (es \<noteq> [] \<and> last es = Some err \<and> rt_classifier r err \<and> rt_maxTotalWait r > 0 \<and> length es < k)"
| "rt_outcome_ok r k (Some (ContextErr c)) es = True"

definition rt_retryable_prefix :: "'e rt_retrier \<Rightarrow> 'e option list \<Rightarrow> bool" where
  "rt_retryable_prefix r es = list_all (\<lambda>e. case e of None \<Rightarrow> False | Some err \<Rightarrow> rt_classifier r err) (butlast es)"

lemma rt_wait_None: "rt_wait oor r start t attempt = None \<Longrightarrow> rt_maxTotalWait r > 0"
  by (auto simp: rt_wait_def Let_def split: if_splits)

lemma rt_outcome_Cons:
  assumes "rt_outcome_ok r k res es" "rt_retryable_prefix r es" "length es \<le> k" "0 < k" "rt_classifier r err"
  shows "rt_outcome_ok r (Suc k) res (Some err # es) \<and> rt_retryable_prefix r (Some err # es)"
proof -
  have "rt_retryable_prefix r (Some err # es)" using assms(2,5) by (simp add: rt_retryable_prefix_def)
  moreover have "rt_outcome_ok r (Suc k) res (Some err # es)"
    using assms by (cases "(r, k, res, es)" rule: rt_outcome_ok.cases) auto
  ultimately show ?thesis by blast
qed

lemma rt_loop_outcome:
  assumes "rt_loop oor r start env fn k lastErr w = (res, ws, es, w')" "0 < k"
  shows "length es \<le> k \<and> rt_outcome_ok r k res es \<and> rt_retryable_prefix r es"
  using assms
proof (induction k arbitrary: lastErr w res ws es)
  case (Suc k)
  let ?a = "rt_maxAttempts r - int (Suc k)" and ?t = "env (rt_maxAttempts r - int (Suc k))"
  obtain x w1 where fn: "fn w = (x, w1)" by (cases "fn w")
  show ?case
  proof (cases "rt_ctxErr ?t = None \<and> (\<exists>err wait. x = Some err \<and> rt_classifier r err \<and> k \<noteq> 0 \<and>
      rt_wait oor r start ?t ?a = Some wait \<and> rt_sleepErr ?t = None)")
    case True
    then obtain err wait where c: "rt_ctxErr ?t = None" "x = Some err" "rt_classifier r err" "k \<noteq> 0"
      "rt_wait oor r start ?t ?a = Some wait" "rt_sleepErr ?t = None" by blast
    obtain res1 ws1 es1 w2 where l: "rt_loop oor r start env fn k (Some err) w1 = (res1, ws1, es1, w2)"
      by (metis prod_cases4)
    have r: "res = res1" "es = Some err # es1" "w' = w2"
      using Suc.prems(1) fn c l by (auto simp: Let_def)
    with Suc.IH l c(4) have "length es1 \<le> k \<and> rt_outcome_ok r k res1 es1 \<and> rt_retryable_prefix r es1" by blast
    with rt_outcome_Cons[of r k res1 es1 err] c r show ?thesis by simp
  next
    case False
    with Suc.prems(1) fn show ?thesis
      by (auto simp: Let_def rt_retryable_prefix_def dest: rt_wait_None split: option.splits if_splits)
  qed
qed simp

text \<open>
  How \<open>Do\<close> ends, whatever the context, the clock, the random numbers and \<open>fn\<close> do. \<open>fn\<close> is called
  at most \<open>maxAttempts\<close> times and every call but the last failed with a retryable error. \<open>nil\<close> is
  returned exactly when the last call succeeded, the plain error of \<open>fn\<close> when it is not retryable,
  \<open>ErrMaxAttempts\<close> joined with the last error only after exactly \<open>maxAttempts\<close> calls, \<open>ErrTimeout\<close>
  only when a total wait is configured and attempts were left.
\<close>

theorem rt_Do_outcome:
  assumes "1 \<le> rt_maxAttempts r" "rt_Do oor r start env fn w = (res, ws, es, w')"
  shows "length es \<le> nat (rt_maxAttempts r) \<and> rt_outcome_ok r (nat (rt_maxAttempts r)) res es \<and>
    rt_retryable_prefix r es"
  using rt_loop_outcome[of oor r start env fn "nat (rt_maxAttempts r)" None w res ws es w'] assms
  by (simp add: rt_Do_def)

definition rt_calm :: "unit rt_turn" where
  "rt_calm = \<lparr>rt_ctxErr = None, rt_random = 0, rt_now = 0, rt_sleepErr = None\<rparr>"

theorem rt_Do_outcome_witness:
  "\<exists>ws w'. rt_Do (\<lambda>_. 0) (rt_New [Rt_WithBackoff (FixedBackoff 5)]) 0 (\<lambda>_. rt_calm)
       (\<lambda>n. (if n < 2 then Some n else None, n + 1)) (0::nat) = (None, ws, [Some 0, Some 1, None], w') \<and>
     rt_retryable_prefix (rt_New [Rt_WithBackoff (FixedBackoff 5)]) [Some (0::nat), Some 1, None]"
proof -
  let ?r = "rt_New [Rt_WithBackoff (FixedBackoff 5)] :: nat rt_retrier"
  have run: "rt_Do (\<lambda>_. 0) ?r 0 (\<lambda>_. rt_calm) (\<lambda>n. (if n < 2 then Some n else None, n + 1)) (0::nat) =
      (None, [5, 5], [Some 0, Some 1, None], 3)"
    by (simp add: rt_Do_def rt_New_def eval_nat_numeral rt_calm_def rt_RetryAny_def rt_wait_def rt_NoJitter_def)
  have "1 \<le> rt_maxAttempts ?r" by (simp add: rt_New_def)
  from rt_Do_outcome[OF this run] run show ?thesis by blast
qed

section \<open>Backoff and jitter\<close>

text \<open>Doubling an integral float64 below \<open>2 ^ 62\<close> from a start below \<open>2 ^ 53\<close> is exact.\<close>

lemma f64_times_pow2:
  assumes "0 \<le> m" "m \<le> 2 ^ 53"
  shows "f64 (of_int m * 2 ^ n) = of_int m * 2 ^ n"
  using f64_dyadic[of m "int n"] assms by (simp add: power_int_def)

lemma f2i_int: "0 \<le> m \<Longrightarrow> m \<le> max64 \<Longrightarrow> f2i oor (of_int m) = m"
  by (simp add: f2i_in_range)

lemma rt_exp_loop_double:
  assumes "0 \<le> m" "m \<le> 2 ^ 53" "0 < mx" "mx < 2 ^ 62" "m * 2 ^ i \<le> mx"
  shows "rt_exp_loop oor 2 mx n (of_int m * 2 ^ i) =
    (if m * 2 ^ (i + n) \<le> mx then Inr (of_int m * 2 ^ (i + n)) else Inl mx)"
  using assms(5)
proof (induction n arbitrary: i)
  case (Suc n)
  have d: "f64 (of_int m * 2 ^ i * 2) = of_int (m * 2 ^ Suc i)"
    using f64_times_pow2[OF assms(1,2), of "Suc i"] by (simp add: mult_ac)
  have "f2i oor (of_int (m * 2 ^ Suc i)) = m * 2 ^ Suc i"
    using Suc.prems assms by (intro f2i_int) simp_all
  moreover have "m * 2 ^ (i + Suc n) \<le> mx \<Longrightarrow> m * 2 ^ Suc i \<le> mx"
    using mult_left_mono[OF power_increasing[of "Suc i" "i + Suc n" "2::int"] assms(1)] by simp
  ultimately show ?case
    using Suc.IH[of "Suc i"] assms(3) by (auto simp: Let_def d)
qed simp

text \<open>
  C28: the exponential backoff with factor 2 is the closed form \<open>min (Initial * 2 ^ attempt) Max\<close>,
  for every attempt number: neither the float64 arithmetic nor the early exit of the loop changes
  it, and no intermediate value leaves the range of a Duration.
\<close>

theorem rt_exponential_closed_form:
  assumes "0 \<le> initial" "initial \<le> 2 ^ 53" "0 < mx" "mx < 2 ^ 62" "0 \<le> attempt"
  shows "rt_Delay oor (ExponentialBackoff initial 2 mx) attempt = min (initial * 2 ^ nat attempt) mx"
proof -
  have start: "f64 (of_int initial) = of_int initial" using assms by (intro f64_of_int) simp
  show ?thesis
  proof (cases "initial \<le> mx")
    case True
    have "f2i oor (of_int (initial * 2 ^ nat attempt)) = initial * 2 ^ nat attempt"
      if "initial * 2 ^ nat attempt \<le> mx"
      using that assms by (intro f2i_int) simp_all
    then show ?thesis using rt_exp_loop_double[OF assms(1-4), of 0 oor "nat attempt"] True
      by (auto simp: rt_exp_delay_def start)
  next
    case False
    have "initial \<le> initial * 2 ^ nat attempt" using assms(1) by (simp add: mult_le_cancel_left1)
    moreover have "rt_exp_delay oor initial 2 mx attempt = mx"
    proof (cases "nat attempt")
      case 0
      then show ?thesis using False assms by (simp add: rt_exp_delay_def start f2i_int)
    next
      case (Suc n)
      have "f64 (of_int initial * 2) = of_int (initial * 2)"
        using f64_times_pow2[OF assms(1,2), of 1] by simp
      moreover have "f2i oor (of_int (initial * 2)) = initial * 2" using assms by (intro f2i_int) simp_all
      ultimately show ?thesis using False assms Suc by (simp add: rt_exp_delay_def start)
    qed
    ultimately show ?thesis using False by simp
  qed
qed

theorem rt_exponential_closed_form_witness:
  "rt_Delay (\<lambda>_. 0) (ExponentialBackoff 200 2 10000) 3 = 1600 \<and>
   rt_Delay (\<lambda>_. 0) (ExponentialBackoff 200 2 10000) 70 = 10000"
  using rt_exponential_closed_form[of 200 10000 3 "\<lambda>_. 0"] rt_exponential_closed_form[of 200 10000 70 "\<lambda>_. 0"]
  by simp

lemma rt_scaled_bounds:
  assumes "0 \<le> d" "d \<le> 2 ^ 53" "0 \<le> u" "u \<le> 1"
  shows "0 \<le> f2i oor (f64 (f64 (of_int d) * u)) \<and> f2i oor (f64 (f64 (of_int d) * u)) \<le> d"
proof -
  have e: "f64 (of_int d) = of_int d" using assms by (intro f64_of_int) simp
  let ?x = "f64 (of_int d * u)"
  have "of_int d * u \<le> of_int d" using assms by (intro mult_left_le) auto
  then have "?x \<le> of_int d" using e by (intro f64_le)
  moreover have "0 \<le> ?x" using assms by (intro f64_nonneg) simp
  ultimately have "0 \<le> rat_trunc ?x" "rat_trunc ?x \<le> d"
    using rat_trunc_mono[of 0 ?x] rat_trunc_mono[of ?x "of_int d"] rat_trunc_of_int[of 0]
    by (auto simp del: rat_trunc_of_int simp: rat_trunc_of_int[of d])
  then show ?thesis using assms(2) by (simp add: e f2i_in_range)
qed

text \<open>
  A jittered delay never exceeds the delay it was given: \<open>FullJitter\<close> stays between 0 and the
  delay, \<open>EqualJitter\<close> between half the delay and the delay, for every random number in the unit
  interval and every delay up to \<open>2 ^ 53\<close> nanoseconds (104 days).
\<close>

theorem rt_jitter_bounds:
  assumes "0 \<le> d" "d \<le> 2 ^ 53" "0 \<le> u" "u \<le> 1"
  shows "0 \<le> rt_FullJitter oor d u \<and> rt_FullJitter oor d u \<le> d \<and>
    d div 2 \<le> rt_EqualJitter oor d u \<and> rt_EqualJitter oor d u \<le> d"
proof -
  have h: "0 \<le> d div 2" "d div 2 \<le> 2 ^ 53" "2 * (d div 2) \<le> d" using assms by auto
  note b = rt_scaled_bounds[OF h(1,2) assms(3,4), of oor]
  have "i64 (d div 2 + f2i oor (f64 (f64 (of_int (d div 2)) * u))) =
      d div 2 + f2i oor (f64 (f64 (of_int (d div 2)) * u))"
    using b h by (intro i64_id) simp_all
  then show ?thesis
    using rt_scaled_bounds[OF assms, of oor] b h assms(1) by (simp add: rt_FullJitter_def rt_EqualJitter_def Let_def)
qed

theorem rt_jitter_bounds_witness:
  "0 \<le> rt_FullJitter (\<lambda>_. 0) 1000 (1 / 4) \<and> rt_EqualJitter (\<lambda>_. 0) 1000 (1 / 4) \<le> 1000"
  using rt_jitter_bounds[of 1000 "1 / 4" "\<lambda>_. 0"] by simp

end
