(* ===== verification/Selector.thy ===== *)
theory Selector
  imports Go_Prelude "HOL-Library.Multiset"
begin

text \<open>
  \<open>selector/selector.go\<close> and \<open>selector/balancer.go\<close>: the strategies and the watched balancer. A
  pointer to an instance is an \<open>option\<close> (\<open>nil\<close> is \<open>None\<close>). The round-robin counter is a 64-bit word.
  What the registry returns (\<open>Watch\<close>, \<open>Next\<close>) is an argument of the operation that calls it; a
  watcher and its context are known by a handle, and the model keeps the sets of handles that were
  cancelled and stopped. The lemmas show that round robin visits every instance once per cycle, and
  what \<open>Pick\<close>, the background update and \<open>Close\<close> do.
\<close>

section \<open>Strategies\<close>

datatype sl_error = ErrNoInstances | WatchFailed

text \<open>A strategy with its own state; the counter is unused by \<open>First\<close> and \<open>Random\<close>.\<close>

datatype sl_strategy = SlRoundRobin "64 word" | SlRandom | SlFirst

definition sl_RoundRobin :: "'i option list \<Rightarrow> 64 word \<Rightarrow> 'i option \<times> 64 word" where
  "sl_RoundRobin instances counter =
     (if length instances = 0 then (None, counter)
      else (let counter = counter + 1
            in (instances ! unat ((counter - 1) mod of_nat (length instances)), counter)))"

text \<open>\<open>k\<close> is the value of \<open>rand.Intn(len(instances))\<close>, below the length.\<close>

definition sl_Random :: "nat \<Rightarrow> 'i option list \<Rightarrow> 'i option" where
  "sl_Random k instances = (if length instances = 0 then None else instances ! k)"

definition sl_First :: "'i option list \<Rightarrow> 'i option" where
  "sl_First instances = (if length instances = 0 then None else instances ! 0)"

fun sl_apply :: "nat \<Rightarrow> sl_strategy \<Rightarrow> 'i option list \<Rightarrow> 'i option \<times> sl_strategy" where
  "sl_apply k (SlRoundRobin c) instances = map_prod id SlRoundRobin (sl_RoundRobin instances c)"
| "sl_apply k SlRandom instances = (sl_Random k instances, SlRandom)"
| "sl_apply k SlFirst instances = (sl_First instances, SlFirst)"

text \<open>\<open>Pick\<close>: a nil strategy is a fresh round robin.\<close>

definition sl_Pick ::
  "nat \<Rightarrow> sl_strategy option \<Rightarrow> 'i option list \<Rightarrow> (sl_error + 'i) \<times> sl_strategy option" where
  "sl_Pick k s instances =
     (let s0 = (case s of None \<Rightarrow> SlRoundRobin 0 | Some s \<Rightarrow> s);
          (inst, s1) = sl_apply k s0 instances
      in (case inst of None \<Rightarrow> Inl ErrNoInstances | Some i \<Rightarrow> Inr i, map_option (\<lambda>_. s1) s))"

section \<open>The watched balancer\<close>

record 'i sl_watched =
  sl_handle :: nat \<comment> \<open>the context and its cancel function\<close>
  sl_watcher :: nat
  sl_snapshot :: "'i option list option"

record 'i sl_balancer =
  sl_strategy :: sl_strategy
  sl_services :: "string \<rightharpoonup> 'i sl_watched"
  sl_closed :: bool
  sl_cancelled :: "nat set"
  sl_stopped :: "nat set"

definition sl_New :: "sl_strategy option \<Rightarrow> 'i sl_balancer" where
  "sl_New s = \<lparr>sl_strategy = (case s of None \<Rightarrow> SlRoundRobin 0 | Some s \<Rightarrow> s),
     sl_services = Map.empty, sl_closed = False, sl_cancelled = {}, sl_stopped = {}\<rparr>"

definition sl_store :: "string \<Rightarrow> 'i option list \<Rightarrow> 'i sl_balancer \<Rightarrow> 'i sl_balancer" where
  "sl_store service insts b =
     (case sl_services b service of
        None \<Rightarrow> b
      | Some ws \<Rightarrow> b\<lparr>sl_services := (sl_services b)(service \<mapsto> ws\<lparr>sl_snapshot := Some insts\<rparr>)\<rparr>)"

text \<open>
  The critical section of \<open>service\<close>: \<open>h\<close> is the handle of the new context and \<open>wr\<close> the result of
  \<open>Watch\<close> (a watcher's handle). The flag says whether the entry is new and has to be seeded. The
  seeding with the result \<open>nx\<close> of the first \<open>Next\<close> runs after the lock is released.
\<close>

definition sl_service_locked ::
  "nat \<Rightarrow> nat option \<Rightarrow> string \<Rightarrow> 'i sl_balancer \<Rightarrow> (sl_error + bool) \<times> 'i sl_balancer" where
  "sl_service_locked h wr service b =
     (if sl_closed b then (Inl ErrNoInstances, b)
      else case sl_services b service of
             Some ws \<Rightarrow> (Inr False, b)
           | None \<Rightarrow>
               (case wr of
                  None \<Rightarrow> (Inl WatchFailed, b\<lparr>sl_cancelled := insert h (sl_cancelled b)\<rparr>)
                | Some watcher \<Rightarrow>
                    (Inr True, b\<lparr>sl_services := (sl_services b)
                       (service \<mapsto> \<lparr>sl_handle = h, sl_watcher = watcher, sl_snapshot = None\<rparr>)\<rparr>)))"

definition sl_service ::
  "nat \<Rightarrow> nat option \<Rightarrow> 'i option list option \<Rightarrow> string \<Rightarrow> 'i sl_balancer \<Rightarrow>
   sl_error option \<times> 'i sl_balancer" where
  "sl_service h wr nx service b =
     (case sl_service_locked h wr service b of
        (Inl err, b) \<Rightarrow> (Some err, b)
      | (Inr fresh, b) \<Rightarrow>
          (None, if fresh then (case nx of Some insts \<Rightarrow> sl_store service insts b | None \<Rightarrow> b) else b))"

definition sl_balancer_Pick ::
  "nat \<Rightarrow> nat \<Rightarrow> nat option \<Rightarrow> 'i option list option \<Rightarrow> string \<Rightarrow> 'i sl_balancer \<Rightarrow>
   (sl_error + 'i) \<times> 'i sl_balancer" where
  "sl_balancer_Pick k h wr nx service b =
     (case sl_service h wr nx service b of
        (Some err, b) \<Rightarrow> (Inl err, b)
      | (None, b) \<Rightarrow>
          (case Option.bind (sl_services b service) sl_snapshot of
             Some insts \<Rightarrow>
               (case sl_Pick k (Some (sl_strategy b)) insts of
                  (r, s) \<Rightarrow> (r, b\<lparr>sl_strategy := the s\<rparr>))
           | None \<Rightarrow> (Inl ErrNoInstances, b)))"

text \<open>
  One turn of \<open>consume\<close> for a service that is still watched: \<open>nx\<close> is what \<open>Next\<close> returned and \<open>wr\<close>
  what the new \<open>Watch\<close> returned when it failed.
\<close>

definition sl_consume_turn ::
  "string \<Rightarrow> 'i option list option \<Rightarrow> nat option \<Rightarrow> 'i sl_balancer \<Rightarrow> 'i sl_balancer" where
  "sl_consume_turn service nx wr b =
     (case sl_services b service of
        None \<Rightarrow> b
      | Some ws \<Rightarrow>
          if sl_handle ws \<in> sl_cancelled b then b
          else case nx of
                 Some insts \<Rightarrow> sl_store service insts b
               | None \<Rightarrow>
                   (case wr of
                      None \<Rightarrow> b
                    | Some nw \<Rightarrow>
                        b\<lparr>sl_stopped := insert (sl_watcher ws) (sl_stopped b),
                          sl_services := (sl_services b)(service \<mapsto> ws\<lparr>sl_watcher := nw\<rparr>)\<rparr>))"

definition sl_Close :: "'i sl_balancer \<Rightarrow> 'i sl_balancer" where
  "sl_Close b =
     (if sl_closed b then b
      else b\<lparr>sl_closed := True,
             sl_cancelled := sl_cancelled b \<union> sl_handle ` ran (sl_services b),
             sl_stopped := sl_stopped b \<union> sl_watcher ` ran (sl_services b),
             sl_services := Map.empty\<rparr>)"

section \<open>Round robin\<close>

text \<open>The picks of \<open>m\<close> calls on one snapshot.\<close>

fun sl_rounds :: "nat \<Rightarrow> 'i option list \<Rightarrow> 64 word \<Rightarrow> 'i option list \<times> 64 word" where
  "sl_rounds 0 xs c = ([], c)"
| "sl_rounds (Suc m) xs c =
     (let (x, c) = sl_RoundRobin xs c; (ys, c) = sl_rounds m xs c in (x # ys, c))"

lemma mset_rotate_eq: "mset (rotate n xs) = mset xs"
proof (induction n)
  case (Suc n)
  have "mset (rotate1 ys) = mset ys" for ys :: "'a list" by (cases ys) auto
  with Suc show ?case by simp
qed simp

lemma sl_RoundRobin_eq:
  assumes "xs \<noteq> []" "length xs < 2 ^ 64"
  shows "sl_RoundRobin xs c = (xs ! (unat c mod length xs), c + 1)"
proof -
  have "unat (of_nat (length xs) :: 64 word) = length xs"
    using assms(2) by (simp add: unat_of_nat take_bit_nat_eq_self)
  then show ?thesis using assms(1) by (simp add: sl_RoundRobin_def unat_mod_distrib)
qed

lemma sl_rounds_eq:
  assumes "xs \<noteq> []" "length xs < 2 ^ 64" "unat c + m \<le> 2 ^ 64"
  shows "fst (sl_rounds m xs c) = map (\<lambda>i. xs ! ((unat c + i) mod length xs)) [0..<m]"
  using assms(3)
proof (induction m arbitrary: c)
  case (Suc m)
  show ?case
  proof (cases "m = 0")
    case True
    then show ?thesis by (simp add: sl_RoundRobin_eq[OF assms(1,2)])
  next
    case False
    have "1 + c \<noteq> 0"
    proof
      assume "1 + c = 0"
      then have "c = - 1" by (simp add: add_eq_0_iff)
      then have "unat c = 2 ^ 64 - 1" by (simp add: unsigned_minus_1_eq_mask mask_eq_exp_minus_1)
      with Suc.prems False show False by simp
    qed
    then have c: "unat (c + 1) = unat c + 1" by (simp add: unatSuc add.commute)
    have up: "[0..<Suc m] = 0 # map Suc [0..<m]" by (simp add: upt_conv_Cons map_Suc_upt del: upt_Suc)
    show ?thesis using Suc.IH[of "c + 1"] Suc.prems c
      by (cases "sl_rounds m xs (c + 1)") (simp add: sl_RoundRobin_eq[OF assms(1,2)] up comp_def del: upt_Suc)
  qed
qed simp

text \<open>
  C29: round robin is fair. On one snapshot of \<open>n\<close> instances, any \<open>n\<close> consecutive picks (before the
  64-bit counter wraps) return the snapshot rotated by the counter, so every instance exactly as
  often as it occurs in the snapshot.
\<close>

theorem sl_round_robin_fair:
  assumes "xs \<noteq> []" "length xs < 2 ^ 64" "unat c + length xs \<le> 2 ^ 64"
  shows "fst (sl_rounds (length xs) xs c) = rotate (unat c) xs \<and>
    mset (fst (sl_rounds (length xs) xs c)) = mset xs"
proof -
  have "fst (sl_rounds (length xs) xs c) = rotate (unat c) xs"
    using sl_rounds_eq[OF assms] by (auto intro!: nth_equalityI simp: nth_rotate)
  then show ?thesis by (simp add: mset_rotate_eq)
qed

theorem sl_round_robin_fair_witness:
  "fst (sl_rounds 3 [Some ''a'', Some ''b'', Some ''c''] 4) = [Some ''b'', Some ''c'', Some ''a'']"
proof -
  have "fst (sl_rounds (length xs) xs 4) = rotate (unat (4 :: 64 word)) xs"
    if "xs = [Some ''a'', Some ''b'', Some ''c'']" for xs
    using sl_round_robin_fair[of xs 4] that by simp
  moreover have "unat (4 :: 64 word) = 4" by simp
  moreover have "rotate 4 [Some ''a'', Some ''b'', Some ''c''] = [Some ''b'', Some ''c'', Some ''a'']"
    by (simp add: rotate_drop_take)
  moreover have "length [Some ''a'', Some ''b'', Some ''c''] = 3" by simp
  ultimately show ?thesis by metis
qed

section \<open>The balancer\<close>

text \<open>
  A service that is not yet watched. The first \<open>Pick\<close> watches it, seeds the snapshot and picks
  from it; a \<open>Pick\<close> of another goroutine that runs after the entry was created and before it is
  seeded is refused with \<open>ErrNoInstances\<close>, although the registry has instances.
\<close>

theorem sl_first_pick:
  assumes "\<not> sl_closed b" "sl_services b service = None"
  shows "fst (sl_balancer_Pick k h (Some watcher) (Some insts) service b) =
      fst (sl_Pick k (Some (sl_strategy b)) insts) \<and>
    fst (sl_balancer_Pick k h' wr' nx' service (snd (sl_service_locked h (Some watcher) service b))) =
      Inl ErrNoInstances"
  using assms
  by (simp add: sl_balancer_Pick_def sl_service_def sl_service_locked_def sl_store_def split: prod.split)

theorem sl_first_pick_witness:
  "fst (sl_balancer_Pick 0 1 (Some 7) (Some [Some ''a'']) ''svc'' (sl_New (Some SlFirst))) = Inr ''a''"
  using sl_first_pick[of "sl_New (Some SlFirst)" "''svc''" 0 1 7 "[Some ''a'']"]
  by (simp add: sl_New_def sl_Pick_def sl_First_def)

text \<open>A history of the balancer: picks, background turns and \<open>Close\<close> in any order.\<close>

datatype 'i sl_op =
    OpPick nat nat "nat option" "'i option list option" string
  | OpConsume string "'i option list option" "nat option"
  | OpClose

fun sl_step :: "'i sl_op \<Rightarrow> 'i sl_balancer \<Rightarrow> (sl_error + 'i) option \<times> 'i sl_balancer" where
  "sl_step (OpPick k h wr nx service) b = map_prod Some id (sl_balancer_Pick k h wr nx service b)"
| "sl_step (OpConsume service nx wr) b = (None, sl_consume_turn service nx wr b)"
| "sl_step OpClose b = (None, sl_Close b)"

fun sl_steps :: "'i sl_op list \<Rightarrow> 'i sl_balancer \<Rightarrow> (sl_error + 'i) option list \<times> 'i sl_balancer" where
  "sl_steps [] b = ([], b)"
| "sl_steps (p # ps) b = (let (r, b) = sl_step p b; (rs, b) = sl_steps ps b in (r # rs, b))"

lemma sl_closed_step:
  assumes "sl_closed b" "sl_services b = Map.empty"
  shows "sl_step p b = (case p of OpPick k h wr nx service \<Rightarrow> Some (Inl ErrNoInstances) | _ \<Rightarrow> None, b)"
  using assms
  by (cases p) (auto simp: sl_balancer_Pick_def sl_service_def sl_service_locked_def sl_consume_turn_def sl_Close_def)

text \<open>
  \<open>Close\<close> cancels the context and stops the watcher of every watched service and forgets them;
  after it no history of picks, background turns and further closes returns an instance or
  changes anything.
\<close>

theorem sl_after_Close:
  assumes "\<not> sl_closed b"
  shows "(\<forall>service ws. sl_services b service = Some ws \<longrightarrow>
      sl_handle ws \<in> sl_cancelled (sl_Close b) \<and> sl_watcher ws \<in> sl_stopped (sl_Close b)) \<and>
    snd (sl_steps ps (sl_Close b)) = sl_Close b \<and>
    list_all (\<lambda>r. r = None \<or> r = Some (Inl ErrNoInstances)) (fst (sl_steps ps (sl_Close b)))"
proof -
  have c: "sl_closed (sl_Close b)" "sl_services (sl_Close b) = Map.empty"
    using assms by (simp_all add: sl_Close_def)
  have "snd (sl_steps ps (sl_Close b)) = sl_Close b \<and>
      list_all (\<lambda>r. r = None \<or> r = Some (Inl ErrNoInstances)) (fst (sl_steps ps (sl_Close b)))"
    by (induction ps) (auto simp: sl_closed_step[OF c] split: prod.split sl_op.split)
  moreover have "sl_handle ws \<in> sl_cancelled (sl_Close b) \<and> sl_watcher ws \<in> sl_stopped (sl_Close b)"
    if "sl_services b service = Some ws" for service ws
    using that assms by (auto simp: sl_Close_def ran_def)
  ultimately show ?thesis by blast
qed

theorem sl_after_Close_witness:
  "sl_steps [OpPick 0 1 (Some 7) (Some [Some ''a'']) ''svc''] (sl_Close (sl_New None)) =
     ([Some (Inl ErrNoInstances)], sl_Close (sl_New None))"
proof -
  let ?ps = "[OpPick 0 1 (Some 7) (Some [Some ''a'']) ''svc'']"
  have "snd (sl_steps ?ps (sl_Close (sl_New None))) = sl_Close (sl_New None)"
    "list_all (\<lambda>r. r = None \<or> r = Some (Inl ErrNoInstances)) (fst (sl_steps ?ps (sl_Close (sl_New None))))"
    using sl_after_Close[of "sl_New None" ?ps] by (simp_all add: sl_New_def)
  moreover have "fst (sl_steps ?ps (sl_Close (sl_New None))) = [Some (Inl ErrNoInstances)]"
    by (simp add: sl_Close_def sl_New_def sl_balancer_Pick_def sl_service_def sl_service_locked_def)
  ultimately show ?thesis by (simp add: prod_eq_iff)
qed

end
