(* ===== verification/Saga_Tcc.thy ===== *)
theory Saga_Tcc
  imports Go_Prelude
begin

text \<open>
  \<open>transaction/saga/saga.go\<close> and \<open>transaction/tcc/tcc.go\<close>: the two in-process coordinators. The
  caller's functions act on the shared state and may fail; a nil function is \<open>None\<close>. Each
  operation also returns the trace of the calls it made. The lemmas show which calls are made, in
  which order, on every path, and that a saga whose compensations undo their steps leaves the
  state as it was.
\<close>

type_synonym ('s, 'e) act = "'s \<Rightarrow> 'e option \<times> 's"

section \<open>Saga\<close>

record ('s, 'e) sg_step =
  sg_Name :: string
  sg_Do :: "('s, 'e) act option"
  sg_Undo :: "('s, 'e) act option"

datatype 'e sg_error =
    SagaNoDo string
  | SagaFailed string 'e "(string \<times> 'e) list" \<comment> \<open>step, its error, the compensation errors\<close>

datatype sg_call = CalledDo string | CalledUndo string

text \<open>The loop of \<open>compensate\<close>, from index \<open>i - 1\<close> down to 0.\<close>

fun sg_compensate_loop ::
  "('s, 'e) sg_step list \<Rightarrow> nat \<Rightarrow> 's \<Rightarrow> (string \<times> 'e) list \<times> sg_call list \<times> 's" where
  "sg_compensate_loop dn 0 s = ([], [], s)"
| "sg_compensate_loop dn (Suc i) s =
     (let step = dn ! i
      in case sg_Undo step of
           None \<Rightarrow> sg_compensate_loop dn i s
         | Some undo \<Rightarrow>
             (let (e, s) = undo s; (es, tr, s) = sg_compensate_loop dn i s
              in ((case e of None \<Rightarrow> es | Some err \<Rightarrow> (sg_Name step, err) # es),
                  CalledUndo (sg_Name step) # tr, s)))"

definition sg_compensate ::
  "('s, 'e) sg_step list \<Rightarrow> string \<Rightarrow> 'e \<Rightarrow> 's \<Rightarrow> 'e sg_error \<times> sg_call list \<times> 's" where
  "sg_compensate dn failedAt doErr s =
     (let (es, tr, s) = sg_compensate_loop dn (length dn) s
      in (SagaFailed failedAt doErr es, tr, s))"

text \<open>The loop of \<open>Run\<close>: \<open>steps\<close> is the whole list, \<open>completed\<close> the index of the next step.\<close>

fun sg_loop ::
  "('s, 'e) sg_step list \<Rightarrow> nat \<Rightarrow> ('s, 'e) sg_step list \<Rightarrow> 's \<Rightarrow> 'e sg_error option \<times> sg_call list \<times> 's" where
  "sg_loop steps completed [] s = (None, [], s)"
| "sg_loop steps completed (step # rest) s =
     (case sg_Do step of
        None \<Rightarrow> (Some (SagaNoDo (sg_Name step)), [], s)
      | Some act \<Rightarrow>
          (case act s of
             (Some err, s) \<Rightarrow>
               let (e, tr, s) = sg_compensate (take completed steps) (sg_Name step) err s
               in (Some e, CalledDo (sg_Name step) # tr, s)
           | (None, s) \<Rightarrow>
               let (r, tr, s) = sg_loop steps (Suc completed) rest s
               in (r, CalledDo (sg_Name step) # tr, s)))"

definition sg_Run :: "('s, 'e) sg_step list \<Rightarrow> 's \<Rightarrow> 'e sg_error option \<times> sg_call list \<times> 's" where
  "sg_Run steps s = sg_loop steps 0 steps s"

section \<open>TCC\<close>

record ('s, 'e) tc_participant =
  tc_Name :: string
  tc_Try :: "('s, 'e) act option"
  tc_Confirm :: "('s, 'e) act option"
  tc_Cancel :: "('s, 'e) act option"

datatype 'e tc_error =
    TccNoTry string
  | TccNoConfirm string
  | TccTryFailed string 'e "(string \<times> 'e) list"
  | TccConfirmErrors "(string \<times> 'e) list"

datatype tc_call = CalledTry string | CalledConfirm string | CalledCancel string

fun tc_validate :: "('s, 'e) tc_participant list \<Rightarrow> 'e tc_error option" where
  "tc_validate [] = None"
| "tc_validate (p # ps) =
     (if tc_Try p = None then Some (TccNoTry (tc_Name p))
      else if tc_Confirm p = None then Some (TccNoConfirm (tc_Name p))
      else tc_validate ps)"

fun tc_cancel_loop ::
  "('s, 'e) tc_participant list \<Rightarrow> nat \<Rightarrow> 's \<Rightarrow> (string \<times> 'e) list \<times> tc_call list \<times> 's" where
  "tc_cancel_loop attempted 0 s = ([], [], s)"
| "tc_cancel_loop attempted (Suc i) s =
     (let p = attempted ! i
      in case tc_Cancel p of
           None \<Rightarrow> tc_cancel_loop attempted i s
         | Some cancel \<Rightarrow>
             (let (e, s) = cancel s; (es, tr, s) = tc_cancel_loop attempted i s
              in ((case e of None \<Rightarrow> es | Some err \<Rightarrow> (tc_Name p, err) # es),
                  CalledCancel (tc_Name p) # tr, s)))"

definition tc_cancel ::
  "('s, 'e) tc_participant list \<Rightarrow> string \<Rightarrow> 'e \<Rightarrow> 's \<Rightarrow> 'e tc_error \<times> tc_call list \<times> 's" where
  "tc_cancel attempted failedAt tryErr s =
     (let (es, tr, s) = tc_cancel_loop attempted (length attempted) s
      in (TccTryFailed failedAt tryErr es, tr, s))"

fun tc_try_loop ::
  "('s, 'e) tc_participant list \<Rightarrow> nat \<Rightarrow> ('s, 'e) tc_participant list \<Rightarrow> 's \<Rightarrow>
   'e tc_error option \<times> tc_call list \<times> 's" where
  "tc_try_loop ps i [] s = (None, [], s)"
| "tc_try_loop ps i (p # rest) s =
     (case the (tc_Try p) s of
        (Some err, s) \<Rightarrow>
          let (e, tr, s) = tc_cancel (take (i + 1) ps) (tc_Name p) err s
          in (Some e, CalledTry (tc_Name p) # tr, s)
      | (None, s) \<Rightarrow>
          let (r, tr, s) = tc_try_loop ps (i + 1) rest s
          in (r, CalledTry (tc_Name p) # tr, s))"

fun tc_confirm_loop ::
  "('s, 'e) tc_participant list \<Rightarrow> 's \<Rightarrow> (string \<times> 'e) list \<times> tc_call list \<times> 's" where
  "tc_confirm_loop [] s = ([], [], s)"
| "tc_confirm_loop (p # ps) s =
     (let (e, s) = the (tc_Confirm p) s; (es, tr, s) = tc_confirm_loop ps s
      in ((case e of None \<Rightarrow> es | Some err \<Rightarrow> (tc_Name p, err) # es), CalledConfirm (tc_Name p) # tr, s))"

definition tc_Run :: "('s, 'e) tc_participant list \<Rightarrow> 's \<Rightarrow> 'e tc_error option \<times> tc_call list \<times> 's" where
  "tc_Run ps s =
     (case tc_validate ps of
        Some e \<Rightarrow> (Some e, [], s)
      | None \<Rightarrow>
          (case tc_try_loop ps 0 ps s of
             (Some e, tr, s) \<Rightarrow> (Some e, tr, s)
           | (None, tr, s) \<Rightarrow>
               let (es, tr', s) = tc_confirm_loop ps s
               in (if es = [] then None else Some (TccConfirmErrors es), tr @ tr', s)))"

section \<open>What a saga does\<close>

text \<open>Running the \<open>Do\<close>s of a list of steps: the state after them, if all succeed.\<close>

fun sg_all_done :: "('s, 'e) sg_step list \<Rightarrow> 's \<Rightarrow> 's option" where
  "sg_all_done [] s = Some s"
| "sg_all_done (st # sts) s =
     (case sg_Do st of
        None \<Rightarrow> None
      | Some act \<Rightarrow> (case act s of (Some _, _) \<Rightarrow> None | (None, s) \<Rightarrow> sg_all_done sts s))"

text \<open>The compensations of a list of steps, first element first.\<close>

fun sg_undo_all :: "('s, 'e) sg_step list \<Rightarrow> 's \<Rightarrow> 's" where
  "sg_undo_all [] s = s"
| "sg_undo_all (st # sts) s = sg_undo_all sts (case sg_Undo st of None \<Rightarrow> s | Some u \<Rightarrow> snd (u s))"

definition sg_undo_calls :: "('s, 'e) sg_step list \<Rightarrow> sg_call list" where
  "sg_undo_calls sts = map (\<lambda>st. CalledUndo (sg_Name st)) (filter (\<lambda>st. sg_Undo st \<noteq> None) sts)"

lemma sg_compensate_loop_spec:
  assumes "i \<le> length dn"
  shows "snd (sg_compensate_loop dn i s) =
    (sg_undo_calls (rev (take i dn)), sg_undo_all (rev (take i dn)) s)"
  using assms
proof (induction i arbitrary: s)
  case (Suc i)
  have t: "rev (take (Suc i) dn) = dn ! i # rev (take i dn)"
    using Suc.prems by (simp add: take_Suc_conv_app_nth)
  show ?case
  proof (cases "sg_Undo (dn ! i)")
    case None
    then show ?thesis using Suc t by (simp add: sg_undo_calls_def)
  next
    case (Some u)
    obtain e s1 where u: "u s = (e, s1)" by (cases "u s")
    show ?thesis using Suc.IH[of s1] Suc.prems Some t u
      by (cases "sg_compensate_loop dn i s1") (simp add: sg_undo_calls_def Let_def)
  qed
qed (simp add: sg_undo_calls_def)

lemma sg_compensate_spec:
  "\<exists>es. sg_compensate dn f e s = (SagaFailed f e es, sg_undo_calls (rev dn), sg_undo_all (rev dn) s)"
  using sg_compensate_loop_spec[of "length dn" dn s]
  by (cases "sg_compensate_loop dn (length dn) s") (simp add: sg_compensate_def)

lemma sg_loop_prefix:
  assumes "sg_all_done pre s = Some s1"
  shows "sg_loop steps c (pre @ rest) s =
    (let (r, tr, s') = sg_loop steps (c + length pre) rest s1
     in (r, map (\<lambda>st. CalledDo (sg_Name st)) pre @ tr, s'))"
  using assms
proof (induction pre arbitrary: s c)
  case (Cons st pre)
  then obtain act s2 where "sg_Do st = Some act" "act s = (None, s2)" "sg_all_done pre s2 = Some s1"
    by (auto split: option.splits prod.splits)
  with Cons.IH[of s2 "Suc c"] show ?case
    by (cases "sg_loop steps (Suc (c + length pre)) rest s1") simp
qed simp

text \<open>
  What a saga does on every path. If every \<open>Do\<close> succeeds, \<open>Run\<close> returns nil after calling them
  in order. If the \<open>Do\<close> of one step fails, exactly the compensations of the steps completed before it
  run, in reverse order and all of them even when some fail, and the error names the step. If a step
  without \<open>Do\<close> is met, \<open>Run\<close> returns an error at once and no completed step is compensated.
\<close>

theorem sg_Run_paths:
  assumes "sg_all_done pre s = Some s1"
  shows "sg_Run pre s = (None, map (\<lambda>st. CalledDo (sg_Name st)) pre, s1) \<and>
    (sg_Do st = Some act \<and> act s1 = (Some err, s2) \<longrightarrow>
       (\<exists>es. sg_Run (pre @ st # post) s =
          (Some (SagaFailed (sg_Name st) err es),
           map (\<lambda>st. CalledDo (sg_Name st)) (pre @ [st]) @ sg_undo_calls (rev pre), sg_undo_all (rev pre) s2))) \<and>
    (sg_Do st = None \<longrightarrow>
       sg_Run (pre @ st # post) s = (Some (SagaNoDo (sg_Name st)), map (\<lambda>st. CalledDo (sg_Name st)) pre, s1))"
proof -
  note p = sg_loop_prefix[OF assms, of _ 0]
  have a: "sg_Run pre s = (None, map (\<lambda>st. CalledDo (sg_Name st)) pre, s1)"
    using p[of pre "[]"] by (simp add: sg_Run_def)
  obtain es where c: "sg_compensate pre (sg_Name st) err s2 =
      (SagaFailed (sg_Name st) err es, sg_undo_calls (rev pre), sg_undo_all (rev pre) s2)"
    using sg_compensate_spec[of pre "sg_Name st" err s2] by blast
  show ?thesis using p[of "pre @ st # post" "st # post"] a c by (simp add: sg_Run_def)
qed

text \<open>Two steps that push and pop a marker; the third fails.\<close>

definition sg_push :: "nat \<Rightarrow> (nat list, string) sg_step" where
  "sg_push n = \<lparr>sg_Name = ''push'', sg_Do = Some (\<lambda>s. (None, n # s)), sg_Undo = Some (\<lambda>s. (None, tl s))\<rparr>"

definition sg_fail :: "(nat list, string) sg_step" where
  "sg_fail = \<lparr>sg_Name = ''fail'', sg_Do = Some (\<lambda>s. (Some ''boom'', s)), sg_Undo = None\<rparr>"

theorem sg_Run_paths_witness:
  "\<exists>es. sg_Run ([sg_push 1, sg_push 2] @ sg_fail # []) [] =
     (Some (SagaFailed ''fail'' ''boom'' es),
      [CalledDo ''push'', CalledDo ''push'', CalledDo ''fail'', CalledUndo ''push'', CalledUndo ''push''], [])"
proof -
  have "sg_all_done [sg_push 1, sg_push 2] [] = Some [2, 1]" by (simp add: sg_push_def)
  from sg_Run_paths[OF this, of sg_fail "\<lambda>s. (Some ''boom'', s)" "''boom''" "[2, 1]" "[]"]
  show ?thesis by (simp add: sg_fail_def sg_push_def sg_undo_calls_def)
qed



section \<open>What TCC does\<close>

fun tc_all_tried :: "('s, 'e) tc_participant list \<Rightarrow> 's \<Rightarrow> 's option" where
  "tc_all_tried [] s = Some s"
| "tc_all_tried (p # ps) s = (case the (tc_Try p) s of (Some _, _) \<Rightarrow> None | (None, s) \<Rightarrow> tc_all_tried ps s)"

definition tc_cancel_calls :: "('s, 'e) tc_participant list \<Rightarrow> tc_call list" where
  "tc_cancel_calls ps = map (\<lambda>p. CalledCancel (tc_Name p)) (filter (\<lambda>p. tc_Cancel p \<noteq> None) ps)"

lemma tc_cancel_loop_spec:
  "i \<le> length ps \<Longrightarrow> fst (snd (tc_cancel_loop ps i s)) = tc_cancel_calls (rev (take i ps))"
proof (induction i arbitrary: s)
  case (Suc i)
  have t: "rev (take (Suc i) ps) = ps ! i # rev (take i ps)"
    using Suc.prems by (simp add: take_Suc_conv_app_nth)
  show ?case
  proof (cases "tc_Cancel (ps ! i)")
    case None
    then show ?thesis using Suc t by (simp add: tc_cancel_calls_def)
  next
    case (Some u)
    obtain e s1 where u: "u s = (e, s1)" by (cases "u s")
    show ?thesis using Suc.IH[of s1] Suc.prems Some t u
      by (cases "tc_cancel_loop ps i s1") (simp add: tc_cancel_calls_def Let_def)
  qed
qed (simp add: tc_cancel_calls_def)

lemma tc_confirm_loop_spec: "fst (snd (tc_confirm_loop ps s)) = map (\<lambda>p. CalledConfirm (tc_Name p)) ps"
proof (induction ps arbitrary: s)
  case (Cons p ps)
  obtain e s1 where c: "the (tc_Confirm p) s = (e, s1)" by (cases "the (tc_Confirm p) s")
  show ?case using Cons.IH[of s1] c by (cases "tc_confirm_loop ps s1") simp
qed simp

lemma tc_try_loop_prefix:
  assumes "tc_all_tried pre s = Some s1"
  shows "tc_try_loop ps c (pre @ rest) s =
    (let (r, tr, s') = tc_try_loop ps (c + length pre) rest s1
     in (r, map (\<lambda>p. CalledTry (tc_Name p)) pre @ tr, s'))"
  using assms
proof (induction pre arbitrary: s c)
  case (Cons p pre)
  then obtain s2 where "the (tc_Try p) s = (None, s2)" "tc_all_tried pre s2 = Some s1"
    by (auto split: option.splits prod.splits)
  with Cons.IH[of s2 "Suc c"] show ?case
    by (cases "tc_try_loop ps (Suc (c + length pre)) rest s1") simp
qed simp

text \<open>
  TCC either confirms or cancels, never both. With valid participants: if every \<open>Try\<close>
  succeeds, every \<open>Confirm\<close> is called once, in order, whatever fails among them, and no \<open>Cancel\<close>;
  if one \<open>Try\<close> fails, the cancels of all attempted participants, the failed one included, are
  called in reverse order, and no \<open>Confirm\<close>.
\<close>

theorem tc_Run_calls:
  assumes "tc_validate (pre @ post) = None" "tc_all_tried pre s = Some s1"
  shows "(post = [] \<longrightarrow> fst (snd (tc_Run pre s)) =
       map (\<lambda>p. CalledTry (tc_Name p)) pre @ map (\<lambda>p. CalledConfirm (tc_Name p)) pre) \<and>
    (\<forall>p rest err s2. post = p # rest \<and> the (tc_Try p) s1 = (Some err, s2) \<longrightarrow>
       fst (snd (tc_Run (pre @ post) s)) =
         map (\<lambda>p. CalledTry (tc_Name p)) (pre @ [p]) @ tc_cancel_calls (rev (pre @ [p])))"
proof -
  have "fst (snd (tc_Run pre s)) =
      map (\<lambda>p. CalledTry (tc_Name p)) pre @ map (\<lambda>p. CalledConfirm (tc_Name p)) pre" if "post = []"
  proof -
    have "tc_try_loop pre 0 pre s = (None, map (\<lambda>p. CalledTry (tc_Name p)) pre, s1)"
      using tc_try_loop_prefix[OF assms(2), of pre 0 "[]"] by simp
    then show ?thesis using that assms(1) tc_confirm_loop_spec[of pre s1]
      by (cases "tc_confirm_loop pre s1") (simp add: tc_Run_def)
  qed
  moreover have "fst (snd (tc_Run (pre @ post) s)) =
      map (\<lambda>p. CalledTry (tc_Name p)) (pre @ [p]) @ tc_cancel_calls (rev (pre @ [p]))"
    if "post = p # rest" "the (tc_Try p) s1 = (Some err, s2)" for p rest err s2
    using that assms(1) tc_try_loop_prefix[OF assms(2), of "pre @ post" 0 post]
      tc_cancel_loop_spec[of "length (pre @ [p])" "pre @ [p]" s2]
    by (cases "tc_cancel_loop (pre @ [p]) (Suc (length pre)) s2") (simp add: tc_Run_def tc_cancel_def)
  ultimately show ?thesis by blast
qed

definition tc_demo :: "string \<Rightarrow> bool \<Rightarrow> (nat, string) tc_participant" where
  "tc_demo n ok = \<lparr>tc_Name = n, tc_Try = Some (\<lambda>s. (if ok then None else Some ''no'', s + 1)),
     tc_Confirm = Some (\<lambda>s. (None, s)), tc_Cancel = Some (\<lambda>s. (None, s - 1))\<rparr>"

theorem tc_Run_calls_witness:
  "fst (snd (tc_Run ([tc_demo ''a'' True] @ [tc_demo ''b'' False]) 0)) =
     [CalledTry ''a'', CalledTry ''b'', CalledCancel ''b'', CalledCancel ''a'']"
proof -
  have "tc_validate ([tc_demo ''a'' True] @ [tc_demo ''b'' False]) = None"
    "tc_all_tried [tc_demo ''a'' True] 0 = Some 1" by (simp_all add: tc_demo_def)
  from tc_Run_calls[OF this] have "fst (snd (tc_Run ([tc_demo ''a'' True] @ [tc_demo ''b'' False]) 0)) =
      map (\<lambda>p. CalledTry (tc_Name p)) ([tc_demo ''a'' True] @ [tc_demo ''b'' False]) @
      tc_cancel_calls (rev ([tc_demo ''a'' True] @ [tc_demo ''b'' False]))"
    by (simp add: tc_demo_def)
  then show ?thesis by (simp add: tc_demo_def tc_cancel_calls_def)
qed

end
