(* ===== verification/Go_Bytes.thy ===== *)
theory Go_Bytes
  imports Go_Prelude
begin

unbundle bit_operations_syntax

text \<open>
  Bytes and their printed form: the verb \<open>%x\<close> on a byte slice, and the version 4 UUIDs that the
  outbox and the XA coordinator mint from 16 random bytes without a library.
\<close>

definition go_hexdigit :: "nat \<Rightarrow> char" where
  "go_hexdigit n = (if n < 10 then char_of (48 + n) else char_of (87 + n))"

definition go_hex :: "8 word list \<Rightarrow> string" where
  "go_hex bs = concat (map (\<lambda>b. [go_hexdigit (unat b div 16), go_hexdigit (unat b mod 16)]) bs)"

text \<open>\<open>bs\<close> are the 16 random bytes.\<close>

definition go_uuid :: "8 word list \<Rightarrow> string" where
  "go_uuid bs =
     (let b = bs[6 := (bs ! 6 AND 0x0f) OR 0x40]; b = b[8 := (b ! 8 AND 0x3f) OR 0x80];
          part = (\<lambda>i j. go_hex (take (j - i) (drop i b)))
      in part 0 4 @ ''-'' @ part 4 6 @ ''-'' @ part 6 8 @ ''-'' @ part 8 10 @ ''-'' @ part 10 16)"

text \<open>The characters of a printed UUID: lower case hexadecimal digits and dashes.\<close>

definition go_uuid_char :: "char \<Rightarrow> bool" where
  "go_uuid_char c \<longleftrightarrow> (let n = of_char c :: nat in 48 \<le> n \<and> n \<le> 57 \<or> 97 \<le> n \<and> n \<le> 102 \<or> n = 45)"

lemma go_hexdigit_ok: "n < 16 \<Longrightarrow> go_uuid_char (go_hexdigit n)"
  by (auto simp: go_uuid_char_def go_hexdigit_def Let_def)

lemma word8_nibbles: "unat (b :: 8 word) div 16 < 16" "unat b mod 16 < 16"
  using unsigned_less[of b, where ?'a = nat] by auto

lemma go_hex_ok: "list_all go_uuid_char (go_hex bs)"
  by (induction bs) (simp_all add: go_hex_def go_hexdigit_ok word8_nibbles)

lemma go_hex_length [simp]: "length (go_hex bs) = 2 * length bs"
  by (induction bs) (simp_all add: go_hex_def)

lemma go_uuid_ok: "list_all go_uuid_char (go_uuid bs)"
proof -
  have "go_uuid_char CHR ''-''" by (simp add: go_uuid_char_def)
  then show ?thesis by (simp add: go_uuid_def Let_def go_hex_ok)
qed

lemma go_uuid_length: "length bs = 16 \<Longrightarrow> length (go_uuid bs) = 36"
  by (simp add: go_uuid_def Let_def)

lemma go_uuid_nonempty [simp]: "go_uuid bs \<noteq> []"
  by (simp add: go_uuid_def Let_def)

lemma go_hexdigit_inj: "m < 16 \<Longrightarrow> n < 16 \<Longrightarrow> go_hexdigit m = go_hexdigit n \<Longrightarrow> m = n"
  by (auto simp: go_hexdigit_def split: if_splits dest!: arg_cong[of _ _ "of_char :: char \<Rightarrow> nat"])

end
