(* ===== verification/Xa.thy ===== *)
theory Xa
  imports Go_Bytes "HOL-Library.Sublist"
begin

text \<open>
  \<open>transaction/xa/xa.go\<close> and \<open>transaction/xa/recover.go\<close>: the two-phase commit coordinator. What the
  databases do is a parameter: acquiring a connection, executing a statement and releasing the
  connection are functions on a world. \<open>Run\<close> also returns the trace of the XA statements it issued,
  with their success. The lemmas show that no branch is committed unless every branch was started,
  ended and prepared, that an aborted run rolls back every branch it started (with the exception the
  code has), and that minted XIDs are valid and free of quotes.
\<close>

section \<open>Types\<close>

datatype xa_phase =
  phaseNew | phaseStarted | phaseEnded | phasePrepared | phaseCommitted | phaseInDoubt | phaseRolledBack

datatype xa_verb = XaSTART | XaEND | XaPREPARE | XaCOMMIT | XaROLLBACK

fun xa_verb_text :: "xa_verb \<Rightarrow> string" where
  "xa_verb_text XaSTART = ''XA START''"
| "xa_verb_text XaEND = ''XA END''"
| "xa_verb_text XaPREPARE = ''XA PREPARE''"
| "xa_verb_text XaCOMMIT = ''XA COMMIT''"
| "xa_verb_text XaROLLBACK = ''XA ROLLBACK''"

record 'd xa_resource =
  xa_Name :: string
  xa_DB :: "'d option"

record 'c xa_res =
  xa_name :: string
  xa_conn :: 'c
  xa_phase :: xa_phase

record ('d, 'c, 'w, 'e) xa_db =
  xa_acquire :: "'d \<Rightarrow> 'w \<Rightarrow> ('e + 'c) \<times> 'w"
  xa_statement :: "'c \<Rightarrow> string \<Rightarrow> 'w \<Rightarrow> 'e option \<times> 'w"
  xa_release :: "'c \<Rightarrow> 'w \<Rightarrow> 'w"

datatype 'e xa_error =
    XaNoResources
  | XaMissing string
  | XaDuplicate string
  | XaAcquire string 'e
  | XaStart string 'e
  | XaBusiness 'e
  | XaEnd string 'e
  | XaPrepare string 'e
  | XaCommit "(string \<times> 'e) list"

type_synonym xa_trace = "(string \<times> xa_verb \<times> bool) list"

text \<open>The result of a phase: error, branches, trace, world.\<close>

type_synonym ('c, 'w, 'e) xa_result = "'e xa_error option \<times> 'c xa_res list \<times> xa_trace \<times> 'w"

section \<open>The coordinator\<close>

fun xa_validate :: "string set \<Rightarrow> 'd xa_resource list \<Rightarrow> 'e xa_error option" where
  "xa_validate seen [] = None"
| "xa_validate seen (r # rs) =
     (if xa_Name r = [] \<or> xa_DB r = None then Some (XaMissing (xa_Name r))
      else if xa_Name r \<in> seen then Some (XaDuplicate (xa_Name r))
      else xa_validate (insert (xa_Name r) seen) rs)"

definition xa_exec ::
  "('d, 'c, 'w, 'e) xa_db \<Rightarrow> 'c xa_res \<Rightarrow> xa_verb \<Rightarrow> string \<Rightarrow> 'w \<Rightarrow> 'e option \<times> xa_trace \<times> 'w" where
  "xa_exec db r verb xid w =
     (let (e, w) = xa_statement db (xa_conn r) (xa_verb_text verb @ '' '' @ [CHR 0x27] @ xid @ [CHR 0x27]) w
      in (e, [(xa_name r, verb, e = None)], w))"

fun xa_rollbackAll ::
  "('d, 'c, 'w, 'e) xa_db \<Rightarrow> string \<Rightarrow> 'c xa_res list \<Rightarrow> 'w \<Rightarrow> 'c xa_res list \<times> xa_trace \<times> 'w" where
  "xa_rollbackAll db xid [] w = ([], [], w)"
| "xa_rollbackAll db xid (r # rs) w =
     (let (tr1, w) =
        (case xa_phase r of
           phaseStarted \<Rightarrow>
             (let (_, t1, w) = xa_exec db r XaEND xid w; (_, t2, w) = xa_exec db r XaROLLBACK xid w
              in (t1 @ t2, w))
         | phaseEnded \<Rightarrow> (let (_, t, w) = xa_exec db r XaROLLBACK xid w in (t, w))
         | phasePrepared \<Rightarrow> (let (_, t, w) = xa_exec db r XaROLLBACK xid w in (t, w))
         | _ \<Rightarrow> ([], w));
        (rs, tr2, w) = xa_rollbackAll db xid rs w
      in (r\<lparr>xa_phase := phaseRolledBack\<rparr> # rs, tr1 @ tr2, w))"

text \<open>Phase 0; \<open>started\<close> holds the branches bound so far.\<close>

fun xa_start_loop ::
  "('d, 'c, 'w, 'e) xa_db \<Rightarrow> string \<Rightarrow> 'd xa_resource list \<Rightarrow> 'c xa_res list \<Rightarrow> 'w \<Rightarrow> ('c, 'w, 'e) xa_result" where
  "xa_start_loop db xid [] started w = (None, started, [], w)"
| "xa_start_loop db xid (res # rest) started w =
     (case xa_acquire db (the (xa_DB res)) w of
        (Inl err, w) \<Rightarrow> (Some (XaAcquire (xa_Name res) err), started, [], w)
      | (Inr conn, w) \<Rightarrow>
          (let r = \<lparr>xa_name = xa_Name res, xa_conn = conn, xa_phase = phaseNew\<rparr>
           in case xa_exec db r XaSTART xid w of
                (Some err, t, w) \<Rightarrow>
                  let (rs, t', w) = xa_rollbackAll db xid (started @ [r]) w
                  in (Some (XaStart (xa_Name res) err), rs, t @ t', w)
              | (None, t, w) \<Rightarrow>
                  let (e, rs, t', w) =
                    xa_start_loop db xid rest (started @ [r\<lparr>xa_phase := phaseStarted\<rparr>]) w
                  in (e, rs, t @ t', w)))"

text \<open>Phases 1 and 2: the statement on every branch, a failure rolls back the whole state.\<close>

fun xa_phase_loop ::
  "('d, 'c, 'w, 'e) xa_db \<Rightarrow> xa_verb \<Rightarrow> xa_phase \<Rightarrow> (string \<Rightarrow> 'e \<Rightarrow> 'e xa_error) \<Rightarrow> string \<Rightarrow> 'c xa_res list \<Rightarrow>
   'c xa_res list \<Rightarrow> 'w \<Rightarrow> ('c, 'w, 'e) xa_result" where
  "xa_phase_loop db verb ph mk xid [] past w = (None, past, [], w)"
| "xa_phase_loop db verb ph mk xid (r # rest) past w =
     (case xa_exec db r verb xid w of
        (Some err, t, w) \<Rightarrow>
          let (rs, t', w) = xa_rollbackAll db xid (past @ r # rest) w
          in (Some (mk (xa_name r) err), rs, t @ t', w)
      | (None, t, w) \<Rightarrow>
          let (e, rs, t', w) = xa_phase_loop db verb ph mk xid rest (past @ [r\<lparr>xa_phase := ph\<rparr>]) w
          in (e, rs, t @ t', w))"

fun xa_commit_loop ::
  "('d, 'c, 'w, 'e) xa_db \<Rightarrow> string \<Rightarrow> 'c xa_res list \<Rightarrow> 'w \<Rightarrow>
   (string \<times> 'e) list \<times> 'c xa_res list \<times> xa_trace \<times> 'w" where
  "xa_commit_loop db xid [] w = ([], [], [], w)"
| "xa_commit_loop db xid (r # rest) w =
     (let (e, t, w) = xa_exec db r XaCOMMIT xid w;
          r' = r\<lparr>xa_phase := (if e = None then phaseCommitted else phaseInDoubt)\<rparr>;
          (es, rs, t', w) = xa_commit_loop db xid rest w
      in ((case e of None \<Rightarrow> es | Some err \<Rightarrow> (xa_name r, err) # es), r' # rs, t @ t', w))"

text \<open>The session: names to connections.\<close>

type_synonym 'c xa_session = "string \<rightharpoonup> 'c"

definition xa_Conn :: "'c xa_session \<Rightarrow> string \<Rightarrow> 'c option" where
  "xa_Conn s name = s name"

definition xa_session :: "'c xa_res list \<Rightarrow> 'c xa_session" where
  "xa_session rs = map_of (rev (map (\<lambda>r. (xa_name r, xa_conn r)) rs))"

text \<open>Phases 1 to 3: end, prepare and commit every branch.\<close>

definition xa_finish :: "('d, 'c, 'w, 'e) xa_db \<Rightarrow> string \<Rightarrow> 'c xa_res list \<Rightarrow> 'w \<Rightarrow> ('c, 'w, 'e) xa_result" where
  "xa_finish db xid rs w =
     (case xa_phase_loop db XaEND phaseEnded XaEnd xid rs [] w of
        (Some e, rs, t, w) \<Rightarrow> (Some e, rs, t, w)
      | (None, rs, t, w) \<Rightarrow>
          (case xa_phase_loop db XaPREPARE phasePrepared XaPrepare xid rs [] w of
             (Some e, rs, t', w) \<Rightarrow> (Some e, rs, t @ t', w)
           | (None, rs, t', w) \<Rightarrow>
               let (es, rs, t'', w) = xa_commit_loop db xid rs w
               in (if es = [] then None else Some (XaCommit es), rs, t @ t' @ t'', w)))"

definition xa_phases ::
  "('d, 'c, 'w, 'e) xa_db \<Rightarrow> ('c xa_session \<Rightarrow> 'w \<Rightarrow> 'e option \<times> 'w) \<Rightarrow> string \<Rightarrow> 'd xa_resource list \<Rightarrow> 'w \<Rightarrow>
   ('c, 'w, 'e) xa_result" where
  "xa_phases db fn xid resources w =
     (case xa_start_loop db xid resources [] w of
        (Some e, rs, t, w) \<Rightarrow> (Some e, rs, t, w)
      | (None, rs, t, w) \<Rightarrow>
          (case fn (xa_session rs) w of
             (Some err, w) \<Rightarrow>
               let (rs, t', w) = xa_rollbackAll db xid rs w in (Some (XaBusiness err), rs, t @ t', w)
           | (None, w) \<Rightarrow> let (e, rs, t', w) = xa_finish db xid rs w in (e, rs, t @ t', w)))"

definition xa_Run ::
  "('d, 'c, 'w, 'e) xa_db \<Rightarrow> ('c xa_session \<Rightarrow> 'w \<Rightarrow> 'e option \<times> 'w) \<Rightarrow> string \<Rightarrow> 'd xa_resource list \<Rightarrow> 'w \<Rightarrow>
   ('c, 'w, 'e) xa_result" where
  "xa_Run db fn xid resources w =
     (if resources = [] then (Some XaNoResources, [], [], w)
      else case xa_validate {} resources of
             Some e \<Rightarrow> (Some e, [], [], w)
           | None \<Rightarrow>
               let (e, rs, t, w) = xa_phases db fn xid resources w
               in (e, rs, t, fold (\<lambda>r. xa_release db (xa_conn r)) rs w))"

section \<open>XIDs and recovery\<close>

definition XIDPrefix :: string where
  "XIDPrefix = ''windxa-''"

definition xa_newXID :: "8 word list \<Rightarrow> string" where
  "xa_newXID bs = XIDPrefix @ go_uuid bs"

definition xa_xid_char :: "char \<Rightarrow> bool" where
  "xa_xid_char c \<longleftrightarrow> (let n = of_char c :: nat in 48 \<le> n \<and> n \<le> 57 \<or> 97 \<le> n \<and> n \<le> 102 \<or> n = 45)"

definition xa_validXID :: "string \<Rightarrow> bool" where
  "xa_validXID xid \<longleftrightarrow> prefix XIDPrefix xid \<and> list_all xa_xid_char (drop (length XIDPrefix) xid) \<and>
     length xid > length XIDPrefix"

text \<open>
  \<open>XA RECOVER\<close>: the query fails, or yields rows, each a scan error or the data of an XID, and then
  the error of the iteration, if any.
\<close>

datatype 'e xa_pending_error = XaRecover 'e | XaScan 'e | XaRows 'e

fun xa_pending_loop :: "('e + string) list \<Rightarrow> 'e xa_pending_error + string list" where
  "xa_pending_loop [] = Inr []"
| "xa_pending_loop (Inl e # rows) = Inl (XaScan e)"
| "xa_pending_loop (Inr xid # rows) =
     (case xa_pending_loop rows of
        Inl e \<Rightarrow> Inl e
      | Inr xids \<Rightarrow> Inr (if prefix XIDPrefix xid then xid # xids else xids))"

definition xa_Pending :: "'e + ('e + string) list \<times> 'e option \<Rightarrow> string list \<times> 'e xa_pending_error option" where
  "xa_Pending q =
     (case q of
        Inl e \<Rightarrow> ([], Some (XaRecover e))
      | Inr (rows, rowsErr) \<Rightarrow>
          (case xa_pending_loop rows of
             Inl e \<Rightarrow> ([], Some e)
           | Inr xids \<Rightarrow> (xids, map_option XaRows rowsErr)))"

datatype 'e xa_resolve_error = XaForeign string | XaResolveFailed 'e

definition xa_resolve ::
  "(string \<Rightarrow> 'w \<Rightarrow> 'e option \<times> 'w) \<Rightarrow> xa_verb \<Rightarrow> string \<Rightarrow> 'w \<Rightarrow> 'e xa_resolve_error option \<times> 'w" where
  "xa_resolve stmt verb xid w =
     (if \<not> xa_validXID xid then (Some (XaForeign xid), w)
      else case stmt (xa_verb_text verb @ '' '' @ [CHR 0x27] @ xid @ [CHR 0x27]) w of
             (Some e, w) \<Rightarrow> (Some (XaResolveFailed e), w)
           | (None, w) \<Rightarrow> (None, w))"

definition xa_CommitPending ::
  "(string \<Rightarrow> 'w \<Rightarrow> 'e option \<times> 'w) \<Rightarrow> string \<Rightarrow> 'w \<Rightarrow> 'e xa_resolve_error option \<times> 'w" where
  "xa_CommitPending stmt xid w = xa_resolve stmt XaCOMMIT xid w"

definition xa_RollbackPending ::
  "(string \<Rightarrow> 'w \<Rightarrow> 'e option \<times> 'w) \<Rightarrow> string \<Rightarrow> 'w \<Rightarrow> 'e xa_resolve_error option \<times> 'w" where
  "xa_RollbackPending stmt xid w = xa_resolve stmt XaROLLBACK xid w"

section \<open>Traces of the phases\<close>

definition xa_no_commit :: "xa_trace \<Rightarrow> bool" where
  "xa_no_commit t = list_all (\<lambda>(n, v, ok). v \<noteq> XaCOMMIT) t"

definition xa_rolls :: "xa_trace \<Rightarrow> string \<Rightarrow> bool" where
  "xa_rolls t n = list_ex (\<lambda>(m, v, ok). m = n \<and> v = XaROLLBACK) t"

definition xa_oks :: "xa_verb \<Rightarrow> string list \<Rightarrow> xa_trace" where
  "xa_oks v ns = map (\<lambda>n. (n, v, True)) ns"

lemma xa_exec_trace:
  obtains e w' where "xa_exec db r v xid w = (e, [(xa_name r, v, e = None)], w')"
  by (cases "xa_statement db (xa_conn r) (xa_verb_text v @ '' '' @ [CHR 0x27] @ xid @ [CHR 0x27]) w")
    (simp add: xa_exec_def)

lemma xa_no_commit_append [simp]: "xa_no_commit (t @ t') = (xa_no_commit t \<and> xa_no_commit t')"
  by (simp add: xa_no_commit_def)

lemma xa_no_commit_Cons [simp]: "xa_no_commit ((n, v, ok) # t) = (v \<noteq> XaCOMMIT \<and> xa_no_commit t)"
  by (simp add: xa_no_commit_def)

lemma xa_rolls_simps [simp]:
  "xa_rolls [] n = False"
  "xa_rolls ((m, v, ok) # t) n = (m = n \<and> v = XaROLLBACK \<or> xa_rolls t n)"
  "xa_rolls (t @ t') n = (xa_rolls t n \<or> xa_rolls t' n)"
  by (simp_all add: xa_rolls_def)

lemma xa_no_commit_Nil [simp]: "xa_no_commit []"
  by (simp add: xa_no_commit_def)

lemma xa_oks_no_commit [simp]: "v \<noteq> XaCOMMIT \<Longrightarrow> xa_no_commit (xa_oks v ns)"
  by (simp add: xa_no_commit_def xa_oks_def list_all_iff)

text \<open>A rollback issues \<open>XA ROLLBACK\<close> on every branch that is started, ended or prepared.\<close>

lemma xa_rollbackAll_trace:
  assumes "xa_rollbackAll db xid rs w = (rs', t, w')"
  shows "xa_no_commit t \<and> list_all (\<lambda>(n, v, ok). v \<noteq> XaSTART) t \<and>
    (\<forall>r \<in> set rs. xa_phase r \<in> {phaseStarted, phaseEnded, phasePrepared} \<longrightarrow>
      xa_rolls t (xa_name r))"
  using assms
proof (induction rs arbitrary: w rs' t w')
  case (Cons r rs)
  obtain e1 w1 where x1: "xa_exec db r XaEND xid w = (e1, [(xa_name r, XaEND, e1 = None)], w1)"
    by (rule xa_exec_trace)
  obtain e2 w2 where x2: "xa_exec db r XaROLLBACK xid w1 = (e2, [(xa_name r, XaROLLBACK, e2 = None)], w2)"
    by (rule xa_exec_trace)
  obtain e3 w3 where x3: "xa_exec db r XaROLLBACK xid w = (e3, [(xa_name r, XaROLLBACK, e3 = None)], w3)"
    by (rule xa_exec_trace)
  let ?wn = "case xa_phase r of phaseStarted \<Rightarrow> w2 | phaseEnded \<Rightarrow> w3 | phasePrepared \<Rightarrow> w3 | _ \<Rightarrow> w"
  obtain rs1 t1 w4 where l: "xa_rollbackAll db xid rs ?wn = (rs1, t1, w4)" by (metis prod_cases3)
  from Cons.IH[OF l] Cons.prems x1 x2 x3 l show ?case by (cases "xa_phase r") auto
qed simp

lemma xa_phase_loop_trace:
  assumes "xa_phase_loop db v ph mk xid rs past w = (e, rs', t, w')" "v \<noteq> XaCOMMIT \<and> v \<noteq> XaSTART"
    "\<forall>r \<in> set (past @ rs). xa_phase r \<in> {phaseStarted, phaseEnded, phasePrepared}"
    "ph \<in> {phaseStarted, phaseEnded, phasePrepared}"
  shows "(e = None \<longrightarrow> rs' = past @ map (xa_phase_update (\<lambda>_. ph)) rs \<and> t = xa_oks v (map xa_name rs)) \<and>
    (e \<noteq> None \<longrightarrow> (\<exists>n err. e = Some (mk n err)) \<and> xa_no_commit t \<and> list_all (\<lambda>(n, v, ok). v \<noteq> XaSTART) t \<and>
       (\<forall>r \<in> set (past @ rs). xa_rolls t (xa_name r)))"
  using assms(1,3)
proof (induction rs arbitrary: past w e rs' t w')
  case (Cons r rs)
  obtain x w1 where x: "xa_exec db r v xid w = (x, [(xa_name r, v, x = None)], w1)" by (rule xa_exec_trace)
  show ?case
  proof (cases x)
    case None
    let ?p = "past @ [r\<lparr>xa_phase := ph\<rparr>]"
    obtain e1 rs1 t1 w2 where l: "xa_phase_loop db v ph mk xid rs ?p w1 = (e1, rs1, t1, w2)"
      by (metis prod_cases4)
    have ph: "\<forall>r \<in> set (?p @ rs). xa_phase r \<in> {phaseStarted, phaseEnded, phasePrepared}"
      using Cons.prems(2) assms(4) by auto
    have eq: "e = e1" "rs' = rs1" "t = (xa_name r, v, True) # t1"
      using Cons.prems(1) x None l by auto
    have cons: "xa_no_commit ((xa_name r, v, True) # t1) = xa_no_commit t1"
      using assms(2) by (simp add: xa_no_commit_def)
    show ?thesis
    proof (cases e1)
      case None
      then show ?thesis using Cons.IH[OF l ph] unfolding eq by (simp add: xa_oks_def)
    next
      case (Some err)
      then have "(\<exists>n err. e1 = Some (mk n err)) \<and> xa_no_commit t1 \<and> list_all (\<lambda>(n, v, ok). v \<noteq> XaSTART) t1 \<and>
          (\<forall>r \<in> set (?p @ rs). xa_rolls t1 (xa_name r))"
        using Cons.IH[OF l ph] by simp
      then show ?thesis using Some assms(2) unfolding eq cons by auto
    qed
  next
    case (Some err)
    obtain rs1 t1 w2 where b: "xa_rollbackAll db xid (past @ r # rs) w1 = (rs1, t1, w2)" by (metis prod_cases3)
    from xa_rollbackAll_trace[OF b] Cons.prems x Some b assms(2) show ?thesis by auto
  qed
qed (simp add: xa_oks_def)

lemma xa_start_loop_trace:
  assumes "xa_start_loop db xid res started w = (e, rs, t, w')" "\<forall>r \<in> set started. xa_phase r = phaseStarted"
  shows "(e = None \<longrightarrow> (\<forall>r \<in> set rs. xa_phase r = phaseStarted) \<and>
      map xa_name rs = map xa_name started @ map xa_Name res \<and> t = xa_oks XaSTART (map xa_Name res)) \<and>
    (e \<noteq> None \<longrightarrow> xa_no_commit t \<and> (\<exists>n err. e = Some (XaAcquire n err) \<or> e = Some (XaStart n err)) \<and>
      ((\<exists>n err. e = Some (XaAcquire n err)) \<longrightarrow> (\<exists>k. t = xa_oks XaSTART (map xa_Name (take k res)))) \<and>
      ((\<exists>n err. e = Some (XaStart n err)) \<longrightarrow>
        (\<forall>n. n \<in> xa_name ` set started \<or> (n, XaSTART, True) \<in> set t \<longrightarrow> xa_rolls t n)))"
  using assms
proof (induction res arbitrary: started w e rs t w')
  case (Cons r res)
  obtain a w1 where acq: "xa_acquire db (the (xa_DB r)) w = (a, w1)" by (metis prod.exhaust)
  show ?case
  proof (cases a)
    case (Inl err)
    then show ?thesis using Cons.prems acq
      by (auto simp: xa_oks_def intro!: exI[of _ 0])
  next
    case (Inr conn)
    let ?r = "\<lparr>xa_name = xa_Name r, xa_conn = conn, xa_phase = phaseNew\<rparr>"
    obtain x w2 where x: "xa_exec db ?r XaSTART xid w1 = (x, [(xa_Name r, XaSTART, x = None)], w2)"
      using xa_exec_trace[of db ?r XaSTART xid w1] by auto
    show ?thesis
    proof (cases x)
      case None
      let ?s = "started @ [?r\<lparr>xa_phase := phaseStarted\<rparr>]"
      obtain e1 rs1 t1 w3 where l: "xa_start_loop db xid res ?s w2 = (e1, rs1, t1, w3)" by (metis prod_cases4)
      have s: "\<forall>r \<in> set ?s. xa_phase r = phaseStarted" using Cons.prems(2) by auto
      have eq: "e = e1" "rs = rs1" "t = (xa_Name r, XaSTART, True) # t1"
        using Cons.prems(1) acq Inr x None l by auto
      have k: "\<exists>k. (xa_Name r, XaSTART, True) # xa_oks XaSTART (map xa_Name (take m res)) =
          xa_oks XaSTART (map xa_Name (take k (r # res)))" for m
        by (intro exI[of _ "Suc m"]) (simp add: xa_oks_def)
      from Cons.IH[OF l s] show ?thesis unfolding eq using k
        by (auto simp: xa_oks_def xa_no_commit_def)
    next
      case (Some err)
      obtain rs1 t1 w3 where b: "xa_rollbackAll db xid (started @ [?r]) w2 = (rs1, t1, w3)" by (metis prod_cases3)
      have eq: "e = Some (XaStart (xa_Name r) err)" "t = (xa_Name r, XaSTART, False) # t1"
        using Cons.prems(1) acq Inr x Some b by auto
      from xa_rollbackAll_trace[OF b] Cons.prems(2) show ?thesis unfolding eq
        by (auto simp: xa_no_commit_def list_all_iff)
    qed
  qed
qed (simp add: xa_oks_def)

lemma xa_commit_loop_trace:
  assumes "xa_commit_loop db xid rs w = (es, rs', t, w')"
  shows "map (\<lambda>(n, v, ok). (n, v)) t = map (\<lambda>r. (xa_name r, XaCOMMIT)) rs \<and>
    (es = [] \<longleftrightarrow> list_all (\<lambda>(n, v, ok). ok) t)"
  using assms
proof (induction rs arbitrary: w es rs' t w')
  case (Cons r rs)
  obtain x w1 where x: "xa_exec db r XaCOMMIT xid w = (x, [(xa_name r, XaCOMMIT, x = None)], w1)"
    by (rule xa_exec_trace)
  obtain es1 rs1 t1 w2 where l: "xa_commit_loop db xid rs w1 = (es1, rs1, t1, w2)" by (metis prod_cases4)
  from Cons.IH[OF l] Cons.prems x l show ?case by (auto split: option.splits)
qed simp

definition xa_no_start :: "xa_trace \<Rightarrow> bool" where
  "xa_no_start t = list_all (\<lambda>(n, v, ok). v \<noteq> XaSTART) t"

lemma xa_no_start_simps [simp]:
  "xa_no_start (t @ t') = (xa_no_start t \<and> xa_no_start t')" "v \<noteq> XaSTART \<Longrightarrow> xa_no_start (xa_oks v ns)"
  by (simp add: xa_no_start_def) (simp add: xa_no_start_def xa_oks_def list_all_iff)

text \<open>After the business phase a run aborts with a rollback of every branch, or commits.\<close>

lemma xa_finish_cases:
  assumes "xa_finish db xid rs w = (e, rs', t, w')" "\<forall>r \<in> set rs. xa_phase r = phaseStarted"
  obtains (abort) err where "e = Some err" "(\<exists>n x. err = XaEnd n x) \<or> (\<exists>n x. err = XaPrepare n x)"
      "xa_no_commit t" "xa_no_start t" "\<And>n. n \<in> set (map xa_name rs) \<Longrightarrow> xa_rolls t n"
  | (commit) tc es where "e = (if es = [] then None else Some (XaCommit es))"
      "t = xa_oks XaEND (map xa_name rs) @ xa_oks XaPREPARE (map xa_name rs) @ tc"
      "map (\<lambda>(n, v, ok). (n, v)) tc = map (\<lambda>r. (xa_name r, XaCOMMIT)) rs"
      "es = [] \<longleftrightarrow> list_all (\<lambda>(n, v, ok). ok) tc"
proof -
  obtain e1 rs1 t1 w1 where p1: "xa_phase_loop db XaEND phaseEnded XaEnd xid rs [] w = (e1, rs1, t1, w1)"
    by (metis prod_cases4)
  note tr1 = xa_phase_loop_trace[OF p1, simplified]
  show thesis
  proof (cases e1)
    case (Some err)
    then have "e = Some err" "t = t1" using assms(1) p1 by (auto simp: xa_finish_def)
    then show thesis using tr1 Some assms(2) abort by (auto simp: xa_no_start_def)
  next
    case e1: None
    have rs1: "rs1 = map (xa_phase_update (\<lambda>_. phaseEnded)) rs" and t1: "t1 = xa_oks XaEND (map xa_name rs)"
      using tr1 e1 assms(2) by auto
    have n1: "map xa_name rs1 = map xa_name rs" by (simp add: rs1)
    obtain e2 rs2 t2 w2 where p2: "xa_phase_loop db XaPREPARE phasePrepared XaPrepare xid rs1 [] w1 =
        (e2, rs2, t2, w2)" by (metis prod_cases4)
    have ph: "\<forall>r \<in> set rs1. xa_phase r = phaseEnded" by (auto simp: rs1)
    note tr2 = xa_phase_loop_trace[OF p2, simplified]
    show thesis
    proof (cases e2)
      case (Some err)
      then have "e = Some err" "t = t1 @ t2" using assms(1) p1 e1 p2 by (auto simp: xa_finish_def)
      moreover have "\<exists>n x. err = XaPrepare n x" "xa_no_commit t2" "xa_no_start t2" "\<forall>n \<in> set (map xa_name rs1). xa_rolls t2 n"
        using tr2 Some ph by (auto simp: xa_no_start_def)
      ultimately show thesis using abort[of err] unfolding n1 by (auto simp: t1)
    next
      case e2: None
      have rs2: "rs2 = map (xa_phase_update (\<lambda>_. phasePrepared)) rs1" and t2: "t2 = xa_oks XaPREPARE (map xa_name rs)"
        using tr2 e2 ph by (auto simp: n1[simplified])
      obtain es rs3 tc w4 where c: "xa_commit_loop db xid rs2 w2 = (es, rs3, tc, w4)" by (metis prod_cases4)
      have "e = (if es = [] then None else Some (XaCommit es))" "t = t1 @ t2 @ tc"
        using assms(1) p1 e1 p2 e2 c by (auto simp: xa_finish_def)
      then show thesis using commit xa_commit_loop_trace[OF c] t1 t2 by (simp add: rs2 rs1 comp_def)
    qed
  qed
qed

text \<open>The three ways a run can go: refused acquisition, abort with rollback, commit.\<close>

lemma xa_phases_cases:
  assumes "xa_phases db fn xid res w = (e, rs, t, w')"
  obtains (acquire) n err k where "e = Some (XaAcquire n err)" "t = xa_oks XaSTART (map xa_Name (take k res))"
  | (abort) err where "e = Some err" "\<And>n x. err \<noteq> XaAcquire n x" "\<And>es. err \<noteq> XaCommit es" "xa_no_commit t"
      "\<And>n. (n, XaSTART, True) \<in> set t \<Longrightarrow> xa_rolls t n"
  | (commit) tc es where "e = (if es = [] then None else Some (XaCommit es))"
      "t = xa_oks XaSTART (map xa_Name res) @ xa_oks XaEND (map xa_Name res) @ xa_oks XaPREPARE (map xa_Name res) @ tc"
      "map (\<lambda>(n, v, ok). (n, v)) tc = map (\<lambda>r. (xa_Name r, XaCOMMIT)) res"
      "es = [] \<longleftrightarrow> list_all (\<lambda>(n, v, ok). ok) tc"
proof -
  obtain e0 rs0 t0 w0 where s: "xa_start_loop db xid res [] w = (e0, rs0, t0, w0)" by (metis prod_cases4)
  note st = xa_start_loop_trace[OF s, simplified]
  show thesis
  proof (cases e0)
    case (Some err)
    then have "e = Some err" "t = t0" using assms s by (auto simp: xa_phases_def)
    then show thesis using st Some acquire abort by auto
  next
    case None
    have rs0: "\<forall>r \<in> set rs0. xa_phase r = phaseStarted" and n0: "map xa_name rs0 = map xa_Name res"
      and t0: "t0 = xa_oks XaSTART (map xa_Name res)" using st None by auto
    have ab: thesis if "e = Some err" "t = t0 @ t1" "\<And>n x. err \<noteq> XaAcquire n x" "\<And>es. err \<noteq> XaCommit es"
      "xa_no_commit t1" "xa_no_start t1" "\<And>n. n \<in> set (map xa_name rs0) \<Longrightarrow> xa_rolls t1 n" for err t1
    proof (rule abort[OF that(1,3,4)])
      fix n assume "(n, XaSTART, True) \<in> set t"
      then have "n \<in> set (map xa_Name res)" using that(2,6)
        by (auto simp: t0 xa_oks_def xa_no_start_def list_all_iff)
      then show "xa_rolls t n" using that(2,7) n0 by simp
    qed (use that in \<open>simp add: t0\<close>)
    obtain f w1 where f: "fn (xa_session rs0) w0 = (f, w1)" by (metis prod.exhaust)
    show thesis
    proof (cases f)
      case (Some err)
      obtain rs1 t1 w2 where b: "xa_rollbackAll db xid rs0 w1 = (rs1, t1, w2)" by (metis prod_cases3)
      have "e = Some (XaBusiness err)" "t = t0 @ t1"
        using assms s None f Some b by (auto simp: xa_phases_def)
      then show thesis using xa_rollbackAll_trace[OF b] rs0 by (intro ab) (auto simp: xa_no_start_def)
    next
      case f0: None
      obtain e1 rs1 t1 w2 where p: "xa_finish db xid rs0 w1 = (e1, rs1, t1, w2)" by (metis prod_cases4)
      have e: "e = e1" "t = t0 @ t1" using assms s None f f0 p by (auto simp: xa_phases_def)
      from p rs0 show thesis
      proof (cases rule: xa_finish_cases)
        case (abort err)
        then show thesis using e by (intro ab[of err t1]) auto
      next
        case (commit tc es)
        moreover have "map (\<lambda>r. (xa_name r, XaCOMMIT)) rs0 = map (\<lambda>r. (xa_Name r, XaCOMMIT)) res"
          using arg_cong[OF n0, of "map (\<lambda>n. (n, XaCOMMIT))"] by (simp add: comp_def)
        ultimately show thesis using that(3)[of es tc] e t0 n0 by simp
      qed
    qed
  qed
qed

section \<open>Properties\<close>

text \<open>
  C13: no branch is committed unless all are prepared. If a run issues \<open>XA COMMIT\<close> on any branch,
  its statements are exactly: a successful \<open>XA START\<close>, \<open>XA END\<close> and \<open>XA PREPARE\<close> on every resource,
  then one \<open>XA COMMIT\<close> on every resource; and the run returns nil exactly when all commits succeeded.
\<close>

theorem xa_commit_after_prepare:
  assumes "xa_Run db fn xid res w = (e, rs, t, w')" "\<not> xa_no_commit t"
  shows "\<exists>tc. t = xa_oks XaSTART (map xa_Name res) @ xa_oks XaEND (map xa_Name res) @
      xa_oks XaPREPARE (map xa_Name res) @ tc \<and>
    map (\<lambda>(n, v, ok). (n, v)) tc = map (\<lambda>r. (xa_Name r, XaCOMMIT)) res \<and>
    (e = None \<longleftrightarrow> list_all (\<lambda>(n, v, ok). ok) tc)"
proof -
  obtain w1 where p: "xa_phases db fn xid res w = (e, rs, t, w1)"
    using assms by (auto simp: xa_Run_def split: if_splits option.splits prod.splits)
  then show ?thesis
  proof (cases rule: xa_phases_cases)
    case (commit tc es)
    then show ?thesis by (intro exI[of _ tc]) simp
  qed (use assms(2) in simp_all)
qed

text \<open>
  C26: an aborted run leaves no branch behind, except when a connection is refused. If the run fails
  in the start, business, end or prepare phase, no branch is committed and every branch whose
  \<open>XA START\<close> succeeded gets an \<open>XA ROLLBACK\<close>. But if acquiring a connection fails, the run has
  issued nothing but the \<open>XA START\<close>s of the resources before it: they are not rolled back.
\<close>

theorem xa_abort_rolls_back:
  assumes "xa_Run db fn xid res w = (Some e, rs, t, w')" "\<And>es. e \<noteq> XaCommit es"
  shows "xa_no_commit t \<and>
    ((\<forall>n x. e \<noteq> XaAcquire n x) \<longrightarrow> (\<forall>n. (n, XaSTART, True) \<in> set t \<longrightarrow> xa_rolls t n)) \<and>
    ((\<exists>n x. e = XaAcquire n x) \<longrightarrow> (\<exists>k. t = xa_oks XaSTART (map xa_Name (take k res))))"
proof (cases "t = []")
  case True
  then show ?thesis by (auto simp: xa_oks_def intro!: exI[of _ 0])
next
  case False
  then obtain w1 where p: "xa_phases db fn xid res w = (Some e, rs, t, w1)"
    using assms by (auto simp: xa_Run_def split: if_splits option.splits prod.splits)
  then show ?thesis
  proof (cases rule: xa_phases_cases)
    case (commit tc es)
    then show ?thesis using assms(2) by (auto split: if_splits)
  qed (auto simp: xa_oks_def xa_no_commit_def list_all_iff)
qed

text \<open>A database that refuses the connection \<open>2\<close> and accepts every statement.\<close>

definition xa_demo_db :: "nat \<Rightarrow> (nat, nat, string list, string) xa_db" where
  "xa_demo_db bad = \<lparr>xa_acquire = (\<lambda>d w. (if d = bad then Inl ''refused'' else Inr d, w)),
     xa_statement = (\<lambda>c q w. (None, w @ [q])), xa_release = (\<lambda>c w. w)\<rparr>"

definition xa_demo_res :: "nat xa_resource list" where
  "xa_demo_res = [\<lparr>xa_Name = ''a'', xa_DB = Some 1\<rparr>, \<lparr>xa_Name = ''b'', xa_DB = Some 2\<rparr>]"

theorem xa_commit_after_prepare_witness:
  "\<exists>rs w' tc. xa_Run (xa_demo_db 9) (\<lambda>s w. (None, w)) ''x'' xa_demo_res [] =
     (None, rs, xa_oks XaSTART [''a'', ''b''] @ xa_oks XaEND [''a'', ''b''] @ xa_oks XaPREPARE [''a'', ''b''] @ tc, w')"
proof -
  let ?R = "xa_Run (xa_demo_db 9) (\<lambda>s w. (None, w)) ''x'' xa_demo_res []"
  obtain e rs t w' where R: "?R = (e, rs, t, w')" by (metis prod_cases4)
  have c: "fst ?R = None" "\<not> xa_no_commit (fst (snd (snd ?R)))" by code_simp+
  then have "e = None" "\<not> xa_no_commit t" using R by simp_all
  with xa_commit_after_prepare[OF R] R show ?thesis by (auto simp: xa_demo_res_def)
qed

theorem xa_abort_rolls_back_witness:
  "\<exists>rs k w'. xa_Run (xa_demo_db 2) (\<lambda>s w. (None, w)) ''x'' xa_demo_res [] =
     (Some (XaAcquire ''b'' ''refused''), rs, xa_oks XaSTART (map xa_Name (take k xa_demo_res)), w')"
proof -
  let ?R = "xa_Run (xa_demo_db 2) (\<lambda>s w. (None, w)) ''x'' xa_demo_res []"
  obtain e rs t w' where R: "?R = (e, rs, t, w')" by (metis prod_cases4)
  have "fst ?R = Some (XaAcquire ''b'' ''refused'')" by code_simp
  then have R': "?R = (Some (XaAcquire ''b'' ''refused''), rs, t, w')" using R by simp
  from xa_abort_rolls_back[OF this] obtain k where "t = xa_oks XaSTART (map xa_Name (take k xa_demo_res))" by auto
  with R' show ?thesis by blast
qed

section \<open>XIDs\<close>

text \<open>
  Minted XIDs. Whatever the random bytes are, the XID is accepted by \<open>validXID\<close>, is listed by
  \<open>Pending\<close>, and can be resolved; and no XID that \<open>validXID\<close> accepts contains a quote, so the
  statement text built from it cannot be broken out of.
\<close>

theorem xa_minted_valid:
  "xa_validXID (xa_newXID bs) \<and> xa_Pending (Inr ([Inr (xa_newXID bs)], None :: 'e option)) = ([xa_newXID bs], None) \<and>
   (xa_validXID xid \<longrightarrow> CHR 0x27 \<notin> set xid)"
proof -
  have p: "prefix XIDPrefix (xa_newXID bs)" by (simp add: xa_newXID_def)
  have c: "xa_xid_char = go_uuid_char" by (simp add: fun_eq_iff xa_xid_char_def go_uuid_char_def)
  have v: "xa_validXID (xa_newXID bs)"
    using p by (simp add: xa_validXID_def xa_newXID_def go_uuid_ok c)
  have "CHR 0x27 \<notin> set xid" if "xa_validXID xid"
  proof -
    have "prefix XIDPrefix xid" using that by (simp add: xa_validXID_def)
    then obtain r where r: "xid = XIDPrefix @ r" by (rule prefixE)
    then have "list_all xa_xid_char r" using that by (simp add: xa_validXID_def)
    then have "CHR 0x27 \<notin> set r" by (auto simp: list_all_iff xa_xid_char_def)
    then show ?thesis using r by (simp add: XIDPrefix_def)
  qed
  then show ?thesis using p v by (simp add: xa_Pending_def)
qed

theorem xa_minted_valid_witness:
  "xa_validXID ''windxa-0a-ff'' \<and> CHR 0x27 \<notin> set ''windxa-0a-ff''"
proof -
  have "xa_validXID ''windxa-0a-ff''" by code_simp
  with xa_minted_valid[of "[]" "''windxa-0a-ff''"] show ?thesis by blast
qed

end
