(* ===== verification/Rbac.thy ===== *)
theory Rbac
  imports Authz "HOL-Library.AList"
begin

text \<open>
  \<open>security/authz/rbac\<close>: role-based access control. The Go maps are association lists. The recursion
  of \<open>resolveRoles\<close> threads the mutable \<open>visited\<close> map; it is modelled with fuel, and the fuel chosen
  (one more than the number of role assignments) is proved to be enough for every hierarchy.
\<close>

section \<open>Model\<close>

record rb_permission =
  rb_Resource :: string
  rb_Action :: string

record rb_options =
  rb_rolePermissions :: "(string \<times> rb_permission list) list"
  rb_userRoles :: "(string \<times> string list) list"
  rb_wildcard :: string

text \<open>Reading a Go map of slices: a missing key gives the nil slice.\<close>

definition rb_get :: "(string \<times> 'v list) list \<Rightarrow> string \<Rightarrow> 'v list" where
  "rb_get m k = (case map_of m k of None \<Rightarrow> [] | Some v \<Rightarrow> v)"

datatype rb_opt =
    Rb_WithRolePermissions "(string \<times> rb_permission list) list"
  | Rb_WithRolePermission string string string \<comment> \<open>role, resource, action\<close>
  | Rb_WithUserRoles "(string \<times> string list) list"
  | Rb_WithUserRole string string
  | Rb_WithWildcard string

fun rb_apply :: "rb_opt \<Rightarrow> rb_options \<Rightarrow> rb_options" where
  "rb_apply (Rb_WithRolePermissions rpm) st = st\<lparr>rb_rolePermissions := rpm\<rparr>"
| "rb_apply (Rb_WithRolePermission role resource action) st =
     st\<lparr>rb_rolePermissions := AList.update role
          (rb_get (rb_rolePermissions st) role @ [\<lparr>rb_Resource = resource, rb_Action = action\<rparr>]) (rb_rolePermissions st)\<rparr>"
| "rb_apply (Rb_WithUserRoles urm) st = st\<lparr>rb_userRoles := urm\<rparr>"
| "rb_apply (Rb_WithUserRole user role) st =
     st\<lparr>rb_userRoles := AList.update user (rb_get (rb_userRoles st) user @ [role]) (rb_userRoles st)\<rparr>"
| "rb_apply (Rb_WithWildcard w) st = st\<lparr>rb_wildcard := w\<rparr>"

definition rb_NewEngine :: "rb_opt list \<Rightarrow> rb_options" where
  "rb_NewEngine opts = fold rb_apply opts \<lparr>rb_rolePermissions = [], rb_userRoles = [], rb_wildcard = ''*''\<rparr>"

definition rb_matchVal :: "string \<Rightarrow> string \<Rightarrow> string \<Rightarrow> bool" where
  "rb_matchVal pattern value wildcard =
     (if pattern = wildcard then True
      else if pattern = value then True
      else if suffix wildcard pattern then prefix (butlast pattern) value
      else if prefix wildcard pattern then suffix (tl pattern) value
      else False)"

definition rb_matchPerm :: "rb_permission \<Rightarrow> string \<Rightarrow> string \<Rightarrow> string \<Rightarrow> bool" where
  "rb_matchPerm perm action resource wildcard \<longleftrightarrow>
     rb_matchVal (rb_Action perm) action wildcard \<and> rb_matchVal (rb_Resource perm) resource wildcard"

text \<open>\<open>None\<close> is out of fuel. The second component is the \<open>visited\<close> map after the call.\<close>

fun rb_resolve :: "nat \<Rightarrow> (string \<times> string list) list \<Rightarrow> string \<Rightarrow> string set \<Rightarrow> (string list \<times> string set) option"
  and rb_resolve_loop :: "nat \<Rightarrow> (string \<times> string list) list \<Rightarrow> string list \<Rightarrow> string set \<Rightarrow>
    (string list \<times> string set) option" where
  "rb_resolve n ur subject visited =
     (if subject \<in> visited then Some ([], visited)
      else case n of
             0 \<Rightarrow> None
           | Suc n \<Rightarrow> rb_resolve_loop n ur (rb_get ur subject) (insert subject visited))"
| "rb_resolve_loop n ur [] visited = Some ([], visited)"
| "rb_resolve_loop n ur (role # roles) visited =
     Option.bind (rb_resolve n ur role visited) (\<lambda>(xs, visited).
       map_option (\<lambda>(ys, visited). (role # xs @ ys, visited)) (rb_resolve_loop n ur roles visited))"

definition rb_fuel :: "(string \<times> string list) list \<Rightarrow> nat" where
  "rb_fuel ur = Suc (length (concat (map snd ur)))"

definition rb_resolveRoles :: "rb_options \<Rightarrow> string \<Rightarrow> string list option" where
  "rb_resolveRoles st subject =
     map_option fst (rb_resolve (rb_fuel (rb_userRoles st)) (rb_userRoles st) subject {})"

definition rb_check :: "rb_options \<Rightarrow> string \<Rightarrow> string \<Rightarrow> string \<Rightarrow> bool" where
  "rb_check st subject action resource =
     (case rb_resolveRoles st subject of
        None \<Rightarrow> False
      | Some roles \<Rightarrow>
          list_ex (\<lambda>role. list_ex (\<lambda>perm. rb_matchPerm perm action resource (rb_wildcard st))
            (rb_get (rb_rolePermissions st) role)) roles)"

definition rb_IsAuthorized :: "rb_options \<Rightarrow> string \<Rightarrow> string \<Rightarrow> string \<Rightarrow> bool" where
  "rb_IsAuthorized st s a r = rb_check st s a r"

definition rb_ProjectsAuthorized ::
  "rb_options \<Rightarrow> string list \<Rightarrow> string \<Rightarrow> string \<Rightarrow> string list \<Rightarrow> string list" where
  "rb_ProjectsAuthorized st subs a r ps = az_keep (\<lambda>_ s. rb_check st s a r) subs ps []"

definition rb_FilterAuthorizedPairs :: "rb_options \<Rightarrow> string list \<Rightarrow> az_pair list \<Rightarrow> az_pair list" where
  "rb_FilterAuthorizedPairs st subs qs = az_keep (\<lambda>q s. rb_check st s (az_Action q) (az_Resource q)) subs qs []"

definition rb_FilterAuthorizedProjects :: "rb_options \<Rightarrow> string list \<Rightarrow> string list" where
  "rb_FilterAuthorizedProjects st subs = []"

definition rb_SetPolicies ::
  "(string \<times> rb_permission list) list option \<Rightarrow> (string \<times> string list) list option \<Rightarrow> rb_options \<Rightarrow> rb_options" where
  "rb_SetPolicies rp ur st =
     (let st = (case rp of Some m \<Rightarrow> st\<lparr>rb_rolePermissions := m\<rparr> | None \<Rightarrow> st)
      in case ur of Some m \<Rightarrow> st\<lparr>rb_userRoles := m\<rparr> | None \<Rightarrow> st)"

interpretation rbac: authorizer rb_IsAuthorized rb_ProjectsAuthorized rb_FilterAuthorizedPairs
  by unfold_locales (simp_all add: rb_IsAuthorized_def rb_ProjectsAuthorized_def rb_FilterAuthorizedPairs_def)

section \<open>Role resolution\<close>

text \<open>One step of inheritance.\<close>

definition rb_edge :: "(string \<times> string list) list \<Rightarrow> (string \<times> string) set" where
  "rb_edge ur = {(u, r). r \<in> set (rb_get ur u)}"

declare rb_resolve.simps [simp del]

text \<open>
  What a call adds: it only grows \<open>visited\<close>, it visits its subject, and for every newly visited name
  the roles of that name are both visited and returned; and it returns inherited roles only.
\<close>

definition rb_post :: "(string \<times> string list) list \<Rightarrow> string set \<Rightarrow> string set \<Rightarrow> string list \<Rightarrow> bool" where
  "rb_post ur V V' xs \<longleftrightarrow> V \<subseteq> V' \<and> (\<forall>u \<in> V' - V. set (rb_get ur u) \<subseteq> V' \<and> set (rb_get ur u) \<subseteq> set xs)"

lemma rb_resolve_post:
  "rb_resolve n ur s V = Some (xs, V') \<Longrightarrow> rb_post ur V V' xs \<and> s \<in> V'"
  "rb_resolve_loop n ur rs V = Some (xs, V') \<Longrightarrow> rb_post ur V V' xs \<and> set rs \<subseteq> V' \<and> set rs \<subseteq> set xs"
proof (induction n ur s V and n ur rs V arbitrary: xs V' and xs V' rule: rb_resolve_rb_resolve_loop.induct)
  case (1 n ur s V)
  show ?case
  proof (cases "s \<in> V")
    case True
    then show ?thesis using "1.prems" by (auto simp: rb_resolve.simps rb_post_def)
  next
    case False
    then obtain m where m: "n = Suc m" "rb_resolve_loop m ur (rb_get ur s) (insert s V) = Some (xs, V')"
      using "1.prems" by (cases n) (auto simp: rb_resolve.simps)
    from "1.IH"[OF False m] show ?thesis by (auto simp: rb_post_def)
  qed
next
  case (2 n ur V)
  then show ?case by (simp add: rb_post_def)
next
  case (3 n ur r rs V)
  then obtain ys V1 zs where a: "rb_resolve n ur r V = Some (ys, V1)"
    and b: "rb_resolve_loop n ur rs V1 = Some (zs, V')" and xs: "xs = r # ys @ zs"
    by (auto simp: bind_eq_Some_conv)
  from "3.IH"(1)[OF a] "3.IH"(2)[OF a refl b] show ?case unfolding xs rb_post_def by auto blast+
qed

lemma rb_resolve_sound:
  "rb_resolve n ur s V = Some (xs, V') \<Longrightarrow> set xs \<subseteq> (rb_edge ur)\<^sup>+ `` {s}"
  "rb_resolve_loop n ur rs V = Some (xs, V') \<Longrightarrow> set xs \<subseteq> set rs \<union> (rb_edge ur)\<^sup>+ `` set rs"
proof (induction n ur s V and n ur rs V arbitrary: xs V' and xs V' rule: rb_resolve_rb_resolve_loop.induct)
  case (1 n ur s V)
  show ?case
  proof (cases "s \<in> V")
    case True
    then show ?thesis using "1.prems" by (auto simp: rb_resolve.simps)
  next
    case False
    then obtain m where m: "n = Suc m" "rb_resolve_loop m ur (rb_get ur s) (insert s V) = Some (xs, V')"
      using "1.prems" by (cases n) (auto simp: rb_resolve.simps)
    have "(s, r) \<in> rb_edge ur" if "r \<in> set (rb_get ur s)" for r using that by (simp add: rb_edge_def)
    with "1.IH"[OF False m] show ?thesis by (blast intro: trancl_into_trancl2)
  qed
next
  case (3 n ur r rs V)
  then obtain ys V1 zs where a: "rb_resolve n ur r V = Some (ys, V1)"
    and b: "rb_resolve_loop n ur rs V1 = Some (zs, V')" and xs: "xs = r # ys @ zs"
    by (auto simp: bind_eq_Some_conv)
  from "3.IH"(1)[OF a] "3.IH"(2)[OF a refl b] show ?case unfolding xs by auto
qed simp

text \<open>Enough fuel: one unit per name that is not visited yet.\<close>

lemma rb_resolve_fuel:
  "finite U \<Longrightarrow> (\<And>u. set (rb_get ur u) \<subseteq> U) \<Longrightarrow> s \<in> U \<Longrightarrow> card (U - V) \<le> n \<Longrightarrow>
     \<exists>r. rb_resolve n ur s V = Some r"
  "finite U \<Longrightarrow> (\<And>u. set (rb_get ur u) \<subseteq> U) \<Longrightarrow> set rs \<subseteq> U \<Longrightarrow> card (U - V) \<le> n \<Longrightarrow>
     \<exists>r. rb_resolve_loop n ur rs V = Some r"
proof (induction n ur s V and n ur rs V rule: rb_resolve_rb_resolve_loop.induct)
  case (1 n ur s V)
  show ?case
  proof (cases "s \<in> V")
    case True
    then show ?thesis by (simp add: rb_resolve.simps)
  next
    case False
    have "card (U - insert s V) < card (U - V)"
      using "1.prems"(1,3) False by (intro psubset_card_mono) auto
    then obtain m where m: "n = Suc m" "card (U - insert s V) \<le> m" using "1.prems"(4) by (cases n) auto
    from "1.IH"[OF False m(1) "1.prems"(1,2) "1.prems"(2) m(2)] show ?thesis
      using False m(1) by (simp add: rb_resolve.simps)
  qed
next
  case (3 n ur r rs V)
  then obtain ys V1 where a: "rb_resolve n ur r V = Some (ys, V1)" by auto
  have "card (U - V1) \<le> card (U - V)"
    using rb_resolve_post(1)[OF a] "3.prems"(1) by (intro card_mono) (auto simp: rb_post_def)
  then have "\<exists>q. rb_resolve_loop n ur rs V1 = Some q"
    using "3.IH"(2)[OF a refl "3.prems"(1,2)] "3.prems"(3,4) by simp
  with a show ?case by auto
qed simp

lemma rb_get_subset: "set (rb_get ur u) \<subseteq> set (concat (map snd ur))"
proof (cases "map_of ur u")
  case (Some v)
  then have "(u, v) \<in> set ur" by (rule map_of_SomeD)
  then show ?thesis using Some by (auto simp: rb_get_def)
qed (simp add: rb_get_def)

lemma rb_resolve_total: "\<exists>xs V. rb_resolve (rb_fuel ur) ur s {} = Some (xs, V)"
proof -
  let ?U = "insert s (set (concat (map snd ur)))"
  have "card (?U - {}) \<le> rb_fuel ur"
    using card_insert_le_m1[of "rb_fuel ur" "set (concat (map snd ur))" s] card_length[of "concat (map snd ur)"]
    by (simp add: rb_fuel_def)
  then have "\<exists>r. rb_resolve (rb_fuel ur) ur s {} = Some r"
    using rb_get_subset[of ur] by (intro rb_resolve_fuel(1)[of ?U]) auto
  then show ?thesis by auto
qed

lemma rb_roles_exact:
  "\<exists>roles. rb_resolveRoles st s = Some roles \<and> set roles = {r. (s, r) \<in> (rb_edge (rb_userRoles st))\<^sup>+}"
proof -
  let ?ur = "rb_userRoles st"
  obtain xs V where r: "rb_resolve (rb_fuel ?ur) ?ur s {} = Some (xs, V)" using rb_resolve_total by blast
  from rb_resolve_post(1)[OF r] have V: "s \<in> V" "\<And>u r. u \<in> V \<Longrightarrow> r \<in> set (rb_get ?ur u) \<Longrightarrow> r \<in> V \<and> r \<in> set xs"
    by (auto simp: rb_post_def)
  have "q \<in> V \<and> q \<in> set xs" if "(s, q) \<in> (rb_edge ?ur)\<^sup>+" for q
    using that by (induction rule: trancl_induct) (use V in \<open>auto simp: rb_edge_def\<close>)
  with rb_resolve_sound(1)[OF r] have "set xs = {q. (s, q) \<in> (rb_edge ?ur)\<^sup>+}" by auto
  then show ?thesis using r by (simp add: rb_resolveRoles_def)
qed

text \<open>
  C12: role resolution ends on every hierarchy, cyclic ones included, and returns exactly the roles
  the subject has directly or through inheritance.
\<close>

theorem rb_resolveRoles_exact:
  "\<exists>roles. rb_resolveRoles st s = Some roles \<and> set roles = {r. (s, r) \<in> (rb_edge (rb_userRoles st))\<^sup>+}"
  by (rule rb_roles_exact)

text \<open>
  C25: the RBAC decision refines its specification: access is granted exactly when some direct or
  inherited role of the subject has a permission that matches; and \<open>FilterAuthorizedPairs\<close> keeps
  exactly the pairs that some subject is granted, in their order.
\<close>

theorem rb_decision:
  "(rb_IsAuthorized st s a r \<longleftrightarrow>
     (\<exists>role perm. (s, role) \<in> (rb_edge (rb_userRoles st))\<^sup>+ \<and> perm \<in> set (rb_get (rb_rolePermissions st) role) \<and>
        rb_matchPerm perm a r (rb_wildcard st))) \<and>
   subseq (rb_FilterAuthorizedPairs st subs qs) qs \<and>
   (q \<in> set (rb_FilterAuthorizedPairs st subs qs) \<longleftrightarrow>
     q \<in> set qs \<and> (\<exists>s \<in> set subs. rb_IsAuthorized st s (az_Action q) (az_Resource q)))"
proof -
  obtain roles where "rb_resolveRoles st s = Some roles" "set roles = {r. (s, r) \<in> (rb_edge (rb_userRoles st))\<^sup>+}"
    using rb_roles_exact by blast
  then show ?thesis
    using rbac.pairs_subseq[of st subs qs] rbac.pairs_iff[of st subs qs]
    by (auto simp: rb_IsAuthorized_def rb_check_def list_ex_iff)
qed

end
