(* ===== verification/Iam.thy ===== *)
theory Iam
  imports Authz "HOL-Library.AList"
begin

text \<open>
  \<open>security/authz/awsiam\<close>: AWS-IAM-style policies. The wildcard matching splits the pattern at the
  stars and searches the middle parts from left to right; the lemmas compare it with the usual
  meaning of a glob pattern, give the decision of \<open>evaluate\<close>, and show what the option
  \<open>WithDenyStatement\<close> adds.
\<close>

section \<open>Policies and options\<close>

record im_statement =
  im_Effect :: string
  im_Actions :: "string list"
  im_Resources :: "string list"

record im_policy =
  im_Version :: string
  im_Statement :: "im_statement list"

record im_options =
  im_policies :: "(string \<times> im_policy list) list"
  im_defaultDeny :: bool

definition im_get :: "(string \<times> im_policy list) list \<Rightarrow> string \<Rightarrow> im_policy list" where
  "im_get m k = (case map_of m k of None \<Rightarrow> [] | Some v \<Rightarrow> v)"

datatype im_opt =
    Im_WithPolicy string im_policy
  | Im_WithPolicies "(string \<times> im_policy list) list"
  | Im_WithAllowStatement string "string list" "string list"
  | Im_WithDenyStatement string "string list" "string list"
  | Im_WithDefaultAllow

definition im_add :: "string \<Rightarrow> im_policy \<Rightarrow> im_options \<Rightarrow> im_options" where
  "im_add subject policy st =
     st\<lparr>im_policies := AList.update subject (im_get (im_policies st) subject @ [policy]) (im_policies st)\<rparr>"

fun im_apply :: "im_opt \<Rightarrow> im_options \<Rightarrow> im_options" where
  "im_apply (Im_WithPolicy subject policy) st = im_add subject policy st"
| "im_apply (Im_WithPolicies ps) st = st\<lparr>im_policies := ps\<rparr>"
| "im_apply (Im_WithAllowStatement subject actions resources) st =
     im_add subject \<lparr>im_Version = ''2012-10-17'',
       im_Statement = [\<lparr>im_Effect = ''Allow'', im_Actions = actions, im_Resources = resources\<rparr>]\<rparr> st"
| "im_apply (Im_WithDenyStatement subject actions resources) st =
     im_add subject \<lparr>im_Version = ''2012-10-17'',
       im_Statement = [\<lparr>im_Effect = ''Deny'', im_Actions = resources, im_Resources = resources\<rparr>]\<rparr> st"
| "im_apply Im_WithDefaultAllow st = st\<lparr>im_defaultDeny := False\<rparr>"

definition im_NewEngine :: "im_opt list \<Rightarrow> im_options" where
  "im_NewEngine opts = fold im_apply opts \<lparr>im_policies = [], im_defaultDeny = True\<rparr>"

section \<open>Pattern matching\<close>

text \<open>\<open>strings.Split(pattern, "*")\<close>.\<close>

fun im_split :: "string \<Rightarrow> string list" where
  "im_split [] = [[]]"
| "im_split (c # cs) =
     (if c = CHR ''*'' then [] # im_split cs else (c # hd (im_split cs)) # tl (im_split cs))"

text \<open>\<open>strings.Index\<close>: the leftmost occurrence.\<close>

fun str_index :: "string \<Rightarrow> string \<Rightarrow> nat option" where
  "str_index [] sub = (if sub = [] then Some 0 else None)"
| "str_index (c # cs) sub =
     (if prefix sub (c # cs) then Some 0 else map_option Suc (str_index cs sub))"

fun im_middle :: "string list \<Rightarrow> string \<Rightarrow> nat \<Rightarrow> bool" where
  "im_middle [] value pos = True"
| "im_middle (part # parts) value pos =
     (if part = [] then im_middle parts value pos
      else case str_index (drop pos value) part of
             None \<Rightarrow> False
           | Some idx \<Rightarrow> im_middle parts value (pos + idx + length part))"

definition im_matchPattern :: "string \<Rightarrow> string \<Rightarrow> bool" where
  "im_matchPattern pattern value =
     (if pattern = ''*'' then True
      else if pattern = value then True
      else if CHR ''*'' \<notin> set pattern then pattern = value
      else let parts = im_split pattern
           in if length parts = 1 then pattern = value
              else if hd parts \<noteq> [] \<and> \<not> prefix (hd parts) value then False
              else let pos = (if hd parts \<noteq> [] then length (hd parts) else 0);
                       lastPart = last parts
                   in if lastPart \<noteq> [] \<and> \<not> suffix lastPart value then False
                      else im_middle (butlast (tl parts)) value pos)"

fun im_matchAny :: "string list \<Rightarrow> string \<Rightarrow> bool" where
  "im_matchAny [] value = False"
| "im_matchAny (p # ps) value = (if im_matchPattern p value then True else im_matchAny ps value)"

section \<open>Evaluation\<close>

fun im_scan :: "im_statement list \<Rightarrow> string \<Rightarrow> string \<Rightarrow> bool \<times> bool \<Rightarrow> bool \<times> bool" where
  "im_scan [] action resource (allowed, denied) = (allowed, denied)"
| "im_scan (stmt # stmts) action resource (allowed, denied) =
     (if \<not> im_matchAny (im_Actions stmt) action then im_scan stmts action resource (allowed, denied)
      else if \<not> im_matchAny (im_Resources stmt) resource then im_scan stmts action resource (allowed, denied)
      else if im_Effect stmt = ''Deny'' then im_scan stmts action resource (allowed, True)
      else if im_Effect stmt = ''Allow'' then im_scan stmts action resource (True, denied)
      else im_scan stmts action resource (allowed, denied))"

definition im_evaluate :: "im_options \<Rightarrow> string \<Rightarrow> string \<Rightarrow> string \<Rightarrow> bool" where
  "im_evaluate st subject action resource =
     (let policies = im_get (im_policies st) subject;
          (allowed, denied) = fold (\<lambda>p. im_scan (im_Statement p) action resource) policies (False, False)
      in if denied then False else if allowed then True else \<not> im_defaultDeny st)"

definition im_IsAuthorized :: "im_options \<Rightarrow> string \<Rightarrow> string \<Rightarrow> string \<Rightarrow> bool" where
  "im_IsAuthorized st s a r = im_evaluate st s a r"

definition im_ProjectsAuthorized ::
  "im_options \<Rightarrow> string list \<Rightarrow> string \<Rightarrow> string \<Rightarrow> string list \<Rightarrow> string list" where
  "im_ProjectsAuthorized st subs a r ps = az_keep (\<lambda>_ s. im_evaluate st s a r) subs ps []"

definition im_FilterAuthorizedPairs :: "im_options \<Rightarrow> string list \<Rightarrow> az_pair list \<Rightarrow> az_pair list" where
  "im_FilterAuthorizedPairs st subs qs = az_keep (\<lambda>q s. im_evaluate st s (az_Action q) (az_Resource q)) subs qs []"

definition im_FilterAuthorizedProjects :: "im_options \<Rightarrow> string list \<Rightarrow> string list" where
  "im_FilterAuthorizedProjects st subs = []"

definition im_SetPolicies :: "(string \<times> im_policy list) list option \<Rightarrow> im_options \<Rightarrow> im_options" where
  "im_SetPolicies ps st = (case ps of Some m \<Rightarrow> st\<lparr>im_policies := m\<rparr> | None \<Rightarrow> st)"

interpretation iam: authorizer im_IsAuthorized im_ProjectsAuthorized im_FilterAuthorizedPairs
  by unfold_locales (simp_all add: im_IsAuthorized_def im_ProjectsAuthorized_def im_FilterAuthorizedPairs_def)

section \<open>The decision\<close>

definition im_applies :: "string \<Rightarrow> string \<Rightarrow> im_statement \<Rightarrow> bool" where
  "im_applies a r stmt \<longleftrightarrow> im_matchAny (im_Actions stmt) a \<and> im_matchAny (im_Resources stmt) r"

definition im_statements :: "im_options \<Rightarrow> string \<Rightarrow> im_statement list" where
  "im_statements st s = concat (map im_Statement (im_get (im_policies st) s))"

lemma im_scan_eq:
  "im_scan ss a r (al, de) =
     (al \<or> (\<exists>x \<in> set ss. im_applies a r x \<and> im_Effect x = ''Allow''),
      de \<or> (\<exists>x \<in> set ss. im_applies a r x \<and> im_Effect x = ''Deny''))"
  by (induction ss arbitrary: al de) (auto simp: im_applies_def)

lemma im_fold_scan:
  "fold (\<lambda>p. im_scan (im_Statement p) a r) ps (al, de) = im_scan (concat (map im_Statement ps)) a r (al, de)"
  by (induction ps arbitrary: al de) (auto simp: im_scan_eq)

lemma im_evaluate_iff:
  "im_evaluate st s a r \<longleftrightarrow>
     \<not> (\<exists>x \<in> set (im_statements st s). im_applies a r x \<and> im_Effect x = ''Deny'') \<and>
     ((\<exists>x \<in> set (im_statements st s). im_applies a r x \<and> im_Effect x = ''Allow'') \<or> \<not> im_defaultDeny st)"
  unfolding im_evaluate_def im_statements_def im_fold_scan im_scan_eq by (auto simp: Let_def)

section \<open>Glob patterns\<close>

text \<open>The usual meaning: a star stands for any string, every other character for itself.\<close>

fun glob :: "string \<Rightarrow> string \<Rightarrow> bool" where
  "glob [] v = (v = [])"
| "glob (c # p) v =
     (if c = CHR ''*'' then glob p v \<or> (case v of [] \<Rightarrow> False | _ # v' \<Rightarrow> glob (c # p) v')
      else case v of [] \<Rightarrow> False | d # v' \<Rightarrow> c = d \<and> glob p v')"

fun glob_parts :: "string list \<Rightarrow> string \<Rightarrow> bool" where
  "glob_parts [] v = False"
| "glob_parts [p] v = (v = p)"
| "glob_parts (p # q # ps) v = (\<exists>x w. v = p @ x @ w \<and> glob_parts (q # ps) w)"

lemma glob_star: "glob (CHR ''*'' # p) v = (glob p v \<or> (\<exists>d v'. v = d # v' \<and> glob (CHR ''*'' # p) v'))"
  by (subst glob.simps) (auto split: list.split)

lemma glob_char: "c \<noteq> CHR ''*'' \<Longrightarrow> glob (c # p) v = (\<exists>v'. v = c # v' \<and> glob p v')"
  by (subst glob.simps) (auto split: list.split)

declare glob.simps(2) [simp del]

text \<open>The middle parts occur in \<open>v\<close> one after the other.\<close>

fun in_order :: "string list \<Rightarrow> string \<Rightarrow> bool" where
  "in_order [] v = True"
| "in_order (p # ps) v = (\<exists>x w. v = x @ p @ w \<and> in_order ps w)"

lemma im_split_ne [simp]: "im_split p \<noteq> []"
  by (induction p) auto

lemma glob_parts_star: "qs \<noteq> [] \<Longrightarrow> glob_parts ([] # qs) v = (\<exists>x w. v = x @ w \<and> glob_parts qs w)"
  by (cases qs) auto

lemma glob_parts_Cons: "glob_parts (q # qs) v \<Longrightarrow> glob_parts ((c # q) # qs) (c # v)"
  by (cases qs) auto

lemma glob_imp_parts: "glob p v \<Longrightarrow> glob_parts (im_split p) v"
proof (induction p v rule: glob.induct)
  case (2 c p v)
  show ?case
  proof (cases "c = CHR ''*''")
    case True
    have gp: "glob_parts (im_split (c # p)) u = (\<exists>x w. u = x @ w \<and> glob_parts (im_split p) w)" for u
      using True by (simp add: glob_parts_star)
    from "2.prems" True consider "glob p v" | d v' where "v = d # v'" "glob (c # p) v'"
      using glob_star[of p v] by blast
    then show ?thesis
    proof cases
      case 1
      then show ?thesis using "2.IH"(1)[OF True] unfolding gp by (intro exI[of _ "[]"] exI[of _ v]) simp
    next
      case 2
      then have "glob_parts (im_split (c # p)) v'" using "2.IH"(2)[OF True] by simp
      then obtain x w where "v' = x @ w" "glob_parts (im_split p) w" unfolding gp by blast
      then show ?thesis using 2(1) unfolding gp by (intro exI[of _ "d # x"] exI[of _ w]) simp
    qed
  next
    case False
    then obtain v' where "v = c # v'" "glob p v'" using "2.prems" glob_char by blast
    then show ?thesis using "2.IH"(3)[OF False] False glob_parts_Cons[of "hd (im_split p)" "tl (im_split p)" v' c]
      by simp
  qed
qed simp

lemma in_order_prepend: "in_order ps w \<Longrightarrow> in_order ps (x @ w)"
  by (cases ps) (auto, metis append.assoc)

lemma str_index_leftmost:
  assumes "v = x @ p @ w"
  obtains i y where "str_index v p = Some i" "drop (i + length p) v = y @ w"
  using assms
proof (induction v arbitrary: x thesis)
  case Nil
  then show ?case by auto
next
  case (Cons c v)
  show ?case
  proof (cases "prefix p (c # v)")
    case True
    have "drop (0 + length p) (c # v) = drop (length p) (x @ p) @ w" unfolding Cons.prems(2) by simp
    moreover have "str_index (c # v) p = Some 0" using True by simp
    ultimately show ?thesis by (rule Cons.prems(1)[rotated])
  next
    case False
    then obtain x' where x: "x = c # x'" using Cons.prems(2) by (cases x) auto
    obtain i y where "str_index v p = Some i" "drop (i + length p) v = y @ w"
      using Cons.IH[where x = x'] Cons.prems(2) x by auto
    then show ?thesis using Cons.prems(1)[of "Suc i" y] False by simp
  qed
qed

lemma im_middle_complete: "in_order ps (drop pos v) \<Longrightarrow> im_middle ps v pos"
proof (induction ps arbitrary: pos)
  case (Cons p ps)
  then obtain x w where v: "drop pos v = x @ p @ w" "in_order ps w" by auto
  show ?case
  proof (cases "p = []")
    case True
    then show ?thesis using Cons.IH[of pos] v in_order_prepend by simp
  next
    case False
    from str_index_leftmost[OF v(1)] obtain i y
      where i: "str_index (drop pos v) p = Some i" "drop (i + length p) (drop pos v) = y @ w" by blast
    then have "in_order ps (drop (pos + i + length p) v)"
      using in_order_prepend[OF v(2), of y] by (simp add: add_ac)
    then show ?thesis using False i(1) Cons.IH by simp
  qed
qed simp

lemma glob_parts_shape:
  "glob_parts (p # ps) v \<Longrightarrow> ps \<noteq> [] \<Longrightarrow>
     prefix p v \<and> suffix (last ps) v \<and> in_order (butlast ps) (drop (length p) v)"
proof (induction ps arbitrary: p v)
  case (Cons q ps)
  then obtain x w where v: "v = p @ x @ w" "glob_parts (q # ps) w" by auto
  show ?case
  proof (cases "ps = []")
    case True
    then show ?thesis using v by (simp add: suffix_def)
  next
    case False
    from Cons.IH[OF v(2) False]
    have "prefix q w" "suffix (last ps) w" "in_order (butlast ps) (drop (length q) w)" by auto
    moreover then obtain zs where "w = q @ zs" by (auto simp: prefix_def)
    ultimately have "in_order (q # butlast ps) w" unfolding in_order.simps
      by (intro exI[of _ "[]"] exI[of _ zs]) simp
    then show ?thesis using v(1) False \<open>suffix (last ps) w\<close> in_order_prepend
      by (auto simp: suffix_def simp del: in_order.simps)
  qed
qed simp

lemma im_matchPattern_complete:
  assumes "glob p v"
  shows "im_matchPattern p v"
proof -
  have g: "glob_parts (im_split p) v" using assms by (rule glob_imp_parts)
  obtain q qs where q: "im_split p = q # qs" by (cases "im_split p") auto
  have len: "im_split p = [p]" if "CHR ''*'' \<notin> set p" using that by (induction p) auto
  show ?thesis
  proof (cases "qs = []")
    case True
    have "CHR ''*'' \<notin> set p" if "im_split p = [x]" for x using that
      by (induction p arbitrary: x) (auto split: if_splits, metis im_split_ne list.collapse)
    then show ?thesis using True g q len by (auto simp: im_matchPattern_def)
  next
    case False
    from glob_parts_shape[OF g[unfolded q] False] show ?thesis
      using False q len im_middle_complete[of "butlast qs" "length q" v]
      by (auto simp: im_matchPattern_def Let_def)
  qed
qed

section \<open>Properties\<close>



text \<open>
  The IAM decision. Access is granted exactly when no statement of the subject's policies that
  applies has the effect \<open>Deny\<close>, and one that applies has the effect \<open>Allow\<close> or the default is to
  allow; statements with any other effect never count. \<open>ProjectsAuthorized\<close> returns all projects or
  none, since the decision does not look at the project.
\<close>

theorem im_decision:
  "(im_IsAuthorized st s a r \<longleftrightarrow>
     \<not> (\<exists>x \<in> set (im_statements st s). im_applies a r x \<and> im_Effect x = ''Deny'') \<and>
     ((\<exists>x \<in> set (im_statements st s). im_applies a r x \<and> im_Effect x = ''Allow'') \<or> \<not> im_defaultDeny st)) \<and>
   im_ProjectsAuthorized st subs a r ps = (if \<exists>s \<in> set subs. im_IsAuthorized st s a r then ps else [])"
  using im_evaluate_iff iam.projects_all_or_none by (simp add: im_IsAuthorized_def)

lemma im_matchAny_plain: "CHR ''*'' \<notin> set x \<Longrightarrow> im_matchAny [x] v = (x = v)"
  by (auto simp: im_matchPattern_def)

text \<open>
  \<open>WithDenyStatement\<close> does not deny what it is asked to deny. For any action and resource
  without wildcards that differ, an engine built to allow the pair and then to deny the same pair
  still grants it, because the deny statement carries the resources in the place of the actions.
\<close>

theorem im_deny_statement_ineffective:
  assumes "CHR ''*'' \<notin> set act" "CHR ''*'' \<notin> set res" "act \<noteq> res"
  shows "im_IsAuthorized (im_NewEngine [Im_WithAllowStatement s [act] [res], Im_WithDenyStatement s [act] [res]]) s act res"
proof -
  let ?st = "im_NewEngine [Im_WithAllowStatement s [act] [res], Im_WithDenyStatement s [act] [res]]"
  have "im_statements ?st s =
      [\<lparr>im_Effect = ''Allow'', im_Actions = [act], im_Resources = [res]\<rparr>,
       \<lparr>im_Effect = ''Deny'', im_Actions = [res], im_Resources = [res]\<rparr>]"
    by (simp add: im_statements_def im_NewEngine_def im_add_def im_get_def)
  then show ?thesis
    using assms unfolding im_IsAuthorized_def im_evaluate_iff im_applies_def
    by (simp add: im_matchAny_plain del: im_matchAny.simps)
qed

theorem im_deny_statement_ineffective_witness:
  "im_IsAuthorized (im_NewEngine [Im_WithAllowStatement ''ann'' [''s3:Get''] [''bucket''],
     Im_WithDenyStatement ''ann'' [''s3:Get''] [''bucket'']]) ''ann'' ''s3:Get'' ''bucket''"
  using im_deny_statement_ineffective[of "''s3:Get''" "''bucket''" "''ann''"] by simp

end
