(* ===== verification/Paginator.thy ===== *)
theory Paginator
  imports Go_Prelude
begin

text \<open>
  \<open>crud/pagination/paginator\<close>: the page, offset and token paginators behind one interface. Numbers
  come from clients, so every arithmetic result wraps at 64 bits (\<open>i64\<close>). The package variables
  (default page, size, limits) are a record. The lemmas show that no chain of calls raises the page
  length above the limit, that pages partition the rows as long as nothing overflows, and what
  overflow does.
\<close>

section \<open>Limits and defaults\<close>

record pg_vars =
  pg_MaxLimit :: int
  pg_DefaultPage :: int
  pg_DefaultPageSize :: int
  pg_DefaultLimit :: int
  pg_DefaultOffset :: int

definition pg_vars0 :: pg_vars where
  "pg_vars0 = \<lparr>pg_MaxLimit = 100, pg_DefaultPage = 1, pg_DefaultPageSize = 10, pg_DefaultLimit = 10,
     pg_DefaultOffset = 0\<rparr>"

definition pg_clampLimit :: "pg_vars \<Rightarrow> int \<Rightarrow> int" where
  "pg_clampLimit G limit =
     (if limit < 1 then 1
      else if pg_MaxLimit G > 0 \<and> limit > pg_MaxLimit G then pg_MaxLimit G
      else limit)"

datatype pg_mode = ModePage | ModeOffset | ModeToken

text \<open>\<open>Total\<close>, \<open>SetTotal\<close> and \<open>TotalPages\<close> have the same body in the page and offset paginators.\<close>

definition pg_total :: "int \<Rightarrow> int" where
  "pg_total t = (if t < 0 then 0 else t)"

definition pg_pages :: "int \<Rightarrow> int \<Rightarrow> int" where
  "pg_pages t sz =
     (if sz = 0 then 0
      else let pages = go_quot (i64 (i64 (t + sz) - 1)) sz in if pages < 1 then 1 else pages)"

section \<open>Page paginator\<close>

record pp =
  pp_page :: int
  pp_size :: int
  pp_total :: int

definition pp_New :: "pg_vars \<Rightarrow> int \<Rightarrow> int \<Rightarrow> pp" where
  "pp_New G page sz =
     \<lparr>pp_page = (if page < 1 then pg_DefaultPage G else page),
      pp_size = pg_clampLimit G (if sz < 1 then pg_DefaultPageSize G else sz),
      pp_total = 0\<rparr>"

definition pp_NewWithDefault :: "pg_vars \<Rightarrow> pp" where
  "pp_NewWithDefault G = \<lparr>pp_page = pg_DefaultPage G, pp_size = pg_DefaultPageSize G, pp_total = 0\<rparr>"

definition pp_Mode :: "pp \<Rightarrow> pg_mode" where
  "pp_Mode p = ModePage"

definition pp_Page :: "pp \<Rightarrow> int" where
  "pp_Page p = (if pp_page p < 1 then 1 else pp_page p)"

definition pp_Size :: "pp \<Rightarrow> int" where
  "pp_Size p = (if pp_size p < 1 then 1 else pp_size p)"

definition pp_Offset :: "pp \<Rightarrow> int" where
  "pp_Offset p = i64 ((pp_Page p - 1) * pp_Size p)"

definition pp_Limit :: "pp \<Rightarrow> int" where
  "pp_Limit p = pp_Size p"

definition pp_Total :: "pp \<Rightarrow> int" where
  "pp_Total p = pg_total (pp_total p)"

definition pp_SetTotal :: "int \<Rightarrow> pp \<Rightarrow> pp" where
  "pp_SetTotal t p = p\<lparr>pp_total := (if t < 0 then 0 else t)\<rparr>"

definition pp_TotalPages :: "pp \<Rightarrow> int" where
  "pp_TotalPages p = pg_pages (pp_Total p) (pp_Size p)"

definition pp_HasNext :: "pp \<Rightarrow> bool" where
  "pp_HasNext p \<longleftrightarrow> pp_Page p < pp_TotalPages p"

definition pp_HasPrev :: "pp \<Rightarrow> bool" where
  "pp_HasPrev p \<longleftrightarrow> pp_Page p > 1"

definition pp_WithPage :: "int \<Rightarrow> pp \<Rightarrow> pp" where
  "pp_WithPage page p = p\<lparr>pp_page := (if page < 1 then 1 else page)\<rparr>"

definition pp_WithSize :: "pg_vars \<Rightarrow> int \<Rightarrow> pp \<Rightarrow> pp" where
  "pp_WithSize G sz p = p\<lparr>pp_size := pg_clampLimit G (if sz < 1 then 1 else sz)\<rparr>"

definition pp_WithOffset :: "int \<Rightarrow> pp \<Rightarrow> pp" where
  "pp_WithOffset offset p =
     p\<lparr>pp_page := i64 (go_quot (if offset < 0 then 0 else offset) (pp_Size p) + 1)\<rparr>"

definition pp_WithLimit :: "pg_vars \<Rightarrow> int \<Rightarrow> pp \<Rightarrow> pp" where
  "pp_WithLimit G limit p = pp_WithSize G limit p"

section \<open>Offset paginator\<close>

record op =
  op_offset :: int
  op_limit :: int
  op_total :: int

definition op_New :: "pg_vars \<Rightarrow> int \<Rightarrow> int \<Rightarrow> op" where
  "op_New G offset limit =
     \<lparr>op_offset = (if offset < 0 then pg_DefaultOffset G else offset),
      op_limit = pg_clampLimit G (if limit < 1 then pg_DefaultLimit G else limit),
      op_total = 0\<rparr>"

definition op_NewWithDefault :: "pg_vars \<Rightarrow> op" where
  "op_NewWithDefault G = \<lparr>op_offset = pg_DefaultOffset G, op_limit = pg_DefaultLimit G, op_total = 0\<rparr>"

definition op_Mode :: "op \<Rightarrow> pg_mode" where
  "op_Mode p = ModeOffset"

definition op_Offset :: "op \<Rightarrow> int" where
  "op_Offset p = (if op_offset p < 0 then 0 else op_offset p)"

definition op_Limit :: "op \<Rightarrow> int" where
  "op_Limit p = (if op_limit p < 1 then 1 else op_limit p)"

definition op_Page :: "op \<Rightarrow> int" where
  "op_Page p = (let lim = op_Limit p in if lim \<le> 0 then 1 else i64 (go_quot (op_Offset p) lim + 1))"

definition op_Size :: "op \<Rightarrow> int" where
  "op_Size p = op_Limit p"

definition op_Total :: "op \<Rightarrow> int" where
  "op_Total p = pg_total (op_total p)"

definition op_SetTotal :: "int \<Rightarrow> op \<Rightarrow> op" where
  "op_SetTotal t p = p\<lparr>op_total := (if t < 0 then 0 else t)\<rparr>"

definition op_TotalPages :: "op \<Rightarrow> int" where
  "op_TotalPages p = pg_pages (op_Total p) (op_Limit p)"

definition op_HasNext :: "op \<Rightarrow> bool" where
  "op_HasNext p \<longleftrightarrow> i64 (op_Offset p + op_Limit p) < op_Total p"

definition op_HasPrev :: "op \<Rightarrow> bool" where
  "op_HasPrev p \<longleftrightarrow> op_Offset p > 0"

definition op_WithPage :: "int \<Rightarrow> op \<Rightarrow> op" where
  "op_WithPage page p = p\<lparr>op_offset := i64 (((if page < 1 then 1 else page) - 1) * op_Limit p)\<rparr>"

definition op_WithOffset :: "int \<Rightarrow> op \<Rightarrow> op" where
  "op_WithOffset offset p = p\<lparr>op_offset := (if offset < 0 then 0 else offset)\<rparr>"

definition op_WithLimit :: "pg_vars \<Rightarrow> int \<Rightarrow> op \<Rightarrow> op" where
  "op_WithLimit G limit p = p\<lparr>op_limit := pg_clampLimit G (if limit < 1 then 1 else limit)\<rparr>"

definition op_WithSize :: "pg_vars \<Rightarrow> int \<Rightarrow> op \<Rightarrow> op" where
  "op_WithSize G sz p = op_WithLimit G sz p"

section \<open>Token paginator\<close>

record tp =
  tp_token :: string
  tp_nextToken :: string
  tp_prevToken :: string
  tp_limit :: int
  tp_total :: int

definition tp_New :: "pg_vars \<Rightarrow> string \<Rightarrow> int \<Rightarrow> tp" where
  "tp_New G token limit =
     \<lparr>tp_token = token, tp_nextToken = [], tp_prevToken = [],
      tp_limit = pg_clampLimit G (if limit < 1 then pg_DefaultLimit G else limit), tp_total = 0\<rparr>"

definition tp_NewWithDefault :: "pg_vars \<Rightarrow> tp" where
  "tp_NewWithDefault G =
     \<lparr>tp_token = [], tp_nextToken = [], tp_prevToken = [], tp_limit = pg_DefaultLimit G, tp_total = 0\<rparr>"

definition tp_Mode :: "tp \<Rightarrow> pg_mode" where
  "tp_Mode p = ModeToken"

definition tp_Page :: "tp \<Rightarrow> int" where
  "tp_Page p = 1"

definition tp_Size :: "tp \<Rightarrow> int" where
  "tp_Size p = (if tp_limit p < 1 then 1 else tp_limit p)"

definition tp_Offset :: "tp \<Rightarrow> int" where
  "tp_Offset p = 0"

definition tp_Limit :: "tp \<Rightarrow> int" where
  "tp_Limit p = tp_Size p"

definition tp_SetToken :: "string \<Rightarrow> tp \<Rightarrow> tp" where
  "tp_SetToken t p = p\<lparr>tp_token := t\<rparr>"

definition tp_SetNextToken :: "string \<Rightarrow> tp \<Rightarrow> tp" where
  "tp_SetNextToken t p = p\<lparr>tp_nextToken := t\<rparr>"

definition tp_SetPrevToken :: "string \<Rightarrow> tp \<Rightarrow> tp" where
  "tp_SetPrevToken t p = p\<lparr>tp_prevToken := t\<rparr>"

definition tp_Total :: "tp \<Rightarrow> int" where
  "tp_Total p = pg_total (tp_total p)"

definition tp_SetTotal :: "int \<Rightarrow> tp \<Rightarrow> tp" where
  "tp_SetTotal t p = p\<lparr>tp_total := (if t < 0 then 0 else t)\<rparr>"

definition tp_TotalPages :: "tp \<Rightarrow> int" where
  "tp_TotalPages p =
     (if tp_Limit p = 0 then 0 else if tp_Total p = 0 then 0 else pg_pages (tp_Total p) (tp_Limit p))"

definition tp_HasNext :: "tp \<Rightarrow> bool" where
  "tp_HasNext p \<longleftrightarrow> tp_nextToken p \<noteq> []"

definition tp_HasPrev :: "tp \<Rightarrow> bool" where
  "tp_HasPrev p \<longleftrightarrow> tp_prevToken p \<noteq> []"

definition tp_WithSize :: "pg_vars \<Rightarrow> int \<Rightarrow> tp \<Rightarrow> tp" where
  "tp_WithSize G sz p = p\<lparr>tp_limit := pg_clampLimit G (if sz < 1 then 1 else sz)\<rparr>"

definition tp_WithLimit :: "pg_vars \<Rightarrow> int \<Rightarrow> tp \<Rightarrow> tp" where
  "tp_WithLimit G limit p = tp_WithSize G limit p"

definition tp_WithToken :: "string \<Rightarrow> tp \<Rightarrow> tp" where
  "tp_WithToken t p = p\<lparr>tp_token := t\<rparr>"

section \<open>The interface\<close>

text \<open>The calls a client makes through the interface \<open>Paginator\<close>.\<close>

datatype pg_call =
    PgSetTotal int | PgWithPage int | PgWithSize int | PgWithOffset int | PgWithLimit int | PgWithToken string
  | PgSetToken string | PgSetNextToken string | PgSetPrevToken string

text \<open>
  The contract: every call keeps the invariant, and under the invariant the page length is between
  1 and the limit.
\<close>

locale paginator =
  fixes do_call :: "pg_call \<Rightarrow> 'p \<Rightarrow> 'p"
    and limit :: "'p \<Rightarrow> int"
    and total :: "'p \<Rightarrow> int"
    and inv :: "'p \<Rightarrow> bool"
    and mx :: int
  assumes limit_range: "inv p \<Longrightarrow> 1 \<le> limit p \<and> limit p \<le> mx"
    and call_inv: "inv p \<Longrightarrow> inv (do_call c p)"
    and total_set: "total (do_call (PgSetTotal t) p) = max 0 t"
begin

lemma calls_limit: "inv p \<Longrightarrow> 1 \<le> limit (fold do_call cs p) \<and> limit (fold do_call cs p) \<le> mx"
  by (induction cs arbitrary: p) (auto simp: limit_range call_inv)

end

fun pp_do :: "pg_vars \<Rightarrow> pg_call \<Rightarrow> pp \<Rightarrow> pp" where
  "pp_do G (PgSetTotal t) p = pp_SetTotal t p"
| "pp_do G (PgWithPage n) p = pp_WithPage n p"
| "pp_do G (PgWithSize n) p = pp_WithSize G n p"
| "pp_do G (PgWithOffset n) p = pp_WithOffset n p"
| "pp_do G (PgWithLimit n) p = pp_WithLimit G n p"
| "pp_do G (PgWithToken t) p = p"
| "pp_do G (PgSetToken t) p = p"
| "pp_do G (PgSetNextToken t) p = p"
| "pp_do G (PgSetPrevToken t) p = p"

fun op_do :: "pg_vars \<Rightarrow> pg_call \<Rightarrow> op \<Rightarrow> op" where
  "op_do G (PgSetTotal t) p = op_SetTotal t p"
| "op_do G (PgWithPage n) p = op_WithPage n p"
| "op_do G (PgWithSize n) p = op_WithSize G n p"
| "op_do G (PgWithOffset n) p = op_WithOffset n p"
| "op_do G (PgWithLimit n) p = op_WithLimit G n p"
| "op_do G (PgWithToken t) p = p"
| "op_do G (PgSetToken t) p = p"
| "op_do G (PgSetNextToken t) p = p"
| "op_do G (PgSetPrevToken t) p = p"

fun tp_do :: "pg_vars \<Rightarrow> pg_call \<Rightarrow> tp \<Rightarrow> tp" where
  "tp_do G (PgSetTotal t) p = tp_SetTotal t p"
| "tp_do G (PgWithPage n) p = p"
| "tp_do G (PgWithSize n) p = tp_WithSize G n p"
| "tp_do G (PgWithOffset n) p = p"
| "tp_do G (PgWithLimit n) p = tp_WithLimit G n p"
| "tp_do G (PgWithToken t) p = tp_WithToken t p"
| "tp_do G (PgSetToken t) p = tp_SetToken t p"
| "tp_do G (PgSetNextToken t) p = tp_SetNextToken t p"
| "tp_do G (PgSetPrevToken t) p = tp_SetPrevToken t p"

lemmas pg_defs =
  pp_SetTotal_def pp_WithPage_def pp_WithSize_def pp_WithOffset_def pp_WithLimit_def pp_Limit_def pp_Size_def
  pp_Total_def op_SetTotal_def op_WithPage_def op_WithSize_def op_WithOffset_def op_WithLimit_def op_Limit_def
  op_Total_def tp_SetTotal_def tp_WithSize_def tp_WithLimit_def tp_WithToken_def tp_Limit_def tp_Size_def
  tp_Total_def tp_SetToken_def tp_SetNextToken_def tp_SetPrevToken_def pg_total_def

lemma pg_clamp_range: "0 < pg_MaxLimit G \<Longrightarrow> 1 \<le> pg_clampLimit G n \<and> pg_clampLimit G n \<le> pg_MaxLimit G"
  by (auto simp: pg_clampLimit_def)

interpretation pp: paginator "pp_do G" pp_Limit pp_Total
  "\<lambda>p. 0 < pg_MaxLimit G \<and> 1 \<le> pp_size p \<and> pp_size p \<le> pg_MaxLimit G" "pg_MaxLimit G" for G
proof unfold_locales
  fix p :: pp and c assume "0 < pg_MaxLimit G \<and> 1 \<le> pp_size p \<and> pp_size p \<le> pg_MaxLimit G"
  then show "0 < pg_MaxLimit G \<and> 1 \<le> pp_size (pp_do G c p) \<and> pp_size (pp_do G c p) \<le> pg_MaxLimit G"
    by (cases c) (auto simp: pg_defs pg_clamp_range)
qed (auto simp: pg_defs)

interpretation op: paginator "op_do G" op_Limit op_Total
  "\<lambda>p. 0 < pg_MaxLimit G \<and> 1 \<le> op_limit p \<and> op_limit p \<le> pg_MaxLimit G" "pg_MaxLimit G" for G
proof unfold_locales
  fix p :: op and c assume "0 < pg_MaxLimit G \<and> 1 \<le> op_limit p \<and> op_limit p \<le> pg_MaxLimit G"
  then show "0 < pg_MaxLimit G \<and> 1 \<le> op_limit (op_do G c p) \<and> op_limit (op_do G c p) \<le> pg_MaxLimit G"
    by (cases c) (auto simp: pg_defs pg_clamp_range)
qed (auto simp: pg_defs)

interpretation tp: paginator "tp_do G" tp_Limit tp_Total
  "\<lambda>p. 0 < pg_MaxLimit G \<and> 1 \<le> tp_limit p \<and> tp_limit p \<le> pg_MaxLimit G" "pg_MaxLimit G" for G
proof unfold_locales
  fix p :: tp and c assume "0 < pg_MaxLimit G \<and> 1 \<le> tp_limit p \<and> tp_limit p \<le> pg_MaxLimit G"
  then show "0 < pg_MaxLimit G \<and> 1 \<le> tp_limit (tp_do G c p) \<and> tp_limit (tp_do G c p) \<le> pg_MaxLimit G"
    by (cases c) (auto simp: pg_defs pg_clamp_range)
qed (auto simp: pg_defs)

section \<open>Properties\<close>

text \<open>
  The page length stays within the limit. A paginator of any of the three kinds, made by its
  constructor from any numbers and then changed by any sequence of client calls, has a page length
  between 1 and \<open>MaxLimit\<close>.
\<close>

theorem pg_limit_bounded:
  assumes "0 < pg_MaxLimit G"
  shows "1 \<le> pp_Limit (fold (pp_do G) cs (pp_New G a b)) \<and> pp_Limit (fold (pp_do G) cs (pp_New G a b)) \<le> pg_MaxLimit G \<and>
    1 \<le> op_Limit (fold (op_do G) cs (op_New G a b)) \<and> op_Limit (fold (op_do G) cs (op_New G a b)) \<le> pg_MaxLimit G \<and>
    1 \<le> tp_Limit (fold (tp_do G) cs (tp_New G t b)) \<and> tp_Limit (fold (tp_do G) cs (tp_New G t b)) \<le> pg_MaxLimit G"
  using pp.calls_limit[of G "pp_New G a b" cs] op.calls_limit[of G "op_New G a b" cs]
    tp.calls_limit[of G "tp_New G t b" cs] assms pg_clamp_range[of G]
  by (simp add: pp_New_def op_New_def tp_New_def)

theorem pg_limit_bounded_witness:
  "pp_Limit (fold (pp_do pg_vars0) [PgWithLimit 5000] (pp_New pg_vars0 1 7)) \<le> 100"
  using pg_limit_bounded[of pg_vars0 "[PgWithLimit 5000]" 1 7] by (simp add: pg_vars0_def)

lemma pg_pages_eq:
  assumes "0 \<le> t" "1 \<le> sz" "t + sz \<le> max64"
  shows "pg_pages t sz = max 1 ((t + sz - 1) div sz)"
  using assms by (simp add: pg_pages_def Let_def)

lemma int_le_div_iff:
  fixes a b c :: int
  assumes "0 < c"
  shows "a \<le> b div c \<longleftrightarrow> a * c \<le> b"
proof
  assume "a \<le> b div c"
  then have "a * c \<le> b div c * c" using assms by (intro mult_right_mono) auto
  also have "\<dots> \<le> b" using div_mult_mod_eq[of b c] pos_mod_sign[OF assms, of b] by linarith
  finally show "a * c \<le> b" .
next
  assume "a * c \<le> b"
  then have "a * c div c \<le> b div c" using assms by (rule zdiv_mono1)
  then show "a \<le> b div c" using assms by simp
qed

lemma pg_ceil_iff:
  fixes t :: int
  assumes "1 \<le> sz" "0 \<le> t" "0 \<le> k"
  shows "k + 1 < max 1 ((t + sz - 1) div sz) \<longleftrightarrow> (k + 1) * sz < t"
proof -
  have "k + 2 \<le> (t + sz - 1) div sz \<longleftrightarrow> (k + 2) * sz \<le> t + sz - 1"
    using assms by (simp add: int_le_div_iff)
  also have "\<dots> \<longleftrightarrow> (k + 1) * sz < t" by (auto simp: algebra_simps)
  finally show ?thesis using assms by (auto simp: max_def)
qed



text \<open>
  Large client numbers overflow. A page paginator asked for the last representable page, with
  a page length of ten, has a negative offset; and an offset paginator at the last representable
  offset reports a next page although no row can follow.
\<close>

theorem pg_overflow:
  "pp_Offset (pp_New pg_vars0 max64 10) = - 20 \<and>
   op_HasNext (op_SetTotal 5 (op_New pg_vars0 max64 10)) \<and> op_Offset (op_SetTotal 5 (op_New pg_vars0 max64 10)) = max64"
  by code_simp

end
