(* ===== verification/Page_Tree.thy ===== *)
theory Page_Tree
  imports Go_Prelude "HOL-Library.Multiset"
begin

text \<open>
  \<open>crud/pagination/tree.go\<close> (building a forest from a flat list) and the filter helpers of
  \<open>crud/pagination/utils.go\<close>. Nodes are pointers, \<open>None\<close> is nil; attaching a child is an effect on a
  store \<open>'s\<close> through the caller's \<open>appendChild\<close>. The lemmas show where every node of the list ends
  up, and that the filter helpers split a condition list without losing or reordering anything but
  the conditions they are documented to drop.
\<close>

section \<open>BuildTreeConstraint\<close>

text \<open>The map of the first pass: the last node with an id wins; the zero id is left out.\<close>

fun bt_index :: "'id \<Rightarrow> ('p \<Rightarrow> 'id) \<Rightarrow> 'p option list \<Rightarrow> ('id \<rightharpoonup> 'p) \<Rightarrow> ('id \<rightharpoonup> 'p)" where
  "bt_index zeroID getId [] m = m"
| "bt_index zeroID getId (None # nodes) m = bt_index zeroID getId nodes m"
| "bt_index zeroID getId (Some node # nodes) m =
     bt_index zeroID getId nodes (if getId node \<noteq> zeroID then m(getId node \<mapsto> node) else m)"

fun bt_attach ::
  "'id \<Rightarrow> ('p \<Rightarrow> 'id) \<Rightarrow> ('p \<Rightarrow> 'p \<Rightarrow> 's \<Rightarrow> 's) \<Rightarrow> ('id \<rightharpoonup> 'p) \<Rightarrow> 'p option list \<Rightarrow> 'p list \<Rightarrow> 's \<Rightarrow> 'p list \<times> 's" where
  "bt_attach zeroID getParentId appendChild m [] roots s = (roots, s)"
| "bt_attach zeroID getParentId appendChild m (None # nodes) roots s =
     bt_attach zeroID getParentId appendChild m nodes roots s"
| "bt_attach zeroID getParentId appendChild m (Some node # nodes) roots s =
     (let parentId = getParentId node
      in if parentId = zeroID
         then bt_attach zeroID getParentId appendChild m nodes (roots @ [node]) s
         else bt_attach zeroID getParentId appendChild m nodes roots
                (case m parentId of Some parent \<Rightarrow> appendChild parent node s | None \<Rightarrow> s))"

definition bt_BuildTreeConstraint ::
  "'id \<Rightarrow> ('p \<Rightarrow> 'id) \<Rightarrow> ('p \<Rightarrow> 'id) \<Rightarrow> ('p \<Rightarrow> 'p \<Rightarrow> 's \<Rightarrow> 's) \<Rightarrow> 'p option list \<Rightarrow> 's \<Rightarrow> 'p list \<times> 's" where
  "bt_BuildTreeConstraint zeroID getId getParentId appendChild nodes s =
     (if nodes = [] then ([], s)
      else bt_attach zeroID getParentId appendChild (bt_index zeroID getId nodes Map.empty) nodes [] s)"

section \<open>BuildTree\<close>

text \<open>
  \<open>BuildTree\<close> iterates over the map in its second pass; Go leaves the order open, so the order of the
  keys is an argument.
\<close>

fun bt_map :: "('p \<Rightarrow> 'id option) \<Rightarrow> 'p list \<Rightarrow> ('id \<rightharpoonup> 'p) \<Rightarrow> ('id \<rightharpoonup> 'p)" where
  "bt_map getId [] m = m"
| "bt_map getId (node # nodes) m =
     bt_map getId nodes (case getId node of Some k \<Rightarrow> m(k \<mapsto> node) | None \<Rightarrow> m)"

fun bt_link ::
  "'id \<Rightarrow> ('p \<Rightarrow> 'id option) \<Rightarrow> ('p \<Rightarrow> 'p \<Rightarrow> 's \<Rightarrow> 's) \<Rightarrow> ('id \<rightharpoonup> 'p) \<Rightarrow> 'id list \<Rightarrow> 'p list \<Rightarrow> 's \<Rightarrow> 'p list \<times> 's" where
  "bt_link zeroID getParentId appendChild m [] roots s = (roots, s)"
| "bt_link zeroID getParentId appendChild m (k # ks) roots s =
     (case m k of
        None \<Rightarrow> bt_link zeroID getParentId appendChild m ks roots s
      | Some node \<Rightarrow>
          (case getParentId node of
             None \<Rightarrow> bt_link zeroID getParentId appendChild m ks (roots @ [node]) s
           | Some parentId \<Rightarrow>
               if parentId = zeroID then bt_link zeroID getParentId appendChild m ks (roots @ [node]) s
               else bt_link zeroID getParentId appendChild m ks roots
                      (case m parentId of Some parent \<Rightarrow> appendChild parent node s | None \<Rightarrow> s)))"

definition bt_BuildTree ::
  "'id \<Rightarrow> ('p \<Rightarrow> 'id option) \<Rightarrow> ('p \<Rightarrow> 'id option) \<Rightarrow> ('p \<Rightarrow> 'p \<Rightarrow> 's \<Rightarrow> 's) \<Rightarrow> 'id list \<Rightarrow> 'p list \<Rightarrow> 's \<Rightarrow> 'p list \<times> 's" where
  "bt_BuildTree zeroID getId getParentId appendChild order nodes s =
     (if nodes = [] then ([], s)
      else bt_link zeroID getParentId appendChild (bt_map getId nodes Map.empty) order [] s)"

section \<open>Where the nodes go\<close>

definition bt_nodes :: "'p option list \<Rightarrow> 'p list" where
  "bt_nodes nodes = List.map_filter id nodes"

lemma bt_nodes_simps [simp]:
  "bt_nodes [] = []" "bt_nodes (None # ns) = bt_nodes ns" "bt_nodes (Some n # ns) = n # bt_nodes ns"
  by (simp_all add: bt_nodes_def List.map_filter_simps)

text \<open>The edges, with the log of (parent, child) pairs as the store.\<close>

abbreviation bt_log :: "'p \<Rightarrow> 'p \<Rightarrow> ('p \<times> 'p) list \<Rightarrow> ('p \<times> 'p) list" where
  "bt_log parent child es \<equiv> es @ [(parent, child)]"

lemma bt_attach_eq:
  "bt_attach z gp bt_log m nodes roots es =
     (roots @ filter (\<lambda>n. gp n = z) (bt_nodes nodes),
      es @ concat (map (\<lambda>n. if gp n = z then [] else case m (gp n) of Some p \<Rightarrow> [(p, n)] | None \<Rightarrow> []) (bt_nodes nodes)))"
  by (induction z gp "bt_log :: 'a \<Rightarrow> 'a \<Rightarrow> ('a \<times> 'a) list \<Rightarrow> ('a \<times> 'a) list" m nodes roots es rule: bt_attach.induct)
    (auto simp: Let_def split: option.split)

lemma bt_index_eq:
  "bt_index z gi nodes m k =
     (if k = z then m k
      else case filter (\<lambda>n. gi n = k) (bt_nodes nodes) of [] \<Rightarrow> m k | ns \<Rightarrow> Some (last ns))"
  by (induction z gi nodes m rule: bt_index.induct) (auto split: list.split)

text \<open>
  Where \<open>BuildTreeConstraint\<close> puts every node. The roots are the nodes with the zero parent id, in
  the order of the list. Every other node whose parent id occurs as the id of a node is attached
  exactly once, to the last node with that id, and children are attached in the order of the list.
  A node whose parent id does not occur is dropped, and nothing else is attached.
\<close>

theorem bt_BuildTreeConstraint_places:
  "bt_BuildTreeConstraint z gi gp bt_log nodes [] =
     (filter (\<lambda>n. gp n = z) (bt_nodes nodes),
      concat (map (\<lambda>n. if gp n = z then []
                       else case filter (\<lambda>p. gi p = gp n) (bt_nodes nodes) of
                              [] \<Rightarrow> []
                            | ps \<Rightarrow> [(last ps, n)]) (bt_nodes nodes)))"
proof (cases "nodes = []")
  case False
  have "(case bt_index z gi nodes Map.empty (gp n) of Some p \<Rightarrow> [(p, n)] | None \<Rightarrow> []) =
      (case filter (\<lambda>p. gi p = gp n) (bt_nodes nodes) of [] \<Rightarrow> [] | ps \<Rightarrow> [(last ps, n)])" if "gp n \<noteq> z" for n
    using that by (auto simp: bt_index_eq split: list.split)
  then show ?thesis using False
    by (auto simp: bt_BuildTreeConstraint_def bt_attach_eq intro!: arg_cong[of _ _ concat] map_cong)
qed (simp add: bt_BuildTreeConstraint_def)

section \<open>Filter helpers\<close>

text \<open>A condition carries its field and the rest; a nil condition is \<open>None\<close>.\<close>

record 'v pf_condition =
  pf_Field :: string
  pf_rest :: 'v

datatype 'v pf_expr = PfExpr (pf_Conditions: "'v pf_condition option list") (pf_Groups: "'v pf_expr list")

text \<open>The loop of \<open>RemoveExcludedConditions\<close> and \<open>FilterFields\<close> (the two have the same body).\<close>

fun pf_split ::
  "string set \<Rightarrow> 'v pf_condition option list \<Rightarrow> 'v pf_condition option list \<Rightarrow> 'v pf_condition option list \<Rightarrow>
   'v pf_condition option list \<times> 'v pf_condition option list" where
  "pf_split exclude [] inc exc = (inc, exc)"
| "pf_split exclude (None # cs) inc exc = pf_split exclude cs inc exc"
| "pf_split exclude (Some c # cs) inc exc =
     (if pf_Field c = [] then pf_split exclude cs inc exc
      else if pf_Field c \<in> exclude then pf_split exclude cs inc (exc @ [Some c])
      else pf_split exclude cs (inc @ [Some c]) exc)"

definition pf_RemoveExcludedConditions ::
  "'v pf_expr option \<Rightarrow> string list \<Rightarrow> 'v pf_condition option list \<times> 'v pf_expr option" where
  "pf_RemoveExcludedConditions expr excludeFields =
     (case expr of
        None \<Rightarrow> ([], None)
      | Some (PfExpr cs gs) \<Rightarrow>
          if cs = [] then ([], expr)
          else let (inc, exc) = pf_split (set (filter (\<lambda>f. f \<noteq> []) excludeFields)) cs [] []
               in (exc, Some (PfExpr inc gs)))"

definition pf_FilterFields ::
  "'v pf_expr option \<Rightarrow> string list \<Rightarrow> 'v pf_condition option list \<times> 'v pf_expr option" where
  "pf_FilterFields expr excludeFields = pf_RemoveExcludedConditions expr excludeFields"

text \<open>\<open>GetField\<close> of a generated message is the empty string on nil.\<close>

definition pf_GetField :: "'v pf_condition option \<Rightarrow> string" where
  "pf_GetField c = (case c of None \<Rightarrow> [] | Some c \<Rightarrow> pf_Field c)"

text \<open>The loop of \<open>ClearFilterExprByFieldNames\<close>, from index \<open>i - 1\<close> down to 0, deleting in place.\<close>

fun pf_clear_loop :: "string \<Rightarrow> nat \<Rightarrow> 'v pf_condition option list \<Rightarrow> 'v pf_condition option list" where
  "pf_clear_loop fieldName 0 cs = cs"
| "pf_clear_loop fieldName (Suc i) cs =
     pf_clear_loop fieldName i
       (if pf_GetField (cs ! i) = fieldName then take i cs @ drop (i + 1) cs else cs)"

primrec pf_Clear :: "string \<Rightarrow> 'v pf_expr \<Rightarrow> 'v pf_expr" where
  "pf_Clear fieldName (PfExpr cs gs) =
     PfExpr (pf_clear_loop fieldName (length cs) cs) (map (pf_Clear fieldName) gs)"

lemma pf_split_eq:
  "pf_split ex cs inc exc =
     (inc @ filter (\<lambda>c. pf_GetField c \<noteq> [] \<and> pf_GetField c \<notin> ex) cs,
      exc @ filter (\<lambda>c. pf_GetField c \<noteq> [] \<and> pf_GetField c \<in> ex) cs)"
  by (induction ex cs inc exc rule: pf_split.induct) (auto simp: pf_GetField_def)

lemma pf_clear_loop_eq:
  "i \<le> length cs \<Longrightarrow> pf_clear_loop f i cs = filter (\<lambda>c. pf_GetField c \<noteq> f) (take i cs) @ drop i cs"
proof (induction i arbitrary: cs)
  case (Suc i)
  have t: "take (Suc i) cs = take i cs @ [cs ! i]" using Suc.prems by (simp add: take_Suc_conv_app_nth)
  have d: "drop i cs = cs ! i # drop (Suc i) cs" using Suc.prems by (simp add: Cons_nth_drop_Suc)
  show ?case
    using Suc.IH[of cs] Suc.IH[of "take i cs @ drop (Suc i) cs"] Suc.prems d by (simp add: t)
qed simp

text \<open>Every condition that occurs in an expression, at any depth.\<close>

primrec pf_all :: "'v pf_expr \<Rightarrow> 'v pf_condition option list" where
  "pf_all (PfExpr cs gs) = cs @ concat (map pf_all gs)"

lemma pf_Clear_all: "pf_all (pf_Clear f e) = filter (\<lambda>c. pf_GetField c \<noteq> f) (pf_all e)"
proof (induction e)
  case (PfExpr cs gs)
  have "map (\<lambda>e. pf_all (pf_Clear f e)) gs = map (\<lambda>e. filter (\<lambda>c. pf_GetField c \<noteq> f) (pf_all e)) gs"
    using PfExpr by (intro map_cong) auto
  from arg_cong[OF this, of concat] show ?case by (simp add: pf_clear_loop_eq filter_concat comp_def)
qed

text \<open>
  The filter helpers. \<open>ClearFilterExprByFieldNames\<close> removes exactly the conditions on the given
  field, at every depth, and keeps all others in their order, although it deletes from the slice it
  iterates over. \<open>RemoveExcludedConditions\<close> splits the top-level conditions that have a field into
  the kept ones and the returned excluded ones, both in their order.
\<close>

theorem pf_helpers:
  "pf_all (pf_Clear f e) = filter (\<lambda>c. pf_GetField c \<noteq> f) (pf_all e) \<and>
   pf_RemoveExcludedConditions (Some (PfExpr cs gs)) fs =
     (filter (\<lambda>c. pf_GetField c \<noteq> [] \<and> pf_GetField c \<in> set fs) cs,
      Some (PfExpr (filter (\<lambda>c. pf_GetField c \<noteq> [] \<and> pf_GetField c \<notin> set fs) cs) gs))"
proof -
  have "filter (\<lambda>c. pf_GetField c \<noteq> [] \<and> pf_GetField c \<in> set (filter (\<lambda>f. f \<noteq> []) fs)) cs =
      filter (\<lambda>c. pf_GetField c \<noteq> [] \<and> pf_GetField c \<in> set fs) cs"
    "filter (\<lambda>c. pf_GetField c \<noteq> [] \<and> pf_GetField c \<notin> set (filter (\<lambda>f. f \<noteq> []) fs)) cs =
      filter (\<lambda>c. pf_GetField c \<noteq> [] \<and> pf_GetField c \<notin> set fs) cs"
    by (auto intro!: filter_cong)
  then show ?thesis unfolding pf_Clear_all
    by (simp add: pf_RemoveExcludedConditions_def pf_split_eq)
qed

end
