(* ===== verification/Broker.thy ===== *)
theory Broker
  imports Go_Prelude "HOL-Library.Multiset" "HOL-Library.AList"
begin

text \<open>
  \<open>broker\<close>: what every message driver shares. Messages with their headers and options
  (\<open>message.go\<close>), the chaining of middlewares (\<open>event.go\<close>, \<open>publish.go\<close>), the map of subscribers
  (\<open>subscriber.go\<close>) and the generic request-reply (\<open>request_reply.go\<close>, \<open>request_options.go\<close>). The
  driver behind the interface \<open>Broker\<close> is not part of the package: its answers are arguments. The
  lemmas show where every added subscriber ends up, and which message a request returns.
\<close>

section \<open>Values and messages\<close>

text \<open>
  A value of type \<open>any\<close>, seen by code that is generic in a type \<open>T\<close>: \<open>nil\<close>, a pointer to \<open>T\<close>, a
  \<open>T\<close>, bytes, a string, or any other value.
\<close>

datatype ('t, 'o) go_any =
  AnyNil | AnyPtr 't | AnyVal 't | AnyBytes string | AnyString string | AnyOther 'o

type_synonym br_headers = "string \<rightharpoonup> string"

record ('t, 'o) br_message =
  msg_ID :: string
  msg_Headers :: "br_headers option"
  msg_Body :: "('t, 'o) go_any"
  msg_Key :: string
  msg_Metadata :: "(string \<rightharpoonup> ('t, 'o) go_any) option"
  msg_Partition :: int
  msg_Offset :: int
  msg_Msg :: "('t, 'o) go_any"

text \<open>Reading a missing key of a Go map yields the zero value.\<close>

definition map_str :: "br_headers \<Rightarrow> string \<Rightarrow> string" where
  "map_str m k = (case m k of None \<Rightarrow> [] | Some v \<Rightarrow> v)"

definition msg_SetHeader :: "string \<Rightarrow> string \<Rightarrow> ('t, 'o) br_message \<Rightarrow> ('t, 'o) br_message" where
  "msg_SetHeader key val m =
     m\<lparr>msg_Headers := Some ((case msg_Headers m of None \<Rightarrow> Map.empty | Some h \<Rightarrow> h)(key \<mapsto> val))\<rparr>"

definition msg_WithHeader :: "string \<Rightarrow> string \<Rightarrow> ('t, 'o) br_message \<Rightarrow> ('t, 'o) br_message" where
  "msg_WithHeader key val m = msg_SetHeader key val m"

definition msg_GetHeader :: "('t, 'o) br_message \<Rightarrow> string \<Rightarrow> string" where
  "msg_GetHeader m key = (case msg_Headers m of None \<Rightarrow> [] | Some h \<Rightarrow> map_str h key)"

definition msg_HeadersCopy :: "('t, 'o) br_message \<Rightarrow> br_headers option" where
  "msg_HeadersCopy m = (case msg_Headers m of None \<Rightarrow> None | Some h \<Rightarrow> Some (Map.empty ++ h))"

text \<open>The headers to merge are an association list: its order is the order of the range over the map.\<close>

definition msg_MergeHeaders :: "(string \<times> string) list option \<Rightarrow> ('t, 'o) br_message \<Rightarrow> ('t, 'o) br_message" where
  "msg_MergeHeaders hdrs m = (case hdrs of None \<Rightarrow> m | Some h \<Rightarrow> fold (\<lambda>(k, v). msg_SetHeader k v) h m)"

definition msg_SetMetadata :: "string \<Rightarrow> ('t, 'o) go_any \<Rightarrow> ('t, 'o) br_message \<Rightarrow> ('t, 'o) br_message" where
  "msg_SetMetadata key val m =
     m\<lparr>msg_Metadata := Some ((case msg_Metadata m of None \<Rightarrow> Map.empty | Some h \<Rightarrow> h)(key \<mapsto> val))\<rparr>"

definition msg_WithMetadata :: "string \<Rightarrow> ('t, 'o) go_any \<Rightarrow> ('t, 'o) br_message \<Rightarrow> ('t, 'o) br_message" where
  "msg_WithMetadata key val m = msg_SetMetadata key val m"

definition msg_GetMetadata :: "('t, 'o) br_message \<Rightarrow> string \<Rightarrow> ('t, 'o) go_any" where
  "msg_GetMetadata m key =
     (case msg_Metadata m of None \<Rightarrow> AnyNil | Some h \<Rightarrow> (case h key of None \<Rightarrow> AnyNil | Some v \<Rightarrow> v))"

definition msg_MetadataCopy :: "('t, 'o) br_message \<Rightarrow> (string \<rightharpoonup> ('t, 'o) go_any) option" where
  "msg_MetadataCopy m = (case msg_Metadata m of None \<Rightarrow> None | Some h \<Rightarrow> Some (Map.empty ++ h))"

text \<open>The body as bytes; \<open>None\<close> is the nil slice.\<close>

definition msg_BodyBytes :: "('t, 'o) br_message \<Rightarrow> string option" where
  "msg_BodyBytes m = (case msg_Body m of AnyBytes b \<Rightarrow> Some b | _ \<Rightarrow> None)"

definition msg_WithBody :: "('t, 'o) go_any \<Rightarrow> ('t, 'o) br_message \<Rightarrow> ('t, 'o) br_message" where
  "msg_WithBody b m = m\<lparr>msg_Body := b\<rparr>"

definition msg_WithKey :: "string \<Rightarrow> ('t, 'o) br_message \<Rightarrow> ('t, 'o) br_message" where
  "msg_WithKey k m = m\<lparr>msg_Key := k\<rparr>"

definition msg_SetDelay :: "string \<Rightarrow> ('t, 'o) br_message \<Rightarrow> ('t, 'o) br_message" where
  "msg_SetDelay level m = msg_SetMetadata ''x-delay-level'' (AnyString level) m"

definition msg_Clone :: "('t, 'o) br_message \<Rightarrow> ('t, 'o) br_message" where
  "msg_Clone m =
     \<lparr>msg_ID = msg_ID m, msg_Headers = msg_HeadersCopy m, msg_Body = msg_Body m, msg_Key = msg_Key m,
      msg_Metadata = msg_MetadataCopy m, msg_Partition = msg_Partition m, msg_Offset = msg_Offset m,
      msg_Msg = msg_Msg m\<rparr>"

text \<open>The functional options of \<open>NewMessage\<close>; a nil option is \<open>None\<close> and skipped.\<close>

datatype ('t, 'o) msg_opt =
    Msg_WithID string
  | Msg_WithKey string
  | Msg_WithMsg "('t, 'o) go_any"
  | Msg_WithPartitionOffset int int
  | Msg_WithHeaders "br_headers option"
  | Msg_WithHeader string string
  | Msg_WithMetadata "(string \<rightharpoonup> ('t, 'o) go_any) option"
  | Msg_WithMetadataKV string "('t, 'o) go_any"

fun msg_apply :: "('t, 'o) msg_opt \<Rightarrow> ('t, 'o) br_message \<Rightarrow> ('t, 'o) br_message" where
  "msg_apply (Msg_WithID i) m = m\<lparr>msg_ID := i\<rparr>"
| "msg_apply (Msg_WithKey k) m = m\<lparr>msg_Key := k\<rparr>"
| "msg_apply (Msg_WithMsg x) m = m\<lparr>msg_Msg := x\<rparr>"
| "msg_apply (Msg_WithPartitionOffset p off) m = m\<lparr>msg_Partition := p, msg_Offset := off\<rparr>"
| "msg_apply (Msg_WithHeaders h) m =
     (case h of None \<Rightarrow> m
      | Some h \<Rightarrow> m\<lparr>msg_Headers := Some ((case msg_Headers m of None \<Rightarrow> Map.empty | Some g \<Rightarrow> g) ++ h)\<rparr>)"
| "msg_apply (Msg_WithHeader k v) m = msg_SetHeader k v m"
| "msg_apply (Msg_WithMetadata h) m =
     (case h of None \<Rightarrow> m
      | Some h \<Rightarrow> m\<lparr>msg_Metadata := Some ((case msg_Metadata m of None \<Rightarrow> Map.empty | Some g \<Rightarrow> g) ++ h)\<rparr>)"
| "msg_apply (Msg_WithMetadataKV k v) m = msg_SetMetadata k v m"

definition msg_New :: "('t, 'o) go_any \<Rightarrow> ('t, 'o) msg_opt option list \<Rightarrow> ('t, 'o) br_message" where
  "msg_New body opts =
     fold (\<lambda>op m. case op of None \<Rightarrow> m | Some op \<Rightarrow> msg_apply op m) opts
       \<lparr>msg_ID = [], msg_Headers = Some Map.empty, msg_Body = body, msg_Key = [], msg_Metadata = Some Map.empty,
        msg_Partition = - 1, msg_Offset = - 1, msg_Msg = AnyNil\<rparr>"

lemma GetHeader_SetHeader [simp]:
  "msg_GetHeader (msg_SetHeader k v m) k' = (if k' = k then v else msg_GetHeader m k')"
  by (auto simp: msg_GetHeader_def msg_SetHeader_def map_str_def split: option.split)

lemma SetHeader_sel [simp]:
  "msg_ID (msg_SetHeader k v m) = msg_ID m" "msg_Body (msg_SetHeader k v m) = msg_Body m"
  "msg_Key (msg_SetHeader k v m) = msg_Key m"
  by (simp_all add: msg_SetHeader_def)

lemma MergeHeaders_ID [simp]: "msg_ID (msg_MergeHeaders hs m) = msg_ID m"
proof -
  have "msg_ID (fold (\<lambda>(k, v). msg_SetHeader k v) h m) = msg_ID m" for h
    by (induction h arbitrary: m) auto
  then show ?thesis by (simp add: msg_MergeHeaders_def split: option.split)
qed

lemma GetHeader_New [simp]: "msg_GetHeader (msg_New b []) k = []"
  by (simp add: msg_New_def msg_GetHeader_def map_str_def)

section \<open>Middlewares\<close>

text \<open>Both chains have the same body: from the last middleware to the first, nil ones skipped.\<close>

fun br_chain_loop :: "nat \<Rightarrow> ('h \<Rightarrow> 'h) option list \<Rightarrow> 'h \<Rightarrow> 'h" where
  "br_chain_loop 0 mws h = h"
| "br_chain_loop (Suc i) mws h =
     (case mws ! i of None \<Rightarrow> br_chain_loop i mws h | Some mw \<Rightarrow> br_chain_loop i mws (mw h))"

definition br_ChainSubscriberMiddleware :: "'h \<Rightarrow> ('h \<Rightarrow> 'h) option list \<Rightarrow> 'h" where
  "br_ChainSubscriberMiddleware h mws = (if mws = [] then h else br_chain_loop (length mws) mws h)"

definition br_ChainPublishMiddleware :: "'h \<Rightarrow> ('h \<Rightarrow> 'h) option list \<Rightarrow> 'h" where
  "br_ChainPublishMiddleware h mws = (if mws = [] then h else br_chain_loop (length mws) mws h)"

lemma br_chain_loop_eq:
  "i \<le> length mws \<Longrightarrow>
   br_chain_loop i mws h = foldr (\<lambda>mw h. case mw of None \<Rightarrow> h | Some f \<Rightarrow> f h) (take i mws) h"
  by (induction i arbitrary: h) (auto simp: take_Suc_conv_app_nth split: option.split)

lemma br_Chain_eq:
  "br_ChainSubscriberMiddleware h mws = foldr (\<lambda>mw h. case mw of None \<Rightarrow> h | Some f \<Rightarrow> f h) mws h"
  "br_ChainPublishMiddleware h mws = foldr (\<lambda>mw h. case mw of None \<Rightarrow> h | Some f \<Rightarrow> f h) mws h"
  by (simp_all add: br_ChainSubscriberMiddleware_def br_ChainPublishMiddleware_def br_chain_loop_eq)

section \<open>Typed handlers\<close>

datatype br_error =
    BrEventNil | BrBodyNil | BrUnsupported | BrBrokerNil | BrRequestMessageNil | BrNoReplyTo
  | BrSubscribe string string | BrPublish string | BrTimeout duration | BrCtx string | BrNotFound string
  | BrHandler string

text \<open>A handler that got a typed payload: its own result. \<open>evt\<close> is \<open>None\<close> for a nil event, its message too.\<close>

definition br_TypedToEventHandler ::
  "(string \<Rightarrow> br_headers option \<Rightarrow> 't \<Rightarrow> string option) \<Rightarrow> (string \<times> ('t, 'o) br_message option) option \<Rightarrow> br_error option" where
  "br_TypedToEventHandler h evt =
     (case evt of None \<Rightarrow> Some BrEventNil
      | Some (topic, msg) \<Rightarrow>
          (case msg of None \<Rightarrow> Some BrBodyNil
           | Some m \<Rightarrow>
               (case msg_Body m of
                  AnyNil \<Rightarrow> Some BrBodyNil
                | AnyPtr v \<Rightarrow> map_option BrHandler (h topic (msg_Headers m) v)
                | AnyVal v \<Rightarrow> map_option BrHandler (h topic (msg_Headers m) v)
                | _ \<Rightarrow> Some BrUnsupported)))"

section \<open>The subscriber map\<close>

text \<open>
  A Go map is an association list with distinct keys; its order stands for the unspecified order of
  a range over it. Every method holds the lock while it reads or changes the map and calls
  \<open>Unsubscribe\<close> after releasing it; it returns the calls it makes, a subscriber with the argument.
\<close>

type_synonym 's sm_map = "(string \<times> 's) list"
type_synonym 's sm_calls = "('s \<times> bool) list"

definition sm_New :: "'s sm_map" where
  "sm_New = []"

definition sm_Topics :: "'s sm_map \<Rightarrow> string list" where
  "sm_Topics m = map fst m"

definition sm_Len :: "'s sm_map \<Rightarrow> nat" where
  "sm_Len m = length m"

definition sm_Get :: "string \<Rightarrow> 's sm_map \<Rightarrow> 's option" where
  "sm_Get topic m = map_of m topic"

definition sm_GetAll :: "'s sm_map \<Rightarrow> 's sm_map" where
  "sm_GetAll m = m"

definition sm_Has :: "string \<Rightarrow> 's sm_map \<Rightarrow> bool" where
  "sm_Has topic m \<longleftrightarrow> map_of m topic \<noteq> None"

definition sm_Add :: "string \<Rightarrow> 's \<Rightarrow> 's sm_map \<Rightarrow> 's sm_map" where
  "sm_Add topic sub m = AList.update topic sub m"

definition sm_Remove ::
  "('s \<Rightarrow> bool \<Rightarrow> string option) \<Rightarrow> string \<Rightarrow> 's sm_map \<Rightarrow> br_error option \<times> 's sm_calls \<times> 's sm_map" where
  "sm_Remove unsub topic m =
     (case map_of m topic of
        None \<Rightarrow> (Some (BrNotFound topic), [], m)
      | Some sub \<Rightarrow> (map_option BrHandler (unsub sub True), [(sub, True)], AList.delete topic m))"

definition sm_RemoveOnly :: "string \<Rightarrow> 's sm_map \<Rightarrow> bool \<times> 's sm_map" where
  "sm_RemoveOnly topic m =
     (case map_of m topic of None \<Rightarrow> (False, m) | Some sub \<Rightarrow> (True, AList.delete topic m))"

definition sm_Clear :: "'s sm_map \<Rightarrow> 's sm_calls \<times> 's sm_map" where
  "sm_Clear m = (map (\<lambda>(topic, sub). (sub, False)) m, [])"

definition sm_ForceClear :: "'s sm_map \<Rightarrow> 's sm_map" where
  "sm_ForceClear m = []"

text \<open>\<open>late\<close>: the timer fires before \<open>Unsubscribe\<close> returns; the call itself is made in any case.\<close>

definition sm_RemoveWithTimeout ::
  "('s \<Rightarrow> bool \<Rightarrow> string option) \<Rightarrow> bool \<Rightarrow> string \<Rightarrow> duration \<Rightarrow> 's sm_map \<Rightarrow>
   br_error option \<times> 's sm_calls \<times> 's sm_map" where
  "sm_RemoveWithTimeout unsub late topic timeout m =
     (case map_of m topic of
        None \<Rightarrow> (Some (BrNotFound topic), [], m)
      | Some sub \<Rightarrow>
          (if late then Some (BrTimeout timeout) else map_option BrHandler (unsub sub True),
           [(sub, True)], AList.delete topic m))"

definition sm_ClearWithTimeout :: "(string \<Rightarrow> bool) \<Rightarrow> 's sm_map \<Rightarrow> string list \<times> 's sm_calls \<times> 's sm_map" where
  "sm_ClearWithTimeout late m =
     (filter late (map fst m), map (\<lambda>(topic, sub). (sub, False)) m, [])"

definition sm_Foreach :: "(string \<Rightarrow> 's \<Rightarrow> 'w \<Rightarrow> 'w) \<Rightarrow> 's sm_map \<Rightarrow> 'w \<Rightarrow> 'w" where
  "sm_Foreach fnc m w = fold (\<lambda>(topic, sub). fnc topic sub) m w"

text \<open>A sequence of calls by any number of goroutines, and the \<open>Unsubscribe\<close> calls it makes.\<close>

datatype 's sm_call =
    SmAdd string 's | SmRemove string | SmRemoveOnly string | SmClear | SmForceClear
  | SmRemoveWithTimeout string bool | SmClearWithTimeout "string \<Rightarrow> bool"

fun sm_do :: "'s sm_call \<Rightarrow> 's sm_map \<Rightarrow> 's sm_calls \<times> 's sm_map" where
  "sm_do (SmAdd t s) m = ([], sm_Add t s m)"
| "sm_do (SmRemove t) m = snd (sm_Remove (\<lambda>_ _. None) t m)"
| "sm_do (SmRemoveOnly t) m = ([], snd (sm_RemoveOnly t m))"
| "sm_do SmClear m = sm_Clear m"
| "sm_do SmForceClear m = ([], sm_ForceClear m)"
| "sm_do (SmRemoveWithTimeout t late) m = snd (sm_RemoveWithTimeout (\<lambda>_ _. None) late t 0 m)"
| "sm_do (SmClearWithTimeout late) m = snd (sm_ClearWithTimeout late m)"

fun sm_run :: "'s sm_call list \<Rightarrow> 's sm_map \<Rightarrow> 's sm_calls \<times> 's sm_map" where
  "sm_run [] m = ([], m)"
| "sm_run (c # cs) m = (let (us, m) = sm_do c m; (us', m) = sm_run cs m in (us @ us', m))"

definition sm_added :: "'s sm_call list \<Rightarrow> 's multiset" where
  "sm_added cs = mset (concat (map (\<lambda>c. case c of SmAdd t s \<Rightarrow> [s] | _ \<Rightarrow> []) cs))"

text \<open>A call that drops a subscriber without unsubscribing it.\<close>

fun sm_drops :: "'s sm_call \<Rightarrow> 's sm_map \<Rightarrow> 's multiset" where
  "sm_drops (SmAdd t s) m = (case map_of m t of None \<Rightarrow> {#} | Some s' \<Rightarrow> {#s'#})"
| "sm_drops (SmRemoveOnly t) m = (case map_of m t of None \<Rightarrow> {#} | Some s' \<Rightarrow> {#s'#})"
| "sm_drops SmForceClear m = mset (map snd m)"
| "sm_drops _ m = {#}"

fun sm_dropped :: "'s sm_call list \<Rightarrow> 's sm_map \<Rightarrow> 's multiset" where
  "sm_dropped [] m = {#}"
| "sm_dropped (c # cs) m = sm_drops c m + sm_dropped cs (snd (sm_do c m))"

lemma alist_split:
  "distinct (map fst m) \<Longrightarrow> map_of m t = Some s \<Longrightarrow>
   mset (map snd m) = add_mset s (mset (map snd (AList.delete t m)))"
  by (induction m) (auto simp: AList.delete_id simp del: mset_map split: if_splits)

lemma alist_update_new:
  "map_of m t = None \<Longrightarrow> mset (map snd (AList.update t s m)) = add_mset s (mset (map snd m))"
  by (induction m) (auto split: if_splits)

lemma alist_update_old:
  "distinct (map fst m) \<Longrightarrow> map_of m t = Some s' \<Longrightarrow>
   mset (map snd (AList.update t s m)) = add_mset s (mset (map snd (AList.delete t m)))"
  by (induction m) (auto simp: AList.delete_id simp del: mset_map split: if_splits)

lemmas sm_defs = sm_Add_def sm_Remove_def sm_RemoveOnly_def sm_Clear_def sm_ForceClear_def
  sm_RemoveWithTimeout_def sm_ClearWithTimeout_def

lemma sm_do_distinct: "distinct (map fst m) \<Longrightarrow> distinct (map fst (snd (sm_do c m)))"
  by (cases c) (auto simp: sm_defs distinct_update distinct_delete split: option.splits)

lemma map_fst_snd: "map (fst \<circ> (\<lambda>(t, s). (s, b))) m = map snd m"
  by auto

lemma sm_do_accounting:
  "distinct (map fst m) \<Longrightarrow>
   sm_added [c] + mset (map snd m) =
   mset (map snd (snd (sm_do c m))) + mset (map fst (fst (sm_do c m))) + sm_drops c m"
  by (cases c)
     (auto simp: sm_defs sm_added_def alist_update_new alist_update_old map_fst_snd alist_split
        simp del: mset_map map_of_eq_None_iff map_of_eq_Some_iff split: option.split)

lemma sm_added_Cons: "sm_added (c # cs) = sm_added [c] + sm_added cs"
  by (simp add: sm_added_def)

lemma sm_run_accounting:
  "distinct (map fst m) \<Longrightarrow>
   sm_added cs + mset (map snd m) =
   mset (map snd (snd (sm_run cs m))) + mset (map fst (fst (sm_run cs m))) + sm_dropped cs m"
proof (induction cs arbitrary: m)
  case (Cons c cs)
  obtain us m' where d: "sm_do c m = (us, m')" by fastforce
  obtain us' m'' where r: "sm_run cs m' = (us', m'')" by fastforce
  have "sm_added cs + mset (map snd m') = mset (map snd m'') + mset (map fst us') + sm_dropped cs m'"
    using Cons.IH[of m'] sm_do_distinct[OF Cons.prems, of c] d r by simp
  moreover have "sm_added [c] + mset (map snd m) = mset (map snd m') + mset (map fst us) + sm_drops c m"
    using sm_do_accounting[OF Cons.prems, of c] d by simp
  ultimately show ?case using d r by (simp add: sm_added_Cons[of c cs] add.assoc) (simp add: ac_simps)
qed (simp add: sm_added_def)

text \<open>
  Where every subscriber ends up. In any sequence of calls on the subscriber map, by any number
  of goroutines, every added subscriber is at the end in exactly one place: still in the map, among
  the unsubscribed ones, or among those that a call dropped without \<open>Unsubscribe\<close>: \<open>RemoveOnly\<close>,
  \<open>ForceClear\<close>, and an \<open>Add\<close> for a topic that already has a subscriber. So no subscriber is
  unsubscribed more often than it was added.
\<close>

theorem sm_accounting:
  "sm_added cs = mset (map snd (snd (sm_run cs sm_New))) + mset (map fst (fst (sm_run cs sm_New))) +
     sm_dropped cs sm_New \<and>
   count (mset (map fst (fst (sm_run cs sm_New)))) s \<le> count (sm_added cs) s"
proof -
  have "sm_added cs = mset (map snd (snd (sm_run cs sm_New))) + mset (map fst (fst (sm_run cs sm_New))) +
      sm_dropped cs sm_New"
    using sm_run_accounting[of sm_New cs] by (simp add: sm_New_def)
  then show ?thesis by simp
qed

section \<open>Request and reply\<close>

abbreviation HeaderReplyTo :: string where "HeaderReplyTo \<equiv> ''Reply-To''"
abbreviation HeaderCorrelationID :: string where "HeaderCorrelationID \<equiv> ''Correlation-ID''"

record rq_options =
  rq_Timeout :: duration
  rq_ReplyTopic :: string
  rq_BodyCodec :: string

datatype rq_opt = Rq_WithRequestTimeout duration | Rq_WithReplyTopic string | Rq_WithRequestBodyCodec string

fun rq_apply :: "rq_opt \<Rightarrow> rq_options \<Rightarrow> rq_options" where
  "rq_apply (Rq_WithRequestTimeout d) op = op\<lparr>rq_Timeout := d\<rparr>"
| "rq_apply (Rq_WithReplyTopic t) op = op\<lparr>rq_ReplyTopic := t\<rparr>"
| "rq_apply (Rq_WithRequestBodyCodec c) op = op\<lparr>rq_BodyCodec := c\<rparr>"

definition rq_NewRequestOptions :: "rq_opt list \<Rightarrow> rq_options" where
  "rq_NewRequestOptions opts =
     fold rq_apply opts \<lparr>rq_Timeout = 10 * Second, rq_ReplyTopic = [], rq_BodyCodec = []\<rparr>"

text \<open>
  The handler of the reply topic sends to a channel of capacity one, without blocking: \<open>ch\<close> is the
  channel's content. An event is nil or has a message that may be nil.
\<close>

definition rq_handler ::
  "string \<Rightarrow> ('t, 'o) br_message option option \<Rightarrow> ('t, 'o) br_message option \<Rightarrow> ('t, 'o) br_message option" where
  "rq_handler rid evt ch =
     (case evt of
        Some (Some m) \<Rightarrow>
          let cid = msg_GetHeader m HeaderCorrelationID
          in if cid \<noteq> [] \<and> cid \<noteq> rid then ch
             else (case ch of None \<Rightarrow> Some m | Some r \<Rightarrow> Some r)
      | _ \<Rightarrow> ch)"

datatype ('t, 'o) br_call =
    BrCallSubscribe string string bool
  | BrCallPublish string "('t, 'o) br_message"
  | BrCallUnsubscribe bool

datatype rq_ctx = CtxDeadlineExceeded | CtxCanceled

text \<open>
  The environment of one request: two fresh UUIDs, the answers of the driver, the events that reach
  the handler before the \<open>select\<close> proceeds, the state of the context at that time, and which case
  the \<open>select\<close> takes when both are ready.
\<close>

record ('t, 'o) rq_env =
  rq_uuid1 :: string
  rq_uuid2 :: string
  rq_sub :: "string option"
  rq_pub :: "string option"
  rq_events :: "('t, 'o) br_message option option list"
  rq_done :: "rq_ctx option"
  rq_pick_ctx :: bool

definition rq_prepare :: "rq_options \<Rightarrow> ('t, 'o) rq_env \<Rightarrow> ('t, 'o) br_message \<Rightarrow> string \<times> ('t, 'o) br_message" where
  "rq_prepare options E msg =
     (let replyTopic = (if rq_ReplyTopic options = [] then ''kratos.reply.'' @ rq_uuid1 E else rq_ReplyTopic options);
          msg = (if msg_ID msg = [] then msg\<lparr>msg_ID := rq_uuid2 E\<rparr> else msg)
      in (replyTopic, msg_SetHeader HeaderCorrelationID (msg_ID msg) (msg_SetHeader HeaderReplyTo replyTopic msg)))"

text \<open>The result is \<open>None\<close> while the request still waits; then the calls on the driver so far.\<close>

definition rq_GenericRequest ::
  "bool \<Rightarrow> string \<Rightarrow> ('t, 'o) br_message option \<Rightarrow> rq_opt list \<Rightarrow> ('t, 'o) rq_env \<Rightarrow>
   (br_error + ('t, 'o) br_message) option \<times> ('t, 'o) br_call list" where
  "rq_GenericRequest bnil topic msg opts E =
     (if bnil then (Some (Inl BrBrokerNil), [])
      else case msg of None \<Rightarrow> (Some (Inl BrRequestMessageNil), [])
      | Some msg \<Rightarrow>
          let options = rq_NewRequestOptions opts;
              (replyTopic, msg) = rq_prepare options E msg;
              sub = BrCallSubscribe replyTopic replyTopic True
          in case rq_sub E of
               Some err \<Rightarrow> (Some (Inl (BrSubscribe replyTopic err)), [sub])
             | None \<Rightarrow>
                 (case rq_pub E of
                    Some err \<Rightarrow> (Some (Inl (BrPublish err)), [sub, BrCallPublish topic msg, BrCallUnsubscribe True])
                  | None \<Rightarrow>
                      (let fin = [sub, BrCallPublish topic msg, BrCallUnsubscribe True];
                           ctxerr = (\<lambda>c. if c = CtxDeadlineExceeded \<and> rq_Timeout options > 0
                                          then BrTimeout (rq_Timeout options)
                                          else BrCtx (case c of CtxDeadlineExceeded \<Rightarrow> ''context deadline exceeded''
                                                              | CtxCanceled \<Rightarrow> ''context canceled''))
                       in case (fold (rq_handler (msg_ID msg)) (rq_events E) None, rq_done E) of
                            (None, None) \<Rightarrow> (None, [sub, BrCallPublish topic msg])
                          | (None, Some c) \<Rightarrow> (Some (Inl (ctxerr c)), fin)
                          | (Some r, None) \<Rightarrow> (Some (Inr r), fin)
                          | (Some r, Some c) \<Rightarrow> (Some (if rq_pick_ctx E then Inl (ctxerr c) else Inr r), fin))))"

definition rq_NewReply :: "('t, 'o) br_message option \<Rightarrow> ('t, 'o) go_any \<Rightarrow> ('t, 'o) br_message" where
  "rq_NewReply request body =
     (let reply = msg_New body []
      in case request of None \<Rightarrow> reply
         | Some r \<Rightarrow> (let cid = msg_GetHeader r HeaderCorrelationID
                     in if cid \<noteq> [] then msg_SetHeader HeaderCorrelationID cid reply else reply))"

text \<open>The publish call of \<open>ReplyTo\<close>, or its error.\<close>

definition rq_ReplyTo ::
  "bool \<Rightarrow> ('t, 'o) br_message option \<Rightarrow> ('t, 'o) go_any \<Rightarrow> br_error + ('t, 'o) br_call" where
  "rq_ReplyTo bnil request body =
     (if bnil then Inl BrBrokerNil
      else case request of None \<Rightarrow> Inl BrRequestMessageNil
      | Some r \<Rightarrow>
          (let replyTopic = msg_GetHeader r HeaderReplyTo
           in if replyTopic = [] then Inl BrNoReplyTo
              else Inr (BrCallPublish replyTopic (rq_NewReply (Some r) body))))"

text \<open>The messages the handler accepts for a request.\<close>

definition rq_accepts :: "string \<Rightarrow> ('t, 'o) br_message \<Rightarrow> bool" where
  "rq_accepts rid m \<longleftrightarrow> msg_GetHeader m HeaderCorrelationID \<in> {[], rid}"

lemma rq_fold:
  "fold (rq_handler rid) evs ch =
     (case ch of Some r \<Rightarrow> Some r
      | None \<Rightarrow> List.find (rq_accepts rid) (concat (map (\<lambda>e. case e of Some (Some m) \<Rightarrow> [m] | _ \<Rightarrow> []) evs)))"
  by (induction evs arbitrary: ch)
     (auto simp: rq_handler_def rq_accepts_def Let_def split: option.split)

lemma rq_prepare_sel:
  assumes "rq_prepare op E m = (t, m')"
  shows "msg_GetHeader m' HeaderReplyTo = t" "msg_GetHeader m' HeaderCorrelationID = msg_ID m'"
    "rq_uuid2 E \<noteq> [] \<Longrightarrow> msg_ID m' \<noteq> []" "t \<noteq> []"
  using assms by (auto simp: rq_prepare_def Let_def split: if_splits)

lemma find_SomeD: "List.find P xs = Some x \<Longrightarrow> x \<in> set xs \<and> P x"
  by (induction xs) (auto split: if_splits)

text \<open>
  A request and its reply belong together. Every request that was published carries a non-empty
  reply topic, to which the request is subscribed, and its own ID as correlation ID. A responder
  that answers it with \<open>ReplyTo\<close> publishes to that topic a message the request accepts; and a reply
  to any other request, one with another correlation ID, is never returned. What a request returns
  is the first message it accepts.
\<close>

theorem rq_correlation:
  assumes "rq_uuid2 E \<noteq> []" "rq_GenericRequest False topic (Some msg) opts E = (res, calls)"
    "BrCallPublish tp sent \<in> set calls"
  shows "tp = topic \<and>
    (\<exists>rt. BrCallSubscribe rt rt True \<in> set calls \<and>
      (\<exists>reply. rq_ReplyTo False (Some sent) body = Inr (BrCallPublish rt reply) \<and> rq_accepts (msg_ID sent) reply)) \<and>
    (\<forall>other. msg_GetHeader other HeaderCorrelationID \<notin> {[], msg_ID sent} \<longrightarrow>
       \<not> rq_accepts (msg_ID sent) (rq_NewReply (Some other) body)) \<and>
    (\<forall>r. res = Some (Inr r) \<longrightarrow> rq_accepts (msg_ID sent) r \<and>
       List.find (rq_accepts (msg_ID sent))
         (concat (map (\<lambda>e. case e of Some (Some m) \<Rightarrow> [m] | _ \<Rightarrow> []) (rq_events E))) = Some r)"
proof -
  obtain rt m where p: "rq_prepare (rq_NewRequestOptions opts) E msg = (rt, m)" by fastforce
  note hd = rq_prepare_sel[OF p]
  have c: "tp = topic \<and> sent = m \<and> BrCallSubscribe rt rt True \<in> set calls"
    using assms(2,3) p by (auto simp: rq_GenericRequest_def Let_def split: option.splits)
  have "res = Some (Inr r) \<Longrightarrow> fold (rq_handler (msg_ID m)) (rq_events E) None = Some r" for r
    using assms(2) p by (auto simp: rq_GenericRequest_def Let_def split: option.splits if_splits)
  then have "res = Some (Inr r) \<Longrightarrow> List.find (rq_accepts (msg_ID m))
      (concat (map (\<lambda>e. case e of Some (Some m) \<Rightarrow> [m] | _ \<Rightarrow> []) (rq_events E))) = Some r" for r
    by (simp add: rq_fold)
  then show ?thesis
    using c hd assms(1) by (auto simp: rq_ReplyTo_def rq_NewReply_def rq_accepts_def Let_def dest!: find_SomeD)
qed

definition rq_demo_env :: "(unit, unit) rq_env" where
  "rq_demo_env = \<lparr>rq_uuid1 = ''u1'', rq_uuid2 = ''u2'', rq_sub = None, rq_pub = None,
     rq_events = [Some (Some (msg_SetHeader HeaderCorrelationID ''zz'' (msg_New AnyNil []))), None, Some (Some (msg_New (AnyString ''ok'') []))],
     rq_done = None, rq_pick_ctx = False\<rparr>"

theorem rq_correlation_witness:
  "\<exists>sent res calls. rq_GenericRequest False ''t'' (Some (msg_New AnyNil [])) [] rq_demo_env = (res, calls) \<and>
     BrCallPublish ''t'' sent \<in> set calls \<and>
     (\<exists>reply rt. rq_ReplyTo False (Some sent) (AnyString ''x'') = Inr (BrCallPublish rt reply))"
proof -
  let ?R = "rq_GenericRequest False ''t'' (Some (msg_New AnyNil [])) [] rq_demo_env"
  obtain res calls where R: "?R = (res, calls)" by fastforce
  have u: "rq_uuid2 rq_demo_env \<noteq> []" by (simp add: rq_demo_env_def)
  have "\<exists>sent. BrCallPublish ''t'' sent \<in> set calls"
    using R by (auto simp: rq_GenericRequest_def rq_demo_env_def Let_def split: prod.splits option.splits)
  then obtain sent where s: "BrCallPublish ''t'' sent \<in> set calls" by blast
  from rq_correlation[OF u R s, of "AnyString ''x''"] R s show ?thesis by blast
qed

end
