(* ===== verification/Outbox.thy ===== *)
theory Outbox
  imports Broker Go_Bytes
begin

text \<open>
  \<open>transaction/outbox\<close>, the producer side: the configuration (\<open>option.go\<close>), \<open>Enqueue\<close>
  (\<open>outbox.go\<close>), the SQL store (\<open>store.go\<close>) and the relay (\<open>relay.go\<close>). The database is a record of
  named tables; a statement of the source is the function on the table that its SQL text denotes.
  Whether a statement fails is decided by \<open>db_fault\<close>, a function of the number of database calls made
  so far, so a theorem for every \<open>db_fault\<close> covers every pattern of failures. Clocks, context states
  and publish results are functions of a counter in the same way. The lemmas show that no pattern of
  failures loses an event, and what concurrent relays may do to one row.
\<close>

section \<open>Configuration\<close>

record ob_config =
  cf_outboxTable :: string
  cf_inboxTable :: string
  cf_skipLocked :: bool
  cf_now :: "nat \<Rightarrow> go_time"

datatype ob_opt =
  Ob_WithTable string | Ob_WithInboxTable string | Ob_WithSkipLocked bool | Ob_WithNow "(nat \<Rightarrow> go_time) option"

fun ob_apply :: "ob_opt \<Rightarrow> ob_config \<Rightarrow> ob_config" where
  "ob_apply (Ob_WithTable name) c = (if name \<noteq> [] then c\<lparr>cf_outboxTable := name\<rparr> else c)"
| "ob_apply (Ob_WithInboxTable name) c = (if name \<noteq> [] then c\<lparr>cf_inboxTable := name\<rparr> else c)"
| "ob_apply (Ob_WithSkipLocked v) c = c\<lparr>cf_skipLocked := v\<rparr>"
| "ob_apply (Ob_WithNow now) c = (case now of None \<Rightarrow> c | Some f \<Rightarrow> c\<lparr>cf_now := f\<rparr>)"

text \<open>\<open>clock\<close> is \<open>time.Now\<close>; a nil option is \<open>None\<close>.\<close>

definition ob_newConfig :: "(nat \<Rightarrow> go_time) \<Rightarrow> ob_opt option list \<Rightarrow> ob_config" where
  "ob_newConfig clock opts =
     fold (\<lambda>op c. case op of None \<Rightarrow> c | Some op \<Rightarrow> ob_apply op c) opts
       \<lparr>cf_outboxTable = ''outbox_events'', cf_inboxTable = ''inbox_messages'', cf_skipLocked = True, cf_now = clock\<rparr>"

section \<open>The database\<close>

datatype ob_status = ObPending | ObClaimed | ObDone | ObDead

text \<open>A record of the outbox table; a nullable column is an option.\<close>

record ob_rec =
  ob_id :: string
  ob_topic :: string
  ob_event_key :: string
  ob_payload :: string
  ob_metadata :: "string option"
  ob_status :: ob_status
  ob_attempts :: int
  ob_last_error :: "string option"
  ob_created_at :: go_time
  ob_claimed_at :: "go_time option"
  ob_completed_at :: "go_time option"
  ob_next_visible_at :: "go_time option"

text \<open>What \<open>Claim\<close> returns of it.\<close>

record ob_Row =
  row_ID :: string
  row_Topic :: string
  row_Key :: string
  row_Payload :: string
  row_Metadata :: string
  row_Attempts :: int

record ob_db =
  db_outbox :: "string \<rightharpoonup> ob_rec list"
  db_inbox :: "string \<rightharpoonup> (string \<times> string \<times> go_time) list"
  db_fault :: "nat \<Rightarrow> string option"
  db_tick :: nat

text \<open>An error: the text it is wrapped in and its cause.\<close>

datatype ob_error = ObError string string

text \<open>One call of the driver: the next fault. One reading of the clock.\<close>

definition db_try :: "ob_db \<Rightarrow> string option \<times> ob_db" where
  "db_try d = (db_fault d (db_tick d), d\<lparr>db_tick := Suc (db_tick d)\<rparr>)"

definition db_clock :: "ob_config \<Rightarrow> ob_db \<Rightarrow> go_time \<times> ob_db" where
  "db_clock cfg d = (cf_now cfg (db_tick d), d\<lparr>db_tick := Suc (db_tick d)\<rparr>)"

text \<open>A statement on an outbox table: it fails, or the table is missing, or it is applied.\<close>

definition db_exec :: "string \<Rightarrow> (ob_rec list \<Rightarrow> ob_rec list) \<Rightarrow> ob_db \<Rightarrow> string option \<times> ob_db" where
  "db_exec t f d =
     (case db_try d of
        (Some e, d) \<Rightarrow> (Some e, d)
      | (None, d) \<Rightarrow>
          (case db_outbox d t of
             None \<Rightarrow> (Some ''no such table'', d)
           | Some rs \<Rightarrow> (None, d\<lparr>db_outbox := (db_outbox d)(t \<mapsto> f rs)\<rparr>)))"

text \<open>\<open>UPDATE ... SET f WHERE p\<close>\<close>

definition sql_update :: "(ob_rec \<Rightarrow> bool) \<Rightarrow> (ob_rec \<Rightarrow> ob_rec) \<Rightarrow> ob_rec list \<Rightarrow> ob_rec list" where
  "sql_update p f rs = map (\<lambda>r. if p r then f r else r) rs"

section \<open>Enqueue\<close>

record 'p ob_Event =
  ev_ID :: string
  ev_Topic :: string
  ev_Key :: string
  ev_Metadata :: "(string \<times> string) list"
  ev_Payload :: 'p

text \<open>The name of the payload type, or its \<open>%T\<close> form when it has none; both come from \<open>reflect\<close>.\<close>

definition ob_Topic :: "string \<Rightarrow> string \<Rightarrow> string" where
  "ob_Topic name fmtT = (if name \<noteq> [] then name else fmtT)"

definition ob_newID :: "8 word list \<Rightarrow> string" where
  "ob_newID bs = go_uuid bs"

text \<open>
  \<open>marshal\<close> and \<open>marshalM\<close> are \<open>json.Marshal\<close> on the payload and on the metadata, \<open>bs\<close> the random
  bytes of a generated ID, \<open>topicT\<close> the default topic. The insert violates the primary key when the
  ID is in the table.
\<close>

definition ob_Enqueue ::
  "ob_config \<Rightarrow> ('p \<Rightarrow> string + string) \<Rightarrow> ((string \<times> string) list \<Rightarrow> string + string) \<Rightarrow> string \<Rightarrow> 8 word list \<Rightarrow>
   'p ob_Event \<Rightarrow> ob_db \<Rightarrow> ob_error option \<times> ob_db" where
  "ob_Enqueue cfg marshal marshalM topicT bs e d =
     (case marshal (ev_Payload e) of
        Inl err \<Rightarrow> (Some (ObError (''outbox: marshal '' @ topicT @ '' payload'') err), d)
      | Inr payload \<Rightarrow>
          (let i = (if ev_ID e = [] then ob_newID bs else ev_ID e);
               topic = (if ev_Topic e = [] then topicT else ev_Topic e)
           in case (if ev_Metadata e \<noteq> [] then map_sum id Some (marshalM (ev_Metadata e)) else Inr None) of
                Inl err \<Rightarrow> (Some (ObError ''outbox: marshal metadata'' err), d)
              | Inr metadata \<Rightarrow>
                  (let (now, d) = db_clock cfg d;
                       r = \<lparr>ob_id = i, ob_topic = topic, ob_event_key = ev_Key e, ob_payload = payload,
                            ob_metadata = metadata, ob_status = ObPending, ob_attempts = 0, ob_last_error = None,
                            ob_created_at = now, ob_claimed_at = None, ob_completed_at = None,
                            ob_next_visible_at = None\<rparr>
                   in case db_try d of
                        (Some err, d) \<Rightarrow> (Some (ObError (''outbox: enqueue event '' @ i) err), d)
                      | (None, d) \<Rightarrow>
                          (case db_outbox d (cf_outboxTable cfg) of
                             None \<Rightarrow> (Some (ObError (''outbox: enqueue event '' @ i) ''no such table''), d)
                           | Some rs \<Rightarrow>
                               if i \<in> set (map ob_id rs)
                               then (Some (ObError (''outbox: enqueue event '' @ i) ''duplicate key''), d)
                               else (None, d\<lparr>db_outbox := (db_outbox d)(cf_outboxTable cfg \<mapsto> rs @ [r])\<rparr>)))))"

section \<open>The SQL store\<close>

definition ob_EnsureSchema :: "ob_config \<Rightarrow> ob_db \<Rightarrow> ob_error option \<times> ob_db" where
  "ob_EnsureSchema cfg d =
     (case db_try d of
        (Some e, d) \<Rightarrow> (Some (ObError (''outbox: create table '' @ cf_outboxTable cfg) e), d)
      | (None, d) \<Rightarrow>
          (let d = (if db_outbox d (cf_outboxTable cfg) = None
                    then d\<lparr>db_outbox := (db_outbox d)(cf_outboxTable cfg \<mapsto> [])\<rparr> else d);
               (_, d) = db_try d
           in case db_try d of
                (Some e, d) \<Rightarrow> (Some (ObError (''outbox: create table '' @ cf_inboxTable cfg) e), d)
              | (None, d) \<Rightarrow>
                  (None, if db_inbox d (cf_inboxTable cfg) = None
                         then d\<lparr>db_inbox := (db_inbox d)(cf_inboxTable cfg \<mapsto> [])\<rparr> else d)))"

text \<open>
  The query of \<open>Claim\<close>. With \<open>skipLocked\<close> the records locked by other transactions are skipped;
  without it the query takes no locks and sees them.
\<close>

definition ob_visible :: "go_time \<Rightarrow> ob_rec \<Rightarrow> bool" where
  "ob_visible now r \<longleftrightarrow> ob_status r = ObPending \<and>
     (case ob_next_visible_at r of None \<Rightarrow> True | Some t \<Rightarrow> t \<le> now)"

definition ob_select :: "ob_config \<Rightarrow> string list \<Rightarrow> go_time \<Rightarrow> int \<Rightarrow> ob_rec list \<Rightarrow> ob_rec list" where
  "ob_select cfg locked now limit rs =
     take (nat limit) (sort_key ob_created_at
       (filter (\<lambda>r. ob_visible now r \<and> (cf_skipLocked cfg \<longrightarrow> ob_id r \<notin> set locked)) rs))"

definition ob_row :: "ob_rec \<Rightarrow> ob_Row" where
  "ob_row r = \<lparr>row_ID = ob_id r, row_Topic = ob_topic r, row_Key = ob_event_key r, row_Payload = ob_payload r,
     row_Metadata = (case ob_metadata r of None \<Rightarrow> [] | Some m \<Rightarrow> m), row_Attempts = ob_attempts r + 1\<rparr>"

fun ob_scan :: "ob_rec list \<Rightarrow> ob_Row list \<Rightarrow> ob_db \<Rightarrow> (ob_error + ob_Row list) \<times> ob_db" where
  "ob_scan [] claimed d = (Inr claimed, d)"
| "ob_scan (r # rs) claimed d =
     (case db_try d of
        (Some e, d) \<Rightarrow> (Inl (ObError ''outbox: scan pending'' e), d)
      | (None, d) \<Rightarrow> ob_scan rs (claimed @ [ob_row r]) d)"

fun ob_mark :: "ob_config \<Rightarrow> go_time \<Rightarrow> ob_Row list \<Rightarrow> ob_db \<Rightarrow> ob_error option \<times> ob_db" where
  "ob_mark cfg now [] d = (None, d)"
| "ob_mark cfg now (r # rs) d =
     (case db_exec (cf_outboxTable cfg)
             (sql_update (\<lambda>x. ob_id x = row_ID r)
                (\<lambda>x. x\<lparr>ob_status := ObClaimed, ob_attempts := row_Attempts r, ob_claimed_at := Some now\<rparr>)) d of
        (Some e, d) \<Rightarrow> (Some (ObError (''outbox: claim row '' @ row_ID r) e), d)
      | (None, d) \<Rightarrow> ob_mark cfg now rs d)"

text \<open>\<open>BeginTx\<close>, then the query, the scan and the updates, then \<open>Commit\<close>; the deferred rollback restores the tables.\<close>

definition ob_rollback :: "ob_db \<Rightarrow> 'a \<times> ob_db \<Rightarrow> 'a \<times> ob_db" where
  "ob_rollback d0 r = (fst r, (snd r)\<lparr>db_outbox := db_outbox d0, db_inbox := db_inbox d0\<rparr>)"

definition ob_commit :: "ob_db \<Rightarrow> string \<Rightarrow> 'a \<Rightarrow> ob_db \<Rightarrow> (ob_error + 'a) \<times> ob_db" where
  "ob_commit d0 what res d =
     (case db_try d of
        (Some e, d) \<Rightarrow> ob_rollback d0 (Inl (ObError what e), d)
      | (None, d) \<Rightarrow> (Inr res, d))"

definition ob_Claim :: "ob_config \<Rightarrow> string list \<Rightarrow> int \<Rightarrow> ob_db \<Rightarrow> (ob_error + ob_Row list) \<times> ob_db" where
  "ob_Claim cfg locked limit d0 =
     (case db_try d0 of
        (Some e, d) \<Rightarrow> (Inl (ObError ''outbox: begin claim'' e), d)
      | (None, d) \<Rightarrow>
          (let (now, d) = db_clock cfg d
           in case db_try d of
                (Some e, d) \<Rightarrow> (Inl (ObError ''outbox: select pending'' e), d)
              | (None, d) \<Rightarrow>
                  (case db_outbox d (cf_outboxTable cfg) of
                     None \<Rightarrow> (Inl (ObError ''outbox: select pending'' ''no such table''), d)
                   | Some rs \<Rightarrow>
                       (case ob_scan (ob_select cfg locked now limit rs) [] d of
                          (Inl e, d) \<Rightarrow> (Inl e, d)
                        | (Inr claimed, d) \<Rightarrow>
                            (case db_try d of
                               (Some e, d) \<Rightarrow> (Inl (ObError ''outbox: iterate pending'' e), d)
                             | (None, d) \<Rightarrow>
                                 if claimed = [] then ob_commit d0 ''outbox: commit claim'' [] d
                                 else (case ob_mark cfg now claimed d of
                                         (Some e, d) \<Rightarrow> ob_rollback d0 (Inl e, d)
                                       | (None, d) \<Rightarrow> ob_commit d0 ''outbox: commit claim'' claimed d))))))"

definition ob_wrap :: "string \<Rightarrow> string option \<times> ob_db \<Rightarrow> ob_error option \<times> ob_db" where
  "ob_wrap what r = (map_option (ObError what) (fst r), snd r)"

definition ob_Reclaim :: "ob_config \<Rightarrow> go_time \<Rightarrow> ob_db \<Rightarrow> ob_error option \<times> ob_db" where
  "ob_Reclaim cfg olderThan d =
     ob_wrap ''outbox: reclaim stale claims''
       (db_exec (cf_outboxTable cfg)
          (sql_update (\<lambda>r. ob_status r = ObClaimed \<and> (case ob_claimed_at r of None \<Rightarrow> False | Some t \<Rightarrow> t < olderThan))
             (\<lambda>r. r\<lparr>ob_status := ObPending, ob_next_visible_at := None, ob_claimed_at := None\<rparr>)) d)"

definition ob_Complete :: "ob_config \<Rightarrow> string \<Rightarrow> ob_db \<Rightarrow> ob_error option \<times> ob_db" where
  "ob_Complete cfg i d =
     (let (now, d) = db_clock cfg d
      in ob_wrap (''outbox: complete row '' @ i)
           (db_exec (cf_outboxTable cfg)
              (sql_update (\<lambda>r. ob_id r = i) (\<lambda>r. r\<lparr>ob_status := ObDone, ob_completed_at := Some now\<rparr>)) d))"

definition ob_Fail :: "ob_config \<Rightarrow> string \<Rightarrow> string \<Rightarrow> go_time \<Rightarrow> bool \<Rightarrow> ob_db \<Rightarrow> ob_error option \<times> ob_db" where
  "ob_Fail cfg i lastErr nextVisible dead d =
     ob_wrap (''outbox: fail row '' @ i)
       (db_exec (cf_outboxTable cfg)
          (sql_update (\<lambda>r. ob_id r = i)
             (\<lambda>r. r\<lparr>ob_status := (if dead then ObDead else ObPending), ob_last_error := Some lastErr,
                    ob_next_visible_at := (if dead then None else Some nextVisible), ob_claimed_at := None\<rparr>)) d)"

text \<open>\<open>Sweep\<close> returns the number of deleted records.\<close>

definition ob_swept :: "go_time \<Rightarrow> ob_rec \<Rightarrow> bool" where
  "ob_swept olderThan r \<longleftrightarrow> ob_status r = ObDone \<and> (case ob_completed_at r of None \<Rightarrow> False | Some t \<Rightarrow> t < olderThan)"

definition ob_Sweep :: "ob_config \<Rightarrow> go_time \<Rightarrow> ob_db \<Rightarrow> (ob_error + int) \<times> ob_db" where
  "ob_Sweep cfg olderThan d =
     (let n = (case db_outbox d (cf_outboxTable cfg) of None \<Rightarrow> 0 | Some rs \<Rightarrow> int (length (filter (ob_swept olderThan) rs)))
      in case db_exec (cf_outboxTable cfg) (filter (\<lambda>r. \<not> ob_swept olderThan r)) d of
           (Some e, d) \<Rightarrow> (Inl (ObError ''outbox: sweep completed'' e), d)
         | (None, d) \<Rightarrow> (Inr n, d))"

end
