(* ===== verification/Relay.thy ===== *)
theory Relay
  imports Outbox
begin

text \<open>
  \<open>transaction/outbox/relay.go\<close>: the relay that publishes the committed events. It uses the
  store through the interface \<open>Store\<close>, here the record \<open>ob_store\<close> of its operations. The locale
  \<open>outbox_store\<close> is what the relay relies on: only \<open>Complete\<close> takes an event out of the set of
  undelivered ones. It is interpreted on the SQL store of \<^theory_text>\<open>Outbox\<close>.
\<close>

section \<open>The relay\<close>

record 's ob_store =
  st_EnsureSchema :: "'s \<Rightarrow> ob_error option \<times> 's"
  st_Claim :: "int \<Rightarrow> 's \<Rightarrow> (ob_error + ob_Row list) \<times> 's"
  st_Reclaim :: "go_time \<Rightarrow> 's \<Rightarrow> ob_error option \<times> 's"
  st_Complete :: "string \<Rightarrow> 's \<Rightarrow> ob_error option \<times> 's"
  st_Fail :: "string \<Rightarrow> string \<Rightarrow> go_time \<Rightarrow> bool \<Rightarrow> 's \<Rightarrow> ob_error option \<times> 's"
  st_Sweep :: "go_time \<Rightarrow> 's \<Rightarrow> (ob_error + int) \<times> 's"

text \<open>\<open>NewStore\<close>; \<open>locked\<close> are the rows locked by the transactions of other relays.\<close>

definition ob_NewStore :: "ob_config \<Rightarrow> string list \<Rightarrow> ob_db ob_store" where
  "ob_NewStore cfg locked =
     \<lparr>st_EnsureSchema = ob_EnsureSchema cfg, st_Claim = ob_Claim cfg locked, st_Reclaim = ob_Reclaim cfg,
      st_Complete = ob_Complete cfg, st_Fail = ob_Fail cfg, st_Sweep = ob_Sweep cfg\<rparr>"

record rl_config =
  rc_pollInterval :: duration
  rc_batchSize :: int
  rc_maxAttempts :: int
  rc_lease :: duration
  rc_sweepAfter :: duration
  rc_retryBackoff :: "int \<Rightarrow> duration"
  rc_autoMigrate :: bool
  rc_now :: "nat \<Rightarrow> go_time"
  rc_onError :: bool \<comment> \<open>a hook is installed\<close>

definition rl_defaultConfig :: "(nat \<Rightarrow> go_time) \<Rightarrow> rl_config" where
  "rl_defaultConfig clock =
     \<lparr>rc_pollInterval = Second, rc_batchSize = 100, rc_maxAttempts = 16, rc_lease = 5 * (60 * Second),
      rc_sweepAfter = 0, rc_retryBackoff = (\<lambda>attempts. i64 (attempts * Second)), rc_autoMigrate = True,
      rc_now = clock, rc_onError = False\<rparr>"

datatype rl_opt =
    Rl_WithPollInterval duration | Rl_WithBatchSize int | Rl_WithMaxAttempts int | Rl_WithLease duration
  | Rl_WithSweepAfter duration | Rl_WithRetryBackoff "(int \<Rightarrow> duration) option" | Rl_WithAutoMigrate bool
  | Rl_WithRelayNow "(nat \<Rightarrow> go_time) option" | Rl_WithErrorHandler bool

fun rl_apply :: "rl_opt \<Rightarrow> rl_config \<Rightarrow> rl_config" where
  "rl_apply (Rl_WithPollInterval d) c = (if d > 0 then c\<lparr>rc_pollInterval := d\<rparr> else c)"
| "rl_apply (Rl_WithBatchSize n) c = (if n > 0 then c\<lparr>rc_batchSize := n\<rparr> else c)"
| "rl_apply (Rl_WithMaxAttempts n) c = (if n > 0 then c\<lparr>rc_maxAttempts := n\<rparr> else c)"
| "rl_apply (Rl_WithLease d) c = c\<lparr>rc_lease := d\<rparr>"
| "rl_apply (Rl_WithSweepAfter d) c = c\<lparr>rc_sweepAfter := d\<rparr>"
| "rl_apply (Rl_WithRetryBackoff f) c = (case f of None \<Rightarrow> c | Some f \<Rightarrow> c\<lparr>rc_retryBackoff := f\<rparr>)"
| "rl_apply (Rl_WithAutoMigrate v) c = c\<lparr>rc_autoMigrate := v\<rparr>"
| "rl_apply (Rl_WithRelayNow f) c = (case f of None \<Rightarrow> c | Some f \<Rightarrow> c\<lparr>rc_now := f\<rparr>)"
| "rl_apply (Rl_WithErrorHandler f) c = (if f then c\<lparr>rc_onError := True\<rparr> else c)"

definition rl_New :: "(nat \<Rightarrow> go_time) \<Rightarrow> rl_opt option list \<Rightarrow> rl_config" where
  "rl_New clock opts =
     fold (\<lambda>op c. case op of None \<Rightarrow> c | Some op \<Rightarrow> rl_apply op c) opts (rl_defaultConfig clock)"

text \<open>
  \<open>messageFromRow\<close>; \<open>unmarshal\<close> is \<open>json.Unmarshal\<close> into a \<open>map[string]string\<close>. A metadata key
  overwrites a header the relay has set.
\<close>

abbreviation HeaderEventID :: string where "HeaderEventID \<equiv> ''outbox-event-id''"
abbreviation HeaderTopic :: string where "HeaderTopic \<equiv> ''outbox-topic''"

definition rl_messageFromRow :: "(string \<Rightarrow> (string \<times> string) list option) \<Rightarrow> ob_Row \<Rightarrow> ('t, 'o) br_message" where
  "rl_messageFromRow unmarshal row =
     (let msg = \<lparr>msg_ID = row_ID row, msg_Headers = Some [HeaderEventID \<mapsto> row_ID row, HeaderTopic \<mapsto> row_Topic row],
                 msg_Body = AnyBytes (row_Payload row), msg_Key = row_Key row, msg_Metadata = None,
                 msg_Partition = 0, msg_Offset = 0, msg_Msg = AnyNil\<rparr>
      in if row_Metadata row \<noteq> []
         then (case unmarshal (row_Metadata row) of None \<Rightarrow> msg | Some meta \<Rightarrow> msg_MergeHeaders (Some meta) msg)
         else msg)"

text \<open>
  The relay's view of the world: the store, a counter of the readings it makes, the messages the
  broker accepted, and the calls of the error hook. \<open>re_ctx\<close> and \<open>re_send\<close> are the context's state
  and the broker's answer at a reading.
\<close>

record rl_env =
  re_ctx :: "nat \<Rightarrow> string option"
  re_send :: "nat \<Rightarrow> string option"

record ('s, 't, 'o) rl_world =
  rw_store :: 's
  rw_tick :: nat
  rw_pub :: "(string \<times> ('t, 'o) br_message) list"
  rw_reports :: "(string \<times> ob_Row \<times> ob_error) list"

definition rw_next :: "('s, 't, 'o) rl_world \<Rightarrow> ('s, 't, 'o) rl_world" where
  "rw_next w = w\<lparr>rw_tick := Suc (rw_tick w)\<rparr>"

definition ob_zeroRow :: ob_Row where
  "ob_zeroRow = \<lparr>row_ID = [], row_Topic = [], row_Key = [], row_Payload = [], row_Metadata = [], row_Attempts = 0\<rparr>"

definition rl_report ::
  "rl_config \<Rightarrow> string \<Rightarrow> ob_Row \<Rightarrow> ob_error option \<Rightarrow> ('s, 't, 'o) rl_world \<Rightarrow> ('s, 't, 'o) rl_world" where
  "rl_report C stage row err w =
     (case err of None \<Rightarrow> w
      | Some e \<Rightarrow> if rc_onError C then w\<lparr>rw_reports := rw_reports w @ [(stage, row, e)]\<rparr> else w)"

text \<open>The loop over the claimed rows.\<close>

fun rl_rows ::
  "'s ob_store \<Rightarrow> (string \<Rightarrow> (string \<times> string) list option) \<Rightarrow> rl_config \<Rightarrow> rl_env \<Rightarrow> ob_Row list \<Rightarrow> int \<Rightarrow>
   ('s, 't, 'o) rl_world \<Rightarrow> int \<times> ob_error option \<times> ('s, 't, 'o) rl_world" where
  "rl_rows S un C E [] published w = (published, None, w)"
| "rl_rows S un C E (row # rows) published w =
     (case re_ctx E (rw_tick w) of
        Some e \<Rightarrow> (published, Some (ObError [] e), rw_next w)
      | None \<Rightarrow>
          (let w = rw_next w; msg = rl_messageFromRow un row
           in case re_send E (rw_tick w) of
                Some e \<Rightarrow>
                  (let w = rw_next w;
                       nextVisible = rc_now C (rw_tick w) + rc_retryBackoff C (row_Attempts row);
                       dead = (row_Attempts row \<ge> rc_maxAttempts C);
                       (ferr, s) = st_Fail S (row_ID row) e nextVisible dead (rw_store w);
                       w = rl_report C ''fail'' row ferr ((rw_next w)\<lparr>rw_store := s\<rparr>);
                       w = rl_report C ''publish'' row (Some (ObError [] e)) w
                   in rl_rows S un C E rows published w)
              | None \<Rightarrow>
                  (let w = (rw_next w)\<lparr>rw_pub := rw_pub w @ [(row_Topic row, msg)]\<rparr>;
                       (cerr, s) = st_Complete S (row_ID row) (rw_store w);
                       w = w\<lparr>rw_store := s\<rparr>
                   in case cerr of
                        Some e \<Rightarrow> rl_rows S un C E rows published (rl_report C ''complete'' row (Some e) w)
                      | None \<Rightarrow> rl_rows S un C E rows (published + 1) w)))"

definition rl_reclaim :: "'s ob_store \<Rightarrow> rl_config \<Rightarrow> ('s, 't, 'o) rl_world \<Rightarrow> ('s, 't, 'o) rl_world" where
  "rl_reclaim S C w =
     (if rc_lease C > 0
      then (let (e, s) = st_Reclaim S (rc_now C (rw_tick w) - rc_lease C) (rw_store w)
            in rl_report C ''reclaim'' ob_zeroRow e ((rw_next w)\<lparr>rw_store := s\<rparr>))
      else w)"

definition rl_sweep :: "'s ob_store \<Rightarrow> rl_config \<Rightarrow> ('s, 't, 'o) rl_world \<Rightarrow> ('s, 't, 'o) rl_world" where
  "rl_sweep S C w =
     (if rc_sweepAfter C > 0
      then (let (e, s) = st_Sweep S (rc_now C (rw_tick w) - rc_sweepAfter C) (rw_store w)
            in rl_report C ''sweep'' ob_zeroRow (case e of Inl e \<Rightarrow> Some e | Inr _ \<Rightarrow> None)
                 ((rw_next w)\<lparr>rw_store := s\<rparr>))
      else w)"

definition rl_Once ::
  "'s ob_store \<Rightarrow> (string \<Rightarrow> (string \<times> string) list option) \<Rightarrow> rl_config \<Rightarrow> rl_env \<Rightarrow> ('s, 't, 'o) rl_world \<Rightarrow>
   int \<times> ob_error option \<times> ('s, 't, 'o) rl_world" where
  "rl_Once S un C E w =
     (let w = rl_sweep S C (rl_reclaim S C w);
          (res, s) = st_Claim S (rc_batchSize C) (rw_store w);
          w = w\<lparr>rw_store := s\<rparr>
      in case res of
           Inl e \<Rightarrow> (0, Some e, w)
         | Inr rows \<Rightarrow> rl_rows S un C E rows 0 w)"

text \<open>
  \<open>Run\<close>: the loop ends only with the context, so the number of polls is bounded by \<open>fuel\<close>; \<open>None\<close> says
  that the relay still polls. The state of the context is read after a failed cycle and in the
  \<open>select\<close>.
\<close>

fun rl_poll ::
  "nat \<Rightarrow> 's ob_store \<Rightarrow> (string \<Rightarrow> (string \<times> string) list option) \<Rightarrow> rl_config \<Rightarrow> rl_env \<Rightarrow> ('s, 't, 'o) rl_world \<Rightarrow>
   ob_error option \<times> ('s, 't, 'o) rl_world" where
  "rl_poll 0 S un C E w = (None, w)"
| "rl_poll (Suc fuel) S un C E w =
     (let (_, err, w) = rl_Once S un C E w
      in case err of
           Some e \<Rightarrow>
             (case re_ctx E (rw_tick w) of
                Some c \<Rightarrow> (Some (ObError [] c), rw_next w)
              | None \<Rightarrow>
                  (let w = rl_report C ''relay'' ob_zeroRow (Some e) (rw_next w)
                   in case re_ctx E (rw_tick w) of
                        Some c \<Rightarrow> (Some (ObError [] c), rw_next w)
                      | None \<Rightarrow> rl_poll fuel S un C E (rw_next w)))
         | None \<Rightarrow>
             (case re_ctx E (rw_tick w) of
                Some c \<Rightarrow> (Some (ObError [] c), rw_next w)
              | None \<Rightarrow> rl_poll fuel S un C E (rw_next w)))"

definition rl_Run ::
  "nat \<Rightarrow> 's ob_store \<Rightarrow> (string \<Rightarrow> (string \<times> string) list option) \<Rightarrow> rl_config \<Rightarrow> rl_env \<Rightarrow> ('s, 't, 'o) rl_world \<Rightarrow>
   ob_error option \<times> ('s, 't, 'o) rl_world" where
  "rl_Run fuel S un C E w =
     (if rc_autoMigrate C
      then (case st_EnsureSchema S (rw_store w) of
              (Some e, s) \<Rightarrow> (Some e, w\<lparr>rw_store := s\<rparr>)
            | (None, s) \<Rightarrow> rl_poll fuel S un C E (w\<lparr>rw_store := s\<rparr>))
      else rl_poll fuel S un C E w)"

section \<open>What the relay relies on\<close>

text \<open>
  \<open>live s\<close> are the IDs of the events the store still holds as undelivered. No operation but
  \<open>Complete\<close> may take an ID out of it, and \<open>Complete\<close> only its own.
\<close>

locale outbox_store =
  fixes S :: "'s ob_store" and live :: "'s \<Rightarrow> string set"
  assumes live_EnsureSchema: "live s \<subseteq> live (snd (st_EnsureSchema S s))"
    and live_Claim: "live s \<subseteq> live (snd (st_Claim S n s))"
    and live_Reclaim: "live s \<subseteq> live (snd (st_Reclaim S t s))"
    and live_Sweep: "live s \<subseteq> live (snd (st_Sweep S t s))"
    and live_Fail: "live s \<subseteq> live (snd (st_Fail S i e t dead s))"
    and live_Complete: "live s - {i} \<subseteq> live (snd (st_Complete S i s))"
begin

text \<open>The events that are undelivered, or published so far.\<close>

definition safe :: "('s, 't, 'o) rl_world \<Rightarrow> string set" where
  "safe w = live (rw_store w) \<union> (msg_ID \<circ> snd) ` set (rw_pub w)"

lemma safe_report [simp]: "safe (rl_report C st row e w) = safe w"
  by (simp add: safe_def rl_report_def split: option.split)

lemma safe_next [simp]: "safe (rw_next w) = safe w"
  by (simp add: safe_def rw_next_def)

lemma safe_store: "live (rw_store w) \<subseteq> live s \<Longrightarrow> safe w \<subseteq> safe (w\<lparr>rw_store := s\<rparr>)"
  by (auto simp: safe_def)

lemma safe_next_store: "live (rw_store w) \<subseteq> live s \<Longrightarrow> safe w \<subseteq> safe ((rw_next w)\<lparr>rw_store := s\<rparr>)"
  by (auto simp: safe_def rw_next_def)

lemma msg_ID_fromRow [simp]: "msg_ID (rl_messageFromRow un row) = row_ID row"
  by (simp add: rl_messageFromRow_def Let_def split: option.split)

lemma safe_publish:
  "live (rw_store w) - {row_ID row} \<subseteq> live s \<Longrightarrow>
   safe w \<subseteq> safe ((rw_next w)\<lparr>rw_pub := rw_pub w @ [(tp, rl_messageFromRow un row)], rw_store := s\<rparr>)"
  by (auto simp: safe_def rw_next_def)

lemma safe_rows: "rl_rows S un C E rows n w = (k, err, w') \<Longrightarrow> safe w \<subseteq> safe w'"
proof (induction rows arbitrary: n w)
  case (Cons row rows)
  show ?case
  proof (cases "re_ctx E (rw_tick w)")
    case None
    let ?w = "rw_next w"
    show ?thesis
    proof (cases "re_send E (rw_tick ?w)")
      case (Some e)
      let ?t = "rc_now C (rw_tick (rw_next ?w)) + rc_retryBackoff C (row_Attempts row)"
      obtain fe s where f: "st_Fail S (row_ID row) e ?t (row_Attempts row \<ge> rc_maxAttempts C) (rw_store (rw_next ?w)) = (fe, s)"
        by fastforce
      have "live (rw_store (rw_next ?w)) \<subseteq> live s" using live_Fail f by (metis snd_conv)
      then have "safe w \<subseteq> safe ((rw_next (rw_next ?w))\<lparr>rw_store := s\<rparr>)"
        using safe_next_store[of "rw_next ?w" s] by simp
      moreover have "safe ((rw_next (rw_next ?w))\<lparr>rw_store := s\<rparr>) \<subseteq> safe w'"
        using Cons.IH[of n "rl_report C ''publish'' row (Some (ObError [] e))
          (rl_report C ''fail'' row fe ((rw_next (rw_next ?w))\<lparr>rw_store := s\<rparr>))"] Cons.prems None Some f
        by (simp add: Let_def)
      ultimately show ?thesis by blast
    next
      case no: None
      let ?p = "(rw_next ?w)\<lparr>rw_pub := rw_pub ?w @ [(row_Topic row, rl_messageFromRow un row)]\<rparr>"
      obtain ce s where c: "st_Complete S (row_ID row) (rw_store ?p) = (ce, s)" by fastforce
      have "live (rw_store ?w) - {row_ID row} \<subseteq> live s"
        using live_Complete[of "rw_store ?w" "row_ID row"] c by (simp add: rw_next_def)
      then have "safe w \<subseteq> safe (?p\<lparr>rw_store := s\<rparr>)" using safe_publish[of ?w row s] by simp
      moreover have "safe (?p\<lparr>rw_store := s\<rparr>) \<subseteq> safe w'"
        using Cons.IH[of "n + 1" "?p\<lparr>rw_store := s\<rparr>"]
          Cons.IH[of n "rl_report C ''complete'' row ce (?p\<lparr>rw_store := s\<rparr>)"] Cons.prems None no c
        by (cases ce) (simp_all add: Let_def)
      ultimately show ?thesis by blast
    qed
  qed (use Cons.prems in auto)
qed simp

lemma safe_reclaim: "safe w \<subseteq> safe (rl_reclaim S C w)"
  using safe_next_store[OF live_Reclaim, of w "rc_now C (rw_tick w) - rc_lease C"]
  by (cases "st_Reclaim S (rc_now C (rw_tick w) - rc_lease C) (rw_store w)") (simp add: rl_reclaim_def)

lemma safe_sweep: "safe w \<subseteq> safe (rl_sweep S C w)"
  using safe_next_store[OF live_Sweep, of w "rc_now C (rw_tick w) - rc_sweepAfter C"]
  by (cases "st_Sweep S (rc_now C (rw_tick w) - rc_sweepAfter C) (rw_store w)") (simp add: rl_sweep_def)

lemma safe_Once: "rl_Once S un C E w = (k, err, w') \<Longrightarrow> safe w \<subseteq> safe w'"
proof -
  assume o: "rl_Once S un C E w = (k, err, w')"
  let ?w = "rl_sweep S C (rl_reclaim S C w)"
  obtain res s where c: "st_Claim S (rc_batchSize C) (rw_store ?w) = (res, s)" by fastforce
  have "safe w \<subseteq> safe ?w" using safe_reclaim safe_sweep by blast
  also have "\<dots> \<subseteq> safe (?w\<lparr>rw_store := s\<rparr>)" using live_Claim c by (metis safe_store snd_conv)
  also have "\<dots> \<subseteq> safe w'" using o c safe_rows[of un C E _ 0 "?w\<lparr>rw_store := s\<rparr>" k err w'] by (cases res) (auto simp: rl_Once_def)
  finally show ?thesis .
qed

lemma safe_poll: "rl_poll n S un C E w = (r, w') \<Longrightarrow> safe w \<subseteq> safe w'"
proof (induction n arbitrary: w)
  case (Suc n)
  obtain k err w1 where o: "rl_Once S un C E w = (k, err, w1)" by (metis prod_cases3)
  have "safe w1 \<subseteq> safe w'"
    using Suc.prems Suc.IH[of "rw_next w1"] Suc.IH[of "rw_next (rl_report C ''relay'' ob_zeroRow err (rw_next w1))"]
    by (auto simp: o Let_def split: option.splits)
  with safe_Once[OF o] show ?case by blast
qed simp

lemma safe_Run: "rl_Run n S un C E w = (r, w') \<Longrightarrow> safe w \<subseteq> safe w'"
proof -
  assume run: "rl_Run n S un C E w = (r, w')"
  obtain e s where m: "st_EnsureSchema S (rw_store w) = (e, s)" by fastforce
  have "safe w \<subseteq> safe (w\<lparr>rw_store := s\<rparr>)" using live_EnsureSchema m by (metis safe_store snd_conv)
  then show ?thesis
    using run m safe_poll by (fastforce simp: rl_Run_def split: if_splits option.splits)
qed

end

section \<open>The SQL store is such a store\<close>

text \<open>The IDs of the records that are not done; a missing table has none.\<close>

definition ob_live :: "string \<Rightarrow> ob_db \<Rightarrow> string set" where
  "ob_live t d = (case db_outbox d t of None \<Rightarrow> {} | Some rs \<Rightarrow> ob_id ` {r \<in> set rs. ob_status r \<noteq> ObDone})"

lemma ob_live_tick [simp]: "ob_live t (d\<lparr>db_tick := n\<rparr>) = ob_live t d"
  by (simp add: ob_live_def)

lemma ob_live_try: "db_try d = (e, d') \<Longrightarrow> ob_live t d' = ob_live t d"
  by (auto simp: db_try_def)

lemma ob_live_clock: "db_clock cfg d = (n, d') \<Longrightarrow> ob_live t d' = ob_live t d"
  by (auto simp: db_clock_def)

lemma ob_live_exec:
  assumes "\<And>rs. ob_id ` {r \<in> set rs. ob_status r \<noteq> ObDone} - X \<subseteq> ob_id ` {r \<in> set (f rs). ob_status r \<noteq> ObDone}"
    "db_exec t f d = (e, d')"
  shows "ob_live t d - X \<subseteq> ob_live t d'"
  using assms by (fastforce simp: db_exec_def db_try_def ob_live_def split: option.splits)

lemma ob_live_update:
  assumes "\<And>r. ob_id (f r) = ob_id r" "\<And>r. p r \<Longrightarrow> ob_id r \<notin> X \<Longrightarrow> ob_status r \<noteq> ObDone \<Longrightarrow> ob_status (f r) \<noteq> ObDone"
  shows "ob_id ` {r \<in> set rs. ob_status r \<noteq> ObDone} - X \<subseteq> ob_id ` {r \<in> set (sql_update p f rs). ob_status r \<noteq> ObDone}"
proof
  fix i assume "i \<in> ob_id ` {r \<in> set rs. ob_status r \<noteq> ObDone} - X"
  then obtain r where r: "r \<in> set rs" "ob_status r \<noteq> ObDone" "ob_id r = i" "i \<notin> X" by auto
  then show "i \<in> ob_id ` {r \<in> set (sql_update p f rs). ob_status r \<noteq> ObDone}"
    using assms by (intro image_eqI[of _ _ "if p r then f r else r"]) (auto simp: sql_update_def)
qed

lemma ob_live_exec_update:
  assumes "db_exec t (sql_update p f) d = (e, d')" "\<And>r. ob_id (f r) = ob_id r"
    "\<And>r. p r \<Longrightarrow> ob_id r \<notin> X \<Longrightarrow> ob_status r \<noteq> ObDone \<Longrightarrow> ob_status (f r) \<noteq> ObDone"
  shows "ob_live t d - X \<subseteq> ob_live t d'"
  using ob_live_exec[OF ob_live_update[of f p X, OF assms(2,3)] assms(1)] by simp

lemma ob_live_upd:
  assumes "\<And>r. ob_id (f r) = ob_id r" "\<And>r. p r \<Longrightarrow> ob_status r \<noteq> ObDone \<Longrightarrow> ob_status (f r) \<noteq> ObDone"
  shows "ob_live t d \<subseteq> ob_live t (snd (db_exec t (sql_update p f) d))"
  using ob_live_exec_update[where X = "{}", OF surjective_pairing, of f p t d] assms by simp

lemma ob_live_upd1:
  assumes "\<And>r. ob_id (f r) = ob_id r"
  shows "ob_live t d - {i} \<subseteq> ob_live t (snd (db_exec t (sql_update (\<lambda>r. ob_id r = i) f) d))"
  using ob_live_exec_update[where X = "{i}", OF surjective_pairing, of f "\<lambda>r. ob_id r = i" t d] assms by simp

lemma ob_live_scan: "ob_scan rs cl d = (r, d') \<Longrightarrow> ob_live t d' = ob_live t d"
  by (induction rs arbitrary: cl d) (auto split: prod.splits option.splits dest!: ob_live_try[where t = t])

lemma ob_live_mark: "ob_mark cfg now rows d = (r, d') \<Longrightarrow> ob_live (cf_outboxTable cfg) d \<subseteq> ob_live (cf_outboxTable cfg) d'"
proof (induction rows arbitrary: d)
  case (Cons row rows)
  show ?case
    using Cons.prems ob_live_exec_update[where X = "{}"] Cons.IH
    by (auto split: prod.splits option.splits) fastforce+
qed simp

lemma ob_live_rollback: "ob_live t (snd (ob_rollback d0 r)) = ob_live t d0"
  by (simp add: ob_rollback_def ob_live_def)

lemma ob_live_commit: "ob_live t d0 \<subseteq> ob_live t d \<Longrightarrow> ob_live t d0 \<subseteq> ob_live t (snd (ob_commit d0 what res d))"
  by (auto simp: ob_commit_def ob_live_rollback split: prod.split option.split dest: ob_live_try[where t = t])

lemma ob_live_Claim: "ob_live (cf_outboxTable cfg) d0 \<subseteq> ob_live (cf_outboxTable cfg) (snd (ob_Claim cfg locked n d0))"
proof -
  let ?t = "cf_outboxTable cfg"
  obtain e1 d1 where 1: "db_try d0 = (e1, d1)" by fastforce
  obtain now d2 where 2: "db_clock cfg d1 = (now, d2)" by fastforce
  obtain e3 d3 where 3: "db_try d2 = (e3, d3)" by fastforce
  have l: "ob_live ?t d3 = ob_live ?t d0" "ob_live ?t d2 = ob_live ?t d0" "ob_live ?t d1 = ob_live ?t d0"
    using ob_live_try[OF 1] ob_live_clock[OF 2] ob_live_try[OF 3] by auto
  show ?thesis
  proof (cases "e1 = None \<and> e3 = None \<and> db_outbox d3 ?t \<noteq> None")
    case True
    then obtain rs where rs: "db_outbox d3 ?t = Some rs" by auto
    obtain cl d4 where 4: "ob_scan (ob_select cfg locked now n rs) [] d3 = (cl, d4)" by fastforce
    obtain e5 d5 where 5: "db_try d4 = (e5, d5)" by fastforce
    have l5: "ob_live ?t d4 = ob_live ?t d0" "ob_live ?t d5 = ob_live ?t d0"
      using l ob_live_scan[OF 4] ob_live_try[OF 5] by auto
    show ?thesis
    proof (cases "\<exists>rows. cl = Inr rows \<and> rows \<noteq> [] \<and> e5 = None")
      case True
      then obtain rows where r: "cl = Inr rows" "rows \<noteq> []" "e5 = None" by blast
      obtain e6 d6 where 6: "ob_mark cfg now rows d5 = (e6, d6)" by fastforce
      have "ob_live ?t d0 \<subseteq> ob_live ?t d6" using ob_live_mark[OF 6] l5 by simp
      then show ?thesis using r \<open>e1 = None \<and> _\<close> rs 1 2 3 4 5 6
        by (auto simp: ob_Claim_def ob_live_rollback split: option.split intro: subsetD[OF ob_live_commit])
    next
      case False
      then show ?thesis using \<open>e1 = None \<and> _\<close> rs 1 2 3 4 5 l5
        by (auto simp: ob_Claim_def split: option.split sum.split intro: subsetD[OF ob_live_commit])
    qed
  qed (use 1 2 3 l in \<open>auto simp: ob_Claim_def split: option.split\<close>)
qed

lemma ob_live_EnsureSchema: "ob_live t d \<subseteq> ob_live t (snd (ob_EnsureSchema cfg d))"
  by (auto simp: ob_EnsureSchema_def db_try_def ob_live_def Let_def split: option.splits if_splits)

lemma ob_wrap_snd [simp]: "snd (ob_wrap what r) = snd r"
  by (simp add: ob_wrap_def)

lemma ob_live_Reclaim: "ob_live (cf_outboxTable cfg) d \<subseteq> ob_live (cf_outboxTable cfg) (snd (ob_Reclaim cfg t d))"
  unfolding ob_Reclaim_def ob_wrap_snd by (rule ob_live_upd) simp_all

lemma ob_live_Fail: "ob_live (cf_outboxTable cfg) d \<subseteq> ob_live (cf_outboxTable cfg) (snd (ob_Fail cfg i e t dead d))"
  unfolding ob_Fail_def ob_wrap_snd by (rule ob_live_upd) simp_all

lemma ob_live_Complete: "ob_live (cf_outboxTable cfg) d - {i} \<subseteq> ob_live (cf_outboxTable cfg) (snd (ob_Complete cfg i d))"
proof -
  obtain now d1 where c: "db_clock cfg d = (now, d1)" by fastforce
  show ?thesis
    unfolding ob_live_clock[OF c, symmetric] ob_Complete_def c Let_def prod.case ob_wrap_snd
    by (rule ob_live_upd1) simp
qed

lemma ob_live_Sweep: "ob_live (cf_outboxTable cfg) d \<subseteq> ob_live (cf_outboxTable cfg) (snd (ob_Sweep cfg t d))"
proof -
  obtain e d' where x: "db_exec (cf_outboxTable cfg) (filter (\<lambda>r. \<not> ob_swept t r)) d = (e, d')" by fastforce
  have "ob_live (cf_outboxTable cfg) d - {} \<subseteq> ob_live (cf_outboxTable cfg) d'"
    by (rule ob_live_exec[OF _ x]) (auto simp: ob_swept_def)
  then show ?thesis using x by (simp add: ob_Sweep_def split: option.split)
qed

interpretation sql: outbox_store "ob_NewStore cfg locked" "ob_live (cf_outboxTable cfg)" for cfg locked
  by unfold_locales
     (simp_all add: ob_NewStore_def ob_live_EnsureSchema ob_live_Claim ob_live_Reclaim ob_live_Sweep ob_live_Fail
        ob_live_Complete)

section \<open>No event is lost\<close>

text \<open>
  C5: at-least-once delivery. Whatever fails, for as long as a relay runs: database calls at any
  point, publishes, the context. An event that the outbox table holds as undelivered when the
  relay starts is afterwards still held as undelivered, or the broker has accepted a message with
  its ID. This covers sweeping, dead rows, rows of expired leases and every configuration.
\<close>

theorem rl_no_loss:
  assumes "rl_Run n (ob_NewStore cfg locked) un C E w = (r, w')" "rw_pub w = []"
    "i \<in> ob_live (cf_outboxTable cfg) (rw_store w)"
  shows "i \<in> ob_live (cf_outboxTable cfg) (rw_store w') \<or> (\<exists>tp m. (tp, m) \<in> set (rw_pub w') \<and> msg_ID m = i)"
  using sql.safe_Run[OF assms(1)] assms(2,3) by (force simp: sql.safe_def)

definition rl_demo_cfg :: ob_config where
  "rl_demo_cfg = ob_newConfig int [None]"

definition rl_demo_db :: ob_db where
  "rl_demo_db =
     snd (ob_Enqueue rl_demo_cfg Inr (\<lambda>_. Inr []) ''Paid'' [] \<lparr>ev_ID = ''e1'', ev_Topic = [], ev_Key = ''k'', ev_Metadata = [], ev_Payload = ''{}''\<rparr>
       (snd (ob_EnsureSchema rl_demo_cfg \<lparr>db_outbox = Map.empty, db_inbox = Map.empty, db_fault = (\<lambda>_. None), db_tick = 0\<rparr>)))"

definition rl_demo_world :: "ob_db \<Rightarrow> (ob_db, unit, unit) rl_world" where
  "rl_demo_world d = \<lparr>rw_store = d, rw_tick = 0, rw_pub = [], rw_reports = []\<rparr>"

definition rl_demo_env :: rl_env where
  "rl_demo_env = \<lparr>re_ctx = (\<lambda>n. if n < 6 then None else Some ''context canceled''), re_send = (\<lambda>_. None)\<rparr>"

theorem rl_no_loss_witness:
  "\<exists>r w'. rl_Run 5 (ob_NewStore rl_demo_cfg []) (\<lambda>_. None) (rl_New int []) rl_demo_env (rl_demo_world rl_demo_db) = (r, w') \<and>
     (''e1'' \<in> ob_live (cf_outboxTable rl_demo_cfg) (rw_store w') \<or> (\<exists>tp m. (tp, m) \<in> set (rw_pub w') \<and> msg_ID m = ''e1''))"
proof -
  obtain r w' where R: "rl_Run 5 (ob_NewStore rl_demo_cfg []) (\<lambda>_. None) (rl_New int []) rl_demo_env (rl_demo_world rl_demo_db) = (r, w')"
    by fastforce
  have p: "rw_pub (rl_demo_world rl_demo_db) = []" by (simp add: rl_demo_world_def)
  have "''e1'' \<in> ob_live (cf_outboxTable rl_demo_cfg) rl_demo_db" by code_simp
  then have "''e1'' \<in> ob_live (cf_outboxTable rl_demo_cfg) (rw_store (rl_demo_world rl_demo_db))"
    by (simp add: rl_demo_world_def)
  from rl_no_loss[OF R p this] R show ?thesis by blast
qed

section \<open>One cycle without failures\<close>

definition ob_stat :: "ob_rec list \<Rightarrow> (string \<times> ob_status) list" where
  "ob_stat rs = map (\<lambda>r. (ob_id r, ob_status r)) rs"

abbreviation ob_ok :: "ob_db \<Rightarrow> bool" where "ob_ok d \<equiv> db_fault d = (\<lambda>_. None)"

lemma ob_live_stat: "db_outbox d t = Some rs \<Longrightarrow> ob_live t d = fst ` {p \<in> set (ob_stat rs). snd p \<noteq> ObDone}"
  by (force simp: ob_live_def ob_stat_def)

lemma ob_stat_update:
  assumes "\<And>r. ob_id (f r) = ob_id r" "\<And>r. ob_status (f r) = st"
  shows "ob_stat (sql_update (\<lambda>x. ob_id x = i) f rs) = map (\<lambda>(j, x). (j, if j = i then st else x)) (ob_stat rs)"
  using assms by (auto simp: ob_stat_def sql_update_def)

lemma db_exec_ok:
  assumes "db_fault d (db_tick d) = None" "db_outbox d t = Some rs"
  shows "\<exists>d'. db_exec t f d = (None, d') \<and> db_fault d' = db_fault d \<and> db_outbox d' t = Some (f rs)"
  using assms by (simp add: db_exec_def db_try_def)

lemma ob_mark_ok:
  assumes "ob_ok d" "db_outbox d (cf_outboxTable cfg) = Some rs"
  shows "\<exists>d' rs'. ob_mark cfg now rows d = (None, d') \<and> ob_ok d' \<and> db_outbox d' (cf_outboxTable cfg) = Some rs' \<and>
    ob_stat rs' = map (\<lambda>(j, x). (j, if j \<in> row_ID ` set rows then ObClaimed else x)) (ob_stat rs)"
  using assms
proof (induction rows arbitrary: d rs)
  case (Cons row rows)
  let ?f = "sql_update (\<lambda>x. ob_id x = row_ID row)
    (\<lambda>x. x\<lparr>ob_status := ObClaimed, ob_attempts := row_Attempts row, ob_claimed_at := Some now\<rparr>)"
  obtain d1 where d1: "db_exec (cf_outboxTable cfg) ?f d = (None, d1)" "ob_ok d1" "db_outbox d1 (cf_outboxTable cfg) = Some (?f rs)"
    using db_exec_ok[of d "cf_outboxTable cfg" rs ?f] Cons.prems by auto
  have "ob_stat (?f rs) = map (\<lambda>(j, x). (j, if j = row_ID row then ObClaimed else x)) (ob_stat rs)"
    by (rule ob_stat_update) simp_all
  with Cons.IH[OF d1(2,3)] d1(1) show ?case by (auto simp: split_beta comp_def)
qed simp

lemma ob_scan_ok: "ob_ok d \<Longrightarrow> ob_scan rs cl d = (Inr (cl @ map ob_row rs), d\<lparr>db_tick := db_tick d + length rs\<rparr>)"
  by (induction rs arbitrary: cl d) (auto simp: db_try_def)

lemma ob_Claim_ok:
  fixes n :: int and locked :: "string list"
  assumes "ob_ok d" "db_outbox d (cf_outboxTable cfg) = Some rs"
  defines "sel \<equiv> ob_select cfg locked (cf_now cfg (Suc (db_tick d))) n rs"
  shows "\<exists>d' rs'. ob_Claim cfg locked n d = (Inr (map ob_row sel), d') \<and> ob_ok d' \<and>
    db_outbox d' (cf_outboxTable cfg) = Some rs' \<and>
    ob_stat rs' = map (\<lambda>(j, x). (j, if j \<in> ob_id ` set sel then ObClaimed else x)) (ob_stat rs)"
proof -
  let ?now = "cf_now cfg (Suc (db_tick d))" and ?d = "d\<lparr>db_tick := Suc (Suc (Suc (Suc (db_tick d + length sel))))\<rparr>"
  have claim: "ob_Claim cfg locked n d =
      (if map ob_row sel = [] then ob_commit d ''outbox: commit claim'' [] ?d
       else (case ob_mark cfg ?now (map ob_row sel) ?d of
               (Some e, d') \<Rightarrow> ob_rollback d (Inl e, d')
             | (None, d') \<Rightarrow> ob_commit d ''outbox: commit claim'' (map ob_row sel) d'))"
    using assms(1,2) unfolding sel_def by (simp add: ob_Claim_def db_try_def db_clock_def ob_scan_ok)
  have ids: "row_ID ` set (map ob_row sel) = ob_id ` set sel" by (force simp: ob_row_def)
  obtain d1 rs1 where m: "ob_mark cfg ?now (map ob_row sel) ?d = (None, d1)" "ob_ok d1"
    "db_outbox d1 (cf_outboxTable cfg) = Some rs1"
    "ob_stat rs1 = map (\<lambda>(j, x). (j, if j \<in> ob_id ` set sel then ObClaimed else x)) (ob_stat rs)"
    using ob_mark_ok[of ?d cfg rs ?now "map ob_row sel"] assms(1,2) unfolding ids by auto
  have c: "ob_commit d what res d' = (Inr res, d'\<lparr>db_tick := Suc (db_tick d')\<rparr>)" if "ob_ok d'"
    for what and res :: "ob_Row list" and d'
    using that by (simp add: ob_commit_def db_try_def)
  show ?thesis
  proof (cases "sel = []")
    case True
    then show ?thesis using assms(1,2) m c[of ?d] by (simp add: claim)
  next
    case False
    then show ?thesis using m c[OF m(2)] by (simp add: claim)
  qed
qed

lemma ob_Complete_ok:
  assumes "ob_ok d" "db_outbox d (cf_outboxTable cfg) = Some rs"
  shows "\<exists>d' rs'. ob_Complete cfg i d = (None, d') \<and> ob_ok d' \<and> db_outbox d' (cf_outboxTable cfg) = Some rs' \<and>
    ob_stat rs' = map (\<lambda>(j, x). (j, if j = i then ObDone else x)) (ob_stat rs)"
proof -
  obtain now d1 where c: "db_clock cfg d = (now, d1)" by fastforce
  then have d1: "ob_ok d1" "db_outbox d1 (cf_outboxTable cfg) = Some rs" using assms by (auto simp: db_clock_def)
  let ?f = "sql_update (\<lambda>r. ob_id r = i) (\<lambda>r. r\<lparr>ob_status := ObDone, ob_completed_at := Some now\<rparr>)"
  have "ob_stat (?f rs) = map (\<lambda>(j, x). (j, if j = i then ObDone else x)) (ob_stat rs)"
    by (rule ob_stat_update) simp_all
  with db_exec_ok[of d1 "cf_outboxTable cfg" rs ?f] d1 c show ?thesis by (auto simp: ob_Complete_def ob_wrap_def)
qed

lemma rl_rows_ok:
  assumes "ob_ok (rw_store w)" "db_outbox (rw_store w) (cf_outboxTable cfg) = Some rs"
    "re_ctx E = (\<lambda>_. None)" "re_send E = (\<lambda>_. None)"
  shows "\<exists>w' rs'. rl_rows (ob_NewStore cfg locked) un C E rows n w = (n + int (length rows), None, w') \<and>
    rw_pub w' = rw_pub w @ map (\<lambda>r. (row_Topic r, rl_messageFromRow un r)) rows \<and>
    db_outbox (rw_store w') (cf_outboxTable cfg) = Some rs' \<and>
    ob_stat rs' = map (\<lambda>(j, x). (j, if j \<in> row_ID ` set rows then ObDone else x)) (ob_stat rs)"
  using assms
proof (induction rows arbitrary: n w rs)
  case (Cons row rows)
  obtain d1 rs1 where d1: "ob_Complete cfg (row_ID row) (rw_store w) = (None, d1)" "ob_ok d1"
    "db_outbox d1 (cf_outboxTable cfg) = Some rs1"
    "ob_stat rs1 = map (\<lambda>(j, x). (j, if j = row_ID row then ObDone else x)) (ob_stat rs)"
    using ob_Complete_ok[OF Cons.prems(1,2)] by blast
  let ?w = "(rw_next (rw_next w))\<lparr>rw_pub := rw_pub w @ [(row_Topic row, rl_messageFromRow un row)], rw_store := d1\<rparr>"
  show ?case
    using Cons.IH[of ?w rs1 "n + 1"] Cons.prems d1
    by (auto simp: ob_NewStore_def rw_next_def Let_def split_beta comp_def)
qed (auto simp: split_beta)


lemma rl_demo_ok: "ob_ok rl_demo_db"
  by (simp add: rl_demo_db_def rl_demo_cfg_def ob_newConfig_def ob_EnsureSchema_def ob_Enqueue_def db_try_def db_clock_def)

lemma rl_demo_table: "\<exists>rs. db_outbox rl_demo_db (cf_outboxTable rl_demo_cfg) = Some rs"
  by (simp add: rl_demo_db_def rl_demo_cfg_def ob_newConfig_def ob_EnsureSchema_def ob_Enqueue_def db_try_def db_clock_def)


section \<open>Several relays\<close>

lemma ob_select_in: "r \<in> set (ob_select cfg locked now n rs) \<Longrightarrow>
    r \<in> set rs \<and> ob_visible now r \<and> (cf_skipLocked cfg \<longrightarrow> ob_id r \<notin> set locked)"
  by (auto simp: ob_select_def dest: in_set_takeD)

text \<open>
  Concurrent claims. A second relay that claims while the transaction of a first one is open
  sees the same table with the rows the first one selected locked. With \<open>SKIP LOCKED\<close> the two
  relays get disjoint rows; with \<open>WithSkipLocked(false)\<close>, and the same clock reading and limit, both get the
  very same rows, so every one of them is published twice.
\<close>

theorem ob_concurrent_claims:
  assumes "ob_ok d" "ob_ok d'" "db_outbox d (cf_outboxTable cfg) = Some rs" "db_outbox d' (cf_outboxTable cfg) = Some rs"
    "fst (ob_Claim cfg [] n d) = Inr xs" "fst (ob_Claim cfg (map row_ID xs) n d') = Inr ys"
  shows "(cf_skipLocked cfg \<longrightarrow> row_ID ` set xs \<inter> row_ID ` set ys = {}) \<and>
    (\<not> cf_skipLocked cfg \<and> cf_now cfg (Suc (db_tick d)) = cf_now cfg (Suc (db_tick d')) \<longrightarrow> ys = xs)"
proof -
  have xs: "xs = map ob_row (ob_select cfg [] (cf_now cfg (Suc (db_tick d))) n rs)"
    using ob_Claim_ok[OF assms(1,3), of "[]" n] assms(5) by auto
  have ys: "ys = map ob_row (ob_select cfg (map row_ID xs) (cf_now cfg (Suc (db_tick d'))) n rs)"
    using ob_Claim_ok[OF assms(2,4), of "map row_ID xs" n] assms(6) by auto
  have "row_ID ` set xs \<inter> row_ID ` set ys = {}" if sk: "cf_skipLocked cfg"
  proof -
    have "row_ID (ob_row r) \<notin> row_ID ` set xs" if "r \<in> set (ob_select cfg (map row_ID xs) now n rs)" for r now
      using ob_select_in[OF that] sk by (simp add: ob_row_def)
    then show ?thesis unfolding ys by (fastforce simp: image_iff)
  qed
  moreover have "ys = xs" if "\<not> cf_skipLocked cfg" "cf_now cfg (Suc (db_tick d)) = cf_now cfg (Suc (db_tick d'))"
    using that xs ys by (simp add: ob_select_def)
  ultimately show ?thesis by blast
qed

theorem ob_concurrent_claims_witness:
  "\<exists>xs ys. fst (ob_Claim rl_demo_cfg [] 10 rl_demo_db) = Inr xs \<and> fst (ob_Claim rl_demo_cfg (map row_ID xs) 10 rl_demo_db) = Inr ys \<and>
     xs \<noteq> [] \<and> row_ID ` set xs \<inter> row_ID ` set ys = {}"
proof -
  obtain rs where rs: "db_outbox rl_demo_db (cf_outboxTable rl_demo_cfg) = Some rs"
    using rl_demo_table by blast
  obtain xs where xs: "fst (ob_Claim rl_demo_cfg [] 10 rl_demo_db) = Inr xs"
    using ob_Claim_ok[OF rl_demo_ok rs, of "[]" 10] by auto
  obtain ys where ys: "fst (ob_Claim rl_demo_cfg (map row_ID xs) 10 rl_demo_db) = Inr ys"
    using ob_Claim_ok[OF rl_demo_ok rs, of "map row_ID xs" 10] by auto
  have "case fst (ob_Claim rl_demo_cfg [] 10 rl_demo_db) of Inl _ \<Rightarrow> False | Inr xs \<Rightarrow> xs \<noteq> []" by code_simp
  moreover have "cf_skipLocked rl_demo_cfg" by code_simp
  ultimately show ?thesis
    using ob_concurrent_claims[OF rl_demo_ok rl_demo_ok rs rs xs ys] xs ys by auto
qed

text \<open>
  A late failure report brings a delivered event back. \<open>Fail\<close> does not look at the state of
  the row. When a relay whose lease has expired reports a failure for a row that another relay has
  delivered and marked as done in the meantime, the row becomes pending again and is published
  once more, although \<open>done\<close> is meant to be final.
\<close>

theorem ob_Fail_resurrects:
  assumes "db_fault d (db_tick d) = None" "db_outbox d (cf_outboxTable cfg) = Some rs" "r \<in> set rs" "ob_status r = ObDone" "t \<le> now"
  shows "ob_id r \<in> ob_live (cf_outboxTable cfg) (snd (ob_Fail cfg (ob_id r) e t False d)) \<and>
    (\<exists>rs' r'. db_outbox (snd (ob_Fail cfg (ob_id r) e t False d)) (cf_outboxTable cfg) = Some rs' \<and> r' \<in> set rs' \<and>
      ob_id r' = ob_id r \<and> ob_visible now r')"
proof -
  let ?g = "\<lambda>r. r\<lparr>ob_status := ObPending, ob_last_error := Some e, ob_next_visible_at := Some t, ob_claimed_at := None\<rparr>"
  let ?f = "sql_update (\<lambda>x. ob_id x = ob_id r) ?g"
  obtain d' where d': "db_exec (cf_outboxTable cfg) ?f d = (None, d')" "db_outbox d' (cf_outboxTable cfg) = Some (?f rs)"
    using db_exec_ok[OF assms(1,2), of ?f] by blast
  have F: "snd (ob_Fail cfg (ob_id r) e t False d) = d'" using d'(1) by (simp add: ob_Fail_def)
  have "?g r \<in> set (?f rs)" using assms(3) by (auto simp: sql_update_def image_iff intro!: bexI[of _ r])
  moreover have "ob_visible now (?g r)" using assms(5) by (simp add: ob_visible_def)
  ultimately show ?thesis unfolding F ob_live_def d'(2) by (auto intro!: image_eqI[of _ _ "?g r"] bexI[of _ "?g r"])
qed

text \<open>
  The run: relay 1 claims the event and stalls; relay 2 takes the expired claim over, publishes the event
  and completes it; relay 1 reports a failure; relay 2 publishes the event again.
\<close>

definition rl_late_config :: rl_config where
  "rl_late_config = rl_New (\<lambda>_. 1000) [Some (Rl_WithLease 1)]"

definition rl_late_delivered :: "(ob_db, unit, unit) rl_world" where
  "rl_late_delivered =
     snd (snd (rl_Once (ob_NewStore rl_demo_cfg []) (\<lambda>_. None) rl_late_config rl_demo_env
       (rl_demo_world (snd (ob_Claim rl_demo_cfg [] 10 rl_demo_db)))))"

definition rl_late_failed :: ob_db where
  "rl_late_failed = snd (ob_Fail rl_demo_cfg ''e1'' ''timeout'' 0 False (rw_store rl_late_delivered))"

definition rl_late_again :: "(ob_db, unit, unit) rl_world" where
  "rl_late_again =
     snd (snd (rl_Once (ob_NewStore rl_demo_cfg []) (\<lambda>_. None) rl_late_config rl_demo_env
       (rl_late_delivered\<lparr>rw_store := rl_late_failed\<rparr>)))"

theorem ob_Fail_resurrects_witness:
  "''e1'' \<notin> ob_live (cf_outboxTable rl_demo_cfg) (rw_store rl_late_delivered) \<and>
   ''e1'' \<in> ob_live (cf_outboxTable rl_demo_cfg) rl_late_failed \<and>
   map (msg_ID \<circ> snd) (rw_pub rl_late_again) = [''e1'', ''e1'']"
proof -
  let ?d = "rw_store rl_late_delivered" and ?t = "cf_outboxTable rl_demo_cfg"
  have "case db_outbox ?d ?t of None \<Rightarrow> False
      | Some rs \<Rightarrow> list_ex (\<lambda>r. ob_status r = ObDone \<and> ob_id r = ''e1'') rs" by code_simp
  then obtain rs r where rs: "db_outbox ?d ?t = Some rs" "r \<in> set rs" "ob_status r = ObDone" "ob_id r = ''e1''"
    by (auto simp: list_ex_iff split: option.splits)
  have ok: "db_fault ?d (db_tick ?d) = None" by code_simp
  have "''e1'' \<in> ob_live ?t rl_late_failed"
    using ob_Fail_resurrects[OF ok rs(1-3), of 0 0 "''timeout''"] rs(4) by (simp add: rl_late_failed_def)
  moreover have "''e1'' \<notin> ob_live ?t ?d" by code_simp
  moreover have "map (msg_ID \<circ> snd) (rw_pub rl_late_again) = [''e1'', ''e1'']" by code_simp
  ultimately show ?thesis by blast
qed

end
