(* ===== verification/Inbox.thy ===== *)
theory Inbox
  imports Relay
begin

text \<open>
  \<open>transaction/outbox/inbox.go\<close>, the consumer side: \<open>Inbox\<close> records an event and then runs the handler,
  \<open>Barrier\<close> runs the handler and the record in one transaction. The business state that a handler
  writes is a type variable; the handler of \<open>Barrier\<close> returns its new value or an error. A failed
  \<open>Commit\<close> may or may not have been applied, as \<open>iw_applied\<close> decides. Two transactions that insert the same
  key conflict on the primary key, so one of them fails as a statement does; a delivery is one step.
\<close>

section \<open>The record of processed events\<close>

text \<open>A nil event has no message; its message may be nil too.\<close>

type_synonym ('t, 'o) br_event = "(string \<times> ('t, 'o) br_message option) option"

definition in_eventID :: "('t, 'o) br_message option \<Rightarrow> string" where
  "in_eventID msg =
     (case msg of None \<Rightarrow> []
      | Some m \<Rightarrow> if msg_ID m \<noteq> [] then msg_ID m
                  else (case msg_Headers m of None \<Rightarrow> [] | Some h \<Rightarrow> map_str h HeaderEventID))"

definition in_EventID :: "('t, 'o) br_event \<Rightarrow> string" where
  "in_EventID evt = (case evt of None \<Rightarrow> [] | Some (topic, msg) \<Rightarrow> in_eventID msg)"

definition in_msgHeaders :: "('t, 'o) br_message option \<Rightarrow> br_headers option" where
  "in_msgHeaders msg = (case msg of None \<Rightarrow> None | Some m \<Rightarrow> msg_Headers m)"

text \<open>
  The insert, then \<open>RowsAffected\<close>, which may fail after the insert was made.
\<close>

definition in_key :: "(string \<times> string \<times> go_time) list \<Rightarrow> string \<Rightarrow> string \<Rightarrow> bool" where
  "in_key rows name i \<longleftrightarrow> list_ex (\<lambda>(n, j, _). n = name \<and> j = i) rows"

definition in_insertInboxRow :: "ob_config \<Rightarrow> string \<Rightarrow> string \<Rightarrow> ob_db \<Rightarrow> (ob_error + bool) \<times> ob_db" where
  "in_insertInboxRow cfg name i d =
     (let err = ObError (''outbox: record inbox '' @ name @ ''/'' @ i);
          (now, d) = db_clock cfg d
      in case db_try d of
           (Some e, d) \<Rightarrow> (Inl (err e), d)
         | (None, d) \<Rightarrow>
             (case db_inbox d (cf_inboxTable cfg) of
                None \<Rightarrow> (Inl (err ''no such table''), d)
              | Some rows \<Rightarrow>
                  (let isnew = \<not> in_key rows name i;
                       d = (if isnew then d\<lparr>db_inbox := (db_inbox d)(cf_inboxTable cfg \<mapsto> rows @ [(name, i, now)])\<rparr> else d)
                   in case db_try d of
                        (Some e, d) \<Rightarrow> (Inl (err e), d)
                      | (None, d) \<Rightarrow> (Inr isnew, d))))"

text \<open>\<open>unmarshal\<close> and \<open>marshal\<close> are \<open>encoding/json\<close>.\<close>

definition in_decodePayload ::
  "(string \<Rightarrow> string + 't) \<Rightarrow> ('o \<Rightarrow> string + string) \<Rightarrow> ('t, 'o) br_event \<Rightarrow> ob_error + 't" where
  "in_decodePayload unmarshal marshal evt =
     (case evt of
        Some (topic, Some m) \<Rightarrow>
          (let dec = (\<lambda>b. map_sum (ObError ''outbox: decode event body'') id (unmarshal b))
           in case msg_Body m of
                AnyNil \<Rightarrow> Inl (ObError ''outbox: event body is nil'' [])
              | AnyPtr v \<Rightarrow> Inr v
              | AnyVal v \<Rightarrow> Inr v
              | AnyBytes b \<Rightarrow> dec b
              | AnyString b \<Rightarrow> dec b
              | AnyOther x \<Rightarrow> (case marshal x of Inl e \<Rightarrow> Inl (ObError ''outbox: re-encode event body'' e) | Inr raw \<Rightarrow> dec raw))
      | _ \<Rightarrow> Inl (ObError ''outbox: event or message is nil'' []))"

section \<open>Inbox and Barrier\<close>

record 'b in_world =
  iw_db :: ob_db
  iw_biz :: 'b
  iw_applied :: "nat \<Rightarrow> bool"

definition in_Inbox ::
  "ob_config \<Rightarrow> (string \<Rightarrow> string + 't) \<Rightarrow> ('o \<Rightarrow> string + string) \<Rightarrow> string \<Rightarrow>
   (string \<Rightarrow> br_headers option \<Rightarrow> 't \<Rightarrow> 'b \<Rightarrow> string option \<times> 'b) \<Rightarrow>
   ('t, 'o) br_event \<Rightarrow> 'b in_world \<Rightarrow> ob_error option \<times> 'b in_world" where
  "in_Inbox cfg unmarshal marshal name h evt w =
     (case in_decodePayload unmarshal marshal evt of
        Inl e \<Rightarrow> (Some e, w)
      | Inr payload \<Rightarrow>
          (let (topic, msg) = the evt
           in case in_insertInboxRow cfg name (in_eventID msg) (iw_db w) of
                (Inl e, d) \<Rightarrow> (Some e, w\<lparr>iw_db := d\<rparr>)
              | (Inr False, d) \<Rightarrow> (None, w\<lparr>iw_db := d\<rparr>)
              | (Inr True, d) \<Rightarrow>
                  (let (err, b) = h topic (in_msgHeaders msg) payload (iw_biz w)
                   in (map_option (ObError []) err, w\<lparr>iw_db := d, iw_biz := b\<rparr>))))"

text \<open>A nil event makes \<open>Barrier\<close> panic, after the transaction has begun: \<open>None\<close>.\<close>

definition in_Barrier ::
  "ob_config \<Rightarrow> (string \<Rightarrow> string + 't) \<Rightarrow> ('o \<Rightarrow> string + string) \<Rightarrow> string \<Rightarrow> ('t \<Rightarrow> 'b \<Rightarrow> string + 'b) \<Rightarrow>
   ('t, 'o) br_event \<Rightarrow> 'b in_world \<Rightarrow> ob_error option option \<times> 'b in_world" where
  "in_Barrier cfg unmarshal marshal name h evt w =
     (let d0 = iw_db w; back = (\<lambda>res d. (res, w\<lparr>iw_db := snd (ob_rollback d0 ((), d))\<rparr>))
      in case db_try d0 of
           (Some e, d) \<Rightarrow> (Some (Some (ObError ''outbox: begin barrier'' e)), w\<lparr>iw_db := d\<rparr>)
         | (None, d) \<Rightarrow>
             (case evt of
                None \<Rightarrow> back None d
              | Some (topic, msg) \<Rightarrow>
                  (case in_insertInboxRow cfg name (in_eventID msg) d of
                     (Inl e, d) \<Rightarrow> back (Some (Some e)) d
                   | (Inr False, d) \<Rightarrow> back (Some None) d
                   | (Inr True, d) \<Rightarrow>
                       (case in_decodePayload unmarshal marshal evt of
                          Inl e \<Rightarrow> back (Some (Some e)) d
                        | Inr payload \<Rightarrow>
                            (case h payload (iw_biz w) of
                               Inl e \<Rightarrow> back (Some (Some (ObError [] e))) d
                             | Inr b \<Rightarrow>
                                 (case db_try d of
                                    (None, d) \<Rightarrow> (Some None, w\<lparr>iw_db := d, iw_biz := b\<rparr>)
                                  | (Some e, d) \<Rightarrow>
                                      (if iw_applied w (db_tick d)
                                       then (Some (Some (ObError ''outbox: commit barrier'' e)), w\<lparr>iw_db := d, iw_biz := b\<rparr>)
                                       else back (Some (Some (ObError ''outbox: commit barrier'' e))) d)))))))"

text \<open>The deliveries of a subscription, redeliveries included, one after the other.\<close>

fun in_deliver :: "('e \<Rightarrow> 'w \<Rightarrow> 'r \<times> 'w) \<Rightarrow> 'e list \<Rightarrow> 'w \<Rightarrow> 'r list \<times> 'w" where
  "in_deliver h [] w = ([], w)"
| "in_deliver h (e # es) w = (let (r, w) = h e w; (rs, w) = in_deliver h es w in (r # rs, w))"

section \<open>Lemmas\<close>

text \<open>The IDs that a subscription has recorded.\<close>

definition in_ids :: "ob_config \<Rightarrow> string \<Rightarrow> ob_db \<Rightarrow> string set" where
  "in_ids cfg name d = (case db_inbox d (cf_inboxTable cfg) of None \<Rightarrow> {} | Some rows \<Rightarrow> {i. in_key rows name i})"

lemma in_key_append: "in_key (rows @ [(name, i, t)]) name j \<longleftrightarrow> in_key rows name j \<or> j = i"
  by (auto simp: in_key_def)

lemma in_ids_tick [simp]: "in_ids cfg name (d\<lparr>db_tick := n\<rparr>) = in_ids cfg name d"
  by (simp add: in_ids_def)

lemma in_insert_cases:
  assumes "in_insertInboxRow cfg name i d = (r, d')"
  shows "r = Inr True \<Longrightarrow> i \<notin> in_ids cfg name d \<and> in_ids cfg name d' = insert i (in_ids cfg name d)"
    "r = Inr False \<Longrightarrow> i \<in> in_ids cfg name d \<and> in_ids cfg name d' = in_ids cfg name d"
    "in_ids cfg name d \<subseteq> in_ids cfg name d' \<and> in_ids cfg name d' \<subseteq> insert i (in_ids cfg name d)"
  using assms
  by (auto simp: in_insertInboxRow_def db_clock_def db_try_def in_ids_def Let_def in_key_append
      split: option.splits if_splits)

lemma in_ids_rollback [simp]: "in_ids cfg name (snd (ob_rollback d0 ((), d))) = in_ids cfg name d0"
  by (simp add: ob_rollback_def in_ids_def)

text \<open>The effect of one committed event.\<close>

definition in_effect :: "('t \<Rightarrow> 'b \<Rightarrow> string + 'b) \<Rightarrow> string \<times> 't \<Rightarrow> 'b \<Rightarrow> 'b option" where
  "in_effect h ip b = (case h (snd ip) b of Inl _ \<Rightarrow> None | Inr b' \<Rightarrow> Some b')"

text \<open>
  One delivery: nothing has changed, and success is reported only for an event that is recorded; or
  the event was not recorded, and its effect and its record have both been made.
\<close>

lemma in_Barrier_step:
  assumes "in_Barrier cfg un ma name h evt w = (r, w')"
  obtains (same) "iw_biz w' = iw_biz w" "in_ids cfg name (iw_db w') = in_ids cfg name (iw_db w)"
      "r = Some None \<Longrightarrow> in_EventID evt \<in> in_ids cfg name (iw_db w)"
  | (commit) p where "in_decodePayload un ma evt = Inr p" "in_EventID evt \<notin> in_ids cfg name (iw_db w)"
      "in_effect h (in_EventID evt, p) (iw_biz w) = Some (iw_biz w')"
      "in_ids cfg name (iw_db w') = insert (in_EventID evt) (in_ids cfg name (iw_db w))"
proof -
  obtain e1 d1 where 1: "db_try (iw_db w) = (e1, d1)" by fastforce
  then have i1: "in_ids cfg name d1 = in_ids cfg name (iw_db w)" by (auto simp: db_try_def)
  consider (err) e where "e1 = Some e" | (nil) "e1 = None" "evt = None" | (ev) topic msg where "e1 = None" "evt = Some (topic, msg)"
    by (cases e1; cases evt) auto
  then show ?thesis
  proof cases
    case err
    then have "w' = w\<lparr>iw_db := d1\<rparr>" "r \<noteq> Some None" using assms 1 by (auto simp: in_Barrier_def Let_def)
    then show ?thesis using i1 by (intro same) simp_all
  next
    case nil
    then have "r = None" "w' = w\<lparr>iw_db := snd (ob_rollback (iw_db w) ((), d1))\<rparr>"
      using assms 1 by (simp_all add: in_Barrier_def Let_def)
    then show ?thesis by (intro same) simp_all
  next
    case evt: ev
    then have id: "in_EventID evt = in_eventID msg" by (simp add: in_EventID_def)
    obtain ri d2 where 2: "in_insertInboxRow cfg name (in_eventID msg) d1 = (ri, d2)" by fastforce
    note ins = in_insert_cases[OF 2]
    have rolled: ?thesis if "w' = w\<lparr>iw_db := snd (ob_rollback (iw_db w) ((), d))\<rparr>" "r = Some None \<Longrightarrow> ri = Inr False" for d
      using that ins(2) i1 id by (intro same) auto
    have B: "in_Barrier cfg un ma name h evt w =
        (let back = (\<lambda>res d. (res, w\<lparr>iw_db := snd (ob_rollback (iw_db w) ((), d))\<rparr>))
         in case ri of Inl e \<Rightarrow> back (Some (Some e)) d2
            | Inr False \<Rightarrow> back (Some None) d2
            | Inr True \<Rightarrow>
                (case in_decodePayload un ma evt of Inl e \<Rightarrow> back (Some (Some e)) d2
                 | Inr payload \<Rightarrow>
                     (case h payload (iw_biz w) of
                        Inl e \<Rightarrow> back (Some (Some (ObError [] e))) d2
                      | Inr b \<Rightarrow>
                          (case db_try d2 of
                             (None, d) \<Rightarrow> (Some None, w\<lparr>iw_db := d, iw_biz := b\<rparr>)
                           | (Some e, d) \<Rightarrow>
                               (if iw_applied w (db_tick d)
                                then (Some (Some (ObError ''outbox: commit barrier'' e)), w\<lparr>iw_db := d, iw_biz := b\<rparr>)
                                else back (Some (Some (ObError ''outbox: commit barrier'' e))) d)))))"
      using 1 2 evt unfolding in_Barrier_def Let_def by simp
    show ?thesis
    proof (cases "\<exists>p b. ri = Inr True \<and> in_decodePayload un ma evt = Inr p \<and> h p (iw_biz w) = Inr b")
      case True
      then obtain p b where ok: "ri = Inr True" "in_decodePayload un ma evt = Inr p" "h p (iw_biz w) = Inr b" by blast
      obtain e3 d3 where 3: "db_try d2 = (e3, d3)" by fastforce
      show ?thesis
      proof (cases "e3 = None \<or> iw_applied w (db_tick d3)")
        case True
        then have "w' = w\<lparr>iw_db := d3, iw_biz := b\<rparr>"
          using assms[unfolded B] ok 3 by (auto split: option.splits)
        moreover have "in_ids cfg name d3 = in_ids cfg name d2" using 3 by (auto simp: db_try_def)
        ultimately show ?thesis using ok ins(1) i1 id by (intro commit[of p]) (simp_all add: in_effect_def)
      next
        case False
        then show ?thesis using assms[unfolded B] ok 3 by (intro rolled[of d3]) auto
      qed
    next
      case False
      then show ?thesis using assms[unfolded B] by (intro rolled[of d2]) (auto split: sum.splits bool.splits)
    qed
  qed
qed

lemma in_Barrier_run:
  assumes "in_deliver (in_Barrier cfg un ma name h) evs w = (rs, w')"
  shows "\<exists>es. fold_opt (in_effect h) es (iw_biz w) = Some (iw_biz w') \<and> distinct (map fst es) \<and>
    fst ` set es \<inter> in_ids cfg name (iw_db w) = {} \<and>
    in_ids cfg name (iw_db w') = in_ids cfg name (iw_db w) \<union> fst ` set es \<and>
    (\<forall>(i, p) \<in> set es. \<exists>evt \<in> set evs. in_EventID evt = i \<and> in_decodePayload un ma evt = Inr p) \<and>
    (\<forall>(evt, r) \<in> set (zip evs rs). r = Some None \<longrightarrow> in_EventID evt \<in> in_ids cfg name (iw_db w'))"
  using assms
proof (induction evs arbitrary: w rs)
  case (Cons evt evs)
  obtain r w1 where 1: "in_Barrier cfg un ma name h evt w = (r, w1)" by fastforce
  obtain rs1 where 2: "in_deliver (in_Barrier cfg un ma name h) evs w1 = (rs1, w')" "rs = r # rs1"
    using Cons.prems 1 by (auto split: prod.splits)
  from Cons.IH[OF 2(1)] obtain es where
    es: "fold_opt (in_effect h) es (iw_biz w1) = Some (iw_biz w')" "distinct (map fst es)"
    "fst ` set es \<inter> in_ids cfg name (iw_db w1) = {}"
    "in_ids cfg name (iw_db w') = in_ids cfg name (iw_db w1) \<union> fst ` set es"
    "\<forall>(i, p) \<in> set es. \<exists>evt \<in> set evs. in_EventID evt = i \<and> in_decodePayload un ma evt = Inr p"
    "\<forall>(evt, r) \<in> set (zip evs rs1). r = Some None \<longrightarrow> in_EventID evt \<in> in_ids cfg name (iw_db w')"
    by blast
  from 1 show ?case
  proof (cases rule: in_Barrier_step)
    case same
    then show ?thesis using es 2(2) by (intro exI[of _ es]) auto
  next
    case (commit p)
    then show ?thesis using es 2(2) by (intro exI[of _ "(in_EventID evt, p) # es"]) auto
  qed
qed (auto intro!: exI[of _ "[]"])


definition in_demo_event :: "string \<Rightarrow> nat \<Rightarrow> (nat, unit) br_event" where
  "in_demo_event i v = Some (''Paid'', Some (msg_New (AnyVal v) [Some (Msg_WithID i)]))"

definition in_demo_world :: "nat in_world" where
  "in_demo_world = \<lparr>iw_db = snd (ob_EnsureSchema rl_demo_cfg
       \<lparr>db_outbox = Map.empty, db_inbox = Map.empty, db_fault = (\<lambda>n. if n = 11 then Some ''lost connection'' else None), db_tick = 0\<rparr>),
     iw_biz = 0, iw_applied = (\<lambda>_. True)\<rparr>"


section \<open>Inbox\<close>

lemma in_decode_Some: "in_decodePayload un ma evt = Inr p \<Longrightarrow> \<exists>topic msg. evt = Some (topic, msg)"
  by (cases evt) (auto simp: in_decodePayload_def)

lemma in_Inbox_step:
  assumes "in_Inbox cfg un ma name h evt w = (r, w')"
  obtains (same) "iw_biz w' = iw_biz w" "in_ids cfg name (iw_db w) \<subseteq> in_ids cfg name (iw_db w')"
  | (call) topic msg p where "evt = Some (topic, msg)" "in_EventID evt \<notin> in_ids cfg name (iw_db w)"
      "in_ids cfg name (iw_db w') = insert (in_EventID evt) (in_ids cfg name (iw_db w))"
      "iw_biz w' = snd (h topic (in_msgHeaders msg) p (iw_biz w))"
proof (cases "in_decodePayload un ma evt")
  case (Inl e)
  then show ?thesis using assms by (intro same) (auto simp: in_Inbox_def)
next
  case (Inr p)
  from in_decode_Some[OF Inr] obtain topic msg where evt: "evt = Some (topic, msg)" by (elim exE)
  then have id: "in_EventID evt = in_eventID msg" by (simp add: in_EventID_def)
  obtain ri d where i: "in_insertInboxRow cfg name (in_eventID msg) (iw_db w) = (ri, d)" by fastforce
  note ins = in_insert_cases[OF i]
  show ?thesis
  proof (cases "ri = Inr True")
    case True
    obtain e b where h: "h topic (in_msgHeaders msg) p (iw_biz w) = (e, b)" by fastforce
    have "w' = w\<lparr>iw_db := d, iw_biz := b\<rparr>" using assms Inr evt i True h by (simp add: in_Inbox_def)
    then show ?thesis using evt ins(1) id True h by (intro call[of topic msg p]) simp_all
  next
    case False
    then have "w' = w\<lparr>iw_db := d\<rparr>" using assms Inr evt i
      by (cases ri) (auto simp: in_Inbox_def split: bool.splits)
    then show ?thesis using ins(3) by (intro same) simp_all
  qed
qed

text \<open>
  At most once. In any sequence of deliveries to an \<open>Inbox\<close> handler, with failures anywhere, the
  handler runs for a list of events with distinct IDs that were not recorded before; all of them are
  recorded afterwards, whether the handler failed or not. Events without an ID share the empty
  one, so the handler runs for at most one of them.
\<close>

theorem in_Inbox_at_most_once:
  assumes "in_deliver (in_Inbox cfg un ma name h) evs w = (rs, w')"
  shows "\<exists>es. iw_biz w' = fold (\<lambda>(i, topic, hs, p) b. snd (h topic hs p b)) es (iw_biz w) \<and> distinct (map fst es) \<and>
    fst ` set es \<inter> in_ids cfg name (iw_db w) = {} \<and>
    in_ids cfg name (iw_db w) \<union> fst ` set es \<subseteq> in_ids cfg name (iw_db w')"
  using assms
proof (induction evs arbitrary: w rs)
  case (Cons evt evs)
  obtain r w1 where 1: "in_Inbox cfg un ma name h evt w = (r, w1)" by fastforce
  obtain rs1 where 2: "in_deliver (in_Inbox cfg un ma name h) evs w1 = (rs1, w')"
    using Cons.prems 1 by (auto split: prod.splits)
  from Cons.IH[OF 2] obtain es where
    es: "iw_biz w' = fold (\<lambda>(i, topic, hs, p) b. snd (h topic hs p b)) es (iw_biz w1)" "distinct (map fst es)"
    "fst ` set es \<inter> in_ids cfg name (iw_db w1) = {}"
    "in_ids cfg name (iw_db w1) \<union> fst ` set es \<subseteq> in_ids cfg name (iw_db w')" by blast
  from 1 show ?case
  proof (cases rule: in_Inbox_step)
    case same
    then show ?thesis using es by (intro exI[of _ es]) auto
  next
    case (call topic msg p)
    then show ?thesis using es by (intro exI[of _ "(in_EventID evt, topic, in_msgHeaders msg, p) # es"]) auto
  qed
qed (auto intro!: exI[of _ "[]"])

theorem in_Inbox_at_most_once_witness:
  "\<exists>rs w'. in_deliver (in_Inbox rl_demo_cfg (\<lambda>_. Inl []) (\<lambda>_. Inl []) ''sms'' (\<lambda>_ _ v b. (None, b + v)))
     [in_demo_event [] 5, in_demo_event [] 7] in_demo_world = (rs, w') \<and> iw_biz w' = 5 \<and>
   (\<exists>es :: (string \<times> string \<times> br_headers option \<times> nat) list.
      iw_biz w' = fold (\<lambda>(i, topic, hs, p) b. snd ((\<lambda>_ _ v b. (None :: string option, b + v)) topic hs p b)) es 0 \<and> distinct (map fst es))"
proof -
  let ?R = "in_deliver (in_Inbox rl_demo_cfg (\<lambda>_. Inl []) (\<lambda>_. Inl []) ''sms'' (\<lambda>_ _ v b. (None, b + v)))
     [in_demo_event [] 5, in_demo_event [] 7] in_demo_world"
  obtain rs w' where R: "?R = (rs, w')" by fastforce
  have "iw_biz (snd ?R) = 5" by code_simp
  then have b: "iw_biz w' = 5" using R by simp
  have "iw_biz in_demo_world = 0" by (simp add: in_demo_world_def)
  with in_Inbox_at_most_once[OF R] R b show ?thesis by auto
qed

end
