(* ===== verification/Cache_Local.thy ===== *)
theory Cache_Local
  imports Go_Prelude
begin

text \<open>
  \<open>cache/local\<close>: the in-memory cache. The library \<open>freecache\<close> behind it is a parameter, the record
  \<open>freecache\<close> of its operations on a state; expiry in whole seconds, where zero means no expiry, is
  its documented behaviour. \<open>oor\<close> is the value of an out-of-range conversion from float64. The
  lemmas show what happens to times to live below one second, and that \<open>SetNX\<close> is not atomic.
\<close>

section \<open>The cache\<close>

datatype fc_error = FcNotFound | FcError string

record 's freecache =
  fc_Get :: "string \<Rightarrow> 's \<Rightarrow> (fc_error + string) \<times> 's"
  fc_Set :: "string \<Rightarrow> string \<Rightarrow> int \<Rightarrow> 's \<Rightarrow> fc_error option \<times> 's"
  fc_Del :: "string \<Rightarrow> 's \<Rightarrow> bool \<times> 's"
  fc_Clear :: "'s \<Rightarrow> 's"

datatype ca_error = CaNotFound | CaError fc_error

record lc_config =
  lc_size :: int
  lc_defaultTTL :: duration

datatype lc_opt = Lc_WithSize int | Lc_WithDefaultTTL duration

fun lc_apply :: "lc_opt \<Rightarrow> lc_config \<Rightarrow> lc_config" where
  "lc_apply (Lc_WithSize n) c = (if n > 0 then c\<lparr>lc_size := n\<rparr> else c)"
| "lc_apply (Lc_WithDefaultTTL ttl) c = c\<lparr>lc_defaultTTL := ttl\<rparr>"

text \<open>\<open>New\<close>; \<open>mk\<close> is \<open>freecache.NewCache\<close>.\<close>

definition lc_New :: "(int \<Rightarrow> 's) \<Rightarrow> lc_opt list \<Rightarrow> lc_config \<times> 's" where
  "lc_New mk opts =
     (let cfg = fold lc_apply opts \<lparr>lc_size = 256 * 1024 * 1024, lc_defaultTTL = 0\<rparr> in (cfg, mk (lc_size cfg)))"

text \<open>The default for a time to live that is not positive, then \<open>int(ttl.Seconds())\<close>.\<close>

definition lc_expire :: "(float64 \<Rightarrow> int) \<Rightarrow> lc_config \<Rightarrow> duration \<Rightarrow> int" where
  "lc_expire oor cfg ttl =
     (let ttl = (if ttl \<le> 0 then lc_defaultTTL cfg else ttl) in f2i oor (dur_Seconds ttl))"

definition lc_Get :: "'s freecache \<Rightarrow> string \<Rightarrow> 's \<Rightarrow> (ca_error + string) \<times> 's" where
  "lc_Get FC key s =
     (let (r, s) = fc_Get FC key s
      in (case r of Inl FcNotFound \<Rightarrow> Inl CaNotFound | Inl e \<Rightarrow> Inl (CaError e) | Inr v \<Rightarrow> Inr v, s))"

definition lc_Set ::
  "'s freecache \<Rightarrow> (float64 \<Rightarrow> int) \<Rightarrow> lc_config \<Rightarrow> string \<Rightarrow> string \<Rightarrow> duration \<Rightarrow> 's \<Rightarrow> fc_error option \<times> 's" where
  "lc_Set FC oor cfg key val ttl s = fc_Set FC key val (lc_expire oor cfg ttl) s"

text \<open>
  \<open>SetNX\<close> makes two calls of the library, each of them atomic, and other goroutines may run between
  them: the check decides whether the call is finished, the store finishes it.
\<close>

definition lc_SetNX_check :: "'s freecache \<Rightarrow> string \<Rightarrow> 's \<Rightarrow> (bool \<times> fc_error option) option \<times> 's" where
  "lc_SetNX_check FC key s =
     (let (r, s) = fc_Get FC key s
      in (case r of Inr _ \<Rightarrow> Some (False, None) | Inl FcNotFound \<Rightarrow> None | Inl e \<Rightarrow> Some (False, Some e), s))"

definition lc_SetNX_store ::
  "'s freecache \<Rightarrow> (float64 \<Rightarrow> int) \<Rightarrow> lc_config \<Rightarrow> string \<Rightarrow> string \<Rightarrow> duration \<Rightarrow> 's \<Rightarrow> (bool \<times> fc_error option) \<times> 's" where
  "lc_SetNX_store FC oor cfg key val ttl s =
     (let (e, s) = fc_Set FC key val (lc_expire oor cfg ttl) s
      in (case e of Some e \<Rightarrow> (False, Some e) | None \<Rightarrow> (True, None), s))"

definition lc_SetNX ::
  "'s freecache \<Rightarrow> (float64 \<Rightarrow> int) \<Rightarrow> lc_config \<Rightarrow> string \<Rightarrow> string \<Rightarrow> duration \<Rightarrow> 's \<Rightarrow> (bool \<times> fc_error option) \<times> 's" where
  "lc_SetNX FC oor cfg key val ttl s =
     (case lc_SetNX_check FC key s of
        (Some r, s) \<Rightarrow> (r, s)
      | (None, s) \<Rightarrow> lc_SetNX_store FC oor cfg key val ttl s)"

definition lc_Delete :: "'s freecache \<Rightarrow> string \<Rightarrow> 's \<Rightarrow> 's" where
  "lc_Delete FC key s = snd (fc_Del FC key s)"

definition lc_Has :: "'s freecache \<Rightarrow> string \<Rightarrow> 's \<Rightarrow> (bool \<times> fc_error option) \<times> 's" where
  "lc_Has FC key s =
     (let (r, s) = fc_Get FC key s
      in (case r of Inl FcNotFound \<Rightarrow> (False, None) | Inl e \<Rightarrow> (False, Some e) | Inr _ \<Rightarrow> (True, None), s))"

text \<open>A missing value is \<open>None\<close>; any other error ends the loop without a result.\<close>

fun lc_get_loop ::
  "'s freecache \<Rightarrow> string list \<Rightarrow> string option list \<Rightarrow> bool \<Rightarrow> 's \<Rightarrow> (string option list \<times> ca_error option) \<times> 's" where
  "lc_get_loop FC [] result hasMissing s = ((result, if hasMissing then Some CaNotFound else None), s)"
| "lc_get_loop FC (key # keys) result hasMissing s =
     (let (r, s) = fc_Get FC key s
      in case r of
           Inl FcNotFound \<Rightarrow> lc_get_loop FC keys (result @ [None]) True s
         | Inl e \<Rightarrow> (([], Some (CaError e)), s)
         | Inr v \<Rightarrow> lc_get_loop FC keys (result @ [Some v]) hasMissing s)"

definition lc_GetMulti :: "'s freecache \<Rightarrow> string list \<Rightarrow> 's \<Rightarrow> (string option list \<times> ca_error option) \<times> 's" where
  "lc_GetMulti FC keys s = lc_get_loop FC keys [] False s"

record ca_item =
  it_Key :: string
  it_Value :: string
  it_TTL :: duration

fun lc_SetMulti ::
  "'s freecache \<Rightarrow> (float64 \<Rightarrow> int) \<Rightarrow> lc_config \<Rightarrow> ca_item list \<Rightarrow> 's \<Rightarrow> fc_error option \<times> 's" where
  "lc_SetMulti FC oor cfg [] s = (None, s)"
| "lc_SetMulti FC oor cfg (x # xs) s =
     (case fc_Set FC (it_Key x) (it_Value x) (lc_expire oor cfg (it_TTL x)) s of
        (Some e, s) \<Rightarrow> (Some e, s)
      | (None, s) \<Rightarrow> lc_SetMulti FC oor cfg xs s)"

definition lc_Close :: "'s freecache \<Rightarrow> 's \<Rightarrow> 's" where
  "lc_Close FC s = fc_Clear FC s"

section \<open>Times to live\<close>

lemma f64_below_one: "f64 (of_int (2 ^ 30 - 1) * 2 powi (- 30)) = (of_int (2 ^ 30 - 1) * 2 powi (- 30) :: rat)"
  by (rule f64_dyadic) simp

lemma dur_Seconds_subsecond:
  assumes "0 < ttl" "ttl < Second"
  shows "0 \<le> dur_Seconds ttl" "dur_Seconds ttl < 1"
proof -
  let ?y = "of_int (2 ^ 30 - 1) * 2 powi (- 30) :: rat"
  have y: "?y < 1" "999999999 / 1000000000 \<le> ?y" by (simp_all add: power_int_minus)
  have q: "go_quot ttl Second = 0" "go_rem ttl Second = ttl" using assms by simp_all
  have t: "f64 (of_int ttl) = (of_int ttl :: rat)" using assms by (intro f64_of_int) simp
  have "of_int ttl \<le> (of_int 999999999 :: rat)" using assms by (subst of_int_le_iff) simp
  then have "of_int ttl / 1000000000 \<le> ?y" using y(2) by simp
  then have "f64 (of_int ttl / 1000000000) \<le> ?y" by (rule f64_le[OF _ f64_below_one])
  moreover have "0 \<le> f64 (of_int ttl / 1000000000)" using assms by (intro f64_nonneg) simp
  ultimately show "0 \<le> dur_Seconds ttl" "dur_Seconds ttl < 1"
    using y(1) by (simp_all add: dur_Seconds_def q t)
qed

lemma dur_Seconds_whole:
  assumes "0 \<le> n" "n \<le> 2 ^ 53"
  shows "dur_Seconds (n * Second) = of_int n"
proof -
  have "go_quot (n * Second) Second = n" "go_rem (n * Second) Second = 0" using assms by simp_all
  then show ?thesis using assms by (simp add: dur_Seconds_def f64_of_int)
qed

text \<open>
  C30: Times to live. A whole number of seconds is passed on exactly. A positive time to live below
  one second is passed on as zero, which for the library means that the entry never expires, although the
  documentation says that such durations are rounded up. The same holds for a default below one second.
\<close>

theorem lc_expire_values:
  "(0 < n \<and> n \<le> 2 ^ 53 \<longrightarrow> lc_expire oor cfg (n * Second) = n) \<and>
   (0 < ttl \<and> ttl < Second \<longrightarrow> lc_expire oor cfg ttl = 0) \<and>
   (ttl' \<le> 0 \<and> 0 < lc_defaultTTL cfg \<and> lc_defaultTTL cfg < Second \<longrightarrow> lc_expire oor cfg ttl' = 0)"
proof -
  have zero: "f2i oor (dur_Seconds t) = 0" if "0 < t" "t < Second" for t
  proof -
    have "rat_trunc (dur_Seconds t) = 0" using dur_Seconds_subsecond[OF that] by (simp add: rat_trunc_def floor_eq_iff)
    then show ?thesis by (simp add: f2i_def)
  qed
  have "f2i oor (dur_Seconds (n * Second)) = n" if "0 < n" "n \<le> 2 ^ 53"
    using that by (simp add: dur_Seconds_whole f2i_def)
  then show ?thesis using zero by (auto simp: lc_expire_def)
qed

theorem lc_expire_values_witness:
  "lc_expire (\<lambda>_. 0) \<lparr>lc_size = 1, lc_defaultTTL = 0\<rparr> (5 * Second) = 5 \<and>
   lc_expire (\<lambda>_. 0) \<lparr>lc_size = 1, lc_defaultTTL = 0\<rparr> 500000000 = 0"
  using lc_expire_values[of 5 "\<lambda>_. 0" "\<lparr>lc_size = 1, lc_defaultTTL = 0\<rparr>" 500000000 1] by simp

section \<open>SetNX\<close>

text \<open>
  \<open>SetNX\<close> is not atomic. Let the library behave as documented on one key: the key is absent, looking
  it up keeps it absent, storing succeeds and a stored value is found. One call after the other sets the key
  once. But when two goroutines call \<open>SetNX\<close> and both checks run before the first store, both
  calls report that they set the key, so both believe to hold the lock.
\<close>

theorem lc_SetNX_race:
  assumes "fst (fc_Get FC key s) = Inl FcNotFound" "fst (fc_Get FC key (snd (fc_Get FC key s))) = Inl FcNotFound"
    "\<And>v e s. fst (fc_Set FC key v e s) = None" "\<And>v e s. fst (fc_Get FC key (snd (fc_Set FC key v e s))) = Inr v"
  shows "(\<exists>s1 s2. lc_SetNX FC oor cfg key v1 ttl1 s = ((True, None), s1) \<and>
      lc_SetNX FC oor cfg key v2 ttl2 s1 = ((False, None), s2)) \<and>
    (\<exists>s1 s2 s3 s4. lc_SetNX_check FC key s = (None, s1) \<and> lc_SetNX_check FC key s1 = (None, s2) \<and>
      lc_SetNX_store FC oor cfg key v1 ttl1 s2 = ((True, None), s3) \<and>
      lc_SetNX_store FC oor cfg key v2 ttl2 s3 = ((True, None), s4))"
  using assms by (simp add: lc_SetNX_def lc_SetNX_check_def lc_SetNX_store_def split_beta)

text \<open>A library that never evicts: a map.\<close>

definition fc_map :: "(string \<rightharpoonup> string) freecache" where
  "fc_map =
     \<lparr>fc_Get = (\<lambda>k m. (case m k of None \<Rightarrow> Inl FcNotFound | Some v \<Rightarrow> Inr v, m)),
      fc_Set = (\<lambda>k v e m. (None, m(k \<mapsto> v))), fc_Del = (\<lambda>k m. (m k \<noteq> None, m(k := None))), fc_Clear = (\<lambda>m. Map.empty)\<rparr>"

theorem lc_SetNX_race_witness:
  "\<exists>s1 s2 s3 s4. lc_SetNX_check fc_map ''lock'' Map.empty = (None, s1) \<and> lc_SetNX_check fc_map ''lock'' s1 = (None, s2) \<and>
     lc_SetNX_store fc_map (\<lambda>_. 0) \<lparr>lc_size = 1, lc_defaultTTL = 0\<rparr> ''lock'' ''a'' Second s2 = ((True, None), s3) \<and>
     lc_SetNX_store fc_map (\<lambda>_. 0) \<lparr>lc_size = 1, lc_defaultTTL = 0\<rparr> ''lock'' ''b'' Second s3 = ((True, None), s4)"
  by (rule conjunct2[OF lc_SetNX_race]) (simp_all add: fc_map_def)

section \<open>Batches\<close>

text \<open>
  \<open>GetMulti\<close> on a library whose lookups do not change what is found: the values are aligned with
  the keys, and the error says exactly whether one is missing.
\<close>

lemma lc_get_loop_aligned:
  assumes "\<And>k s. fst (fc_Get FC k s) = look k" "\<And>k e. look k = Inl e \<Longrightarrow> e = FcNotFound"
  shows "fst (lc_get_loop FC keys res miss s) =
    (res @ map (\<lambda>k. case look k of Inl _ \<Rightarrow> None | Inr v \<Rightarrow> Some v) keys,
     if miss \<or> (\<exists>k \<in> set keys. \<exists>e. look k = Inl e) then Some CaNotFound else None)"
proof (induction keys arbitrary: res miss s)
  case (Cons key keys)
  obtain s' where g: "fc_Get FC key s = (look key, s')" using assms(1) by (metis prod.collapse)
  show ?case
  proof (cases "look key")
    case (Inl e)
    with assms(2) have "look key = Inl FcNotFound" by simp
    then show ?thesis using g Cons.IH by auto
  next
    case (Inr v)
    then show ?thesis using g Cons.IH by auto
  qed
qed simp

lemma lc_GetMulti_aligned:
  assumes "\<And>k s. fst (fc_Get FC k s) = look k" "\<And>k e. look k = Inl e \<Longrightarrow> e = FcNotFound"
  shows "fst (lc_GetMulti FC keys s) =
    (map (\<lambda>k. case look k of Inl _ \<Rightarrow> None | Inr v \<Rightarrow> Some v) keys,
     if \<exists>k \<in> set keys. \<exists>e. look k = Inl e then Some CaNotFound else None)"
  using lc_get_loop_aligned[of FC look keys "[]" False s, OF assms] by (simp add: lc_GetMulti_def)

end
