(* ===== verification/Health.thy ===== *)
theory Health
  imports Go_Prelude "HOL-Library.AList" "HOL-Library.Multiset"
begin

text \<open>
  \<open>health\<close>: the aggregation of health checks (\<open>health.go\<close>), the checkers (\<open>checkers.go\<close>) and the HTTP
  handlers (\<open>handler.go\<close>). What a dial or a request yields comes from the environment; the goroutines
  of one \<open>Check\<close> are the order in which their results arrive and the set of those that the timeout
  overtakes. The lemmas show that the verdict does not depend on that order and what it is.
\<close>

section \<open>Results\<close>

datatype hc_status = StatusUnknown | StatusUp | StatusDown

fun hc_String :: "hc_status \<Rightarrow> string" where
  "hc_String StatusUp = ''up''"
| "hc_String StatusDown = ''down''"
| "hc_String StatusUnknown = ''unknown''"

text \<open>A value of the details: a text, or any other value.\<close>

datatype 'v hc_val = HcText string | HcOther 'v

record 'v hc_result =
  hr_Status :: hc_status
  hr_Message :: string
  hr_Details :: "(string \<times> 'v hc_val) list"

definition hc_res :: "hc_status \<Rightarrow> string \<Rightarrow> 'v hc_result" where
  "hc_res s m = \<lparr>hr_Status = s, hr_Message = m, hr_Details = []\<rparr>"

section \<open>Checkers\<close>

text \<open>
  \<open>HcPing None\<close> is a nil function; otherwise it yields an error or not. A checker of the application
  yields its own result.
\<close>

datatype 'v hc_checker =
    HcPing "string option option"
  | HcTCP string duration
  | HcHTTP string duration
  | HcAll "'v hc_checker list"
  | HcAny "'v hc_checker list"
  | HcOwn "'v hc_result"

text \<open>The outcome of an HTTP request: it cannot be built, it fails, or it has a status code.\<close>

datatype hc_http = HttpBuild string | HttpDo string | HttpCode int

record hc_env =
  he_dial :: "string \<Rightarrow> duration \<Rightarrow> string option"
  he_http :: "string \<Rightarrow> duration \<Rightarrow> hc_http"
  he_itoa :: "int \<Rightarrow> string" \<comment> \<open>the verb \<open>%d\<close>\<close>
  he_quote :: "string \<Rightarrow> string" \<comment> \<open>the verb \<open>%q\<close>\<close>

definition hc_timeout :: "duration \<Rightarrow> duration" where
  "hc_timeout t = (if t = 0 then 3 * Second else t)"

definition hc_TCP_Check :: "hc_env \<Rightarrow> string \<Rightarrow> duration \<Rightarrow> 'v hc_result" where
  "hc_TCP_Check E addr t =
     (case he_dial E addr (hc_timeout t) of
        Some err \<Rightarrow> hc_res StatusDown (''tcp dial '' @ addr @ '': '' @ err)
      | None \<Rightarrow> hc_res StatusUp [])"

definition hc_HTTP_Check :: "hc_env \<Rightarrow> string \<Rightarrow> duration \<Rightarrow> 'v hc_result" where
  "hc_HTTP_Check E url t =
     (case he_http E url (hc_timeout t) of
        HttpBuild err \<Rightarrow> hc_res StatusDown (''http request build: '' @ err)
      | HttpDo err \<Rightarrow> hc_res StatusDown (''http request '' @ url @ '': '' @ err)
      | HttpCode code \<Rightarrow>
          if code \<ge> 200 \<and> code < 400 then hc_res StatusUp []
          else hc_res StatusDown (''http '' @ url @ '' returned status '' @ he_itoa E code))"

definition hc_Ping_Check :: "string option option \<Rightarrow> 'v hc_result" where
  "hc_Ping_Check f =
     (case f of None \<Rightarrow> hc_res StatusUnknown ''checker is nil''
      | Some (Some err) \<Rightarrow> hc_res StatusDown err
      | Some None \<Rightarrow> hc_res StatusUp [])"

text \<open>
  The loops of \<open>All\<close> and \<open>Any\<close> over the results of the members; the number of members they run is
  returned too. A member's result is only used when the loop reaches it.
\<close>

fun hc_all_loop :: "hc_env \<Rightarrow> nat \<Rightarrow> 'v hc_result list \<Rightarrow> 'v hc_result \<times> nat" where
  "hc_all_loop E i [] = (hc_res StatusUp [], i)"
| "hc_all_loop E i (r # rs) =
     (if hr_Status r = StatusDown
      then (hc_res StatusDown (''checker['' @ he_itoa E (int i) @ ''] failed: '' @ hr_Message r), Suc i)
      else hc_all_loop E (Suc i) rs)"

fun hc_any_loop :: "nat \<Rightarrow> string \<Rightarrow> 'v hc_result list \<Rightarrow> 'v hc_result \<times> nat" where
  "hc_any_loop i lastErr [] = (hc_res StatusDown (''all checkers failed, last error: '' @ lastErr), i)"
| "hc_any_loop i lastErr (r # rs) =
     (if hr_Status r = StatusUp then (hc_res StatusUp [], Suc i) else hc_any_loop (Suc i) (hr_Message r) rs)"

primrec hc_check :: "hc_env \<Rightarrow> 'v hc_checker \<Rightarrow> 'v hc_result" where
  "hc_check E (HcPing f) = hc_Ping_Check f"
| "hc_check E (HcTCP addr t) = hc_TCP_Check E addr t"
| "hc_check E (HcHTTP url t) = hc_HTTP_Check E url t"
| "hc_check E (HcAll cs) = fst (hc_all_loop E 0 (map (hc_check E) cs))"
| "hc_check E (HcAny cs) = fst (hc_any_loop 0 [] (map (hc_check E) cs))"
| "hc_check E (HcOwn r) = r"

section \<open>The aggregator\<close>

record 'v hc_health =
  hh_checkers :: "(string \<times> 'v hc_checker) list"
  hh_timeout :: duration

definition hc_New :: "duration list \<Rightarrow> 'v hc_health" where
  "hc_New opts = fold (\<lambda>d h. h\<lparr>hh_timeout := d\<rparr>) opts \<lparr>hh_checkers = [], hh_timeout = 5 * Second\<rparr>"

definition hc_Register :: "string \<Rightarrow> 'v hc_checker \<Rightarrow> 'v hc_health \<Rightarrow> 'v hc_health" where
  "hc_Register name c h = h\<lparr>hh_checkers := AList.update name c (hh_checkers h)\<rparr>"

definition hc_Deregister :: "string \<Rightarrow> 'v hc_health \<Rightarrow> 'v hc_health" where
  "hc_Deregister name h = h\<lparr>hh_checkers := AList.delete name (hh_checkers h)\<rparr>"

definition hc_Names :: "'v hc_health \<Rightarrow> string list" where
  "hc_Names h = map fst (hh_checkers h)"

text \<open>One goroutine of a check: the checker's result, or the timeout.\<close>

definition hc_run :: "hc_env \<Rightarrow> (string \<Rightarrow> bool) \<Rightarrow> string \<times> 'v hc_checker \<Rightarrow> string \<times> 'v hc_result" where
  "hc_run E late nc =
     (case nc of (n, c) \<Rightarrow>
        (n, if late n then hc_res StatusDown (''checker '' @ he_quote E n @ '' timed out'') else hc_check E c))"

text \<open>The details of one checker: its status and message, then its own details on top.\<close>

definition hc_detail :: "'v hc_result \<Rightarrow> (string \<times> 'v hc_val) list" where
  "hc_detail r =
     fold (\<lambda>(k, v). AList.update k v) (hr_Details r)
       [(''status'', HcText (hc_String (hr_Status r))), (''message'', HcText (hr_Message r))]"

fun hc_collect ::
  "(string \<times> 'v hc_result) list \<Rightarrow> hc_status \<Rightarrow> (string \<times> (string \<times> 'v hc_val) list) list \<Rightarrow>
   hc_status \<times> (string \<times> (string \<times> 'v hc_val) list) list" where
  "hc_collect [] overall details = (overall, details)"
| "hc_collect ((n, r) # crs) overall details =
     hc_collect crs
       (if hr_Status r = StatusDown then StatusDown
        else if hr_Status r = StatusUnknown \<and> overall \<noteq> StatusDown then StatusUnknown
        else overall)
       (AList.update n (hc_detail r) details)"

record 'v hc_overall =
  ho_Status :: hc_status
  ho_Message :: string
  ho_Details :: "(string \<times> (string \<times> 'v hc_val) list) list"

text \<open>\<open>order\<close> is the order in which the results arrive: a permutation of the registered checkers.\<close>

definition hc_Check ::
  "hc_env \<Rightarrow> (string \<Rightarrow> bool) \<Rightarrow> (string \<times> 'v hc_checker) list \<Rightarrow> 'v hc_health \<Rightarrow> 'v hc_overall" where
  "hc_Check E late order h =
     (if hh_checkers h = []
      then \<lparr>ho_Status = StatusUp, ho_Message = ''no checkers registered'', ho_Details = []\<rparr>
      else (let (overall, details) = hc_collect (map (hc_run E late) order) StatusUp []
            in \<lparr>ho_Status = overall, ho_Message = [], ho_Details = details\<rparr>))"

text \<open>The response of the readiness handler: status code, status text, message and details.\<close>

definition hc_ServeHTTP :: "'v hc_overall \<Rightarrow> int \<times> string \<times> string \<times> (string \<times> (string \<times> 'v hc_val) list) list" where
  "hc_ServeHTTP r =
     (if ho_Status r = StatusDown then 503 else 200, hc_String (ho_Status r), ho_Message r, ho_Details r)"

definition hc_liveness :: "int \<times> string" where
  "hc_liveness = (200, ''up'')"

section \<open>Properties\<close>

lemma hc_all_loop_status:
  "hr_Status (fst (hc_all_loop E i rs)) = (if \<exists>r \<in> set rs. hr_Status r = StatusDown then StatusDown else StatusUp)"
  by (induction rs arbitrary: i) (auto simp: hc_res_def)

lemma hc_any_loop_status:
  "hr_Status (fst (hc_any_loop i e rs)) = (if \<exists>r \<in> set rs. hr_Status r = StatusUp then StatusUp else StatusDown)"
  by (induction rs arbitrary: i e) (auto simp: hc_res_def)

lemma hc_all_loop_run:
  "snd (hc_all_loop E i rs) =
   i + length (takeWhile (\<lambda>r. hr_Status r \<noteq> StatusDown) rs) + (if \<exists>r \<in> set rs. hr_Status r = StatusDown then 1 else 0)"
  by (induction rs arbitrary: i) auto

text \<open>The aggregated status as a function of the set of statuses.\<close>

definition hc_verdict :: "hc_status set \<Rightarrow> hc_status" where
  "hc_verdict S = (if StatusDown \<in> S then StatusDown else if StatusUnknown \<in> S then StatusUnknown else StatusUp)"

lemma hc_collect_status:
  "fst (hc_collect crs overall details) = hc_verdict (insert overall ((hr_Status \<circ> snd) ` set crs))"
proof (induction crs overall details rule: hc_collect.induct)
  case (1 overall details)
  then show ?case by (cases overall) (simp_all add: hc_verdict_def)
next
  case (2 n r crs overall details)
  then show ?case by (cases "hr_Status r"; cases overall) (simp_all add: hc_verdict_def)
qed

lemma hc_collect_details:
  "distinct (map fst crs) \<Longrightarrow>
   map_of (snd (hc_collect crs overall details)) n =
     (case map_of crs n of None \<Rightarrow> map_of details n | Some r \<Rightarrow> Some (hc_detail r))"
proof (induction crs overall details rule: hc_collect.induct)
  case (2 m r crs overall details)
  then have "map_of crs m = None" by (simp add: map_of_eq_None_iff)
  then show ?case using 2 by (auto simp: update_conv simp del: map_of_eq_None_iff map_of_eq_Some_iff split: option.splits)
qed simp

lemma hc_run_fst [simp]: "map fst (map (hc_run E late) cs) = map fst cs"
  by (auto simp: hc_run_def)

lemma hc_run_status: "hr_Status (snd (hc_run E late (n, c))) = (if late n then StatusDown else hr_Status (hc_check E c))"
  by (simp add: hc_run_def hc_res_def)

lemma hc_run_mem:
  "StatusDown \<in> (hr_Status \<circ> snd \<circ> hc_run E late) ` S \<longleftrightarrow> (\<exists>(n, c) \<in> S. late n \<or> hr_Status (hc_check E c) = StatusDown)"
  "StatusUnknown \<in> (hr_Status \<circ> snd \<circ> hc_run E late) ` S \<longleftrightarrow>
     (\<exists>(n, c) \<in> S. \<not> late n \<and> hr_Status (hc_check E c) = StatusUnknown)"
  by (force simp: image_iff hc_run_status split: if_splits)+

lemma map_of_hc_run: "map_of (map (hc_run E late) cs) n = map_option (snd \<circ> hc_run E late \<circ> Pair n) (map_of cs n)"
  by (induction cs) (auto simp: hc_run_def)

lemma hc_checkers_distinct:
  "distinct (map fst (hh_checkers h)) \<Longrightarrow> distinct (map fst (hh_checkers (hc_Register n c h)))"
  "distinct (map fst (hh_checkers h)) \<Longrightarrow> distinct (map fst (hh_checkers (hc_Deregister n h)))"
  by (auto simp: hc_Register_def hc_Deregister_def distinct_update distinct_delete)

text \<open>
  The verdict of a health check. In whatever order the results arrive: the aggregate is down
  (and the handler answers 503) exactly when some registered checker is down or overtaken by the timeout;
  otherwise it is unknown exactly when some checker is unknown; otherwise it is up, also without
  any checker. The details hold exactly one entry for every checker.
\<close>

theorem hc_Check_verdict:
  assumes "mset order = mset (hh_checkers h)" "distinct (map fst (hh_checkers h))"
  shows "let down = (\<exists>(n, c) \<in> set (hh_checkers h). late n \<or> hr_Status (hc_check E c) = StatusDown);
      unknown = (\<exists>(n, c) \<in> set (hh_checkers h). \<not> late n \<and> hr_Status (hc_check E c) = StatusUnknown);
      r = hc_Check E late order h
    in ho_Status r = (if down then StatusDown else if unknown then StatusUnknown else StatusUp) \<and>
       (fst (hc_ServeHTTP r) = 503 \<longleftrightarrow> down) \<and>
       (\<forall>n. map_of (ho_Details r) n = map_option (hc_detail \<circ> snd \<circ> hc_run E late \<circ> Pair n) (map_of (hh_checkers h) n))"
proof (cases "hh_checkers h = []")
  case True
  then show ?thesis by (simp add: hc_Check_def hc_ServeHTTP_def)
next
  case False
  let ?crs = "map (hc_run E late) order"
  have s: "set order = set (hh_checkers h)" using assms(1) by (metis mset_eq_setD)
  have "mset (map fst order) = mset (map fst (hh_checkers h))" using assms(1) by simp
  then have d: "distinct (map fst order)" using assms(2) by (metis mset_eq_imp_distinct_iff)
  have m: "map_of order = map_of (hh_checkers h)" using d assms(2) s by (simp add: map_of_inject_set)
  obtain overall details where c: "hc_collect ?crs StatusUp [] = (overall, details)" by fastforce
  have R: "hc_Check E late order h = \<lparr>ho_Status = overall, ho_Message = [], ho_Details = details\<rparr>"
    using False c by (simp add: hc_Check_def)
  have "map_of details n = map_option (hc_detail \<circ> snd \<circ> hc_run E late \<circ> Pair n) (map_of (hh_checkers h) n)" for n
    using hc_collect_details[of ?crs StatusUp "[]" n] d c
    by (simp add: map_of_hc_run m option.map_comp comp_def del: map_map split: option.split)
  moreover have "overall = hc_verdict (insert StatusUp ((hr_Status \<circ> snd \<circ> hc_run E late) ` set (hh_checkers h)))"
    using hc_collect_status[of ?crs StatusUp "[]"] c by (simp add: s image_comp comp_def image_image)
  ultimately show ?thesis
    unfolding R hc_ServeHTTP_def Let_def hc_verdict_def insert_iff hc_run_mem by simp
qed

definition hc_demo :: "unit hc_health" where
  "hc_demo = hc_Register ''cache'' (HcPing None) (hc_Register ''db'' (HcAll [HcPing (Some None), HcTCP ''db:5432'' 0]) (hc_New []))"

definition hc_demo_env :: hc_env where
  "hc_demo_env = \<lparr>he_dial = (\<lambda>a t. None), he_http = (\<lambda>u t. HttpCode 200), he_itoa = (\<lambda>n. []), he_quote = id\<rparr>"

theorem hc_Check_verdict_witness:
  "ho_Status (hc_Check hc_demo_env (\<lambda>n. n = ''cache'') (rev (hh_checkers hc_demo)) hc_demo) = StatusDown"
proof -
  have d: "distinct (map fst (hh_checkers hc_demo))" by code_simp
  have c: "(''cache'', HcPing None) \<in> set (hh_checkers hc_demo)"
    by (simp add: hc_demo_def hc_Register_def hc_New_def)
  then show ?thesis
    using hc_Check_verdict[of "rev (hh_checkers hc_demo)" hc_demo "\<lambda>n. n = ''cache''" hc_demo_env, OF _ d]
    by (auto simp: Let_def split: if_splits)
qed

text \<open>
  What the combinators decide. \<open>All\<close> is up exactly when no member is down, so a member that is
  unknown, such as a nil function, passes it; it never runs a member after the first one that is down. \<open>Any\<close> is up
  exactly when some member is up, and without members it is down.
\<close>

theorem hc_combinators:
  "hr_Status (hc_check E (HcAll cs)) =
     (if \<exists>c \<in> set cs. hr_Status (hc_check E c) = StatusDown then StatusDown else StatusUp) \<and>
   snd (hc_all_loop E 0 (map (hc_check E) cs)) =
     length (takeWhile (\<lambda>c. hr_Status (hc_check E c) \<noteq> StatusDown) cs) +
     (if \<exists>c \<in> set cs. hr_Status (hc_check E c) = StatusDown then 1 else 0) \<and>
   hr_Status (hc_check E (HcAny cs)) =
     (if \<exists>c \<in> set cs. hr_Status (hc_check E c) = StatusUp then StatusUp else StatusDown)"
  by (simp add: hc_all_loop_status hc_any_loop_status hc_all_loop_run takeWhile_map comp_def)

end
