(* ===== verification/Go_Encoding.thy ===== *)
theory Go_Encoding
  imports Go_Bytes "HOL-Library.Sublist"
begin

text \<open>
  Encodings of the standard library that the components use: decimal printing of integers,
  \<open>base64.StdEncoding\<close>, and \<open>encoding/binary\<close> for 32-bit words in both byte orders. Go strings are lists of
  characters, byte slices lists of 8-bit words; \<open>bytes_of\<close> and \<open>string_of\<close> convert.
\<close>

definition bytes_of :: "string \<Rightarrow> 8 word list" where
  "bytes_of s = map (\<lambda>c. word_of_nat (of_char c)) s"

definition string_of :: "8 word list \<Rightarrow> string" where
  "string_of bs = map (\<lambda>b. char_of (unat b)) bs"

lemma string_bytes [simp]: "string_of (bytes_of s) = s"
  by (induction s) (simp_all add: string_of_def bytes_of_def unat_of_nat)

lemma length_bytes_of [simp]: "length (bytes_of s) = length s"
  by (simp add: bytes_of_def)

section \<open>Decimal numbers\<close>

fun nat_digits :: "nat \<Rightarrow> string" where
  "nat_digits n = (if n < 10 then [char_of (48 + n)] else nat_digits (n div 10) @ [char_of (48 + n mod 10)])"

definition go_itoa :: "int \<Rightarrow> string" where
  "go_itoa n = (if n < 0 then CHR ''-'' # nat_digits (nat (- n)) else nat_digits (nat n))"

declare nat_digits.simps [simp del]

lemma nat_digits_length: "n < 10 ^ Suc k \<Longrightarrow> length (nat_digits n) \<le> Suc k"
proof (induction k arbitrary: n)
  case 0
  then show ?case by (simp add: nat_digits.simps[of n])
next
  case (Suc k)
  show ?case
  proof (cases "n < 10")
    case False
    have "n div 10 < 10 ^ Suc k" using Suc.prems by (simp add: div_less_iff_less_mult)
    from Suc.IH[OF this] False show ?thesis by (simp add: nat_digits.simps[of n])
  qed (simp add: nat_digits.simps[of n])
qed

lemma go_itoa_length: "min64 \<le> n \<Longrightarrow> n \<le> max64 \<Longrightarrow> length (go_itoa n) \<le> 20"
  using nat_digits_length[of "nat n" 18] nat_digits_length[of "nat (- n)" 18] by (auto simp: go_itoa_def nat_less_iff)

section \<open>base64\<close>

definition b64_alphabet :: string where
  "b64_alphabet = ''ABCDEFGHIJKLMNOPQRSTUVWXYZabcdefghijklmnopqrstuvwxyz0123456789+/''"

definition b64_char :: "nat \<Rightarrow> char" where
  "b64_char n = b64_alphabet ! n"

fun b64_index :: "char \<Rightarrow> string \<Rightarrow> nat option" where
  "b64_index c [] = None"
| "b64_index c (x # xs) = (if x = c then Some 0 else map_option Suc (b64_index c xs))"

definition b64_val :: "char \<Rightarrow> nat option" where
  "b64_val c = b64_index c b64_alphabet"

text \<open>\<open>EncodeToString\<close>: three bytes become four characters, the rest is padded.\<close>

fun b64_encode :: "8 word list \<Rightarrow> string" where
  "b64_encode [] = []"
| "b64_encode [a] =
     (let n = unat a in [b64_char (n div 4), b64_char (n mod 4 * 16), CHR ''='', CHR ''=''])"
| "b64_encode [a, b] =
     (let m = unat a; n = unat b in
      [b64_char (m div 4), b64_char (m mod 4 * 16 + n div 16), b64_char (n mod 16 * 4), CHR ''=''])"
| "b64_encode (a # b # c # bs) =
     (let m = unat a; n = unat b; k = unat c in
      [b64_char (m div 4), b64_char (m mod 4 * 16 + n div 16), b64_char (n mod 16 * 4 + k div 64), b64_char (k mod 64)] @
      b64_encode bs)"

text \<open>
  \<open>DecodeString\<close>: line breaks are skipped, padding is allowed only at the end, and the unused bits of
  the last character are ignored. \<open>None\<close> is a corrupt input.
\<close>

fun b64_quads :: "string \<Rightarrow> 8 word list option" where
  "b64_quads [] = Some []"
| "b64_quads (p # q # r # s # xs) =
     (case (b64_val p, b64_val q) of
        (Some i, Some j) \<Rightarrow>
          (let a = word_of_nat (i * 4 + j div 16)
           in if r = CHR ''='' then (if s = CHR ''='' \<and> xs = [] then Some [a] else None)
              else (case b64_val r of
                      None \<Rightarrow> None
                    | Some k \<Rightarrow>
                        (let b = word_of_nat (j mod 16 * 16 + k div 4)
                         in if s = CHR ''='' then (if xs = [] then Some [a, b] else None)
                            else (case b64_val s of
                                    None \<Rightarrow> None
                                  | Some l \<Rightarrow>
                                      map_option (\<lambda>bs. a # b # word_of_nat (k mod 4 * 64 + l) # bs) (b64_quads xs)))))
      | _ \<Rightarrow> None)"
| "b64_quads _ = None"

definition b64_decode :: "string \<Rightarrow> 8 word list option" where
  "b64_decode s = b64_quads (filter (\<lambda>c. c \<noteq> CHR 0x0A \<and> c \<noteq> CHR 0x0D) s)"

text \<open>All 64 digits, checked one by one.\<close>

lemma b64_digits: "list_all (\<lambda>n. b64_val (b64_char n) = Some n \<and>
    b64_char n \<notin> {CHR ''='', CHR ''.'', CHR 0x0A, CHR 0x0D}) [0..<64]"
  by code_simp

lemma b64_digit:
  assumes "n < 64"
  shows "b64_val (b64_char n) = Some n" "b64_char n \<noteq> CHR ''=''" "b64_char n \<noteq> CHR ''.''"
    "b64_char n \<noteq> CHR 0x0A" "b64_char n \<noteq> CHR 0x0D"
  using assms b64_digits by (auto simp: list_all_iff)

lemma divmod_join: "r < d \<Longrightarrow> (q * d + r) div d = q" "r < d \<Longrightarrow> (q * d + r) mod d = (r :: nat)"
  by simp_all

lemma unat8: "unat (a :: 8 word) < 256"
  using unsigned_less[of a, where ?'a = nat] by simp

lemma byte_bounds:
  fixes a b :: "8 word"
  shows "unat a div 4 < 64" "unat a mod 4 * 16 < 64" "unat a mod 64 < 64" "unat a mod 16 * 4 < 64"
    "unat a div 16 < 16" "unat a div 64 < 4"
    "unat a mod 4 * 16 + unat b div 16 < 64" "unat a mod 16 * 4 + unat b div 64 < 64"
proof -
  show 1: "unat a div 4 < 64" "unat a mod 64 < 64" "unat a div 16 < 16" "unat a div 64 < 4"
    using unat8[of a] by (simp_all add: div_less_iff_less_mult)
  have m: "unat a mod 4 < 4" "unat a mod 16 < 16" by simp_all
  then show "unat a mod 4 * 16 < 64" "unat a mod 16 * 4 < 64" by linarith+
  have "unat b div 16 < 16" "unat b div 64 < 4" using unat8[of b] by (simp_all add: div_less_iff_less_mult)
  with m show "unat a mod 4 * 16 + unat b div 16 < 64" "unat a mod 16 * 4 + unat b div 64 < 64" by linarith+
qed

lemma b64_join:
  fixes a b c :: "8 word"
  shows "(unat a mod 4 * 16 + unat b div 16) div 16 = unat a mod 4" "(unat a mod 4 * 16 + unat b div 16) mod 16 = unat b div 16"
    "(unat b mod 16 * 4 + unat c div 64) div 4 = unat b mod 16" "(unat b mod 16 * 4 + unat c div 64) mod 4 = unat c div 64"
  by (rule divmod_join; rule byte_bounds)+

lemma b64_quads_encode: "b64_quads (b64_encode bs) = Some bs"
proof (induction bs rule: b64_encode.induct)
  case (2 a)
  then show ?case by (simp add: Let_def b64_digit byte_bounds del: of_nat_add of_nat_mult)
next
  case (3 a b)
  then show ?case by (simp add: Let_def b64_digit byte_bounds b64_join del: of_nat_add of_nat_mult)
next
  case (4 a b c bs)
  then show ?case by (simp add: Let_def b64_digit byte_bounds b64_join del: of_nat_add of_nat_mult)
qed simp

lemma b64_encode_chars: "c \<in> set (b64_encode bs) \<Longrightarrow> c \<noteq> CHR ''.'' \<and> c \<noteq> CHR 0x0A \<and> c \<noteq> CHR 0x0D"
  by (induction bs rule: b64_encode.induct) (auto simp: Let_def b64_digit byte_bounds)

text \<open>Decoding inverts encoding, and the length of an encoding.\<close>

lemma b64_roundtrip: "b64_decode (b64_encode bs) = Some bs"
proof -
  have "filter (\<lambda>c. c \<noteq> CHR 0x0A \<and> c \<noteq> CHR 0x0D) (b64_encode bs) = b64_encode bs"
    using b64_encode_chars by (simp add: filter_id_conv)
  then show ?thesis by (simp add: b64_decode_def b64_quads_encode)
qed

lemma b64_encode_length: "length (b64_encode bs) = 4 * ((length bs + 2) div 3)"
proof (induction bs rule: b64_encode.induct)
  case (4 a b c bs)
  have "(length bs + 5) div 3 = Suc ((length bs + 2) div 3)" using div_add_self2[of 3 "length bs + 2"] by simp
  with 4 show ?case by (simp add: Let_def add.commute)
qed (simp_all add: Let_def)

end
