(* ===== verification/Token_Codec.thy ===== *)
theory Token_Codec
  imports Go_Encoding
begin

text \<open>
  \<open>crud/pagination/token_codec.go\<close> and \<open>token_secret.go\<close>: signed page cursors. The HMAC of a
  secret and a message is a parameter \<open>mac\<close>, and so is \<open>json.Unmarshal\<close> into the cursor struct; that it
  reads back what \<open>json.Marshal\<close> prints for the struct is a hypothesis of the round trip. base64 and
  hexadecimal printing are those of \<^theory_text>\<open>Go_Encoding\<close>. The lemmas show the round trip and what a
  token must look like to be accepted.
\<close>

section \<open>Tokens\<close>

definition tk_prefix :: string where
  "tk_prefix = ''v2.''"

text \<open>\<open>json.Marshal(tokenCursor{LastID: n})\<close>\<close>

definition tk_json :: "int \<Rightarrow> string" where
  "tk_json n = [CHR ''{'', CHR 0x22] @ ''last_id'' @ [CHR 0x22, CHR '':''] @ go_itoa n @ ''}''"

definition tk_EncodeAndSign :: "(8 word list \<Rightarrow> string \<Rightarrow> 8 word list) \<Rightarrow> int \<Rightarrow> 8 word list \<Rightarrow> string" where
  "tk_EncodeAndSign mac lastID secret =
     (let encoded = b64_encode (bytes_of (tk_json lastID))
      in if secret = [] then encoded else tk_prefix @ encoded @ ''.'' @ go_hex (mac secret encoded))"

definition tk_decodeCursor :: "(string \<Rightarrow> int option) \<Rightarrow> string \<Rightarrow> int \<times> bool" where
  "tk_decodeCursor unmarshal encoded =
     (case b64_decode encoded of
        None \<Rightarrow> (0, False)
      | Some raw \<Rightarrow> (case unmarshal (string_of raw) of None \<Rightarrow> (0, False) | Some n \<Rightarrow> (n, True)))"

definition tk_IsSignedToken :: "string \<Rightarrow> bool" where
  "tk_IsSignedToken token \<longleftrightarrow> prefix tk_prefix token"

text \<open>\<open>strings.LastIndex(s, ".")\<close>\<close>

fun tk_last_dot :: "string \<Rightarrow> nat option" where
  "tk_last_dot [] = None"
| "tk_last_dot (c # cs) =
     (case tk_last_dot cs of Some i \<Rightarrow> Some (Suc i) | None \<Rightarrow> if c = CHR ''.'' then Some 0 else None)"

definition tk_VerifyAndDecode ::
  "(8 word list \<Rightarrow> string \<Rightarrow> 8 word list) \<Rightarrow> (string \<Rightarrow> int option) \<Rightarrow> string \<Rightarrow> 8 word list \<Rightarrow> int \<times> bool" where
  "tk_VerifyAndDecode mac unmarshal token secret =
     (if token = [] then (0, False)
      else if tk_IsSignedToken token then
        (if secret = [] then (0, False)
         else let body = drop (length tk_prefix) token
              in case tk_last_dot body of
                   None \<Rightarrow> (0, False)
                 | Some i \<Rightarrow>
                     (let encoded = take i body; sigHex = drop (Suc i) body
                      in if length encoded > 256 then (0, False)
                         else if sigHex \<noteq> go_hex (mac secret encoded) then (0, False)
                         else tk_decodeCursor unmarshal encoded))
      else if secret \<noteq> [] then (0, False)
      else if length token > 256 then (0, False)
      else tk_decodeCursor unmarshal token)"

text \<open>The process-wide secret: \<open>None\<close> is nil.\<close>

definition tk_SetTokenSecret :: "8 word list option \<Rightarrow> 8 word list option \<Rightarrow> 8 word list option" where
  "tk_SetTokenSecret secret old = (case secret of None \<Rightarrow> None | Some s \<Rightarrow> Some s)"

definition tk_TokenSecret :: "8 word list option \<Rightarrow> 8 word list" where
  "tk_TokenSecret s = (case s of None \<Rightarrow> [] | Some s \<Rightarrow> s)"

section \<open>Lemmas\<close>

lemma tk_last_dot_append: "CHR ''.'' \<notin> set ys \<Longrightarrow> tk_last_dot (xs @ CHR ''.'' # ys) = Some (length xs)"
proof (induction xs)
  case Nil
  then have "tk_last_dot ys = None" by (induction ys) auto
  then show ?case by simp
qed simp

lemma tk_last_dot_Some: "tk_last_dot xs = Some i \<Longrightarrow> i < length xs \<and> xs = take i xs @ CHR ''.'' # drop (Suc i) xs"
  by (induction xs arbitrary: i) (auto split: option.splits if_splits)

lemma hex_no_dot: "CHR ''.'' \<notin> set (go_hex bs)"
  using go_hex_ok[of bs] by (auto simp: list_all_iff go_uuid_char_def)

lemma b64_no_dot: "CHR ''.'' \<notin> set (b64_encode bs)"
  using b64_encode_chars by blast

lemma tk_encoded_length:
  assumes "min64 \<le> n" "n \<le> max64"
  shows "length (b64_encode (bytes_of (tk_json n))) \<le> 256"
proof -
  have "length (tk_json n) \<le> 32" using go_itoa_length[OF assms] by (simp add: tk_json_def)
  then show ?thesis by (simp add: b64_encode_length)
qed

lemma tk_unsigned: "\<not> tk_IsSignedToken (b64_encode bs)"
  using b64_no_dot[of bs] by (auto simp: tk_IsSignedToken_def tk_prefix_def prefix_def)

lemma tk_decode_encoded:
  "unmarshal (tk_json n) = Some n \<Longrightarrow> tk_decodeCursor unmarshal (b64_encode (bytes_of (tk_json n))) = (n, True)"
  by (simp add: tk_decodeCursor_def b64_roundtrip)

section \<open>Properties\<close>

text \<open>
  C31: cursors survive the trip through the client. For every 64-bit ID and every secret, also the
  empty one, \<open>VerifyAndDecode\<close> reads back the ID that \<open>EncodeAndSign\<close> wrote under the same secret,
  provided the JSON library reads what it prints. A token written with a secret is rejected without one,
  and a token written without a secret is rejected with one.
\<close>

theorem tk_roundtrip:
  assumes "min64 \<le> n" "n \<le> max64" "unmarshal (tk_json n) = Some n"
  shows "tk_VerifyAndDecode mac unmarshal (tk_EncodeAndSign mac n secret) secret = (n, True) \<and>
    (secret \<noteq> [] \<longrightarrow> tk_VerifyAndDecode mac unmarshal (tk_EncodeAndSign mac n secret) [] = (0, False) \<and>
      tk_VerifyAndDecode mac unmarshal (tk_EncodeAndSign mac n []) secret = (0, False))"
proof -
  let ?e = "b64_encode (bytes_of (tk_json n))"
  have e: "length ?e \<le> 256" "tk_decodeCursor unmarshal ?e = (n, True)" "\<not> tk_IsSignedToken ?e" "?e \<noteq> []"
    using tk_encoded_length[OF assms(1,2)] tk_decode_encoded[of unmarshal, OF assms(3)] tk_unsigned
      b64_encode_length[of "bytes_of (tk_json n)"] by (auto simp: tk_json_def)
  have s: "tk_IsSignedToken (tk_prefix @ xs)" for xs by (simp add: tk_IsSignedToken_def)
  have d: "tk_last_dot (?e @ ''.'' @ go_hex (mac secret ?e)) = Some (length ?e)"
    using tk_last_dot_append[OF hex_no_dot] by simp
  show ?thesis
    using e d s by (auto simp: tk_VerifyAndDecode_def tk_EncodeAndSign_def Let_def)
qed

theorem tk_roundtrip_witness:
  "tk_VerifyAndDecode (\<lambda>k m. k) (\<lambda>s. if s = tk_json 42 then Some 42 else None)
     (tk_EncodeAndSign (\<lambda>k m. k) 42 [1, 2]) [1, 2] = (42, True)"
  using tk_roundtrip[of 42 "\<lambda>s. if s = tk_json 42 then Some 42 else None" "\<lambda>k m. k" "[1, 2]"] by simp

text \<open>
  C32: only signed tokens are accepted under a secret. A token that is accepted when a secret is set is the
  prefix \<open>v2.\<close>, a payload of at most 256 characters, a dot, and the hexadecimal HMAC of exactly that payload
  under the secret; the ID returned is the one in the payload.
\<close>

theorem tk_accepted_is_signed:
  assumes "secret \<noteq> []" "tk_VerifyAndDecode mac unmarshal token secret = (n, True)"
  shows "\<exists>encoded. token = tk_prefix @ encoded @ ''.'' @ go_hex (mac secret encoded) \<and> length encoded \<le> 256 \<and>
    tk_decodeCursor unmarshal encoded = (n, True)"
proof -
  have signed: "tk_IsSignedToken token" using assms by (auto simp: tk_VerifyAndDecode_def split: if_splits)
  then obtain body where b: "token = tk_prefix @ body" by (auto simp: tk_IsSignedToken_def prefix_def)
  then obtain i where i: "tk_last_dot body = Some i" "drop (Suc i) body = go_hex (mac secret (take i body))"
    "length (take i body) \<le> 256" "tk_decodeCursor unmarshal (take i body) = (n, True)"
    using assms signed by (auto simp: tk_VerifyAndDecode_def Let_def split: option.splits if_splits)
  from tk_last_dot_Some[OF i(1)] i(2) have "body = take i body @ ''.'' @ go_hex (mac secret (take i body))"
    by simp
  with b i show ?thesis by metis
qed

theorem tk_accepted_is_signed_witness:
  "\<exists>encoded. tk_EncodeAndSign (\<lambda>k m. k) 42 [1, 2] = tk_prefix @ encoded @ ''.'' @ go_hex [1, 2]"
proof -
  have "tk_VerifyAndDecode (\<lambda>k m. k) (\<lambda>s. if s = tk_json 42 then Some 42 else None)
      (tk_EncodeAndSign (\<lambda>k m. k) 42 [1, 2]) [1, 2] = (42, True)" by code_simp
  from tk_accepted_is_signed[OF _ this] show ?thesis by auto
qed

end
