(* ===== verification/Tcp_Frame.thy ===== *)
theory Tcp_Frame
  imports Go_Encoding
begin

unbundle bit_operations_syntax

text \<open>
  \<open>transport/tcp/message.go\<close>, \<open>byte_order.go\<close> and \<open>session_manager.go\<close>: frames on a byte stream, packets
  in them, and the table of sessions. What the peer sends arrives in chunks of any size, one per \<open>Read\<close>.
  The lemmas show that frames come out as they went in, however the stream is cut.
\<close>

section \<open>32-bit words\<close>

datatype tf_order = LittleEndian | BigEndian

definition u32_le :: "nat \<Rightarrow> 8 word list" where
  "u32_le n = map word_of_nat [n mod 256, n div 256 mod 256, n div 65536 mod 256, n div 16777216 mod 256]"

text \<open>\<open>PutUint32\<close> and \<open>Uint32\<close> of a byte order.\<close>

definition tf_put :: "tf_order \<Rightarrow> nat \<Rightarrow> 8 word list" where
  "tf_put ord n = (case ord of LittleEndian \<Rightarrow> u32_le n | BigEndian \<Rightarrow> rev (u32_le n))"

definition tf_get :: "tf_order \<Rightarrow> 8 word list \<Rightarrow> nat" where
  "tf_get ord bs =
     (let b = (case ord of LittleEndian \<Rightarrow> bs | BigEndian \<Rightarrow> rev bs)
      in unat (b ! 0) + 256 * unat (b ! 1) + 65536 * unat (b ! 2) + 16777216 * unat (b ! 3))"

lemma tf_put_length [simp]: "length (tf_put ord n) = 4"
  by (simp add: tf_put_def u32_le_def split: tf_order.split)

lemma unat_of_nat8: "unat (word_of_nat n :: 8 word) = n mod 256"
  by (simp add: unat_of_nat)

lemma u32_join: "n < 2 ^ 32 \<Longrightarrow>
    n mod 256 + 256 * (n div 256 mod 256) + 65536 * (n div 65536 mod 256) + 16777216 * (n div 16777216 mod 256) = (n :: nat)"
proof -
  assume n: "n < 2 ^ 32"
  have d: "n div 65536 = n div 256 div 256" "n div 16777216 = n div 256 div 256 div 256"
    by (simp_all flip: div_mult2_eq)
  have "n div 256 div 256 div 256 < 256" using n by (simp add: div_less_iff_less_mult flip: div_mult2_eq)
  then have "n div 256 div 256 div 256 mod 256 = n div 256 div 256 div 256" by simp
  moreover have "256 * (n div 256) + n mod 256 = n" "256 * (n div 256 div 256) + n div 256 mod 256 = n div 256"
    "256 * (n div 256 div 256 div 256) + n div 256 div 256 mod 256 = n div 256 div 256" by simp_all
  ultimately show ?thesis unfolding d by linarith
qed

lemma tf_get_put: "n < 2 ^ 32 \<Longrightarrow> tf_get ord (tf_put ord n) = n"
  using u32_join[of n] by (simp add: tf_get_def tf_put_def u32_le_def Let_def unat_of_nat8 split: tf_order.split)

section \<open>Reading a stream\<close>

datatype tf_error = TfEOF | TfUnexpectedEOF | TfTooLarge | TfInvalidSize | TfConn string

type_synonym tf_stream = "8 word list list"

text \<open>One \<open>Read\<close> into a buffer of \<open>k\<close> bytes takes from the first chunk only.\<close>

fun tf_read :: "nat \<Rightarrow> tf_stream \<Rightarrow> (8 word list \<times> tf_stream) option" where
  "tf_read k [] = None"
| "tf_read k (c # cs) = Some (take k c, if length c \<le> k then cs else drop k c # cs)"

text \<open>\<open>io.ReadFull\<close>: it reads until the buffer is full; \<open>got\<close> is what it has.\<close>

fun tf_readFull :: "nat \<Rightarrow> tf_stream \<Rightarrow> 8 word list \<Rightarrow> (tf_error + 8 word list) \<times> tf_stream" where
  "tf_readFull k [] got = (if k = 0 then Inr got else Inl (if got = [] then TfEOF else TfUnexpectedEOF), [])"
| "tf_readFull k (c # cs) got =
     (if k = 0 then (Inr got, c # cs)
      else if length c \<le> k then tf_readFull (k - length c) cs (got @ c)
      else (Inr (got @ take k c), drop k c # cs))"

section \<open>Frames\<close>

definition tf_maxFrameSize :: nat where
  "tf_maxFrameSize = 32 * 2 ^ 20"

text \<open>\<open>WriteFrame\<close>: the bytes handed to the connection, in one write.\<close>

definition tf_WriteFrame :: "tf_order \<Rightarrow> 8 word list \<Rightarrow> tf_error + 8 word list" where
  "tf_WriteFrame ord payload =
     (if length payload > tf_maxFrameSize then Inl TfTooLarge
      else Inr (tf_put ord (length payload) @ payload))"

definition tf_ReadFrame :: "tf_order \<Rightarrow> tf_stream \<Rightarrow> (tf_error + 8 word list) \<times> tf_stream" where
  "tf_ReadFrame ord s =
     (case tf_readFull 4 s [] of
        (Inl e, s) \<Rightarrow> (Inl e, s)
      | (Inr hdr, s) \<Rightarrow>
          (let sz = tf_get ord hdr
           in if sz > tf_maxFrameSize then (Inl TfInvalidSize, s)
              else if sz = 0 then (Inr [], s)
              else tf_readFull sz s []))"

text \<open>The read loop of a session: frames until the first error.\<close>

fun tf_read_frames :: "nat \<Rightarrow> tf_order \<Rightarrow> tf_stream \<Rightarrow> 8 word list list \<times> (tf_error option \<times> tf_stream)" where
  "tf_read_frames 0 ord s = ([], None, s)"
| "tf_read_frames (Suc n) ord s =
     (case tf_ReadFrame ord s of
        (Inl e, s) \<Rightarrow> ([], Some e, s)
      | (Inr p, s) \<Rightarrow> (let (ps, r) = tf_read_frames n ord s in (p # ps, r)))"

section \<open>Packets\<close>

record tf_packet =
  np_Type :: "32 word"
  np_Payload :: "8 word list"

definition np_Marshal :: "tf_order \<Rightarrow> tf_packet \<Rightarrow> 8 word list" where
  "np_Marshal ord m = tf_put ord (unat (np_Type m)) @ np_Payload m"

text \<open>\<open>binary.Read\<close> fails on fewer than four bytes.\<close>

definition np_Unmarshal :: "tf_order \<Rightarrow> 8 word list \<Rightarrow> tf_error + tf_packet" where
  "np_Unmarshal ord buf =
     (if buf = [] then Inl TfEOF
      else if length buf < 4 then Inl TfUnexpectedEOF
      else Inr \<lparr>np_Type = word_of_nat (tf_get ord (take 4 buf)), np_Payload = drop 4 buf\<rparr>)"

section \<open>Sessions\<close>

text \<open>The table of sessions and the notifications of its observer, if one is registered.\<close>

datatype tf_note = SessionAdded nat | SessionRemoved nat

record tf_sessions =
  ts_sessions :: "nat list"
  ts_observer :: bool
  ts_notes :: "tf_note list"

definition ts_New :: "bool \<Rightarrow> tf_sessions" where
  "ts_New obs = \<lparr>ts_sessions = [], ts_observer = obs, ts_notes = []\<rparr>"

definition ts_RegisterObserver :: "bool \<Rightarrow> tf_sessions \<Rightarrow> tf_sessions" where
  "ts_RegisterObserver obs m = m\<lparr>ts_observer := obs\<rparr>"

definition ts_Clean :: "tf_sessions \<Rightarrow> tf_sessions" where
  "ts_Clean m = m\<lparr>ts_sessions := []\<rparr>"

definition ts_count :: "tf_sessions \<Rightarrow> nat" where
  "ts_count m = length (ts_sessions m)"

definition ts_note :: "tf_note \<Rightarrow> tf_sessions \<Rightarrow> tf_sessions" where
  "ts_note n m = (if ts_observer m then m\<lparr>ts_notes := ts_notes m @ [n]\<rparr> else m)"

definition ts_addSession :: "nat option \<Rightarrow> tf_sessions \<Rightarrow> tf_sessions" where
  "ts_addSession s m =
     (case s of None \<Rightarrow> m
      | Some i \<Rightarrow> ts_note (SessionAdded i) (m\<lparr>ts_sessions := List.insert i (ts_sessions m)\<rparr>))"

definition ts_removeSession :: "nat option \<Rightarrow> tf_sessions \<Rightarrow> tf_sessions" where
  "ts_removeSession s m =
     (case s of None \<Rightarrow> m
      | Some i \<Rightarrow> ts_note (SessionRemoved i) (m\<lparr>ts_sessions := removeAll i (ts_sessions m)\<rparr>))"

definition ts_getSession :: "nat \<Rightarrow> tf_sessions \<Rightarrow> nat option" where
  "ts_getSession i m = (if i \<in> set (ts_sessions m) then Some i else None)"

section \<open>Properties\<close>

lemma tf_readFull_ok:
  "k \<le> length (concat cs) \<Longrightarrow>
   \<exists>cs'. tf_readFull k cs got = (Inr (got @ take k (concat cs)), cs') \<and> concat cs' = drop k (concat cs)"
proof (induction k cs got rule: tf_readFull.induct)
  case (2 k c cs got)
  then show ?case by (cases "k = 0"; cases "length c \<le> k") auto
qed auto

lemma tf_ReadFrame_ok:
  assumes "tf_WriteFrame ord p = Inr f" "concat cs = f @ rest"
  shows "\<exists>cs'. tf_ReadFrame ord cs = (Inr p, cs') \<and> concat cs' = rest"
proof -
  have p: "length p \<le> tf_maxFrameSize" "f = tf_put ord (length p) @ p"
    using assms(1) by (auto simp: tf_WriteFrame_def split: if_splits)
  obtain cs1 where 1: "tf_readFull 4 cs [] = (Inr (tf_put ord (length p)), cs1)" "concat cs1 = p @ rest"
    using tf_readFull_ok[of 4 cs "[]"] assms(2) p by auto
  have g: "tf_get ord (tf_put ord (length p)) = length p"
    using p by (intro tf_get_put) (simp add: tf_maxFrameSize_def)
  obtain cs2 where 2: "tf_readFull (length p) cs1 [] = (Inr p, cs2)" "concat cs2 = rest"
    using tf_readFull_ok[of "length p" cs1 "[]"] 1 by auto
  show ?thesis using 1 2 g p by (cases "p = []") (auto simp: tf_ReadFrame_def)
qed

text \<open>
  C33: frames survive the stream. Let a peer write any sequence of payloads as frames, and let the
  network deliver the bytes in chunks of any sizes, merged or split. Reading as many frames returns exactly
  the payloads in order, empty ones included, without an error, and leaves exactly what follows; in
  either byte order.
\<close>

theorem tf_stream_roundtrip:
  assumes "list_all2 (\<lambda>p f. tf_WriteFrame ord p = Inr f) ps fs" "concat cs = concat fs @ rest"
  shows "\<exists>cs'. tf_read_frames (length ps) ord cs = (ps, None, cs') \<and> concat cs' = rest"
  using assms
proof (induction ps fs arbitrary: cs rule: list_all2_induct)
  case (Cons p ps f fs)
  then obtain cs1 where 1: "tf_ReadFrame ord cs = (Inr p, cs1)" "concat cs1 = concat fs @ rest"
    using tf_ReadFrame_ok[of ord p f cs "concat fs @ rest"] by auto
  with Cons.IH[OF 1(2)] show ?case by auto
qed simp

theorem tf_stream_roundtrip_witness:
  "\<exists>cs'. tf_read_frames 2 BigEndian [[0], [0, 0, 2, 7], [8, 0, 0, 0, 0, 9]] = ([[7, 8], []], None, cs') \<and> concat cs' = [9]"
proof -
  let ?fs = "[[0, 0, 0, 2, 7, 8], [0, 0, 0, 0 :: 8 word]]"
  have "list_all2 (\<lambda>p f. tf_WriteFrame BigEndian p = Inr f) [[7, 8], []] ?fs"
    by (simp add: tf_WriteFrame_def tf_maxFrameSize_def tf_put_def u32_le_def)
  from tf_stream_roundtrip[OF this, of "[[0], [0, 0, 2, 7], [8, 0, 0, 0, 0, 9]]" "[9]"] show ?thesis
    by (simp add: numeral_2_eq_2)
qed

text \<open>
  A packet survives too, and a frame that is cut off or announces too many bytes is an error, not a
  wrong payload.
\<close>

lemma np_roundtrip: "np_Unmarshal ord (np_Marshal ord m) = Inr m"
proof -
  have "unat (np_Type m) < 2 ^ 32" using unsigned_less[of "np_Type m", where ?'a = nat] by simp
  then have "tf_get ord (tf_put ord (unat (np_Type m))) = unat (np_Type m)" by (rule tf_get_put)
  moreover have "np_Marshal ord m \<noteq> []" by (auto simp: np_Marshal_def dest: arg_cong[of _ _ length])
  ultimately show ?thesis by (simp add: np_Unmarshal_def np_Marshal_def)
qed

lemma tf_readFull_short:
  "length (concat cs) < k \<Longrightarrow> \<exists>cs'. tf_readFull k cs got = (Inl (if got @ concat cs = [] then TfEOF else TfUnexpectedEOF), cs')"
  by (induction k cs got rule: tf_readFull.induct) (auto split: if_splits)

lemma tf_ReadFrame_cut:
  assumes "tf_WriteFrame ord p = Inr f" "f = concat cs @ x # xs"
  shows "\<exists>e cs'. tf_ReadFrame ord cs = (Inl e, cs')"
proof -
  have p: "f = tf_put ord (length p) @ p" "length p \<le> tf_maxFrameSize" using assms(1) by (auto simp: tf_WriteFrame_def split: if_splits)
  show ?thesis
  proof (cases "length (concat cs) < 4")
    case True
    then show ?thesis using tf_readFull_short[of cs 4 "[]"] by (auto simp: tf_ReadFrame_def)
  next
    case False
    then obtain cs1 where 1: "tf_readFull 4 cs [] = (Inr (take 4 (concat cs)), cs1)" "concat cs1 = drop 4 (concat cs)"
      using tf_readFull_ok[of 4 cs "[]"] by auto
    have hdr: "take 4 (concat cs) = tf_put ord (length p)"
      using arg_cong[OF assms(2)[unfolded p(1)], of "take 4"] False by simp
    have g: "tf_get ord (tf_put ord (length p)) = length p" using p(2) by (intro tf_get_put) (simp add: tf_maxFrameSize_def)
    have "length (concat cs1) < length p"
      using arg_cong[OF assms(2)[unfolded p(1)], of length] 1(2) False by simp
    then show ?thesis using tf_readFull_short[of cs1 "length p" "[]"] 1 hdr g p(2) by (auto simp: tf_ReadFrame_def)
  qed
qed

end
