(* ===== verification/Go_Heap.thy ===== *)
theory Go_Heap
  imports Main "HOL-Library.Multiset"
begin

text \<open>
  \<open>container/heap\<close> of the standard library on a slice, for a client whose \<open>Less\<close> compares a key:
  \<open>Less(i, j)\<close> is \<open>k (h[i]) < k (h[j])\<close>, \<open>Push\<close> appends and \<open>Pop\<close> cuts off the last element. The
  lemmas show that the operations keep the heap property and the elements, and that \<open>Pop\<close> returns a minimum.
\<close>

section \<open>The operations\<close>

definition hswap :: "'a list \<Rightarrow> nat \<Rightarrow> nat \<Rightarrow> 'a list" where
  "hswap xs i j = xs[i := xs ! j, j := xs ! i]"

fun heap_up :: "('a \<Rightarrow> 'k :: linorder) \<Rightarrow> 'a list \<Rightarrow> nat \<Rightarrow> 'a list" where
  "heap_up k xs j =
     (if j = 0 then xs
      else let i = (j - 1) div 2
           in if \<not> k (xs ! j) < k (xs ! i) then xs else heap_up k (hswap xs i j) i)"

text \<open>\<open>down\<close> also returns the index where it ended.\<close>

function heap_down :: "('a \<Rightarrow> 'k :: linorder) \<Rightarrow> 'a list \<Rightarrow> nat \<Rightarrow> nat \<Rightarrow> 'a list \<times> nat" where
  "heap_down k xs i n =
     (if 2 * i + 1 \<ge> n then (xs, i)
      else let j = (if 2 * i + 2 < n \<and> k (xs ! (2 * i + 2)) < k (xs ! (2 * i + 1)) then 2 * i + 2 else 2 * i + 1)
           in if \<not> k (xs ! j) < k (xs ! i) then (xs, i) else heap_down k (hswap xs i j) j n)"
  by pat_completeness auto
termination by (relation "measure (\<lambda>(k, xs, i, n). n - i)") (auto split: if_splits)

definition heap_Push :: "('a \<Rightarrow> 'k :: linorder) \<Rightarrow> 'a \<Rightarrow> 'a list \<Rightarrow> 'a list" where
  "heap_Push k x xs = heap_up k (xs @ [x]) (length xs)"

text \<open>On an empty slice \<open>Pop\<close> panics.\<close>

definition heap_Pop :: "('a \<Rightarrow> 'k :: linorder) \<Rightarrow> 'a list \<Rightarrow> ('a \<times> 'a list) option" where
  "heap_Pop k xs =
     (if xs = [] then None
      else let n = length xs - 1; ys = fst (heap_down k (hswap xs 0 n) 0 n) in Some (last ys, butlast ys))"

definition heap_Remove :: "('a \<Rightarrow> 'k :: linorder) \<Rightarrow> nat \<Rightarrow> 'a list \<Rightarrow> ('a \<times> 'a list) option" where
  "heap_Remove k i xs =
     (if i \<ge> length xs then None
      else let n = length xs - 1;
               ys = (if n = i then xs
                     else let (zs, e) = heap_down k (hswap xs i n) i n in if e > i then zs else heap_up k zs i)
           in Some (last ys, butlast ys))"

declare heap_up.simps [simp del] heap_down.simps [simp del]

section \<open>The heap property\<close>

definition hpar :: "nat \<Rightarrow> nat" where
  "hpar j = (j - 1) div 2"

definition hok :: "('a \<Rightarrow> 'k :: linorder) \<Rightarrow> 'a list \<Rightarrow> nat \<Rightarrow> bool" where
  "hok k xs j \<longleftrightarrow> k (xs ! hpar j) \<le> k (xs ! j)"

definition is_heap :: "('a \<Rightarrow> 'k :: linorder) \<Rightarrow> 'a list \<Rightarrow> nat \<Rightarrow> bool" where
  "is_heap k xs n \<longleftrightarrow> (\<forall>j. 0 < j \<and> j < n \<longrightarrow> hok k xs j)"

lemma hpar_less: "0 < j \<Longrightarrow> hpar j < j"
  by (auto simp: hpar_def)

lemma hpar_child: "0 < m \<Longrightarrow> hpar m = i \<longleftrightarrow> m = 2 * i + 1 \<or> m = 2 * i + 2"
  by (auto simp: hpar_def)

lemma hswap_length [simp]: "length (hswap xs i j) = length xs"
  by (simp add: hswap_def)

lemma hswap_nth:
  "i < length xs \<Longrightarrow> j < length xs \<Longrightarrow> i \<noteq> j \<Longrightarrow>
   hswap xs i j ! m = (if m = j then xs ! i else if m = i then xs ! j else xs ! m)"
  by (auto simp: hswap_def nth_list_update)

lemma hswap_mset [simp]: "i < length xs \<Longrightarrow> j < length xs \<Longrightarrow> mset (hswap xs i j) = mset xs"
  by (simp add: hswap_def mset_swap)

lemma is_heap_top: "is_heap k xs n \<Longrightarrow> m < n \<Longrightarrow> k (xs ! 0) \<le> k (xs ! m)"
proof (induction m rule: less_induct)
  case (less m)
  show ?case
  proof (cases "m = 0")
    case False
    then have "k (xs ! 0) \<le> k (xs ! hpar m)" using less hpar_less[of m] by simp
    also have "\<dots> \<le> k (xs ! m)" using less.prems False by (simp add: is_heap_def hok_def)
    finally show ?thesis .
  qed simp
qed

section \<open>Up\<close>

text \<open>A heap but for the element at \<open>j\<close>, which may be smaller than its parent.\<close>

definition up_inv :: "('a \<Rightarrow> 'k :: linorder) \<Rightarrow> 'a list \<Rightarrow> nat \<Rightarrow> nat \<Rightarrow> bool" where
  "up_inv k xs j n \<longleftrightarrow> (\<forall>m. 0 < m \<and> m < n \<and> m \<noteq> j \<longrightarrow> hok k xs m) \<and>
     (0 < j \<longrightarrow> (\<forall>m. 0 < m \<and> m < n \<and> hpar m = j \<longrightarrow> k (xs ! hpar j) \<le> k (xs ! m)))"

lemma up_inv_swap:
  assumes "up_inv k xs j n" "0 < j" "j < n" "n \<le> length xs" "k (xs ! j) < k (xs ! hpar j)"
  shows "up_inv k (hswap xs (hpar j) j) (hpar j) n"
proof -
  let ?i = "hpar j" and ?ys = "hswap xs (hpar j) j"
  have ij: "?i < j" using assms(2) by (rule hpar_less)
  have nth: "?ys ! m = (if m = j then xs ! ?i else if m = ?i then xs ! j else xs ! m)" for m
    using ij assms(3,4) by (intro hswap_nth) auto
  have par: "0 < m \<Longrightarrow> hpar m \<noteq> m" for m using hpar_less[of m] by auto
  have ok: "hok k ?ys m" if "0 < m" "m < n" "m \<noteq> ?i" for m
    using assms(1,2,5) that par[of m] ij unfolding up_inv_def hok_def nth
    by (cases "m = j"; cases "hpar m = j"; cases "hpar m = ?i") force+
  have "k (?ys ! hpar ?i) \<le> k (?ys ! m)" if "0 < ?i" "0 < m" "m < n" "hpar m = ?i" for m
  proof -
    have p: "hpar ?i < ?i" using that(1) by (rule hpar_less)
    have i: "k (xs ! hpar ?i) \<le> k (xs ! ?i)" using assms(1,3) that(1) ij by (auto simp: up_inv_def hok_def)
    have "m \<noteq> j \<Longrightarrow> k (xs ! ?i) \<le> k (xs ! m)" using assms(1) that by (auto simp: up_inv_def hok_def)
    then show ?thesis using i p ij that par[of m] unfolding nth by force
  qed
  with ok show ?thesis by (auto simp: up_inv_def)
qed

lemma heap_up_ok:
  "up_inv k xs j n \<Longrightarrow> j < n \<Longrightarrow> n \<le> length xs \<Longrightarrow>
   is_heap k (heap_up k xs j) n \<and> mset (heap_up k xs j) = mset xs \<and> (\<forall>m \<ge> n. heap_up k xs j ! m = xs ! m)"
proof (induction k xs j rule: heap_up.induct)
  case (1 k xs j)
  show ?case
  proof (cases "j = 0 \<or> \<not> k (xs ! j) < k (xs ! hpar j)")
    case True
    then have "is_heap k xs n" using "1.prems" by (auto simp: up_inv_def is_heap_def hok_def)
    then show ?thesis using True by (auto simp: heap_up.simps[of k xs j] hpar_def)
  next
    case False
    let ?ys = "hswap xs (hpar j) j"
    have h: "0 < j" "hpar j < j" "k (xs ! j) < k (xs ! hpar j)" using False hpar_less[of j] by auto
    have u: "heap_up k xs j = heap_up k ?ys (hpar j)" using False by (simp add: heap_up.simps[of k xs j] hpar_def Let_def)
    have inv: "up_inv k ?ys (hpar j) n" using up_inv_swap[OF "1.prems"(1)] "1.prems" h by simp
    have "is_heap k (heap_up k ?ys (hpar j)) n \<and> mset (heap_up k ?ys (hpar j)) = mset ?ys \<and>
        (\<forall>m \<ge> n. heap_up k ?ys (hpar j) ! m = ?ys ! m)"
      using "1.IH"[of "hpar j"] h inv "1.prems" by (simp add: hpar_def)
    then show ?thesis using u h "1.prems" by (auto simp: hswap_nth)
  qed
qed

lemma heap_up_length: "length (heap_up k xs j) = length xs"
  by (induction k xs j rule: heap_up.induct) (simp add: heap_up.simps Let_def)

section \<open>Down\<close>

text \<open>A heap but for the element at \<open>i\<close>, which may be out of order both with its parent and with its children.\<close>

definition down_inv :: "('a \<Rightarrow> 'k :: linorder) \<Rightarrow> 'a list \<Rightarrow> nat \<Rightarrow> nat \<Rightarrow> bool" where
  "down_inv k xs i n \<longleftrightarrow> (\<forall>m. 0 < m \<and> m < n \<and> m \<noteq> i \<and> hpar m \<noteq> i \<longrightarrow> hok k xs m) \<and>
     (0 < i \<longrightarrow> (\<forall>m. 0 < m \<and> m < n \<and> hpar m = i \<longrightarrow> k (xs ! hpar i) \<le> k (xs ! m)))"

definition hchild :: "('a \<Rightarrow> 'k :: linorder) \<Rightarrow> 'a list \<Rightarrow> nat \<Rightarrow> nat \<Rightarrow> nat" where
  "hchild k xs i n = (if 2 * i + 2 < n \<and> k (xs ! (2 * i + 2)) < k (xs ! (2 * i + 1)) then 2 * i + 2 else 2 * i + 1)"

lemma hchild_props:
  assumes "2 * i + 1 < n"
  shows "hpar (hchild k xs i n) = i" "i < hchild k xs i n" "hchild k xs i n < n"
    and "\<And>m. 0 < m \<Longrightarrow> m < n \<Longrightarrow> hpar m = i \<Longrightarrow> k (xs ! hchild k xs i n) \<le> k (xs ! m)"
  using assms by (auto simp: hchild_def hpar_child)

lemma heap_down_unfold:
  "heap_down k xs i n =
     (if n \<le> 2 * i + 1 \<or> \<not> k (xs ! hchild k xs i n) < k (xs ! i) then (xs, i)
      else heap_down k (hswap xs i (hchild k xs i n)) (hchild k xs i n) n)"
  by (subst heap_down.simps) (auto simp: hchild_def Let_def)

lemma down_inv_swap:
  assumes inv: "down_inv k xs i n" and n: "2 * i + 1 < n" "n \<le> length xs"
    and less: "k (xs ! hchild k xs i n) < k (xs ! i)"
  shows "down_inv k (hswap xs i (hchild k xs i n)) (hchild k xs i n) n"
    and "hok k (hswap xs i (hchild k xs i n)) (hchild k xs i n)"
proof -
  define j where "j = hchild k xs i n"
  note c = hchild_props[OF n(1), where k = k and xs = xs, folded j_def]
  have nth: "hswap xs i j ! m = (if m = j then xs ! i else if m = i then xs ! j else xs ! m)" for m
    using c n by (intro hswap_nth) auto
  have par: "0 < m \<Longrightarrow> hpar m \<noteq> m" for m using hpar_less[of m] by auto
  have gr: "hpar j < j" using c by simp
  show "hok k (hswap xs i (hchild k xs i n)) (hchild k xs i n)"
    using less c unfolding j_def[symmetric] hok_def nth by (simp add: order_less_imp_le)
  have ok: "hok k (hswap xs i j) m" if "0 < m" "m < n" "m \<noteq> j" "hpar m \<noteq> j" for m
  proof (cases "m = i")
    case True
    then have "k (xs ! hpar i) \<le> k (xs ! j)" using inv that c by (auto simp: down_inv_def)
    then show ?thesis using True that par[of m] c(2) unfolding hok_def nth by simp
  next
    case False
    show ?thesis
    proof (cases "hpar m = i")
      case True
      then show ?thesis using c(4)[OF that(1,2)] that False unfolding hok_def nth using c(2) by simp
    next
      case ni: False
      then have "hok k xs m" using inv that False by (auto simp: down_inv_def)
      then show ?thesis using that False ni unfolding hok_def nth by simp
    qed
  qed
  have "k (hswap xs i j ! hpar j) \<le> k (hswap xs i j ! m)" if "0 < m" "m < n" "hpar m = j" for m
  proof -
    have "j < m" using that hpar_less[of m] by simp
    moreover have "hok k xs m" using inv that c \<open>j < m\<close> by (auto simp: down_inv_def)
    ultimately show ?thesis using that c unfolding hok_def nth by auto
  qed
  with ok show "down_inv k (hswap xs i (hchild k xs i n)) (hchild k xs i n) n"
    unfolding j_def[symmetric] by (auto simp: down_inv_def)
qed

lemma heap_down_frame:
  "i < n \<Longrightarrow> n \<le> length xs \<Longrightarrow>
   length (fst (heap_down k xs i n)) = length xs \<and> mset (fst (heap_down k xs i n)) = mset xs \<and>
   (\<forall>m \<ge> n. fst (heap_down k xs i n) ! m = xs ! m) \<and> i \<le> snd (heap_down k xs i n)"
proof (induction "n - i" arbitrary: xs i rule: less_induct)
  case less
  show ?case
  proof (cases "n \<le> 2 * i + 1 \<or> \<not> k (xs ! hchild k xs i n) < k (xs ! i)")
    case False
    then have n: "2 * i + 1 < n" by simp
    note c = hchild_props[OF n, where k = k and xs = xs]
    let ?j = "hchild k xs i n"
    have "n - ?j < n - i" using c by simp
    from less.hyps[OF this c(3), of "hswap xs i ?j"] show ?thesis
      using False less.prems c by (auto simp: heap_down_unfold[of k xs i n] hswap_nth)
  qed (simp add: heap_down_unfold[of k xs i n])
qed

lemma heap_down_ok:
  "down_inv k xs i n \<Longrightarrow> i < n \<Longrightarrow> n \<le> length xs \<Longrightarrow>
   (if snd (heap_down k xs i n) = i
    then fst (heap_down k xs i n) = xs \<and> (\<forall>m. 0 < m \<and> m < n \<and> m \<noteq> i \<longrightarrow> hok k xs m)
    else is_heap k (fst (heap_down k xs i n)) n)"
proof (induction "n - i" arbitrary: xs i rule: less_induct)
  case less
  let ?j = "hchild k xs i n"
  show ?case
  proof (cases "n \<le> 2 * i + 1 \<or> \<not> k (xs ! ?j) < k (xs ! i)")
    case True
    have "hok k xs m" if m: "0 < m" "m < n" "m \<noteq> i" for m
    proof (cases "hpar m = i")
      case c: True
      then have "2 * i + 1 < n" using m hpar_child[of m i] by auto
      then show ?thesis using c True hchild_props(4)[of i n m k xs] m by (auto simp: hok_def)
    qed (use less.prems(1) m in \<open>auto simp: down_inv_def\<close>)
    then show ?thesis using True by (simp add: heap_down_unfold[of k xs i n])
  next
    case False
    then have n: "2 * i + 1 < n" and lt: "k (xs ! ?j) < k (xs ! i)" by auto
    note c = hchild_props[OF n, where k = k and xs = xs]
    note sw = down_inv_swap[OF less.prems(1) n less.prems(3) lt]
    let ?r = "heap_down k (hswap xs i ?j) ?j n"
    have u: "heap_down k xs i n = ?r" using False by (simp add: heap_down_unfold[of k xs i n])
    have "n - ?j < n - i" using c by simp
    from less.hyps[OF this sw(1) c(3)] less.prems(3)
    have ih: "if snd ?r = ?j
      then fst ?r = hswap xs i ?j \<and> (\<forall>m. 0 < m \<and> m < n \<and> m \<noteq> ?j \<longrightarrow> hok k (hswap xs i ?j) m)
      else is_heap k (fst ?r) n" by simp
    have "is_heap k (fst ?r) n"
    proof (cases "snd ?r = ?j")
      case True
      then show ?thesis using ih sw(2) unfolding is_heap_def by metis
    qed (use ih in simp)
    moreover have "?j \<le> snd ?r" using heap_down_frame[OF c(3), of "hswap xs i ?j" k] less.prems(3) by simp
    ultimately show ?thesis using u c(2) by simp
  qed
qed

section \<open>Push, Pop and Remove\<close>

abbreviation heap_of :: "('a \<Rightarrow> 'k :: linorder) \<Rightarrow> 'a list \<Rightarrow> bool" where
  "heap_of k xs \<equiv> is_heap k xs (length xs)"

lemma heap_Push_ok:
  assumes "heap_of k xs"
  shows "heap_of k (heap_Push k x xs)" "mset (heap_Push k x xs) = add_mset x (mset xs)"
proof -
  have "hok k (xs @ [x]) m" if "0 < m" "m < length xs" for m
    using assms that hpar_less[of m] by (auto simp: is_heap_def hok_def nth_append)
  moreover have "hpar m \<noteq> length xs" if "0 < m" "m < Suc (length xs)" for m
    using hpar_less[OF that(1)] that(2) by simp
  ultimately have "up_inv k (xs @ [x]) (length xs) (Suc (length xs))" by (auto simp: up_inv_def less_Suc_eq)
  from heap_up_ok[OF this] show "heap_of k (heap_Push k x xs)"
      "mset (heap_Push k x xs) = add_mset x (mset xs)"
    by (simp_all add: heap_Push_def heap_up_length)
qed

text \<open>What is left after the last element is cut off.\<close>

lemma heap_cut:
  assumes "is_heap k ys n" "length ys = Suc n"
  shows "heap_of k (butlast ys)" "mset ys = add_mset (last ys) (mset (butlast ys))" "last ys = ys ! n"
proof -
  have ne: "ys \<noteq> []" using assms(2) by auto
  have "hok k (butlast ys) m" if "0 < m" "m < n" for m
    using assms that hpar_less[of m] by (auto simp: is_heap_def hok_def nth_butlast)
  then show "heap_of k (butlast ys)" using assms(2) by (simp add: is_heap_def)
  show "mset ys = add_mset (last ys) (mset (butlast ys))"
    using append_butlast_last_id[OF ne] mset_append[of "butlast ys" "[last ys]"] by simp
  show "last ys = ys ! n" using ne assms(2) by (simp add: last_conv_nth)
qed

lemma heap_Pop_ok:
  assumes h: "heap_of k xs" and p: "heap_Pop k xs = Some (x, ys)"
  shows "heap_of k ys" "mset xs = add_mset x (mset ys)" "x = xs ! 0" "\<And>y. y \<in> set xs \<Longrightarrow> k x \<le> k y"
proof -
  obtain n where n: "length xs = Suc n" using p by (cases xs) (auto simp: heap_Pop_def)
  let ?s = "hswap xs 0 n" and ?z = "fst (heap_down k (hswap xs 0 n) 0 n)"
  have nth: "?s ! m = (if m = n then xs ! 0 else if m = 0 then xs ! n else xs ! m)" for m
    using n by (cases "n = 0") (auto simp: hswap_nth, simp_all add: hswap_def)
  have hs: "is_heap k ?z n \<and> length ?z = length xs \<and> mset ?z = mset xs \<and> ?z ! n = xs ! 0"
  proof (cases "n = 0")
    case True
    then show ?thesis using n by (simp add: heap_down_unfold is_heap_def hswap_def)
  next
    case False
    have inv: "down_inv k ?s 0 n"
      using h n hpar_less unfolding down_inv_def is_heap_def hok_def nth by (auto dest: less_trans)
    have fr: "length ?z = length xs" "mset ?z = mset xs" "?z ! n = xs ! 0"
      using heap_down_frame[of 0 n ?s k] False n nth by auto
    have "is_heap k ?z n"
      using heap_down_ok[OF inv] False n by (auto simp: is_heap_def split: if_splits)
    with fr show ?thesis by simp
  qed
  have e: "x = last ?z" "ys = butlast ?z" using p n by (auto simp: heap_Pop_def Let_def split: if_splits)
  note c = heap_cut[of k ?z n]
  show "heap_of k ys" "mset xs = add_mset x (mset ys)" "x = xs ! 0" using c hs e n by auto
  fix y assume "y \<in> set xs"
  then obtain m where "m < length xs" "y = xs ! m" by (auto simp: in_set_conv_nth)
  then show "k x \<le> k y" using is_heap_top[OF h, of m] \<open>x = xs ! 0\<close> by simp
qed

lemma heap_Remove_ok:
  assumes h: "heap_of k xs" and p: "heap_Remove k i xs = Some (x, ys)"
  shows "heap_of k ys" "mset xs = add_mset x (mset ys)" "x = xs ! i"
proof -
  obtain n where n: "length xs = Suc n" and i: "i < length xs"
    using p by (cases xs) (auto simp: heap_Remove_def split: if_splits)
  let ?s = "hswap xs i n" and ?d = "heap_down k (hswap xs i n) i n"
  let ?z = "if n = i then xs else if snd ?d > i then fst ?d else heap_up k (fst ?d) i"
  have hs: "is_heap k ?z n \<and> length ?z = length xs \<and> mset ?z = mset xs \<and> ?z ! n = xs ! i"
  proof (cases "n = i")
    case True
    then show ?thesis using h n by (auto simp: is_heap_def)
  next
    case False
    then have li: "i < n" using i n by simp
    have nth: "?s ! m = (if m = n then xs ! i else if m = i then xs ! n else xs ! m)" for m
      using n li by (simp add: hswap_nth)
    have step: "k (xs ! hpar m) \<le> k (xs ! m)" if "0 < m" "m < n" for m
      using h n that by (auto simp: is_heap_def hok_def)
    have ch: "k (?s ! hpar i) \<le> k (?s ! m)" if "0 < i" "0 < m" "m < n" "hpar m = i" for m
    proof -
      have "k (xs ! hpar i) \<le> k (xs ! i)" "k (xs ! i) \<le> k (xs ! m)" using step[of i] step[of m] that li by auto
      then show ?thesis using that hpar_less[of i] hpar_less[of m] li unfolding nth by auto
    qed
    have "hok k ?s m" if "0 < m" "m < n" "m \<noteq> i" "hpar m \<noteq> i" for m
      using step[of m] that hpar_less[of m] unfolding hok_def nth by simp
    with ch have inv: "down_inv k ?s i n" by (simp add: down_inv_def)
    note fr = heap_down_frame[OF li, of ?s k] and ok = heap_down_ok[OF inv li]
    show ?thesis
    proof (cases "snd ?d > i")
      case True
      then show ?thesis using ok fr False n i nth by simp
    next
      case nm: False
      then have e: "fst ?d = ?s" "\<forall>m. 0 < m \<and> m < n \<and> m \<noteq> i \<longrightarrow> hok k ?s m" using ok fr n by (auto split: if_splits)
      then have "up_inv k ?s i n" using ch by (auto simp: up_inv_def)
      from heap_up_ok[OF this li] show ?thesis using nm False e n i nth by (simp add: heap_up_length)
    qed
  qed
  have e: "x = last ?z" "ys = butlast ?z"
    using p i n by (auto simp: heap_Remove_def Let_def split: if_splits prod.splits)
  from heap_cut[of k ?z n] show "heap_of k ys" "mset xs = add_mset x (mset ys)" "x = xs ! i"
    using hs e n by auto
qed

lemma heap_Remove_some: "i < length xs \<Longrightarrow> \<exists>ys. heap_Remove k i xs = Some ys"
  by (auto simp: heap_Remove_def Let_def split: prod.splits)

lemma heap_Pop_some: "xs \<noteq> [] \<Longrightarrow> \<exists>ys. heap_Pop k xs = Some ys"
  by (auto simp: heap_Pop_def Let_def)

end
