(* ===== verification/Hptimer.thy ===== *)
theory Hptimer
  imports Go_Prelude Go_Heap "HOL-Library.AList" "HOL-Library.Product_Lexorder"
begin

text \<open>
  \<open>transport/hptimer\<close>: the timer engine with its heap of tasks and index, its run loop, and the server
  around it. A context is the list of its own identifier and those of its ancestors, and a store keeps the
  identifiers that are cancelled; the zero list is \<open>context.Background\<close>. Parameters are the cron
  expression library \<open>cron\<close> (what \<open>Parse\<close> returns: the function \<open>Next\<close>, or an error) and the times
  \<open>time.Now\<close> returns. The caller is taken not to change a task after it has handed it over. The sections
  under the engine's mutex are functions; the relation \<open>hp_step\<close> interleaves them.
\<close>

section \<open>Contexts\<close>

type_synonym ctx = "nat list"

record cx_store =
  cx_next :: nat
  cx_cancelled :: "nat list"

definition cx_WithCancel :: "ctx \<Rightarrow> cx_store \<Rightarrow> ctx \<times> nat \<times> cx_store" where
  "cx_WithCancel parent cx = (cx_next cx # parent, cx_next cx, cx\<lparr>cx_next := Suc (cx_next cx)\<rparr>)"

definition cx_cancel :: "nat \<Rightarrow> cx_store \<Rightarrow> cx_store" where
  "cx_cancel c cx = cx\<lparr>cx_cancelled := c # cx_cancelled cx\<rparr>"

definition cx_err :: "cx_store \<Rightarrow> ctx \<Rightarrow> bool" where
  "cx_err cx c \<longleftrightarrow> list_ex (\<lambda>i. i \<in> set (cx_cancelled cx)) c"

section \<open>Tasks\<close>

record ('d, 'cb) timer_task =
  tt_ID :: string
  tt_At :: go_time
  tt_Interval :: duration
  tt_Cron :: string
  tt_Data :: "'d option"
  tt_Priority :: int
  tt_Callback :: "'cb option"
  tt_Ctx :: "ctx option"
  tt_cancel :: "nat option"

abbreviation PriorityHigh :: int where "PriorityHigh \<equiv> 0"
abbreviation PriorityMedium :: int where "PriorityMedium \<equiv> 1"
abbreviation PriorityLow :: int where "PriorityLow \<equiv> 2"

datatype ('d, 'cb) tt_opt =
  Tt_WithInterval duration
| Tt_WithCron string
| Tt_WithData "'d option"
| Tt_WithCallback "'cb option"
| Tt_WithPriority int
| Tt_WithContext "ctx option"

fun tt_apply ::
  "('d, 'cb) tt_opt \<Rightarrow> ('d, 'cb) timer_task \<times> cx_store \<Rightarrow> ('d, 'cb) timer_task \<times> cx_store" where
  "tt_apply (Tt_WithInterval d) (t, cx) = (t\<lparr>tt_Interval := d\<rparr>, cx)"
| "tt_apply (Tt_WithCron e) (t, cx) = (t\<lparr>tt_Cron := e\<rparr>, cx)"
| "tt_apply (Tt_WithData v) (t, cx) = (t\<lparr>tt_Data := v\<rparr>, cx)"
| "tt_apply (Tt_WithCallback cb) (t, cx) = (t\<lparr>tt_Callback := cb\<rparr>, cx)"
| "tt_apply (Tt_WithPriority p) (t, cx) = (t\<lparr>tt_Priority := p\<rparr>, cx)"
| "tt_apply (Tt_WithContext None) (t, cx) = (t, cx)"
| "tt_apply (Tt_WithContext (Some parent)) (t, cx) =
     (let (c, i, cx) = cx_WithCancel parent cx in (t\<lparr>tt_Ctx := Some c, tt_cancel := Some i\<rparr>, cx))"

definition NewTimerTask ::
  "string \<Rightarrow> go_time \<Rightarrow> ('d, 'cb) tt_opt list \<Rightarrow> cx_store \<Rightarrow> ('d, 'cb) timer_task \<times> cx_store" where
  "NewTimerTask tid t0 opts cx =
     (let (c, i, cx) = cx_WithCancel [] cx;
          t = \<lparr>tt_ID = tid, tt_At = t0, tt_Interval = 0, tt_Cron = '''', tt_Data = None,
               tt_Priority = PriorityLow, tt_Callback = None, tt_Ctx = Some c, tt_cancel = Some i\<rparr>;
          (t, cx) = fold tt_apply opts (t, cx)
      in case (tt_Ctx t, tt_cancel t) of
           (Some parent, None) \<Rightarrow>
             (let (c, i, cx) = cx_WithCancel parent cx in (t\<lparr>tt_Ctx := Some c, tt_cancel := Some i\<rparr>, cx))
         | _ \<Rightarrow> (t, cx))"

text \<open>\<open>Less\<close> compares the times and, for equal times, the priorities: the order of these pairs.\<close>

definition tt_key :: "('d, 'cb) timer_task \<Rightarrow> go_time \<times> int" where
  "tt_key t = (tt_At t, tt_Priority t)"

definition th_Less :: "('d, 'cb) timer_task list \<Rightarrow> nat \<Rightarrow> nat \<Rightarrow> bool" where
  "th_Less h i j =
     (if tt_At (h ! i) \<noteq> tt_At (h ! j) then tt_At (h ! i) < tt_At (h ! j)
      else tt_Priority (h ! i) < tt_Priority (h ! j))"

lemma th_Less_key: "th_Less h i j \<longleftrightarrow> tt_key (h ! i) < tt_key (h ! j)"
  by (auto simp: th_Less_def tt_key_def less_prod_def')

section \<open>The engine\<close>

datatype 'o hp_observer = Obs_Self | Obs_Ext 'o

record ('d, 'cb, 'o) hp_timer =
  ht_heap :: "('d, 'cb) timer_task list"
  ht_tasks :: "(string \<times> ('d, 'cb) timer_task) list"
  ht_timer :: bool \<comment> \<open>the timer is not nil\<close>
  ht_running :: bool
  ht_ctx :: ctx
  ht_cancel :: nat
  ht_wakeup :: bool \<comment> \<open>the channel of capacity one holds a signal\<close>
  ht_observer :: "'o hp_observer option"
  ht_cx :: cx_store

definition NewHighPrecisionTimer :: "'o option \<Rightarrow> cx_store \<Rightarrow> ('d, 'cb, 'o) hp_timer" where
  "NewHighPrecisionTimer obs cx =
     (let (c, i, cx) = cx_WithCancel [] cx
      in \<lparr>ht_heap = [], ht_tasks = [], ht_timer = False, ht_running = False, ht_ctx = c, ht_cancel = i,
          ht_wakeup = False,
          ht_observer = Some (case obs of None \<Rightarrow> Obs_Self | Some ob \<Rightarrow> Obs_Ext ob), ht_cx = cx\<rparr>)"

definition ht_SetObserver :: "'o hp_observer option \<Rightarrow> ('d, 'cb, 'o) hp_timer \<Rightarrow> ('d, 'cb, 'o) hp_timer" where
  "ht_SetObserver obs ht = ht\<lparr>ht_observer := obs\<rparr>"

text \<open>\<open>Start\<close> also says whether it has started a run loop.\<close>

definition ht_Start :: "('d, 'cb, 'o) hp_timer \<Rightarrow> bool \<times> ('d, 'cb, 'o) hp_timer" where
  "ht_Start ht =
     (if ht_running ht then (False, ht)
      else let ht = ht\<lparr>ht_running := True\<rparr>
           in (True,
               if cx_err (ht_cx ht) (ht_ctx ht)
               then let (c, i, cx) = cx_WithCancel [] (ht_cx ht)
                    in ht\<lparr>ht_ctx := c, ht_cancel := i, ht_cx := cx\<rparr>
               else ht))"

text \<open>
  \<open>Stop\<close> first cancels the engine's context, outside the mutex, then runs its locked section, then waits
  for the run loops to end.
\<close>

definition ht_Stop_cancel :: "('d, 'cb, 'o) hp_timer \<Rightarrow> ('d, 'cb, 'o) hp_timer" where
  "ht_Stop_cancel ht = ht\<lparr>ht_cx := cx_cancel (ht_cancel ht) (ht_cx ht)\<rparr>"

definition tt_do_cancel :: "('d, 'cb) timer_task \<Rightarrow> cx_store \<Rightarrow> cx_store" where
  "tt_do_cancel t cx = (case tt_cancel t of None \<Rightarrow> cx | Some c \<Rightarrow> cx_cancel c cx)"

definition ht_Stop_locked :: "('d, 'cb, 'o) hp_timer \<Rightarrow> ('d, 'cb, 'o) hp_timer" where
  "ht_Stop_locked ht =
     (if \<not> ht_running ht then ht
      else ht\<lparr>ht_running := False, ht_cx := fold (\<lambda>(_, t). tt_do_cancel t) (ht_tasks ht) (ht_cx ht)\<rparr>)"

text \<open>
  \<open>AddTask\<close> of a task that is not nil (for nil it returns the empty identifier). It also returns the
  task as it has changed it. The comparison of pointers \<open>ht.heap[0] == task\<close> is a comparison of the
  identifiers, which are distinct in the heap.
\<close>

definition ht_init_ctx ::
  "('d, 'cb) timer_task \<Rightarrow> ('d, 'cb, 'o) hp_timer \<Rightarrow> ('d, 'cb) timer_task \<times> ('d, 'cb, 'o) hp_timer" where
  "ht_init_ctx task ht =
     (if tt_Ctx task = None
      then let (c, i, cx) = cx_WithCancel [] (ht_cx ht)
           in (task\<lparr>tt_Ctx := Some c, tt_cancel := Some i\<rparr>, ht\<lparr>ht_cx := cx\<rparr>)
      else (task, ht))"

text \<open>The first time of a cron task; \<open>None\<close> when the expression is malformed.\<close>

definition ht_init_at ::
  "(string \<Rightarrow> (go_time \<Rightarrow> go_time) option) \<Rightarrow> go_time \<Rightarrow> ('d, 'cb) timer_task \<Rightarrow> ('d, 'cb) timer_task option" where
  "ht_init_at cron now task =
     (if tt_At task = zero_Time \<and> tt_Cron task \<noteq> ''''
      then case cron (tt_Cron task) of Some next \<Rightarrow> Some (task\<lparr>tt_At := next now\<rparr>) | None \<Rightarrow> None
      else Some task)"

definition ht_enqueue :: "('d, 'cb) timer_task \<Rightarrow> ('d, 'cb, 'o) hp_timer \<Rightarrow> ('d, 'cb, 'o) hp_timer" where
  "ht_enqueue task ht =
     (let ht = ht\<lparr>ht_heap := heap_Push tt_key task (ht_heap ht),
                  ht_tasks := AList.update (tt_ID task) task (ht_tasks ht)\<rparr>
      in if ht_timer ht \<and> ht_heap ht \<noteq> [] \<and> tt_ID (ht_heap ht ! 0) = tt_ID task
         then ht\<lparr>ht_wakeup := True\<rparr> else ht)"

definition ht_AddTask ::
  "(string \<Rightarrow> (go_time \<Rightarrow> go_time) option) \<Rightarrow> go_time \<Rightarrow> ('d, 'cb) timer_task \<Rightarrow> ('d, 'cb, 'o) hp_timer \<Rightarrow>
   string \<times> ('d, 'cb) timer_task \<times> ('d, 'cb, 'o) hp_timer" where
  "ht_AddTask cron now task ht =
     (if \<not> ht_running ht \<or> tt_ID task = '''' then ('''', task, ht)
      else let (task, ht) = ht_init_ctx task ht
           in case ht_init_at cron now task of
                None \<Rightarrow> ('''', task, ht)
              | Some task \<Rightarrow>
                  if tt_At task = zero_Time then ('''', task, ht)
                  else if map_of (ht_tasks ht) (tt_ID task) \<noteq> None then ('''', task, ht)
                  else (tt_ID task, task, ht_enqueue task ht))"

fun ht_index :: "string \<Rightarrow> ('d, 'cb) timer_task list \<Rightarrow> nat option" where
  "ht_index tid [] = None"
| "ht_index tid (t # ts) = (if tt_ID t = tid then Some 0 else map_option Suc (ht_index tid ts))"

definition ht_RemoveTask :: "string \<Rightarrow> ('d, 'cb, 'o) hp_timer \<Rightarrow> bool \<times> ('d, 'cb, 'o) hp_timer" where
  "ht_RemoveTask tid ht =
     (case map_of (ht_tasks ht) tid of
        None \<Rightarrow> (False, ht)
      | Some task \<Rightarrow>
          if \<not> ht_running ht then (False, ht)
          else (True,
                ht\<lparr>ht_cx := tt_do_cancel task (ht_cx ht),
                   ht_heap := (case Option.bind (ht_index tid (ht_heap ht)) (\<lambda>i. heap_Remove tt_key i (ht_heap ht)) of
                                 None \<Rightarrow> ht_heap ht | Some (_, h) \<Rightarrow> h),
                   ht_tasks := AList.delete tid (ht_tasks ht)\<rparr>))"

section \<open>The run loop\<close>

text \<open>
  The locked section of one round of \<open>run\<close>: leave the loop, sleep a millisecond, fire a task, or wait on a
  timer. The context the loop will select on comes with the answer.
\<close>

datatype ('d, 'cb) hp_round =
  R_Exit | R_Idle ctx | R_Fire "('d, 'cb) timer_task" | R_Wait duration ctx

definition ht_round ::
  "go_time \<Rightarrow> ('d, 'cb, 'o) hp_timer \<Rightarrow> ('d, 'cb) hp_round \<times> ('d, 'cb, 'o) hp_timer" where
  "ht_round now ht =
     (if \<not> ht_running ht \<or> cx_err (ht_cx ht) (ht_ctx ht) then (R_Exit, ht)
      else case heap_Pop tt_key (ht_heap ht) of
             None \<Rightarrow> (R_Idle (ht_ctx ht), ht)
           | Some (_, h) \<Rightarrow>
               let nextTask = ht_heap ht ! 0; delay = time_Sub (tt_At nextTask) now
               in if delay \<le> 0
                  then (R_Fire nextTask, ht\<lparr>ht_heap := h, ht_tasks := AList.delete (tt_ID nextTask) (ht_tasks ht)\<rparr>)
                  else (R_Wait delay (ht_ctx ht), ht\<lparr>ht_timer := True\<rparr>))"

text \<open>The task that \<open>handleRepeatTask\<close> hands to \<open>AddTask\<close>, if any; a nil context panics.\<close>

definition ht_repeat ::
  "(string \<Rightarrow> (go_time \<Rightarrow> go_time) option) \<Rightarrow> cx_store \<Rightarrow> ('d, 'cb) timer_task \<Rightarrow> go_time \<Rightarrow>
   ('d, 'cb) timer_task option option" where
  "ht_repeat cron cx task now =
     (case tt_Ctx task of
        None \<Rightarrow> None
      | Some c \<Rightarrow> Some
          (if cx_err cx c then None
           else let (nextAt, lp) =
                  (if tt_Interval task > 0 then (now + tt_Interval task, True)
                   else if tt_Cron task \<noteq> ''''
                   then (case cron (tt_Cron task) of Some next \<Rightarrow> (next now, True) | None \<Rightarrow> (zero_Time, False))
                   else (zero_Time, False))
                in if \<not> lp \<or> nextAt = zero_Time then None
                   else Some \<lparr>tt_ID = tt_ID task, tt_At = nextAt, tt_Interval = tt_Interval task,
                              tt_Cron = tt_Cron task, tt_Data = None, tt_Priority = tt_Priority task,
                              tt_Callback = tt_Callback task, tt_Ctx = tt_Ctx task,
                              tt_cancel = tt_cancel task\<rparr>))"

text \<open>\<open>OnTimerTrigger\<close>, the engine as its own observer: \<open>run\<close> is what a callback returns.\<close>

definition ht_OnTimerTrigger ::
  "('cb \<Rightarrow> ctx option \<Rightarrow> string option) \<Rightarrow> ('d, 'cb) timer_task option \<Rightarrow> string option" where
  "ht_OnTimerTrigger run task =
     (case task of
        None \<Rightarrow> None
      | Some t \<Rightarrow> (case tt_Callback t of None \<Rightarrow> None | Some cb \<Rightarrow> run cb (tt_Ctx t)))"

section \<open>Interleavings\<close>

text \<open>Where a run loop stands between its locked sections.\<close>

datatype ('d, 'cb) hp_pc =
  P_Top
| P_Idle ctx
| P_Waiting ctx
| P_Firing "('d, 'cb) timer_task" go_time
| P_Notified "('d, 'cb) timer_task" go_time
| P_Readd "('d, 'cb) timer_task"
| P_Done

fun hp_after :: "go_time \<Rightarrow> ('d, 'cb) hp_round \<Rightarrow> ('d, 'cb) hp_pc" where
  "hp_after now R_Exit = P_Done"
| "hp_after now (R_Idle c) = P_Idle c"
| "hp_after now (R_Fire t) = P_Firing t now"
| "hp_after now (R_Wait d c) = P_Waiting c"

text \<open>The engine, its run loops, and the calls of observers that were made: the task and the time of the round.\<close>

record ('d, 'cb, 'o) hp_sys =
  hs_ht :: "('d, 'cb, 'o) hp_timer"
  hs_loops :: "('d, 'cb) hp_pc list"
  hs_log :: "('o hp_observer \<times> ('d, 'cb) timer_task \<times> go_time) list"

abbreviation hs_cx :: "('d, 'cb, 'o) hp_sys \<Rightarrow> cx_store" where
  "hs_cx s \<equiv> ht_cx (hs_ht s)"

definition hs_goto :: "nat \<Rightarrow> ('d, 'cb) hp_pc \<Rightarrow> ('d, 'cb, 'o) hp_sys \<Rightarrow> ('d, 'cb, 'o) hp_sys" where
  "hs_goto i pc s = s\<lparr>hs_loops := (hs_loops s)[i := pc]\<rparr>"

definition cx_later :: "cx_store \<Rightarrow> cx_store \<Rightarrow> bool" where
  "cx_later cx cx' \<longleftrightarrow> cx_next cx \<le> cx_next cx' \<and> set (cx_cancelled cx) \<subseteq> set (cx_cancelled cx')"

text \<open>
  Calls of the API by any goroutine, callbacks included; contexts made and cancelled elsewhere; the run
  loops. A round, the check of the fired task with the call of the observer, the decision to repeat and the
  new \<open>AddTask\<close> are separate steps.
\<close>

inductive hp_step ::
  "(string \<Rightarrow> (go_time \<Rightarrow> go_time) option) \<Rightarrow> ('d, 'cb, 'o) hp_sys \<Rightarrow> ('d, 'cb, 'o) hp_sys \<Rightarrow> bool"
  for cron where
  Add: "hp_step cron s (s\<lparr>hs_ht := snd (snd (ht_AddTask cron now task (hs_ht s)))\<rparr>)"
| Remove: "hp_step cron s (s\<lparr>hs_ht := snd (ht_RemoveTask tid (hs_ht s))\<rparr>)"
| Observer: "hp_step cron s (s\<lparr>hs_ht := ht_SetObserver obs (hs_ht s)\<rparr>)"
| Start: "ht_Start (hs_ht s) = (started, ht) \<Longrightarrow>
    hp_step cron s (s\<lparr>hs_ht := ht, hs_loops := hs_loops s @ (if started then [P_Top] else [])\<rparr>)"
| Stop_cancel: "hp_step cron s (s\<lparr>hs_ht := ht_Stop_cancel (hs_ht s)\<rparr>)"
| Stop: "hp_step cron s (s\<lparr>hs_ht := ht_Stop_locked (hs_ht s)\<rparr>)"
| Contexts: "cx_later (hs_cx s) cx \<Longrightarrow> hp_step cron s (s\<lparr>hs_ht := (hs_ht s)\<lparr>ht_cx := cx\<rparr>\<rparr>)"
| Round: "i < length (hs_loops s) \<Longrightarrow> hs_loops s ! i = P_Top \<Longrightarrow> ht_round now (hs_ht s) = (r, ht) \<Longrightarrow>
    hp_step cron s (hs_goto i (hp_after now r) (s\<lparr>hs_ht := ht\<rparr>))"
| Sleep: "i < length (hs_loops s) \<Longrightarrow> hs_loops s ! i = P_Idle c \<Longrightarrow> hp_step cron s (hs_goto i P_Top s)"
| Timer: "i < length (hs_loops s) \<Longrightarrow> hs_loops s ! i = P_Waiting c \<Longrightarrow> hp_step cron s (hs_goto i P_Top s)"
| Wakeup: "i < length (hs_loops s) \<Longrightarrow> hs_loops s ! i = P_Waiting c \<Longrightarrow> ht_wakeup (hs_ht s) \<Longrightarrow>
    hp_step cron s (hs_goto i P_Top (s\<lparr>hs_ht := (hs_ht s)\<lparr>ht_wakeup := False\<rparr>\<rparr>))"
| Leave: "i < length (hs_loops s) \<Longrightarrow> hs_loops s ! i \<in> {P_Idle c, P_Waiting c} \<Longrightarrow> cx_err (hs_cx s) c \<Longrightarrow>
    hp_step cron s (hs_goto i P_Done s)"
| Skip: "i < length (hs_loops s) \<Longrightarrow> hs_loops s ! i = P_Firing t now \<Longrightarrow> tt_Ctx t = Some c \<Longrightarrow>
    cx_err (hs_cx s) c \<Longrightarrow> hp_step cron s (hs_goto i P_Top s)"
| Notify: "i < length (hs_loops s) \<Longrightarrow> hs_loops s ! i = P_Firing t now \<Longrightarrow> tt_Ctx t = Some c \<Longrightarrow>
    \<not> cx_err (hs_cx s) c \<Longrightarrow>
    hp_step cron s (hs_goto i (P_Notified t now)
      (s\<lparr>hs_log := hs_log s @ (case ht_observer (hs_ht s) of None \<Rightarrow> [] | Some ob \<Rightarrow> [(ob, t, now)])\<rparr>))"
| Repeat: "i < length (hs_loops s) \<Longrightarrow> hs_loops s ! i = P_Notified t now \<Longrightarrow>
    ht_repeat cron (hs_cx s) t now = Some r \<Longrightarrow>
    hp_step cron s (hs_goto i (case r of None \<Rightarrow> P_Top | Some t' \<Rightarrow> P_Readd t') s)"
| Readd: "i < length (hs_loops s) \<Longrightarrow> hs_loops s ! i = P_Readd t \<Longrightarrow>
    hp_step cron s (hs_goto i P_Top (s\<lparr>hs_ht := snd (snd (ht_AddTask cron now t (hs_ht s)))\<rparr>))"

definition hp_init :: "'o option \<Rightarrow> cx_store \<Rightarrow> ('d, 'cb, 'o) hp_sys" where
  "hp_init obs cx = \<lparr>hs_ht = NewHighPrecisionTimer obs cx, hs_loops = [], hs_log = []\<rparr>"

section \<open>The index and the heap\<close>

definition tt_ok :: "('d, 'cb) timer_task \<Rightarrow> bool" where
  "tt_ok t \<longleftrightarrow> tt_ID t \<noteq> '''' \<and> tt_At t \<noteq> zero_Time \<and> tt_Ctx t \<noteq> None"

text \<open>
  The tasks are in heap order, their identifiers are distinct, and the index holds exactly them, under
  their identifiers.
\<close>

definition ht_inv :: "('d, 'cb, 'o) hp_timer \<Rightarrow> bool" where
  "ht_inv ht \<longleftrightarrow> heap_of tt_key (ht_heap ht) \<and> distinct (map tt_ID (ht_heap ht)) \<and>
     (\<forall>tid t. map_of (ht_tasks ht) tid = Some t \<longleftrightarrow> t \<in> set (ht_heap ht) \<and> tt_ID t = tid) \<and>
     (\<forall>t \<in> set (ht_heap ht). tt_ok t)"

lemma ht_inv_New: "ht_inv (NewHighPrecisionTimer obs cx)"
  by (simp add: ht_inv_def NewHighPrecisionTimer_def cx_WithCancel_def is_heap_def)

lemma ht_inv_other:
  "ht_heap ht' = ht_heap ht \<Longrightarrow> ht_tasks ht' = ht_tasks ht \<Longrightarrow> ht_inv ht' = ht_inv ht"
  by (simp add: ht_inv_def)

lemma distinct_ids_mset: "distinct (map tt_ID xs) \<Longrightarrow> mset xs = mset ys \<Longrightarrow> distinct (map tt_ID ys)"
  by (metis mset_eq_imp_distinct_iff mset_map)

text \<open>A task enters the heap and the index.\<close>

lemma ht_inv_push:
  assumes "ht_inv ht" "tt_ok t" "map_of (ht_tasks ht) (tt_ID t) = None"
  shows "ht_inv (ht\<lparr>ht_heap := heap_Push tt_key t (ht_heap ht), ht_tasks := AList.update (tt_ID t) t (ht_tasks ht)\<rparr>)"
proof -
  note p = heap_Push_ok[of tt_key "ht_heap ht" t]
  have m: "mset (heap_Push tt_key t (ht_heap ht)) = mset (t # ht_heap ht)" using p(2) assms by (simp add: ht_inv_def)
  then have set: "set (heap_Push tt_key t (ht_heap ht)) = insert t (set (ht_heap ht))"
    by (metis list.set(2) set_mset_mset)
  have new: "tt_ID t \<notin> tt_ID ` set (ht_heap ht)"
    using assms(1,3) unfolding ht_inv_def by (metis imageE option.distinct(1))
  then have "distinct (map tt_ID (t # ht_heap ht))" using assms(1) by (simp add: ht_inv_def)
  then have "distinct (map tt_ID (heap_Push tt_key t (ht_heap ht)))" by (rule distinct_ids_mset) (simp add: m)
  moreover have "\<forall>ta \<in> set (ht_heap ht). tt_ID ta \<noteq> tt_ID t" using new by (metis imageI)
  ultimately show ?thesis using assms p(1) by (auto simp: ht_inv_def set update_conv' split: if_splits)
qed

text \<open>A task leaves both.\<close>

lemma ht_inv_drop:
  assumes "ht_inv ht" "heap_of tt_key h" "mset (ht_heap ht) = add_mset t (mset h)"
  shows "ht_inv (ht\<lparr>ht_heap := h, ht_tasks := AList.delete (tt_ID t) (ht_tasks ht)\<rparr>)"
proof -
  have m: "mset (ht_heap ht) = mset (t # h)" using assms(3) by simp
  then have set: "set (ht_heap ht) = insert t (set h)" by (metis list.set(2) set_mset_mset)
  have d: "distinct (map tt_ID (t # h))"
    using assms(1) m unfolding ht_inv_def by (blast intro: distinct_ids_mset)
  then have "\<forall>u \<in> set h. tt_ID u \<noteq> tt_ID t" by (simp add: image_iff) metis
  then show ?thesis using assms(1,2) d by (auto simp: ht_inv_def set delete_conv' split: if_splits)
qed

lemma cx_later_refl [simp]: "cx_later cx cx"
  by (simp add: cx_later_def)

lemma cx_later_trans: "cx_later a b \<Longrightarrow> cx_later b c \<Longrightarrow> cx_later a c"
  by (auto simp: cx_later_def)

lemma cx_later_cancel: "cx_later cx (cx_cancel c cx)" "cx_later cx (tt_do_cancel t cx)"
  by (auto simp: cx_later_def cx_cancel_def tt_do_cancel_def split: option.splits)

lemma cx_later_err: "cx_later cx cx' \<Longrightarrow> cx_err cx c \<Longrightarrow> cx_err cx' c"
  by (auto simp: cx_later_def cx_err_def list_ex_iff)

text \<open>What \<open>AddTask\<close> does, in one place: it refuses, or it queues the task.\<close>

lemma ht_AddTask_cases:
  assumes "ht_AddTask cron now task ht = (r, t, ht')"
  obtains (refused) "r = ''''" "ht_heap ht' = ht_heap ht" "ht_tasks ht' = ht_tasks ht" "cx_later (ht_cx ht) (ht_cx ht')"
  | (queued) "r = tt_ID task" "r \<noteq> ''''" "ht_running ht" "tt_ID t = tt_ID task" "tt_ok t"
      "map_of (ht_tasks ht) (tt_ID t) = None" "cx_later (ht_cx ht) (ht_cx ht')"
      "ht_heap ht' = heap_Push tt_key t (ht_heap ht)" "ht_tasks ht' = AList.update (tt_ID t) t (ht_tasks ht)"
proof -
  obtain t1 h1 where i: "ht_init_ctx task ht = (t1, h1)" by fastforce
  have h1: "ht_heap h1 = ht_heap ht" "ht_tasks h1 = ht_tasks ht" "cx_later (ht_cx ht) (ht_cx h1)"
      "tt_ID t1 = tt_ID task" "tt_Ctx t1 \<noteq> None"
    using i by (auto simp: ht_init_ctx_def cx_WithCancel_def cx_later_def Let_def split: if_splits)
  have at: "tt_ID t2 = tt_ID task \<and> tt_Ctx t2 = tt_Ctx t1" if "ht_init_at cron now t1 = Some t2" for t2
    using that h1 by (auto simp: ht_init_at_def split: if_splits option.splits)
  show thesis
  proof (cases "r = ''''")
    case True
    then have "ht' = ht \<or> ht' = h1"
      using assms by (auto simp: ht_AddTask_def i dest: at split: if_splits option.splits)
    then have "ht_heap ht' = ht_heap ht" "ht_tasks ht' = ht_tasks ht" "cx_later (ht_cx ht) (ht_cx ht')"
      using h1 by auto
    with True show thesis by (rule refused)
  next
    case False
    then have "ht_running ht" "ht_init_at cron now t1 = Some t" "tt_At t \<noteq> zero_Time" "tt_ID task \<noteq> ''''"
        "map_of (ht_tasks h1) (tt_ID t) = None" "r = tt_ID t" "ht' = ht_enqueue t h1"
      using assms by (auto simp: ht_AddTask_def i split: if_splits option.splits)
    moreover have "tt_ID t = tt_ID task" "tt_Ctx t \<noteq> None" using at calculation h1 by simp_all
    ultimately show thesis using h1 False by (intro queued) (simp_all add: tt_ok_def ht_enqueue_def Let_def)
  qed
qed

lemma ht_inv_AddTask: "ht_inv ht \<Longrightarrow> ht_inv (snd (snd (ht_AddTask cron now task ht)))"
proof -
  assume inv: "ht_inv ht"
  obtain r t ht' where a: "ht_AddTask cron now task ht = (r, t, ht')" by (metis prod_cases3)
  from a have "ht_inv ht'"
  proof (cases rule: ht_AddTask_cases)
    case refused
    then show ?thesis using inv ht_inv_other by blast
  next
    case queued
    from ht_inv_push[OF inv queued(5,6)] show ?thesis by (rule ht_inv_other[THEN iffD1, rotated 2]) (simp_all add: queued)
  qed
  with a show ?thesis by simp
qed

lemma ht_index_Some:
  "ht_index tid h = Some i \<Longrightarrow> i < length h \<and> tt_ID (h ! i) = tid"
  by (induction h arbitrary: i) (auto split: if_splits)

lemma ht_index_None: "ht_index tid h = None \<longleftrightarrow> tid \<notin> tt_ID ` set h"
  by (induction h) auto

text \<open>\<open>RemoveTask\<close> of a task that waits takes it out of the heap, whatever its place there.\<close>

lemma ht_RemoveTask_heap:
  assumes "ht_inv ht" "map_of (ht_tasks ht) tid = Some t"
  obtains h where
    "(case Option.bind (ht_index tid (ht_heap ht)) (\<lambda>i. heap_Remove tt_key i (ht_heap ht)) of
        None \<Rightarrow> ht_heap ht | Some (_, h) \<Rightarrow> h) = h"
    "heap_of tt_key h" "mset (ht_heap ht) = add_mset t (mset h)" "tt_ID t = tid"
proof -
  have t: "t \<in> set (ht_heap ht)" "tt_ID t = tid" using assms by (auto simp: ht_inv_def)
  then obtain i where i: "ht_index tid (ht_heap ht) = Some i" using ht_index_None[of tid "ht_heap ht"] by auto
  note ix = ht_index_Some[OF i]
  then obtain x h where r: "heap_Remove tt_key i (ht_heap ht) = Some (x, h)"
    using heap_Remove_some[of i "ht_heap ht" tt_key] by auto
  have heap: "heap_of tt_key (ht_heap ht)" using assms(1) by (simp add: ht_inv_def)
  note ok = heap_Remove_ok[OF heap r]
  have "x \<in> set (ht_heap ht) \<and> tt_ID x = tid" using ok(3) ix nth_mem by blast
  then have "map_of (ht_tasks ht) tid = Some x" using assms(1) unfolding ht_inv_def by blast
  then have "x = t" using assms(2) by simp
  then show thesis using ok i r t by (intro that[of h]) auto
qed

lemma ht_inv_RemoveTask: "ht_inv ht \<Longrightarrow> ht_inv (snd (ht_RemoveTask tid ht))"
proof (cases "\<exists>t. map_of (ht_tasks ht) tid = Some t \<and> ht_running ht")
  case True
  assume inv: "ht_inv ht"
  from True obtain t where t: "map_of (ht_tasks ht) tid = Some t" "ht_running ht" by blast
  obtain h where h: "(case Option.bind (ht_index tid (ht_heap ht)) (\<lambda>i. heap_Remove tt_key i (ht_heap ht)) of
        None \<Rightarrow> ht_heap ht | Some (_, h) \<Rightarrow> h) = h"
    "heap_of tt_key h" "mset (ht_heap ht) = add_mset t (mset h)" "tt_ID t = tid"
    using ht_RemoveTask_heap[OF inv t(1)] .
  from ht_inv_drop[OF inv h(2,3)] show ?thesis
    by (rule ht_inv_other[THEN iffD1, rotated 2]) (simp_all add: ht_RemoveTask_def t h(1,4))
qed (auto simp: ht_RemoveTask_def split: option.splits)

text \<open>What a round does, by cases.\<close>

lemma ht_round_cases:
  assumes inv: "ht_inv ht" and r: "ht_round now ht = (r, ht')"
  obtains (quit) "r = R_Exit" "ht' = ht" "\<not> ht_running ht \<or> cx_err (ht_cx ht) (ht_ctx ht)"
  | (idle) "r = R_Idle (ht_ctx ht)" "ht' = ht" "ht_heap ht = []"
  | (fire) t h where "r = R_Fire t" "t \<in> set (ht_heap ht)" "tt_At t \<le> now" "\<forall>u \<in> set (ht_heap ht). tt_key t \<le> tt_key u"
      "ht' = ht\<lparr>ht_heap := h, ht_tasks := AList.delete (tt_ID t) (ht_tasks ht)\<rparr>"
      "heap_of tt_key h" "mset (ht_heap ht) = add_mset t (mset h)"
  | (wait) d where "r = R_Wait d (ht_ctx ht)" "ht' = ht\<lparr>ht_timer := True\<rparr>" "0 < d"
      "\<forall>u \<in> set (ht_heap ht). now < tt_At u"
proof (cases "\<not> ht_running ht \<or> cx_err (ht_cx ht) (ht_ctx ht)")
  case True
  then show thesis using r quit by (simp add: ht_round_def)
next
  case run: False
  show thesis
  proof (cases "heap_Pop tt_key (ht_heap ht)")
    case None
    then have "ht_heap ht = []" using heap_Pop_some[of "ht_heap ht" tt_key] by auto
    moreover have "r = R_Idle (ht_ctx ht)" "ht' = ht" using r None run by (auto simp: ht_round_def)
    ultimately show thesis using idle by blast
  next
    case (Some p)
    obtain t h where p: "p = (t, h)" by fastforce
    have heap: "heap_of tt_key (ht_heap ht)" using inv by (simp add: ht_inv_def)
    note pop = heap_Pop_ok[OF heap Some[unfolded p]]
    have mem: "t \<in> set (ht_heap ht)" using arg_cong[OF pop(2), of set_mset] by simp
    let ?d = "time_Sub (tt_At t) now"
    have sgn: "?d \<le> 0 \<longleftrightarrow> tt_At t \<le> now" by (auto simp: time_Sub_def)
    have eq: "ht_round now ht =
        (if ?d \<le> 0 then (R_Fire t, ht\<lparr>ht_heap := h, ht_tasks := AList.delete (tt_ID t) (ht_tasks ht)\<rparr>)
         else (R_Wait ?d (ht_ctx ht), ht\<lparr>ht_timer := True\<rparr>))"
      using run Some p pop(3) by (simp add: ht_round_def Let_def)
    show thesis
    proof (cases "?d \<le> 0")
      case True
      then show thesis using fire[of t h] eq r pop mem sgn by simp
    next
      case False
      have "now < tt_At u" if "u \<in> set (ht_heap ht)" for u
        using pop(4)[OF that] False sgn by (auto simp: tt_key_def less_eq_prod_def)
      then show thesis using wait[of ?d] eq r False by simp
    qed
  qed
qed

lemma ht_inv_round:
  assumes "ht_inv ht" "ht_round now ht = (r, ht')"
  shows "ht_inv ht'"
  using assms(1,2)
proof (cases rule: ht_round_cases)
  case (fire t h)
  then show ?thesis using ht_inv_drop[OF assms(1)] by simp
qed (use assms(1) in \<open>auto intro: ht_inv_other[THEN iffD1, rotated 2]\<close>)

section \<open>Every interleaving\<close>

text \<open>The tasks a run loop holds have a context, and the task it fires was due at the time of the round.\<close>

fun pc_inv :: "('d, 'cb) hp_pc \<Rightarrow> bool" where
  "pc_inv (P_Firing t now) = (tt_ok t \<and> tt_At t \<le> now)"
| "pc_inv (P_Notified t now) = (tt_ok t \<and> tt_At t \<le> now)"
| "pc_inv (P_Readd t) = tt_ok t"
| "pc_inv _ = True"

definition hp_inv :: "('d, 'cb, 'o) hp_sys \<Rightarrow> bool" where
  "hp_inv s \<longleftrightarrow> ht_inv (hs_ht s) \<and> (\<forall>pc \<in> set (hs_loops s). pc_inv pc) \<and>
     (\<forall>(ob, t, now) \<in> set (hs_log s). tt_At t \<le> now)"

lemma hp_inv_heap: "hp_inv s \<Longrightarrow> ht_inv (hs_ht s)"
  by (simp add: hp_inv_def)

lemma ht_inv_upd [simp]:
  "ht_inv (ht\<lparr>ht_cx := cx\<rparr>) = ht_inv ht" "ht_inv (ht\<lparr>ht_wakeup := b\<rparr>) = ht_inv ht"
  "ht_inv (ht\<lparr>ht_running := b\<rparr>) = ht_inv ht" "ht_inv (ht\<lparr>ht_observer := ob\<rparr>) = ht_inv ht"
  "ht_inv (ht\<lparr>ht_ctx := c\<rparr>) = ht_inv ht" "ht_inv (ht\<lparr>ht_cancel := i\<rparr>) = ht_inv ht"
  by (simp_all add: ht_inv_def)

lemma hp_inv_ht: "hp_inv s \<Longrightarrow> ht_inv ht \<Longrightarrow> hp_inv (s\<lparr>hs_ht := ht\<rparr>)"
  by (simp add: hp_inv_def)

lemma hp_inv_goto: "hp_inv s \<Longrightarrow> pc_inv pc \<Longrightarrow> hp_inv (hs_goto i pc s)"
  unfolding hp_inv_def hs_goto_def by (auto dest!: set_update_subset_insert[THEN subsetD])

lemma hp_inv_pc: "hp_inv s \<Longrightarrow> i < length (hs_loops s) \<Longrightarrow> pc_inv (hs_loops s ! i)"
  by (simp add: hp_inv_def)

lemma pc_inv_after: "ht_inv ht \<Longrightarrow> ht_round now ht = (r, ht') \<Longrightarrow> pc_inv (hp_after now r)"
  using ht_round_cases[of ht now r ht' "pc_inv (hp_after now r)"] by (auto simp: ht_inv_def)

lemma pc_inv_repeat:
  "tt_ok t \<Longrightarrow> ht_repeat cron cx t now = Some (Some t') \<Longrightarrow> tt_ok t'"
  by (auto simp: ht_repeat_def tt_ok_def Let_def split: if_splits option.splits prod.splits)

lemma hp_inv_step: "hp_step cron s s' \<Longrightarrow> hp_inv s \<Longrightarrow> hp_inv s'"
proof (induction rule: hp_step.induct)
  case (Start s started ht)
  have "ht_inv ht"
    using Start.hyps Start.prems
    by (auto simp: ht_Start_def hp_inv_heap cx_WithCancel_def Let_def split: if_splits)
  then show ?case using Start.prems by (auto simp: hp_inv_def)
next
  case (Stop s)
  then show ?case by (auto intro!: hp_inv_ht simp: hp_inv_heap ht_Stop_locked_def)
next
  case (Round i s now r ht)
  have "ht_inv (hs_ht s)" using Round.prems by (simp add: hp_inv_def)
  then show ?case using Round by (intro hp_inv_goto hp_inv_ht) (auto intro: ht_inv_round pc_inv_after)
next
  case (Notify i s t now c)
  have "pc_inv (P_Firing t now)" using hp_inv_pc[OF Notify.prems Notify.hyps(1)] Notify.hyps(2) by simp
  then show ?case using Notify.prems by (intro hp_inv_goto) (auto simp: hp_inv_def split: option.splits)
next
  case (Repeat i s t now r)
  have "pc_inv (P_Notified t now)" using hp_inv_pc[OF Repeat.prems Repeat.hyps(1)] Repeat.hyps(2) by simp
  then show ?case
    using Repeat.prems Repeat.hyps(3) by (intro hp_inv_goto) (auto intro: pc_inv_repeat split: option.splits)
qed (auto intro!: hp_inv_goto hp_inv_ht ht_inv_AddTask ht_inv_RemoveTask
       simp: hp_inv_heap ht_SetObserver_def ht_Stop_cancel_def)

lemma hp_inv_init: "hp_inv (hp_init obs cx)"
  using ht_inv_New by (simp add: hp_inv_def hp_init_def)

abbreviation hp_steps ::
  "(string \<Rightarrow> (go_time \<Rightarrow> go_time) option) \<Rightarrow> ('d, 'cb, 'o) hp_sys \<Rightarrow> ('d, 'cb, 'o) hp_sys \<Rightarrow> bool" where
  "hp_steps cron \<equiv> (hp_step cron)\<^sup>*\<^sup>*"

lemma hp_inv_steps: "hp_steps cron s s' \<Longrightarrow> hp_inv s \<Longrightarrow> hp_inv s'"
  by (induction rule: rtranclp_induct) (auto intro: hp_inv_step)

section \<open>Cancelled contexts\<close>

lemma cx_later_Stop: "cx_later cx (fold (\<lambda>(_, t). tt_do_cancel t) ts cx)"
proof (induction ts arbitrary: cx)
  case (Cons a ts)
  then show ?case using cx_later_trans cx_later_cancel(2) by (cases a) fastforce
qed simp

lemma ht_AddTask_later: "cx_later (ht_cx ht) (ht_cx (snd (snd (ht_AddTask cron now task ht))))"
proof -
  obtain r t ht' where a: "ht_AddTask cron now task ht = (r, t, ht')" by (metis prod_cases3)
  then show ?thesis by (cases rule: ht_AddTask_cases) (auto simp: a)
qed

lemma ht_round_cx: "ht_round now ht = (r, ht') \<Longrightarrow> ht_cx ht' = ht_cx ht"
  by (auto simp: ht_round_def Let_def split: if_splits option.splits)

lemma hs_goto_sel [simp]:
  "hs_ht (hs_goto i pc s) = hs_ht s" "hs_log (hs_goto i pc s) = hs_log s"
  by (simp_all add: hs_goto_def)

lemma hp_step_later: "hp_step cron s s' \<Longrightarrow> cx_later (hs_cx s) (hs_cx s')"
proof (induction rule: hp_step.induct)
  case (Remove s tid)
  show ?case by (auto simp: ht_RemoveTask_def intro: cx_later_cancel split: option.splits)
next
  case (Start s started ht)
  then show ?case by (auto simp: ht_Start_def cx_WithCancel_def cx_later_def Let_def split: if_splits)
qed (auto simp: ht_AddTask_later ht_SetObserver_def ht_Stop_cancel_def ht_Stop_locked_def cx_later_cancel cx_later_Stop
       dest: ht_round_cx)

text \<open>A step appends to the log only the task it has found not cancelled.\<close>

lemma hp_step_log:
  "hp_step cron s s' \<Longrightarrow> \<exists>xs. hs_log s' = hs_log s @ xs \<and>
     (\<forall>(ob, t, now) \<in> set xs. \<exists>c. tt_Ctx t = Some c \<and> \<not> cx_err (hs_cx s) c)"
  by (induction rule: hp_step.induct) (auto split: option.splits)

definition tt_under :: "nat \<Rightarrow> ('d, 'cb) timer_task \<Rightarrow> bool" where
  "tt_under c t \<longleftrightarrow> (case tt_Ctx t of None \<Rightarrow> False | Some cs \<Rightarrow> c \<in> set cs)"

lemma hp_steps_cancelled:
  assumes "hp_steps cron s s'" "c \<in> set (cx_cancelled (hs_cx s))"
  shows "filter (\<lambda>(ob, t, now). tt_under c t) (hs_log s') = filter (\<lambda>(ob, t, now). tt_under c t) (hs_log s)
     \<and> c \<in> set (cx_cancelled (hs_cx s'))"
  using assms(1)
proof (induction rule: rtranclp_induct)
  case (step a b)
  obtain xs where xs: "hs_log b = hs_log a @ xs"
      "\<forall>(ob, t, now) \<in> set xs. \<exists>cs. tt_Ctx t = Some cs \<and> \<not> cx_err (hs_cx a) cs"
    using hp_step_log[OF step.hyps(2)] by blast
  have "filter (\<lambda>(ob, t, now). tt_under c t) xs = []"
    using xs(2) step.IH by (auto simp: filter_empty_conv tt_under_def cx_err_def list_ex_iff split: option.splits)
  then show ?case using step.IH xs(1) hp_step_later[OF step.hyps(2)] by (auto simp: cx_later_def)
qed (simp add: assms(2))

section \<open>The server\<close>

text \<open>
  \<open>mu\<close> held is the flag \<open>sv_mu\<close>: an operation that would have to wait for it is \<open>None\<close>. \<open>Start\<close> is two
  steps, up to the wait for its context and from there on; the answer of the first says whether it has returned.
\<close>

record ('d, 'cb, 'o) hp_server =
  sv_mu :: bool
  sv_started :: bool
  sv_stopping :: bool
  sv_graceful :: bool
  sv_hp :: "('d, 'cb, 'o) hp_timer option"
  sv_observer :: "'o option"

datatype 'o sv_opt = Sv_WithGracefullyShutdown bool | Sv_WithTimerObserver "'o option"

fun sv_apply :: "'o sv_opt \<Rightarrow> ('d, 'cb, 'o) hp_server \<Rightarrow> ('d, 'cb, 'o) hp_server" where
  "sv_apply (Sv_WithGracefullyShutdown b) s = s\<lparr>sv_graceful := b\<rparr>"
| "sv_apply (Sv_WithTimerObserver ob) s = s\<lparr>sv_observer := ob\<rparr>"

definition sv_NewServer :: "'o sv_opt list \<Rightarrow> ('d, 'cb, 'o) hp_server" where
  "sv_NewServer opts = fold sv_apply opts
     \<lparr>sv_mu = False, sv_started = False, sv_stopping = False, sv_graceful = True, sv_hp = None, sv_observer = None\<rparr>"

definition sv_Start_enter :: "cx_store \<Rightarrow> ('d, 'cb, 'o) hp_server \<Rightarrow> (bool \<times> ('d, 'cb, 'o) hp_server) option" where
  "sv_Start_enter cx s =
     (if sv_mu s then None
      else if sv_started s then Some (True, s)
      else Some (False, s\<lparr>sv_mu := True, sv_hp := Some (snd (ht_Start (NewHighPrecisionTimer (sv_observer s) cx))),
                          sv_started := True\<rparr>))"

text \<open>
  \<open>stopInternal\<close>; with a graceful shutdown the engine's \<open>Stop\<close> runs in a goroutine that is given ten
  seconds, which changes when the call returns and not what it does to the engine.
\<close>

definition sv_stopInternal :: "('d, 'cb, 'o) hp_server \<Rightarrow> ('d, 'cb, 'o) hp_server" where
  "sv_stopInternal s =
     (if sv_stopping s then s
      else s\<lparr>sv_hp := map_option (\<lambda>ht. ht_Stop_locked (ht_Stop_cancel ht)) (sv_hp s), sv_stopping := False\<rparr>)"

definition sv_Start_leave :: "('d, 'cb, 'o) hp_server \<Rightarrow> ('d, 'cb, 'o) hp_server" where
  "sv_Start_leave s = (sv_stopInternal (s\<lparr>sv_started := False\<rparr>))\<lparr>sv_mu := False\<rparr>"

definition sv_Stop :: "('d, 'cb, 'o) hp_server \<Rightarrow> ('d, 'cb, 'o) hp_server option" where
  "sv_Stop s =
     (if sv_mu s then None
      else if \<not> sv_started s \<and> \<not> sv_stopping s then Some (sv_stopInternal s)
      else Some (sv_stopInternal (s\<lparr>sv_started := False\<rparr>)))"

definition sv_AddTask ::
  "(string \<Rightarrow> (go_time \<Rightarrow> go_time) option) \<Rightarrow> go_time \<Rightarrow> ('d, 'cb) timer_task \<Rightarrow> ('d, 'cb, 'o) hp_server \<Rightarrow>
   string \<times> ('d, 'cb, 'o) hp_server" where
  "sv_AddTask cron now task s =
     (if \<not> sv_started s then ('''', s)
      else case sv_hp s of
             None \<Rightarrow> ('''', s)
           | Some ht \<Rightarrow> (let (r, _, ht) = ht_AddTask cron now task ht in (r, s\<lparr>sv_hp := Some ht\<rparr>)))"

definition sv_RemoveTask :: "string \<Rightarrow> ('d, 'cb, 'o) hp_server \<Rightarrow> bool \<times> ('d, 'cb, 'o) hp_server" where
  "sv_RemoveTask tid s =
     (if \<not> sv_started s then (False, s)
      else case sv_hp s of
             None \<Rightarrow> (False, s)
           | Some ht \<Rightarrow> (let (r, ht) = ht_RemoveTask tid ht in (r, s\<lparr>sv_hp := Some ht\<rparr>)))"

definition sv_Endpoint :: string where
  "sv_Endpoint = ''hptimer'' @ ''://scheduler''"

section \<open>Properties\<close>

text \<open>
  C7: in every interleaving of calls, run loops and callbacks, the tasks are in heap order with distinct
  identifiers, the index holds exactly the tasks of the heap, every task a run loop holds has a context (so the
  loop never dereferences a nil one), and no observer was called before the task's time.
\<close>

theorem hp_reachable_inv:
  assumes "hp_steps cron (hp_init obs cx) s"
  shows "hp_inv s"
  using assms hp_inv_init by (rule hp_inv_steps)

text \<open>
  A round of the run loop in a reachable state, while the engine runs: with a due task it fires the
  first one by time and then priority and takes it, alone, out of heap and index; with none due it waits on a timer,
  and with no task it sleeps.
\<close>

theorem hp_round_schedules:
  assumes "hp_steps cron (hp_init obs cx) s" and run: "ht_running (hs_ht s)" "\<not> cx_err (hs_cx s) (ht_ctx (hs_ht s))"
    and r: "ht_round now (hs_ht s) = (r, ht')"
  shows "if \<exists>u \<in> set (ht_heap (hs_ht s)). tt_At u \<le> now
     then \<exists>t. r = R_Fire t \<and> tt_At t \<le> now \<and> (\<forall>u \<in> set (ht_heap (hs_ht s)). tt_key t \<le> tt_key u) \<and>
          mset (ht_heap (hs_ht s)) = add_mset t (mset (ht_heap ht')) \<and> map_of (ht_tasks ht') = (map_of (ht_tasks (hs_ht s)))(tt_ID t := None)
     else ht_heap ht' = ht_heap (hs_ht s) \<and> (if ht_heap (hs_ht s) = [] then r = R_Idle (ht_ctx (hs_ht s))
          else \<exists>d > 0. r = R_Wait d (ht_ctx (hs_ht s)))"
proof -
  have inv: "ht_inv (hs_ht s)" using hp_inv_steps[OF assms(1) hp_inv_init] by (rule hp_inv_heap)
  from inv r show ?thesis
  proof (cases rule: ht_round_cases)
    case idle
    then show ?thesis by simp
  next
    case (wait d)
    then have "ht_heap (hs_ht s) \<noteq> []" using r run inv
      by (auto simp: ht_round_def heap_Pop_def)
    with wait show ?thesis by force
  qed (use run in \<open>auto simp: delete_conv'\<close>)
qed


definition ht_accepts ::
  "(string \<Rightarrow> (go_time \<Rightarrow> go_time) option) \<Rightarrow> go_time \<Rightarrow> ('d, 'cb) timer_task \<Rightarrow> ('d, 'cb, 'o) hp_timer \<Rightarrow> bool" where
  "ht_accepts cron now task ht \<longleftrightarrow> ht_running ht \<and> tt_ID task \<noteq> '''' \<and> map_of (ht_tasks ht) (tt_ID task) = None \<and>
     (if tt_At task = zero_Time
      then tt_Cron task \<noteq> '''' \<and> (case cron (tt_Cron task) of None \<Rightarrow> False | Some next \<Rightarrow> next now \<noteq> zero_Time)
      else True)"

text \<open>
  \<open>AddTask\<close> answers the identifier exactly when the engine runs, the identifier is not empty and
  not in use, and the task has a time, its own or the next one of its cron expression; else it answers the empty
  string. Exactly in the first case the task enters the heap and the index.
\<close>

theorem hp_AddTask_verdict:
  "let (r, t, ht') = ht_AddTask cron now task ht
   in if ht_accepts cron now task ht
      then r = tt_ID task \<and> ht_heap ht' = heap_Push tt_key t (ht_heap ht) \<and>
           map_of (ht_tasks ht') = (map_of (ht_tasks ht))(r \<mapsto> t)
      else r = '''' \<and> ht_heap ht' = ht_heap ht \<and> ht_tasks ht' = ht_tasks ht"
proof -
  obtain r t ht' where a: "ht_AddTask cron now task ht = (r, t, ht')" by (metis prod_cases3)
  obtain t1 h1 where i: "ht_init_ctx task ht = (t1, h1)" by fastforce
  then have "ht_tasks h1 = ht_tasks ht" "tt_ID t1 = tt_ID task" "tt_At t1 = tt_At task" "tt_Cron t1 = tt_Cron task"
    by (auto simp: ht_init_ctx_def cx_WithCancel_def Let_def split: if_splits)
  then have acc: "r \<noteq> '''' \<longleftrightarrow> ht_accepts cron now task ht"
    using a by (auto simp: ht_AddTask_def i ht_init_at_def ht_accepts_def split: option.splits if_splits)
  from a show ?thesis
    by (cases rule: ht_AddTask_cases) (use acc in \<open>auto simp: a update_conv'\<close>)
qed

section \<open>Concrete instances\<close>

definition hp_demo_task :: "(nat, nat) timer_task" where
  "hp_demo_task = \<lparr>tt_ID = ''a'', tt_At = 5, tt_Interval = 10, tt_Cron = '''', tt_Data = Some 7, tt_Priority = PriorityLow,
     tt_Callback = None, tt_Ctx = Some [9], tt_cancel = Some 9\<rparr>"

definition hp_demo :: "(nat, nat, nat) hp_sys" where
  "hp_demo = \<lparr>hs_ht = \<lparr>ht_heap = [hp_demo_task], ht_tasks = [(''a'', hp_demo_task)], ht_timer = False,
      ht_running = True, ht_ctx = [0], ht_cancel = 0, ht_wakeup = False, ht_observer = Some Obs_Self,
      ht_cx = \<lparr>cx_next = 10, cx_cancelled = []\<rparr>\<rparr>, hs_loops = [P_Top], hs_log = []\<rparr>"

lemma hp_demo_reachable:
  "hp_steps (\<lambda>_. None) (hp_init None \<lparr>cx_next = 0, cx_cancelled = []\<rparr>) hp_demo"
proof -
  let ?s0 = "hp_init None \<lparr>cx_next = 0, cx_cancelled = []\<rparr> :: (nat, nat, nat) hp_sys"
  let ?cx = "\<lparr>cx_next = 10, cx_cancelled = []\<rparr>"
  let ?s1 = "?s0\<lparr>hs_ht := (hs_ht ?s0)\<lparr>ht_cx := ?cx\<rparr>\<rparr>"
  let ?s2 = "?s1\<lparr>hs_ht := (hs_ht ?s1)\<lparr>ht_running := True\<rparr>, hs_loops := [P_Top]\<rparr>"
  let ?c = "\<lambda>_. None :: (go_time \<Rightarrow> go_time) option"
  have "hp_step ?c ?s0 ?s1"
    by (rule hp_step.Contexts) (simp add: cx_later_def hp_init_def NewHighPrecisionTimer_def cx_WithCancel_def)
  moreover have "hp_step ?c ?s1 ?s2"
    using hp_step.Start[of ?s1 True "(hs_ht ?s1)\<lparr>ht_running := True\<rparr>" ?c]
    by (simp add: hp_init_def NewHighPrecisionTimer_def cx_WithCancel_def ht_Start_def cx_err_def)
  moreover have "hp_step ?c ?s2 hp_demo"
    using hp_step.Add[of ?c ?s2 0 hp_demo_task]
    by (simp add: hp_demo_def hp_demo_task_def ht_AddTask_def ht_init_ctx_def ht_init_at_def ht_enqueue_def
        hp_init_def NewHighPrecisionTimer_def cx_WithCancel_def heap_Push_def heap_up.simps zero_Time_def)
  ultimately show ?thesis by (meson rtranclp.rtrancl_into_rtrancl rtranclp.rtrancl_refl)
qed

theorem hp_reachable_inv_witness: "hp_inv hp_demo"
  using hp_reachable_inv[OF hp_demo_reachable] .

theorem hp_round_schedules_witness:
  "\<exists>ht'. ht_round 5 (hs_ht hp_demo) = (R_Fire hp_demo_task, ht') \<and> ht_heap ht' = []"
  using hp_round_schedules[OF hp_demo_reachable, of 5 "fst (ht_round 5 (hs_ht hp_demo))" "snd (ht_round 5 (hs_ht hp_demo))"]
  by (simp add: hp_demo_def cx_err_def hp_demo_task_def) (metis prod.collapse)


section \<open>What the repetition loses\<close>

text \<open>
  The repeated task has no data. A task that a run loop has taken out of the index cannot be removed until it is
  back: \<open>RemoveTask\<close> answers false and changes nothing, and the loop goes on to queue the repetition.
\<close>

lemma hp_repeat_drops_data: "ht_repeat cron cx t now = Some (Some t') \<Longrightarrow> tt_Data t' = None"
  by (auto simp: ht_repeat_def Let_def split: if_splits option.splits prod.splits)

lemma hp_remove_while_firing:
  assumes "ht_inv ht" "ht_round now ht = (R_Fire t, ht')"
  shows "ht_RemoveTask (tt_ID t) ht' = (False, ht')"
  using assms
  by (cases rule: ht_round_cases) (auto simp: ht_RemoveTask_def delete_conv')

text \<open>While \<open>Start\<close> waits it holds the server's mutex, so \<open>Stop\<close> waits for it; before \<open>Start\<close> no task is accepted.\<close>

lemma sv_Stop_waits: "sv_Start_enter cx s = Some (False, s') \<Longrightarrow> sv_Stop s' = None"
  by (auto simp: sv_Start_enter_def sv_Stop_def split: if_splits)

lemma sv_apply_started: "sv_started (fold sv_apply opts s) = sv_started s"
proof (induction opts arbitrary: s)
  case (Cons a opts)
  then show ?case by (cases a) auto
qed simp

lemma sv_AddTask_before_Start: "sv_AddTask cron now t (sv_NewServer opts) = ('''', sv_NewServer opts)"
  by (simp add: sv_AddTask_def sv_NewServer_def sv_apply_started)

end
