(* ===== verification/Filter_Expr.thy ===== *)
theory Filter_Expr
  imports Go_Prelude "HOL-Library.Sublist"
begin

text \<open>
  The filter messages of \<open>crud/api\<close> and the names of their operators and date parts
  (\<open>crud/pagination/filter/operator_converter.go\<close>, \<open>crud/pagination/utils.go\<close>), with the meaning of a filter
  expression. Elements of a repeated field are not nil, as the decoder leaves them. Strings are ASCII
  for \<open>strings.ToLower\<close> and \<open>strings.TrimSpace\<close>; \<open>snake\<close> is \<open>stringcase.ToSnakeCase\<close> of another
  module and \<open>show\<close> the verb \<open>%v\<close>.
\<close>

section \<open>Strings\<close>

definition go_lower_char :: "char \<Rightarrow> char" where
  "go_lower_char c = (if 65 \<le> (of_char c :: nat) \<and> (of_char c :: nat) \<le> 90 then char_of ((of_char c :: nat) + 32) else c)"

definition go_ToLower :: "string \<Rightarrow> string" where
  "go_ToLower s = map go_lower_char s"

definition go_ToUpper :: "string \<Rightarrow> string" where
  "go_ToUpper s = map (\<lambda>c. if 97 \<le> (of_char c :: nat) \<and> (of_char c :: nat) \<le> 122 then char_of ((of_char c :: nat) - 32) else c) s"

definition go_is_space :: "char \<Rightarrow> bool" where
  "go_is_space c \<longleftrightarrow> (of_char c :: nat) \<in> {9, 10, 11, 12, 13, 32}"

definition go_TrimSpace :: "string \<Rightarrow> string" where
  "go_TrimSpace s = rev (dropWhile go_is_space (rev (dropWhile go_is_space s)))"

text \<open>\<open>strings.Split\<close> with a separator that is not empty; \<open>acc\<close> is the piece being read.\<close>

fun go_split :: "string \<Rightarrow> string \<Rightarrow> nat \<Rightarrow> string \<Rightarrow> string list" where
  "go_split sep acc skip [] = [acc]"
| "go_split sep acc (Suc n) (c # s) = go_split sep acc n s"
| "go_split sep acc 0 (c # s) =
     (if prefix sep (c # s) then acc # go_split sep [] (length sep - 1) s else go_split sep (acc @ [c]) 0 s)"

definition go_Split :: "string \<Rightarrow> string \<Rightarrow> string list" where
  "go_Split s sep = go_split sep [] 0 s"

definition go_Contains :: "string \<Rightarrow> string \<Rightarrow> bool" where
  "go_Contains s sub = sublist sub s"

fun go_Join :: "string list \<Rightarrow> string \<Rightarrow> string" where
  "go_Join [] sep = []"
| "go_Join [x] sep = x"
| "go_Join (x # y # xs) sep = x @ sep @ go_Join (y # xs) sep"

section \<open>Messages\<close>

datatype fe_op =
  OPERATOR_UNSPECIFIED | EQ | NEQ | GT | GTE | LT | LTE | LIKE | ILIKE | NOT_LIKE | IN | NIN | IS_NULL | IS_NOT_NULL
| BETWEEN | REGEXP | IREGEXP | CONTAINS | STARTS_WITH | ENDS_WITH | ICONTAINS | ISTARTS_WITH | IENDS_WITH
| JSON_CONTAINS | ARRAY_CONTAINS | EXISTS | SEARCH | EXACT | IEXACT

datatype fe_date =
  DATE_PART_UNSPECIFIED | DATE | YEAR | ISO_YEAR | QUARTER | MONTH | WEEK | WEEK_DAY | ISO_WEEK_DAY | DAY | TIME | HOUR
| MINUTE | SECOND | MICROSECOND

datatype fe_type = ExprType_UNSPECIFIED | ExprType_AND | ExprType_OR

text \<open>What \<open>json.Unmarshal\<close> stores in an \<open>any\<close>; the order of a map's list is the order of its range.\<close>

datatype json = JNull | JBool bool | JNum float64 | JStr string | JArr "json list" | JObj "(string \<times> json) list"

datatype fe_value = FV_None | FV_Value string | FV_Json json

record filter_cond =
  fc_Field :: string
  fc_Op :: fe_op
  fc_Value :: fe_value
  fc_Values :: "string list"
  fc_DatePart :: "fe_date option"
  fc_JsonPath :: "string option"

datatype filter_expr = FilterExpr (fx_Type: fe_type) (fx_Conditions: "filter_cond list") (fx_Groups: "filter_expr list")

section \<open>Values and names\<close>

fun fe_AnyToString :: "(json \<Rightarrow> string) \<Rightarrow> json \<Rightarrow> string" where
  "fe_AnyToString show JNull = ''''"
| "fe_AnyToString show (JStr s) = s"
| "fe_AnyToString show v = show v"

definition operatorMap :: "(string \<times> fe_op) list" where
  "operatorMap =
    [(''eq'', EQ), (''equal'', EQ), (''equals'', EQ),
     (''ne'', NEQ), (''neq'', NEQ), (''not'', NEQ), (''not_equal'', NEQ), (''not_equals'', NEQ), (''not-equal'', NEQ),
     (''gt'', GT), (''greater_than'', GT), (''greater-than'', GT),
     (''gte'', GTE), (''greater_than_or_equal'', GTE), (''greater_equals'', GTE), (''greater_or_equal'', GTE),
     (''greater-or-equal'', GTE),
     (''lt'', LT), (''less_than'', LT), (''less-than'', LT),
     (''lte'', LTE), (''less_than_or_equal'', LTE), (''less_equals'', LTE), (''less_or_equal'', LTE),
     (''less-or-equal'', LTE),
     (''like'', LIKE), (''ilike'', ILIKE), (''i_like'', ILIKE), (''not_like'', NOT_LIKE), (''notlike'', NOT_LIKE),
     (''in'', IN), (''nin'', NIN), (''not_in'', NIN), (''notin'', NIN),
     (''is_null'', IS_NULL), (''isnull'', IS_NULL),
     (''is_not_null'', IS_NOT_NULL), (''isnot_null'', IS_NOT_NULL), (''isnotnull'', IS_NOT_NULL),
     (''not_isnull'', IS_NOT_NULL),
     (''between'', BETWEEN), (''range'', BETWEEN),
     (''regexp'', REGEXP), (''regex'', REGEXP), (''iregexp'', IREGEXP), (''i_regexp'', IREGEXP), (''iregex'', IREGEXP),
     (''contains'', CONTAINS), (''icontains'', ICONTAINS), (''i_contains'', ICONTAINS),
     (''starts_with'', STARTS_WITH), (''startswith'', STARTS_WITH),
     (''istarts_with'', ISTARTS_WITH), (''i_starts_with'', ISTARTS_WITH), (''istartswith'', ISTARTS_WITH),
     (''ends_with'', ENDS_WITH), (''endswith'', ENDS_WITH),
     (''iends_with'', IENDS_WITH), (''i_ends_with'', IENDS_WITH), (''iendswith'', IENDS_WITH),
     (''json_contains'', JSON_CONTAINS), (''array_contains'', ARRAY_CONTAINS), (''exists'', EXISTS),
     (''search'', SEARCH), (''exact'', EXACT), (''iexact'', IEXACT), (''i_exact'', IEXACT)]"

definition fe_StringToOperator :: "(string \<Rightarrow> string) \<Rightarrow> string \<Rightarrow> fe_op" where
  "fe_StringToOperator snake str =
     (case map_of operatorMap (go_ToLower (snake str)) of Some v \<Rightarrow> v | None \<Rightarrow> OPERATOR_UNSPECIFIED)"

definition fe_IsValidOperatorString :: "(string \<Rightarrow> string) \<Rightarrow> string \<Rightarrow> bool" where
  "fe_IsValidOperatorString snake str \<longleftrightarrow> fe_StringToOperator snake str \<noteq> OPERATOR_UNSPECIFIED"

definition datePartMap :: "(string \<times> fe_date) list" where
  "datePartMap =
    [(''date'', DATE), (''year'', YEAR), (''yr'', YEAR), (''iso_year'', ISO_YEAR), (''iso-year'', ISO_YEAR),
     (''quarter'', QUARTER), (''month'', MONTH), (''week'', WEEK),
     (''week_day'', WEEK_DAY), (''week-day'', WEEK_DAY), (''weekday'', WEEK_DAY),
     (''iso_week_day'', ISO_WEEK_DAY), (''iso-week-day'', ISO_WEEK_DAY),
     (''day'', DAY), (''time'', TIME), (''hour'', HOUR), (''minute'', MINUTE), (''min'', MINUTE),
     (''second'', SECOND), (''sec'', SECOND), (''microsecond'', MICROSECOND)]"

definition fe_StringToDatePart :: "(string \<Rightarrow> string) \<Rightarrow> string \<Rightarrow> fe_date option" where
  "fe_StringToDatePart snake s = map_of datePartMap (go_ToLower (snake s))"

text \<open>The first name found; \<open>order\<close> is the table in the order in which the range visits it.\<close>

definition fe_DatePartToString :: "(string \<times> fe_date) list \<Rightarrow> fe_date option \<Rightarrow> string" where
  "fe_DatePartToString order datePart =
     (case datePart of
        None \<Rightarrow> ''''
      | Some d \<Rightarrow> (case find (\<lambda>(k, v). v = d) order of Some (k, _) \<Rightarrow> k | None \<Rightarrow> ''''))"

definition fe_IsValidDatePartString :: "(string \<Rightarrow> string) \<Rightarrow> string \<Rightarrow> bool" where
  "fe_IsValidDatePartString snake str \<longleftrightarrow> fe_StringToDatePart snake str \<noteq> None"

section \<open>Meaning\<close>

text \<open>
  A filter as a predicate, given the truth of single conditions: an OR group needs one of its conditions or
  groups, every other group all of them.
\<close>

definition fx_join :: "fe_type \<Rightarrow> bool list \<Rightarrow> bool" where
  "fx_join t bs = (if t = ExprType_OR then list_ex (\<lambda>b. b) bs else list_all (\<lambda>b. b) bs)"

primrec fx_eval :: "(filter_cond \<Rightarrow> bool) \<Rightarrow> filter_expr \<Rightarrow> bool" where
  "fx_eval v (FilterExpr t cs gs) = fx_join t (map v cs @ map (fx_eval v) gs)"

lemma fx_join_iff:
  "fx_join t bs \<longleftrightarrow> (if t = ExprType_OR then True \<in> set bs else False \<notin> set bs)"
  by (induction bs) (auto simp: fx_join_def)

lemma go_Split_ne: "go_split sep acc n s \<noteq> []"
  by (induction sep acc n s rule: go_split.induct) auto

end
