(* ===== verification/Sse_Wire.thy ===== *)
theory Sse_Wire
  imports Go_Encoding Filter_Expr "HOL-Library.List_Lexorder" "HOL-Library.Char_ord"
begin

text \<open>
  \<open>transport/sse\<close>, the wire: events and their options (\<open>event.go\<close>), the text that \<open>ServeHTTP\<close> writes for them (\<open>http.go\<close>), the
  reader that cuts a stream into events, the replay log (\<open>event_log.go\<close>) and the tokens of a request (\<open>auth.go\<close>, \<open>subscriber.go\<close>). Writes
  to the connection succeed, as the server ignores their errors. A \<open>Read\<close> returns at least one byte. The lemmas show that an
  event comes out of the stream as it went in, however the stream is cut, and that a replay continues where a client stopped.
\<close>

section \<open>Events\<close>

abbreviation LF :: char where "LF \<equiv> CHR 0x0A"
abbreviation CR :: char where "CR \<equiv> CHR 0x0D"

text \<open>The zero value of the timestamp is \<open>None\<close>.\<close>

record sse_event =
  ev_timestamp :: "go_time option"
  ev_ID :: string
  ev_Data :: string
  ev_Event :: string
  ev_Retry :: string
  ev_Comment :: string

datatype ev_opt = WithEventID string | WithEventName string | WithEventRetry string | WithEventComment string

fun ev_apply :: "ev_opt \<Rightarrow> sse_event \<Rightarrow> sse_event" where
  "ev_apply (WithEventID s) e = (if s \<noteq> '''' then e\<lparr>ev_ID := s\<rparr> else e)"
| "ev_apply (WithEventName s) e = (if s \<noteq> '''' then e\<lparr>ev_Event := s\<rparr> else e)"
| "ev_apply (WithEventRetry s) e = (if s \<noteq> '''' then e\<lparr>ev_Retry := s\<rparr> else e)"
| "ev_apply (WithEventComment s) e = (if s \<noteq> '''' then e\<lparr>ev_Comment := s\<rparr> else e)"

definition ev_hasContent :: "sse_event \<Rightarrow> bool" where
  "ev_hasContent e \<longleftrightarrow> length (ev_ID e) > 0 \<or> length (ev_Data e) > 0 \<or> length (ev_Event e) > 0 \<or> length (ev_Retry e) > 0"

definition ev_encodeBase64 :: "sse_event \<Rightarrow> sse_event" where
  "ev_encodeBase64 e = (if length (ev_Data e) > 0 then e\<lparr>ev_Data := b64_encode (bytes_of (ev_Data e))\<rparr> else e)"

section \<open>Writing\<close>

definition sse_writeData :: "string \<Rightarrow> string \<Rightarrow> string" where
  "sse_writeData field dat =
     (if length field > 0 then field @ (if length dat > 0 \<and> (length field = 0 \<or> last field \<noteq> CHR '' '') then '' '' else '''') else '''')
     @ dat @ [LF]"

definition FieldId :: string where "FieldId = ''id:''"
definition FieldData :: string where "FieldData = ''data:''"
definition FieldEvent :: string where "FieldEvent = ''event:''"
definition FieldRetry :: string where "FieldRetry = ''retry:''"

text \<open>The body of the loop of \<open>ServeHTTP\<close>: the event that ends the stream, the events past their time, and the text of the others.\<close>

definition ev_sentinel :: "sse_event \<Rightarrow> bool" where
  "ev_sentinel e \<longleftrightarrow> ev_Data e = '''' \<and> ev_Comment e = '''' \<and> ev_Retry e = '''' \<and> ev_ID e = '''' \<and> ev_Event e = ''''"

definition ev_expired :: "duration \<Rightarrow> go_time \<Rightarrow> sse_event \<Rightarrow> bool" where
  "ev_expired ttl now e \<longleftrightarrow> ttl \<noteq> 0 \<and> (case ev_timestamp e of None \<Rightarrow> True | Some t \<Rightarrow> now > t + ttl)"

definition ev_write :: "bool \<Rightarrow> sse_event \<Rightarrow> string" where
  "ev_write splitData e =
     (if ev_Data e \<noteq> '''' then
        sse_writeData FieldId (ev_ID e) @
        (if splitData then concat (map (sse_writeData FieldData) (go_Split (ev_Data e) [LF]))
         else if prefix '':'' (ev_Data e) then ev_Data e @ [LF]
         else sse_writeData FieldData (ev_Data e)) @
        (if ev_Event e \<noteq> '''' then sse_writeData FieldEvent (ev_Event e) else '''') @
        (if ev_Retry e \<noteq> '''' then sse_writeData FieldRetry (ev_Retry e) else '''')
      else '''') @
     (if ev_Comment e \<noteq> '''' then sse_writeData '''' (ev_Comment e) else '''') @ [LF]"

text \<open>The loop over a connection: the texts written, and what is left of the connection when the sentinel ended it.\<close>

fun sh_loop :: "bool \<Rightarrow> duration \<Rightarrow> (go_time \<times> sse_event) list \<Rightarrow> string list \<times> (go_time \<times> sse_event) list option" where
  "sh_loop splitData ttl [] = ([], None)"
| "sh_loop splitData ttl ((now, e) # es) =
     (if ev_sentinel e then ([], Some es)
      else if ev_expired ttl now e then sh_loop splitData ttl es
      else let (ts, r) = sh_loop splitData ttl es in (ev_write splitData e # ts, r))"

section \<open>Reading\<close>

fun es_index :: "string \<Rightarrow> string \<Rightarrow> nat option" where
  "es_index pat [] = (if pat = [] then Some 0 else None)"
| "es_index pat (c # cs) = (if prefix pat (c # cs) then Some 0 else map_option Suc (es_index pat cs))"

definition containsDoubleNewline :: "string \<Rightarrow> (nat \<times> nat) option" where
  "containsDoubleNewline dat =
     (case es_index [CR, LF, CR, LF] dat of
        Some i \<Rightarrow> Some (i, 4)
      | None \<Rightarrow> (case es_index [LF, LF] dat of Some i \<Rightarrow> Some (i, 2) | None \<Rightarrow> None))"

text \<open>The split function: how far to advance, and the token.\<close>

definition es_split :: "string \<Rightarrow> bool \<Rightarrow> nat \<times> string option" where
  "es_split dat atEOF =
     (if atEOF \<and> length dat = 0 then (0, None)
      else case containsDoubleNewline dat of
             Some (i, nLen) \<Rightarrow> (i + nLen, Some (take i dat))
           | None \<Rightarrow> if atEOF then (length dat, Some dat) else (0, None))"

datatype es_error = EsEOF | EsTooLong | EsCanceled | EsRead string

text \<open>
  The scanner: what is still to be read, in the pieces in which it arrives, and what \<open>Read\<close> says at their end; the bytes read and not yet
  consumed; the error that stopped the reading. A \<open>Read\<close> fills at most the free part of a buffer of \<open>max\<close> bytes.
\<close>

record es_reader =
  er_max :: int
  er_chunks :: "string list"
  er_end :: es_error
  er_buf :: string
  er_err :: "es_error option"

definition NewEventStreamReader :: "string list \<Rightarrow> es_error \<Rightarrow> int \<Rightarrow> es_reader" where
  "NewEventStreamReader cs e maxBufferSize = \<lparr>er_max = maxBufferSize, er_chunks = cs, er_end = e, er_buf = '''', er_err = None\<rparr>"

function es_Scan :: "es_reader \<Rightarrow> string option \<times> es_reader" where
  "es_Scan r =
     (case (if er_buf r \<noteq> '''' \<or> er_err r \<noteq> None then es_split (er_buf r) (er_err r \<noteq> None) else (0, None)) of
        (adv, Some t) \<Rightarrow> (Some t, r\<lparr>er_buf := drop adv (er_buf r)\<rparr>)
      | (adv, None) \<Rightarrow>
          if er_err r \<noteq> None then (None, r\<lparr>er_buf := ''''\<rparr>)
          else if int (length (er_buf r)) \<ge> er_max r then (None, r\<lparr>er_err := Some EsTooLong\<rparr>)
          else case er_chunks r of
                 [] \<Rightarrow> es_Scan (r\<lparr>er_err := Some (er_end r)\<rparr>)
               | c # cs \<Rightarrow>
                   let k = nat (er_max r) - length (er_buf r)
                   in es_Scan (r\<lparr>er_buf := er_buf r @ take k c, er_chunks := (if length c \<le> k then cs else drop k c # cs)\<rparr>))"
  by pat_completeness auto
termination
  by (relation "measure (\<lambda>r. sum_list (map (Suc \<circ> length) (er_chunks r)) + (if er_err r = None then 1 else 0))") auto

declare es_Scan.simps [simp del]

definition es_ReadEvent :: "es_reader \<Rightarrow> (es_error + string) \<times> es_reader" where
  "es_ReadEvent r =
     (case es_Scan r of
        (Some t, r) \<Rightarrow> (Inr t, r)
      | (None, r) \<Rightarrow>
          (case er_err r of
             None \<Rightarrow> Inl EsEOF
           | Some EsCanceled \<Rightarrow> Inl EsEOF
           | Some e \<Rightarrow> Inl e, r))"

text \<open>A client that reads \<open>n\<close> times.\<close>

fun es_read :: "nat \<Rightarrow> es_reader \<Rightarrow> (es_error + string) list" where
  "es_read 0 r = []"
| "es_read (Suc n) r = (let (x, r) = es_ReadEvent r in x # es_read n r)"

section \<open>The replay log\<close>

definition maxEventLogSize :: nat where
  "maxEventLogSize = 1024"

text \<open>\<open>Add\<close> stamps the event it is given, which is also its result: the new ID and the time are arguments.\<close>

definition el_Add :: "string \<Rightarrow> go_time \<Rightarrow> sse_event \<Rightarrow> sse_event list \<Rightarrow> sse_event \<times> sse_event list" where
  "el_Add newid now e l =
     (if \<not> ev_hasContent e then (e, l)
      else let e = e\<lparr>ev_ID := newid, ev_timestamp := Some now\<rparr>; l = l @ [e]
           in (e, if length l > maxEventLogSize then drop (length l - maxEventLogSize) l else l))"

definition el_Clear :: "sse_event list \<Rightarrow> sse_event list" where
  "el_Clear l = []"

text \<open>The events that \<open>Replay\<close> sends, in this order; \<open>>\<close> compares the bytes.\<close>

definition el_Replay :: "string \<Rightarrow> sse_event list \<Rightarrow> sse_event list" where
  "el_Replay eventId l = filter (\<lambda>e. ev_ID e > eventId) l"

section \<open>Tokens\<close>

text \<open>\<open>get\<close> is \<open>Header.Get\<close> and \<open>query\<close> the parameter \<open>token\<close> of the URL.\<close>

definition extractBearerToken :: "string \<Rightarrow> string" where
  "extractBearerToken auth =
     (let auth = go_TrimSpace auth
      in if auth = '''' then ''''
         else if length auth \<ge> 7 \<and> go_ToLower (take 7 auth) = ''bearer '' then go_TrimSpace (drop 7 auth)
         else auth)"

definition DefaultTokenExtractor :: "((string \<Rightarrow> string) \<times> string) option \<Rightarrow> string" where
  "DefaultTokenExtractor r =
     (case r of
        None \<Rightarrow> ''''
      | Some (get, query) \<Rightarrow>
          let token = extractBearerToken (get ''Authorization'')
          in if token \<noteq> '''' then token
             else let token = go_TrimSpace (get ''X-Token'')
                  in if token \<noteq> '''' then token else go_TrimSpace query)"

text \<open>A subscriber may be nil, and its header and URL too.\<close>

record sse_client =
  cl_Header :: "(string \<Rightarrow> string) option"
  cl_URL :: "string option"

definition sb_HeaderValue :: "string \<Rightarrow> sse_client option \<Rightarrow> string" where
  "sb_HeaderValue key s =
     (case s of None \<Rightarrow> '''' | Some c \<Rightarrow> (case cl_Header c of None \<Rightarrow> '''' | Some get \<Rightarrow> get key))"

definition sb_Authorization :: "sse_client option \<Rightarrow> string" where
  "sb_Authorization s = sb_HeaderValue ''Authorization'' s"

definition sb_BearerToken :: "sse_client option \<Rightarrow> string" where
  "sb_BearerToken s =
     (let auth = go_TrimSpace (sb_Authorization s)
      in if auth = '''' then ''''
         else if length auth \<ge> 7 \<and> go_ToLower (take 7 auth) = ''bearer '' then go_TrimSpace (drop 7 auth)
         else auth)"

definition sb_Token :: "string \<Rightarrow> sse_client option \<Rightarrow> string" where
  "sb_Token headerKey s =
     (let t1 = (if headerKey \<noteq> '''' then go_TrimSpace (sb_HeaderValue headerKey s) else '''')
      in if t1 \<noteq> '''' then t1
         else if sb_BearerToken s \<noteq> '''' then sb_BearerToken s
         else case s of None \<Rightarrow> '''' | Some c \<Rightarrow> (case cl_URL c of None \<Rightarrow> '''' | Some query \<Rightarrow> go_TrimSpace query))"

section \<open>Cutting text at line ends\<close>

lemma split1_step: "go_split [c] acc 0 (x # s) = (if x = c then acc # go_split [c] [] 0 s else go_split [c] (acc @ [x]) 0 s)"
  by simp

lemma split1_free: "c \<notin> set s \<Longrightarrow> go_split [c] acc 0 s = [acc @ s]"
  by (induction s arbitrary: acc) (auto simp: split1_step simp del: go_split.simps(3))

lemma split1_piece: "c \<notin> set s \<Longrightarrow> go_split [c] acc 0 (s @ c # r) = (acc @ s) # go_split [c] [] 0 r"
  by (induction s arbitrary: acc) (auto simp: split1_step simp del: go_split.simps(3))

lemma split1_Join: "go_Join (go_split [c] acc 0 s) [c] = acc @ s"
proof (induction s arbitrary: acc)
  case (Cons x s)
  obtain y ys where "go_split [c] [] 0 s = y # ys" using go_Split_ne neq_Nil_conv by metis
  then show ?case using Cons[of "[]"] Cons[of "acc @ [x]"] by (simp add: split1_step del: go_split.simps(3))
qed simp

lemma split1_pieces: "c \<notin> set acc \<Longrightarrow> p \<in> set (go_split [c] acc 0 s) \<Longrightarrow> c \<notin> set p"
  by (induction s arbitrary: acc) (force simp: split1_step simp del: go_split.simps(3) split: if_splits)+

lemma split1_sub: "p \<in> set (go_split [c] acc 0 s) \<Longrightarrow> set p \<subseteq> set acc \<union> set s"
  by (induction s arbitrary: acc) (force simp: split1_step simp del: go_split.simps(3) split: if_splits)+

lemma Split_Join: "ls \<noteq> [] \<Longrightarrow> \<forall>l \<in> set ls. c \<notin> set l \<Longrightarrow> go_Split (go_Join ls [c]) [c] = ls"
proof (induction ls)
  case (Cons l ls)
  then show ?case
    by (cases ls) (simp_all add: go_Split_def split1_free split1_piece[where acc = "[]", simplified] del: go_split.simps(3))
qed simp

lemma set_Join: "set (go_Join ls sep) \<subseteq> (\<Union>l \<in> set ls. set l) \<union> set sep"
  by (induction ls sep rule: go_Join.induct) auto

lemma Join_lines: "ls \<noteq> [] \<Longrightarrow> concat (map (\<lambda>l. l @ [c]) ls) = go_Join ls [c] @ [c]"
proof (induction ls)
  case (Cons l ls)
  then show ?case by (cases ls) simp_all
qed simp

text \<open>Texts without a blank line.\<close>

abbreviation no_blank :: "string \<Rightarrow> bool" where
  "no_blank \<equiv> successively (\<lambda>a b. \<not> (a = LF \<and> b = LF))"

lemma es_index_blank: "es_index [LF, LF] s = None \<longleftrightarrow> no_blank s"
proof (induction s)
  case (Cons c s)
  then show ?case by (cases s) auto
qed simp

lemma es_index_free: "c \<notin> set s \<Longrightarrow> es_index (c # p) s = None"
  by (induction s) auto

lemma es_index_at: "no_blank (t @ [LF]) \<Longrightarrow> es_index [LF, LF] (t @ LF # LF # r) = Some (length t)"
proof (induction t)
  case (Cons c t)
  then show ?case by (cases t) (auto simp: successively_Cons)
qed simp

lemma no_blank_lines: "\<forall>l \<in> set ls. l \<noteq> [] \<and> LF \<notin> set l \<Longrightarrow> no_blank (concat (map (\<lambda>l. l @ [LF]) ls))"
proof (induction ls)
  case (Cons l ls)
  have l: "no_blank l" if "LF \<notin> set l" for l using that by (induction l) (auto simp: successively_Cons)
  have "hd (concat (map (\<lambda>l. l @ [LF]) ls)) \<noteq> LF" if "ls \<noteq> []"
    using Cons.prems that by (cases ls; cases "hd ls") auto
  moreover have "last l \<noteq> LF" using Cons.prems by (metis last_in_set list.set_intros(1))
  ultimately show ?case using Cons l[of l]
    by (cases "ls = []") (auto simp: successively_append_iff simp flip: append_assoc)
qed simp

section \<open>Reading what was written\<close>

text \<open>One event in a stream without carriage returns: its text ends at the first blank line.\<close>

lemma split_block:
  assumes "no_blank (t @ [LF])" "CR \<notin> set (t @ LF # LF # r)"
  shows "es_split (t @ LF # LF # r) e = (length t + 2, Some t)"
  using es_index_at[OF assms(1), of r] es_index_free[OF assms(2), of "[LF, CR, LF]"]
  by (simp add: es_split_def containsDoubleNewline_def)

lemma split_short:
  assumes "no_blank (t @ [LF])" "CR \<notin> set (t @ LF # LF # r)" "b @ c = t @ LF # LF # r" "length b < length t + 2" "b \<noteq> []"
  shows "es_split b False = (0, None)"
proof -
  obtain u where u: "t @ [LF] = b @ u" using assms(3,4)
    by (cases "length b = length t + 1") (auto simp: append_eq_append_conv2 Cons_eq_append_conv append_eq_Cons_conv)
  then have "no_blank b" using assms(1) by (simp add: successively_append_iff)
  moreover have "CR \<notin> set b" using assms(2) by (metis Un_iff assms(3) set_append)
  ultimately show ?thesis using es_index_blank[of b] es_index_free[of CR b "[LF, CR, LF]"]
    by (simp add: es_split_def containsDoubleNewline_def)
qed

lemma scan_block:
  assumes "er_err r = None" "er_buf r @ concat (er_chunks r) = t @ LF # LF # u" "no_blank (t @ [LF])" "CR \<notin> set (t @ LF # LF # u)"
    "int (length t) + 2 \<le> er_max r"
  shows "\<exists>cs b. es_Scan r = (Some t, r\<lparr>er_buf := b, er_chunks := cs\<rparr>) \<and> b @ concat cs = u"
  using assms
proof (induction r rule: es_Scan.induct)
  case (1 r)
  show ?case
  proof (cases "length t + 2 \<le> length (er_buf r)")
    case True
    then obtain v where v: "er_buf r = t @ LF # LF # v" "v @ concat (er_chunks r) = u"
      using 1(4) by (auto simp: append_eq_append_conv2 Cons_eq_append_conv append_eq_Cons_conv)
    moreover have "CR \<notin> set (t @ LF # LF # v)" using 1(6) v by auto
    ultimately show ?thesis using split_block[OF 1(5), of v] 1(3)
      by (subst es_Scan.simps) (auto intro!: exI[of _ v] exI[of _ "er_chunks r"])
  next
    case False
    then have s: "er_buf r \<noteq> [] \<Longrightarrow> es_split (er_buf r) False = (0, None)"
      using split_short[OF 1(5,6,4)] by simp
    obtain c cs where c: "er_chunks r = c # cs" using 1(4) False by (cases "er_chunks r") auto
    let ?k = "nat (er_max r) - length (er_buf r)"
    let ?r = "r\<lparr>er_buf := er_buf r @ take ?k c, er_chunks := (if length c \<le> ?k then cs else drop ?k c # cs)\<rparr>"
    have m: "\<not> er_max r \<le> int (length (er_buf r))" using False 1(7) by linarith
    have e: "es_Scan r = es_Scan ?r" using s 1(3) m c by (subst es_Scan.simps) (simp add: Let_def)
    have x: "(0, None) = (if er_buf r \<noteq> '''' \<or> er_err r \<noteq> None then es_split (er_buf r) (er_err r \<noteq> None) else (0, None))"
      using s 1(3) by simp
    have t: "er_buf ?r @ concat (er_chunks ?r) = t @ LF # LF # u" using 1(4) c append_take_drop_id[of ?k c] by (simp del: append_take_drop_id) (metis append_assoc)
    have "\<exists>cs b. es_Scan ?r = (Some t, ?r\<lparr>er_buf := b, er_chunks := cs\<rparr>) \<and> b @ concat cs = u"
      by (rule 1(2)[OF x _ _ _ c refl]) (use 1(3,5-7) m t in simp_all)
    then show ?thesis unfolding e by simp
  qed
qed

lemma scan_end:
  assumes "er_err r = None" "er_buf r @ concat (er_chunks r) = []" "0 < er_max r"
  shows "\<exists>r'. es_Scan r = (None, r') \<and> er_err r' = Some (er_end r)"
  using assms
proof (induction r rule: es_Scan.induct)
  case (1 r)
  show ?case
  proof (cases "er_chunks r")
    case Nil
    have "es_Scan (r\<lparr>er_err := Some (er_end r)\<rparr>) = (None, r\<lparr>er_err := Some (er_end r), er_buf := ''''\<rparr>)"
      using 1(4) by (subst es_Scan.simps) (simp add: es_split_def)
    then show ?thesis using 1(3-5) Nil by (subst es_Scan.simps) simp
  next
    case (Cons c cs)
    let ?r = "r\<lparr>er_buf := er_buf r @ take (nat (er_max r) - length (er_buf r)) c,
      er_chunks := (if length c \<le> nat (er_max r) - length (er_buf r) then cs else drop (nat (er_max r) - length (er_buf r)) c # cs)\<rparr>"
    have e: "es_Scan r = es_Scan ?r" using 1(3-5) Cons by (subst es_Scan.simps) simp
    have x: "(0, None) = (if er_buf r \<noteq> '''' \<or> er_err r \<noteq> None then es_split (er_buf r) (er_err r \<noteq> None) else (0, None))"
      using 1(3,4) by simp
    have "\<exists>r'. es_Scan ?r = (None, r') \<and> er_err r' = Some (er_end ?r)"
      by (rule 1(2)[OF x _ _ _ Cons refl]) (use 1(3-5) Cons in simp_all)
    then show ?thesis unfolding e by simp
  qed
qed

text \<open>A whole stream: its events in order, then the end.\<close>

lemma read_blocks:
  assumes "er_err r = None" "er_end r = EsEOF" "er_buf r @ concat (er_chunks r) = concat (map (\<lambda>t. t @ [LF, LF]) ts)" "0 < er_max r"
    "\<forall>t \<in> set ts. no_blank (t @ [LF]) \<and> CR \<notin> set t \<and> int (length t) + 2 \<le> er_max r"
  shows "es_read (length ts + 1) r = map Inr ts @ [Inl EsEOF]"
  using assms
proof (induction ts arbitrary: r)
  case Nil
  then obtain r' where "es_Scan r = (None, r')" "er_err r' = Some EsEOF" using scan_end[of r] by auto
  then show ?case by (simp add: es_ReadEvent_def)
next
  case (Cons t ts)
  let ?u = "concat (map (\<lambda>t. t @ [LF, LF]) ts)"
  have "CR \<notin> set (t @ LF # LF # ?u)" using Cons.prems(5) by auto
  then obtain cs b where s: "es_Scan r = (Some t, r\<lparr>er_buf := b, er_chunks := cs\<rparr>)" "b @ concat cs = ?u"
    using scan_block[OF Cons.prems(1), of t ?u] Cons.prems(3,5) by auto
  then show ?case using Cons.IH[of "r\<lparr>er_buf := b, er_chunks := cs\<rparr>"] Cons.prems by (simp add: es_ReadEvent_def)
qed

section \<open>What a client understands\<close>

text \<open>
  The fields of an event by the HTML standard: lines up to the colon and after it, without one leading space; lines that start with a
  colon are comments; the lines of the data are joined.
\<close>

definition cl_field :: "string \<Rightarrow> string \<times> string" where
  "cl_field l =
     (let v = drop 1 (dropWhile (\<lambda>c. c \<noteq> CHR '':'') l)
      in (takeWhile (\<lambda>c. c \<noteq> CHR '':'') l, if prefix '' '' v then tl v else v))"

definition cl_values :: "string \<Rightarrow> string \<Rightarrow> string list" where
  "cl_values name t = map snd (filter (\<lambda>f. fst f = name) (map cl_field (go_Split t [LF])))"

definition cl_parse :: "string \<Rightarrow> string \<times> string \<times> string \<times> string" where
  "cl_parse t = (last ('''' # cl_values ''id'' t), last ('''' # cl_values ''event'' t), last ('''' # cl_values ''retry'' t),
     go_Join (cl_values ''data'' t) [LF])"

definition ev_fields :: "sse_event \<Rightarrow> string \<times> string \<times> string \<times> string" where
  "ev_fields e = (ev_ID e, ev_Event e, ev_Retry e, ev_Data e)"

text \<open>Events that a line-oriented text can carry.\<close>

definition ev_plain :: "sse_event \<Rightarrow> bool" where
  "ev_plain e \<longleftrightarrow> ev_Data e \<noteq> '''' \<and> ev_Comment e = '''' \<and> CR \<notin> set (ev_ID e @ ev_Data e @ ev_Event e @ ev_Retry e) \<and>
     LF \<notin> set (ev_ID e @ ev_Event e @ ev_Retry e)"

definition ev_line :: "string \<Rightarrow> string \<Rightarrow> string" where
  "ev_line name v = name @ '':'' @ (if v = '''' then '''' else '' '') @ v"

definition ev_lines :: "sse_event \<Rightarrow> string list" where
  "ev_lines e = [ev_line ''id'' (ev_ID e)] @ map (ev_line ''data'') (go_Split (ev_Data e) [LF]) @
     (if ev_Event e \<noteq> '''' then [ev_line ''event'' (ev_Event e)] else []) @
     (if ev_Retry e \<noteq> '''' then [ev_line ''retry'' (ev_Retry e)] else [])"

lemma writeData_line:
  "sse_writeData FieldId v = ev_line ''id'' v @ [LF]" "sse_writeData FieldData v = ev_line ''data'' v @ [LF]"
  "sse_writeData FieldEvent v = ev_line ''event'' v @ [LF]" "sse_writeData FieldRetry v = ev_line ''retry'' v @ [LF]"
  by (simp_all add: sse_writeData_def FieldId_def FieldData_def FieldEvent_def FieldRetry_def ev_line_def)

lemma cl_field_line:
  "cl_field (ev_line ''id'' v) = (''id'', v)" "cl_field (ev_line ''data'' v) = (''data'', v)"
  "cl_field (ev_line ''event'' v) = (''event'', v)" "cl_field (ev_line ''retry'' v) = (''retry'', v)"
  by (simp_all add: cl_field_def ev_line_def)

lemma ev_line_set: "set (ev_line n v) \<subseteq> set n \<union> {CHR '':'', CHR '' ''} \<union> set v" "ev_line n v \<noteq> []"
  by (auto simp: ev_line_def)

lemma ev_lines_ok:
  assumes "ev_plain e" "l \<in> set (ev_lines e)"
  shows "l \<noteq> []" "LF \<notin> set l" "CR \<notin> set l"
proof -
  obtain n v where l: "l = ev_line n v" "n \<in> {''id'', ''data'', ''event'', ''retry''}" "v = ev_ID e \<or> v = ev_Event e \<or> v = ev_Retry e \<or>
      v \<in> set (go_Split (ev_Data e) [LF])" using assms(2) by (auto simp: ev_lines_def split: if_splits)
  have "set v \<subseteq> set (ev_Data e)" "LF \<notin> set v" if "v \<in> set (go_Split (ev_Data e) [LF])"
    using that split1_pieces[of LF "[]" v] split1_sub[of v LF "[]"] by (auto simp: go_Split_def)
  then have "LF \<notin> set v \<and> CR \<notin> set v" using assms(1) l(3) by (auto simp: ev_plain_def)
  then show "l \<noteq> []" "LF \<notin> set l" "CR \<notin> set l" using l(2) ev_line_set[of n v] unfolding l(1) by auto
qed

lemma ev_write_lines: "ev_plain e \<Longrightarrow> ev_write True e = go_Join (ev_lines e) [LF] @ [LF, LF]"
proof -
  assume "ev_plain e"
  then have "ev_write True e = concat (map (\<lambda>l. l @ [LF]) (ev_lines e)) @ [LF]"
    by (simp add: ev_write_def ev_plain_def ev_lines_def writeData_line writeData_line(2)[abs_def] comp_def)
  then show ?thesis using Join_lines[of "ev_lines e" LF] by (simp add: ev_lines_def)
qed

lemma cl_parse_lines: "ev_plain e \<Longrightarrow> cl_parse (go_Join (ev_lines e) [LF]) = ev_fields e"
proof -
  assume p: "ev_plain e"
  have l: "go_Split (go_Join (ev_lines e) [LF]) [LF] = ev_lines e"
    by (rule Split_Join) (use ev_lines_ok(2)[OF p] in \<open>simp add: ev_lines_def, blast\<close>)
  have d: "map snd (filter (\<lambda>f. fst f = n) (map (cl_field \<circ> ev_line ''data'') vs)) = (if n = ''data'' then vs else [])" for n vs
    by (induction vs) (auto simp: cl_field_line)
  have "go_Join (go_Split (ev_Data e) [LF]) [LF] = ev_Data e" by (simp add: go_Split_def split1_Join)
  then show ?thesis unfolding cl_parse_def cl_values_def l by (simp add: ev_fields_def ev_lines_def cl_field_line d[unfolded comp_def] comp_def)
qed


definition ev_demo :: "string \<Rightarrow> string \<Rightarrow> sse_event" where
  "ev_demo i d = \<lparr>ev_timestamp = None, ev_ID = i, ev_Data = d, ev_Event = '''', ev_Retry = '''', ev_Comment = ''''\<rparr>"


section \<open>What the default configuration writes\<close>

text \<open>
  Without \<open>splitData\<close>, which is the default, whoever controls the data of an event controls the stream: the text of one event
  whose data holds a blank line is the text of two events, the second with an ID and data of the attacker's choice.
\<close>

theorem sse_unsplit_forges:
  assumes "d \<noteq> ''''" "\<not> prefix '':'' d" "i \<noteq> ''''" "x \<noteq> ''''" "\<not> prefix '':'' x"
  shows "ev_write False (ev_demo j (d @ [LF, LF] @ ''id: '' @ i @ [LF] @ ''data: '' @ x)) =
    ev_write False (ev_demo j d) @ ev_write False (ev_demo i x)"
  using assms by (cases d) (auto simp: ev_write_def ev_demo_def sse_writeData_def FieldId_def FieldData_def)

theorem sse_unsplit_forges_witness:
  "ev_write False (ev_demo ''7'' (''hello'' @ [LF, LF] @ ''id: '' @ ''8'' @ [LF] @ ''data: '' @ ''forged'')) =
    ev_write False (ev_demo ''7'' ''hello'') @ ev_write False (ev_demo ''8'' ''forged'')"
  by (rule sse_unsplit_forges) simp_all

text \<open>
  Fields of an event without data are not written, so a retry delay alone never reaches the client; data that starts with a colon
  becomes a comment; a comment is written without the colon that would make it one.
\<close>

lemma ev_write_no_data: "ev_Data e = '''' \<Longrightarrow> ev_Comment e = '''' \<Longrightarrow> ev_write s e = [LF]"
  by (simp add: ev_write_def)

lemma ev_write_colon: "ev_write False (ev_demo '''' '':x'') = ''id:'' @ [LF] @ '':x'' @ [LF, LF]"
  by (simp add: ev_write_def ev_demo_def sse_writeData_def FieldId_def)

lemma ev_write_comment: "ev_write s ((ev_demo '''' '''')\<lparr>ev_Comment := ''retry: 1''\<rparr>) = ''retry: 1'' @ [LF, LF]"
  by (simp add: ev_write_def ev_demo_def sse_writeData_def)

text \<open>An event with line feeds before one with carriage returns: when both are in the buffer, the reader takes them for one event.\<close>

lemma reader_merges: "es_split (''a'' @ [LF, LF] @ ''b'' @ [CR, LF, CR, LF]) False = (8, Some (''a'' @ [LF, LF] @ ''b''))"
  by code_simp

section \<open>The log\<close>

lemma el_Add_length: "length l \<le> maxEventLogSize \<Longrightarrow> length (snd (el_Add i now e l)) \<le> maxEventLogSize"
  by (auto simp: el_Add_def Let_def)

text \<open>IDs that grow: the log is sorted, and a replay is the part of the log after the client's last event.\<close>

abbreviation el_sorted :: "sse_event list \<Rightarrow> bool" where
  "el_sorted l \<equiv> sorted_wrt (<) (map ev_ID l)"

lemma el_Add_sorted:
  assumes "el_sorted l" "\<forall>x \<in> set l. ev_ID x < i"
  shows "el_sorted (snd (el_Add i now e l))"
proof -
  let ?l = "l @ [e\<lparr>ev_ID := i, ev_timestamp := Some now\<rparr>]"
  have s: "el_sorted ?l" using assms by (auto simp: sorted_wrt_append)
  have "el_sorted (drop n ?l)" for n using sorted_wrt_drop[OF s, of n] unfolding drop_map .
  then have "el_sorted (if length ?l > maxEventLogSize then drop (length ?l - maxEventLogSize) ?l else ?l)" using s by presburger
  then show ?thesis using assms(1) by (simp only: el_Add_def Let_def snd_conv if_distrib[of snd] split: if_split) simp
qed

lemma el_Replay_after:
  assumes "el_sorted (a @ e # b)"
  shows "el_Replay (ev_ID e) (a @ e # b) = b"
  using assms by (auto simp: el_Replay_def sorted_wrt_append filter_empty_conv filter_id_conv)

lemma el_Replay_all: "\<forall>e \<in> set l. ev_ID e \<noteq> '''' \<Longrightarrow> el_Replay '''' l = l"
  by (auto simp: el_Replay_def filter_id_conv neq_Nil_conv)

end
