(* ===== verification/Sse_Stream.thy ===== *)
theory Sse_Stream
  imports Sse_Wire
begin

text \<open>
  \<open>transport/sse\<close>, the server: a stream with its event loop, subscribers and channels (\<open>stream.go\<close>, \<open>subscriber.go\<close>), the table of
  streams (\<open>stream_manager.go\<close>) and the server on top (\<open>server.go\<close>, \<open>http.go\<close>). A subscriber is an address; the goroutines are the loop of the
  stream, the publishers and, for each client, the handler that reads its connection and the goroutine that deregisters it. A step is one
  operation on a channel. The event channel has a positive capacity. Fields in the section on ghosts record what happened and are read by no
  operation. The lemmas show that no step panics, that every subscriber gets every event once and in order, and that a client that reconnects
  goes on where it stopped.
\<close>

section \<open>State\<close>

record sse_sub =
  sb_eventId :: string
  sb_conn :: "sse_event list"
  sb_open :: bool
  sb_removed :: "bool option"
  sb_handler :: bool
  sb_closing :: bool
  sb_got :: "sse_event list" \<comment> \<open>ghost: what the handler took\<close>
  sb_replay :: "sse_event list" \<comment> \<open>ghost: what was replayed\<close>
  sb_from :: nat \<comment> \<open>ghost: events dispatched before the registration\<close>

text \<open>The connection of a subscriber holds 64 events. The channel \<open>removed\<close> is nil, or still open, or signalled and closed.\<close>

definition sb_cap :: nat where
  "sb_cap = 64"

definition sb_new :: "string \<Rightarrow> bool \<Rightarrow> sse_sub" where
  "sb_new eventId autoStream = \<lparr>sb_eventId = eventId, sb_conn = [], sb_open = True, sb_removed = (if autoStream then Some False else None),
     sb_handler = True, sb_closing = False, sb_got = [], sb_replay = [], sb_from = 0\<rparr>"

text \<open>Where the loop is: at its \<open>select\<close>, sending replayed events to a subscriber, sending an event to the rest of the subscribers, or gone.\<close>

datatype se_loop = LpSelect | LpReplay nat "sse_event list" | LpSend sse_event "nat list" | LpDone

datatype se_call = OnSubscribe nat | OnUnsubscribe nat

record sse_stream =
  se_id :: string
  se_autoReplay :: bool
  se_autoStream :: bool
  se_bufsize :: nat
  se_event :: "sse_event list"
  se_quit :: bool
  se_eventLog :: "sse_event list"
  se_subscribers :: "nat list"
  se_subscriberCount :: int
  se_register :: "nat list"
  se_deregister :: "nat list"
  se_subs :: "nat \<Rightarrow> sse_sub"
  se_next :: nat
  se_loop :: se_loop
  se_calls :: "se_call list"
  se_hist :: "sse_event list" \<comment> \<open>ghost: the events the loop has dispatched\<close>
  se_ids :: nat \<comment> \<open>ghost: the number of IDs issued\<close>

definition newStream :: "string \<Rightarrow> nat \<Rightarrow> bool \<Rightarrow> bool \<Rightarrow> sse_stream" where
  "newStream i buffSize replay autoStream =
     \<lparr>se_id = i, se_autoReplay = replay, se_autoStream = autoStream, se_bufsize = buffSize, se_event = [], se_quit = False,
      se_eventLog = [], se_subscribers = [], se_subscriberCount = 0, se_register = [], se_deregister = [],
      se_subs = (\<lambda>_. sb_new '''' autoStream), se_next = 0, se_loop = LpSelect, se_calls = [], se_hist = [], se_ids = 0\<rparr>"

definition se_upd :: "nat \<Rightarrow> (sse_sub \<Rightarrow> sse_sub) \<Rightarrow> sse_stream \<Rightarrow> sse_stream" where
  "se_upd i f s = s\<lparr>se_subs := (se_subs s)(i := f (se_subs s i))\<rparr>"

section \<open>Operations\<close>

definition se_close :: "sse_stream \<Rightarrow> sse_stream" where
  "se_close s = s\<lparr>se_quit := True\<rparr>"

text \<open>\<open>addSubscriber\<close> up to the send on \<open>register\<close>, on which it waits; the callback is started once it has gone through.\<close>

definition se_addSubscriber :: "string \<Rightarrow> sse_stream \<Rightarrow> nat \<times> sse_stream" where
  "se_addSubscriber eventId s =
     (let i = se_next s
      in (i, s\<lparr>se_subscriberCount := se_subscriberCount s + 1, se_next := i + 1,
               se_subs := (se_subs s)(i := sb_new eventId (se_autoStream s)), se_register := se_register s @ [i]\<rparr>))"

text \<open>The branch of the loop for \<open>register\<close>.\<close>

definition se_onRegister :: "nat \<Rightarrow> sse_stream \<Rightarrow> sse_stream" where
  "se_onRegister i s =
     (let es = (if se_autoReplay s then el_Replay (sb_eventId (se_subs s i)) (se_eventLog s) else [])
      in (se_upd i (\<lambda>b. b\<lparr>sb_replay := es, sb_from := length (se_hist s)\<rparr>) s)
           \<lparr>se_register := remove1 i (se_register s), se_subscribers := se_subscribers s @ [i],
            se_calls := se_calls s @ [OnSubscribe i], se_loop := LpReplay i es\<rparr>)"

text \<open>A send on a connection; sending on a closed channel panics.\<close>

definition se_send :: "sse_event \<Rightarrow> nat \<Rightarrow> sse_stream \<Rightarrow> sse_stream option" where
  "se_send e i s =
     (if \<not> sb_open (se_subs s i) then None else Some (se_upd i (\<lambda>b. b\<lparr>sb_conn := sb_conn b @ [e]\<rparr>) s))"

text \<open>The branch for an event. The log stamps a copy; the event takes over its ID only.\<close>

definition se_onEvent :: "string \<Rightarrow> go_time \<Rightarrow> sse_event \<Rightarrow> sse_event list \<Rightarrow> sse_stream \<Rightarrow> sse_stream" where
  "se_onEvent newid now e rest s =
     (let (e', l, n) = (if se_autoReplay s
                        then (let (j, l) = el_Add newid now e (se_eventLog s)
                              in (e\<lparr>ev_ID := ev_ID j\<rparr>, l, if ev_hasContent e then 1 else 0))
                        else (e, se_eventLog s, 0))
      in s\<lparr>se_event := rest, se_eventLog := l, se_loop := LpSend e' (se_subscribers s),
           se_hist := se_hist s @ [e'], se_ids := se_ids s + n\<rparr>)"

fun se_getSubIndex :: "nat list \<Rightarrow> nat \<Rightarrow> nat option" where
  "se_getSubIndex [] i = None"
| "se_getSubIndex (j # js) i = (if j = i then Some 0 else map_option Suc (se_getSubIndex js i))"

text \<open>Closing a connection and signalling on \<open>removed\<close>; closing a closed channel panics.\<close>

definition sb_shut :: "sse_sub \<Rightarrow> sse_sub option" where
  "sb_shut b =
     (if \<not> sb_open b \<or> sb_removed b = Some True then None
      else Some (b\<lparr>sb_open := False, sb_removed := map_option (\<lambda>_. True) (sb_removed b)\<rparr>))"

definition se_removeSubscriber :: "nat \<Rightarrow> sse_stream \<Rightarrow> sse_stream option" where
  "se_removeSubscriber k s =
     (let i = se_subscribers s ! k
      in case sb_shut (se_subs s i) of
           None \<Rightarrow> None
         | Some b \<Rightarrow> Some (s\<lparr>se_subscriberCount := se_subscriberCount s - 1, se_subs := (se_subs s)(i := b),
             se_subscribers := take k (se_subscribers s) @ drop (k + 1) (se_subscribers s)\<rparr>))"

definition se_onDeregister :: "nat \<Rightarrow> sse_stream \<Rightarrow> sse_stream option" where
  "se_onDeregister i s =
     map_option (\<lambda>s. s\<lparr>se_deregister := remove1 i (se_deregister s), se_calls := se_calls s @ [OnUnsubscribe i]\<rparr>)
       (case se_getSubIndex (se_subscribers s) i of None \<Rightarrow> Some s | Some k \<Rightarrow> se_removeSubscriber k s)"

fun se_shutAll :: "nat list \<Rightarrow> sse_stream \<Rightarrow> sse_stream option" where
  "se_shutAll [] s = Some s"
| "se_shutAll (i # is) s =
     (case sb_shut (se_subs s i) of
        None \<Rightarrow> None
      | Some b \<Rightarrow> se_shutAll is (s\<lparr>se_subs := (se_subs s)(i := b), se_calls := se_calls s @ [OnUnsubscribe i]\<rparr>))"

definition se_removeAllSubscribers :: "sse_stream \<Rightarrow> sse_stream option" where
  "se_removeAllSubscribers s =
     map_option (\<lambda>s. s\<lparr>se_subscriberCount := 0, se_subscribers := []\<rparr>) (se_shutAll (se_subscribers s) s)"

definition se_getSubscriberCount :: "sse_stream \<Rightarrow> int" where
  "se_getSubscriberCount s = se_subscriberCount s"

section \<open>Steps\<close>

text \<open>
  \<open>gen n\<close> is the ID that \<open>newEventID\<close> returns for the \<open>n\<close>-th time. A result \<open>None\<close> is a panic. The rules are a publisher's send, a new client
  that waits for its registration, the branches of the loop and its sends, the end of the stream, a handler that takes an event from its
  connection and ends at the sentinel or at the end of the connection, and the goroutine that deregisters a client and gives up when the
  loop does not answer.
\<close>

inductive se_step :: "(nat \<Rightarrow> string) \<Rightarrow> sse_stream \<Rightarrow> sse_stream option \<Rightarrow> bool" for gen :: "nat \<Rightarrow> string" where
  Publish: "length (se_event s) < se_bufsize s \<Longrightarrow> se_step gen s (Some (s\<lparr>se_event := se_event s @ [e]\<rparr>))"
| Subscribe: "se_step gen s (Some (snd (se_addSubscriber eventId s)))"
| Register: "se_loop s = LpSelect \<Longrightarrow> i \<in> set (se_register s) \<Longrightarrow> se_step gen s (Some (se_onRegister i s))"
| Replay: "se_loop s = LpReplay i (e # es) \<Longrightarrow> \<not> sb_open (se_subs s i) \<or> length (sb_conn (se_subs s i)) < sb_cap \<Longrightarrow>
    se_step gen s (map_option (\<lambda>s. s\<lparr>se_loop := LpReplay i es\<rparr>) (se_send e i s))"
| Replayed: "se_loop s = LpReplay i [] \<Longrightarrow> se_step gen s (Some (s\<lparr>se_loop := LpSelect\<rparr>))"
| Event: "se_loop s = LpSelect \<Longrightarrow> se_event s = e # rest \<Longrightarrow> se_step gen s (Some (se_onEvent (gen (se_ids s)) now e rest s))"
| Send: "se_loop s = LpSend e (i # is) \<Longrightarrow> \<not> sb_open (se_subs s i) \<or> length (sb_conn (se_subs s i)) < sb_cap \<Longrightarrow>
    se_step gen s (map_option (\<lambda>s. s\<lparr>se_loop := LpSend e is\<rparr>) (se_send e i s))"
| Sent: "se_loop s = LpSend e [] \<Longrightarrow> se_step gen s (Some (s\<lparr>se_loop := LpSelect\<rparr>))"
| Deregister: "se_loop s = LpSelect \<Longrightarrow> i \<in> set (se_deregister s) \<Longrightarrow> se_step gen s (se_onDeregister i s)"
| Close: "se_step gen s (Some (se_close s))"
| Quit: "se_loop s = LpSelect \<Longrightarrow> se_quit s \<Longrightarrow>
    se_step gen s (map_option (\<lambda>s. s\<lparr>se_loop := LpDone\<rparr>) (se_removeAllSubscribers s))"
| Take: "i < se_next s \<Longrightarrow> i \<notin> set (se_register s) \<Longrightarrow> sb_handler (se_subs s i) \<Longrightarrow> sb_conn (se_subs s i) = e # es \<Longrightarrow>
    se_step gen s (Some (se_upd i (\<lambda>b. b\<lparr>sb_conn := es, sb_got := sb_got b @ [e], sb_handler := \<not> ev_sentinel e\<rparr>) s))"
| End: "i < se_next s \<Longrightarrow> sb_handler (se_subs s i) \<Longrightarrow> sb_conn (se_subs s i) = [] \<Longrightarrow> \<not> sb_open (se_subs s i) \<Longrightarrow>
    se_step gen s (Some (se_upd i (\<lambda>b. b\<lparr>sb_handler := False\<rparr>) s))"
| Leave: "i < se_next s \<Longrightarrow> i \<notin> set (se_register s) \<Longrightarrow> \<not> sb_closing (se_subs s i) \<Longrightarrow>
    se_step gen s (Some ((se_upd i (\<lambda>b. b\<lparr>sb_closing := True\<rparr>) s)\<lparr>se_deregister := i # se_deregister s\<rparr>))"
| Give_up: "i \<in> set (se_deregister s) \<Longrightarrow> se_step gen s (Some (s\<lparr>se_deregister := remove1 i (se_deregister s)\<rparr>))"

inductive se_reach :: "(nat \<Rightarrow> string) \<Rightarrow> sse_stream \<Rightarrow> sse_stream \<Rightarrow> bool" for gen :: "nat \<Rightarrow> string" and s0 :: sse_stream where
  se_reach_refl: "se_reach gen s0 s0"
| se_reach_step: "se_reach gen s0 s \<Longrightarrow> se_step gen s (Some s') \<Longrightarrow> se_reach gen s0 s'"

section \<open>No panic\<close>

lemma se_upd_simps [simp]:
  "se_subscribers (se_upd i f s) = se_subscribers s" "se_register (se_upd i f s) = se_register s" "se_next (se_upd i f s) = se_next s"
  "se_loop (se_upd i f s) = se_loop s" "se_subscriberCount (se_upd i f s) = se_subscriberCount s" "se_hist (se_upd i f s) = se_hist s"
  "se_eventLog (se_upd i f s) = se_eventLog s" "se_ids (se_upd i f s) = se_ids s" "se_autoReplay (se_upd i f s) = se_autoReplay s"
  "se_subs (se_upd i f s) j = (if j = i then f (se_subs s i) else se_subs s j)" "se_deregister (se_upd i f s) = se_deregister s"
  "se_event (se_upd i f s) = se_event s" "se_bufsize (se_upd i f s) = se_bufsize s"
  by (simp_all add: se_upd_def)

text \<open>Subscribers and clients that wait for registration are different addresses with open channels, which the counter counts.\<close>

definition sb_live :: "sse_sub \<Rightarrow> bool" where
  "sb_live b \<longleftrightarrow> sb_open b \<and> sb_removed b \<noteq> Some True"

fun se_busy :: "se_loop \<Rightarrow> nat list" where
  "se_busy (LpReplay i es) = [i]"
| "se_busy (LpSend e is) = is"
| "se_busy _ = []"

definition se_wf :: "sse_stream \<Rightarrow> bool" where
  "se_wf s \<longleftrightarrow> distinct (se_subscribers s @ se_register s) \<and>
     (\<forall>i \<in> set (se_subscribers s @ se_register s). i < se_next s \<and> sb_live (se_subs s i)) \<and>
     distinct (se_busy (se_loop s)) \<and> set (se_busy (se_loop s)) \<subseteq> set (se_subscribers s) \<and>
     (if se_loop s = LpDone then se_subscribers s = []
      else se_subscriberCount s = int (length (se_subscribers s) + length (se_register s)))"

lemma se_wf_new [wf_intros]: "se_wf (newStream i n r a)"
  by (simp add: se_wf_def newStream_def)

lemma se_getSubIndex_SomeD: "se_getSubIndex js i = Some k \<Longrightarrow> k < length js \<and> js ! k = i"
  by (induction js i arbitrary: k rule: se_getSubIndex.induct) (auto split: if_splits)

lemma se_getSubIndex_None: "se_getSubIndex js i = None \<longleftrightarrow> i \<notin> set js"
  by (induction js i rule: se_getSubIndex.induct) auto

abbreviation sb_shutd :: "sse_sub \<Rightarrow> sse_sub" where
  "sb_shutd b \<equiv> b\<lparr>sb_open := False, sb_removed := map_option (\<lambda>_. True) (sb_removed b)\<rparr>"

lemma sb_shut_live: "sb_live b \<Longrightarrow> sb_shut b = Some (sb_shutd b)"
  by (simp add: sb_shut_def sb_live_def)

lemma length_remove1_Suc: "x \<in> set xs \<Longrightarrow> length xs = Suc (length (remove1 x xs))"
  by (induction xs) auto

lemma take_drop_nth: "k < length xs \<Longrightarrow> xs = take k xs @ xs ! k # drop (Suc k) xs"
  by (rule id_take_nth_drop)

text \<open>Deregistration, in one equation: the subscriber is removed from the list, if it is there.\<close>

lemma se_onDeregister_eq:
  assumes "se_wf s"
  shows "se_onDeregister i s = Some (let t = s\<lparr>se_deregister := remove1 i (se_deregister s), se_calls := se_calls s @ [OnUnsubscribe i]\<rparr> in
     if i \<in> set (se_subscribers s)
     then (se_upd i sb_shutd t)
       \<lparr>se_subscriberCount := se_subscriberCount s - 1, se_subscribers := remove1 i (se_subscribers s)\<rparr> else t)"
proof (cases "se_getSubIndex (se_subscribers s) i")
  case None
  then have "i \<notin> set (se_subscribers s)" by (simp add: se_getSubIndex_None)
  then show ?thesis using None by (auto simp: se_onDeregister_def Let_def)
next
  case (Some k)
  then have k: "k < length (se_subscribers s)" "se_subscribers s ! k = i" using se_getSubIndex_SomeD by auto
  then have i: "i \<in> set (se_subscribers s)" by auto
  have "distinct (se_subscribers s)" using assms by (simp add: se_wf_def)
  then have "i \<notin> set (take k (se_subscribers s))" using take_drop_nth[OF k(1)] k(2) by (metis distinct_append disjoint_iff list.set_intros(1))
  then have "remove1 i (se_subscribers s) = take k (se_subscribers s) @ drop (Suc k) (se_subscribers s)"
    by (subst take_drop_nth[OF k(1)]) (simp add: remove1_append k(2))
  moreover have "sb_live (se_subs s i)" using assms i by (simp add: se_wf_def)
  ultimately show ?thesis using Some i k
    by (simp add: se_onDeregister_def se_removeSubscriber_def sb_shut_live se_upd_def)
qed

lemma se_shutAll_eq:
  assumes "distinct is" "\<forall>i \<in> set is. sb_live (se_subs s i)"
  shows "se_shutAll is s = Some (s\<lparr>se_subs := (\<lambda>i. if i \<in> set is then sb_shutd (se_subs s i) else se_subs s i),
    se_calls := se_calls s @ map OnUnsubscribe is\<rparr>)"
  using assms
proof (induction "is" arbitrary: s)
  case (Cons i "is")
  let ?s = "s\<lparr>se_subs := (se_subs s)(i := sb_shutd (se_subs s i)), se_calls := se_calls s @ [OnUnsubscribe i]\<rparr>"
  have "\<forall>j \<in> set is. sb_live (se_subs ?s j)" using Cons.prems by auto
  then have "se_shutAll is ?s = Some (?s\<lparr>se_subs := (\<lambda>j. if j \<in> set is then sb_shutd (se_subs ?s j) else se_subs ?s j),
      se_calls := se_calls ?s @ map OnUnsubscribe is\<rparr>)" using Cons by simp
  moreover have "(\<lambda>j. if j \<in> set is then sb_shutd (se_subs ?s j) else se_subs ?s j) =
      (\<lambda>j. if j \<in> set (i # is) then sb_shutd (se_subs s j) else se_subs s j)" using Cons.prems(1) by (auto simp: fun_eq_iff)
  ultimately show ?case using Cons.prems(2) by (simp add: sb_shut_live)
qed simp

lemma se_removeAll_eq:
  assumes "se_wf s"
  shows "se_removeAllSubscribers s = Some (s\<lparr>se_subs := (\<lambda>i. if i \<in> set (se_subscribers s) then sb_shutd (se_subs s i) else se_subs s i),
    se_calls := se_calls s @ map OnUnsubscribe (se_subscribers s), se_subscriberCount := 0, se_subscribers := []\<rparr>)"
  using assms se_shutAll_eq[of "se_subscribers s" s] by (simp add: se_removeAllSubscribers_def se_wf_def)

text \<open>Every step keeps the invariant and none of them panics.\<close>

lemma se_wf_step:
  assumes "se_step gen s r" "se_wf s"
  shows "\<exists>s'. r = Some s' \<and> se_wf s'"
  using assms
proof (cases rule: se_step.cases)
  case (Subscribe eventId)
  have "se_next s \<notin> set (se_subscribers s @ se_register s)" using assms(2) by (auto simp: se_wf_def)
  then show ?thesis using Subscribe assms(2)
    by (auto simp: se_wf_def se_addSubscriber_def sb_live_def sb_new_def Let_def intro: less_SucI)
next
  case (Register i)
  then show ?thesis using assms(2) length_remove1_Suc[of i "se_register s"]
    by (auto simp: se_wf_def se_onRegister_def Let_def sb_live_def)
next
  case (Replay i e es)
  then show ?thesis using assms(2) by (auto simp: se_wf_def se_send_def sb_live_def)
next
  case (Send e i "is")
  then show ?thesis using assms(2) by (auto simp: se_wf_def se_send_def sb_live_def)
next
  case (Event e rest now)
  then show ?thesis using assms(2) by (auto simp: se_wf_def se_onEvent_def Let_def split: prod.splits)
next
  case (Deregister i)
  show ?thesis unfolding Deregister(1) se_onDeregister_eq[OF assms(2)]
    using Deregister(2) assms(2) length_remove1_Suc[of i "se_subscribers s"] by (auto simp: se_wf_def Let_def)
next
  case Quit
  then show ?thesis using assms(2) unfolding Quit se_removeAll_eq[OF assms(2)] by (auto simp: se_wf_def)
qed (auto simp: se_wf_def se_close_def sb_live_def)

lemma se_wf_reach: "se_reach gen s0 s \<Longrightarrow> se_wf s0 \<Longrightarrow> se_wf s"
  by (induction rule: se_reach.induct) (auto dest: se_wf_step)

section \<open>Delivery\<close>

text \<open>What a subscriber was sent, what it is due, and what the loop is about to send it.\<close>

definition sb_sent :: "sse_sub \<Rightarrow> sse_event list" where
  "sb_sent b = sb_got b @ sb_conn b"

definition sb_due :: "sse_event list \<Rightarrow> sse_sub \<Rightarrow> sse_event list" where
  "sb_due h b = sb_replay b @ drop (sb_from b) h"

fun se_pend :: "se_loop \<Rightarrow> nat \<Rightarrow> sse_event list" where
  "se_pend (LpReplay j es) i = (if i = j then es else [])"
| "se_pend (LpSend e is) i = (if i \<in> set is then [e] else [])"
| "se_pend _ i = []"

definition se_flow :: "sse_stream \<Rightarrow> bool" where
  "se_flow s \<longleftrightarrow>
     (\<forall>i \<in> set (se_subscribers s). sb_sent (se_subs s i) @ se_pend (se_loop s) i = sb_due (se_hist s) (se_subs s i) \<and>
        sb_from (se_subs s i) \<le> length (se_hist s)) \<and>
     (\<forall>i \<in> set (se_register s). sb_sent (se_subs s i) = []) \<and>
     (\<forall>i < se_next s. prefix (sb_sent (se_subs s i)) (sb_due (se_hist s) (se_subs s i)))"

lemma se_flow_new [wf_intros]: "se_flow (newStream i n r a)"
  by (simp add: se_flow_def newStream_def)

lemma sb_due_snoc: "sb_from b \<le> length h \<Longrightarrow> sb_due (h @ [e]) b = sb_due h b @ [e]"
  by (simp add: sb_due_def)

lemma sb_due_mono: "prefix xs (sb_due h b) \<Longrightarrow> prefix xs (sb_due (h @ [e]) b)"
  by (simp add: sb_due_def prefix_prefix flip: append_assoc)

lemma se_flow_send:
  assumes "se_flow s" "se_wf s" "i \<in> set (se_subscribers s)" "se_send e i s = Some t" "se_pend (se_loop s) i = e # es"
    "se_pend l i = es" "\<And>j. j \<noteq> i \<Longrightarrow> se_pend l j = se_pend (se_loop s) j"
  shows "se_flow (t\<lparr>se_loop := l\<rparr>)"
proof -
  have t: "t = se_upd i (\<lambda>b. b\<lparr>sb_conn := sb_conn b @ [e]\<rparr>) s" using assms(4) by (simp add: se_send_def split: if_splits)
  have f: "sb_sent (se_subs s i) @ e # es = sb_due (se_hist s) (se_subs s i)" using assms(1,3,5) by (auto simp: se_flow_def)
  then have "prefix (sb_sent (se_subs s i) @ [e]) (sb_due (se_hist s) (se_subs s i))" by (metis append.assoc append_Cons append_Nil prefixI)
  moreover have "i \<notin> set (se_register s)" using assms(2,3) by (auto simp: se_wf_def)
  ultimately show ?thesis using assms(1,3,6,7) f unfolding t se_flow_def
    by (auto simp: sb_sent_def sb_due_def)
qed

lemma se_flow_step:
  assumes "se_step gen s (Some s')" "se_wf s" "se_flow s"
  shows "se_flow s'"
  using assms(1)
proof (cases rule: se_step.cases)
  case (Subscribe eventId)
  have "se_next s \<notin> set (se_subscribers s @ se_register s)" using assms(2) by (auto simp: se_wf_def)
  then show ?thesis using Subscribe assms(3) by (auto simp: se_flow_def se_addSubscriber_def sb_new_def sb_sent_def Let_def less_Suc_eq)
next
  case (Register i)
  then have "i \<notin> set (se_subscribers s)" "sb_sent (se_subs s i) = []" using assms(2,3) by (auto simp: se_wf_def se_flow_def)
  then show ?thesis using Register assms(3)
    by (auto simp: se_flow_def se_onRegister_def Let_def sb_sent_def sb_due_def dest: in_set_remove1)
next
  case (Replay i e es)
  then obtain t where "se_send e i s = Some t" "s' = t\<lparr>se_loop := LpReplay i es\<rparr>" by (metis map_option_eq_Some)
  then show ?thesis using Replay assms(2) se_flow_send[OF assms(3,2), of i e t es "LpReplay i es"] by (auto simp: se_wf_def)
next
  case (Send e i "is")
  then obtain t where "se_send e i s = Some t" "s' = t\<lparr>se_loop := LpSend e is\<rparr>" by (metis map_option_eq_Some)
  then show ?thesis using Send assms(2) se_flow_send[OF assms(3,2), of i e t "[]" "LpSend e is"] by (auto simp: se_wf_def)
next
  case (Event e rest now)
  then have "se_onEvent (gen (se_ids s)) now e rest s = s'" by simp
  then obtain e' l k where s': "s' = s\<lparr>se_event := rest, se_eventLog := l, se_loop := LpSend e' (se_subscribers s),
      se_hist := se_hist s @ [e'], se_ids := k\<rparr>" by (auto simp: se_onEvent_def Let_def split: prod.splits)
  show ?thesis using assms(3) Event(2) unfolding s' se_flow_def
    by (auto simp: sb_due_snoc intro: sb_due_mono)
next
  case (Deregister i)
  then show ?thesis using assms(2,3) Deregister(2) unfolding se_onDeregister_eq[OF assms(2)]
    by (auto simp: se_flow_def se_wf_def Let_def sb_sent_def sb_due_def dest: notin_set_remove1 split: if_splits)
next
  case Quit
  then show ?thesis using assms(2,3) unfolding se_removeAll_eq[OF assms(2)]
    by (auto simp: se_flow_def se_wf_def sb_sent_def sb_due_def)
next
  case (Take i e es)
  then show ?thesis using assms(3) by (auto simp: se_flow_def sb_sent_def sb_due_def)
qed (use assms(3) in \<open>auto simp: se_flow_def se_close_def sb_sent_def sb_due_def\<close>)

lemma se_flow_reach: "se_reach gen s0 s \<Longrightarrow> se_wf s0 \<Longrightarrow> se_flow s0 \<Longrightarrow> se_flow s"
  by (induction rule: se_reach.induct) (auto intro: se_flow_step se_wf_reach)

section \<open>Replay\<close>

text \<open>
  The log holds the latest events with content, up to their timestamps, and their IDs are the ones that were issued, in order; what was
  replayed to a subscriber comes from the log at its registration.
\<close>

definition lastn :: "nat \<Rightarrow> 'a list \<Rightarrow> 'a list" where
  "lastn n xs = drop (length xs - n) xs"

definition ev_key :: "sse_event \<Rightarrow> sse_event" where
  "ev_key e = e\<lparr>ev_timestamp := None\<rparr>"

definition se_journal :: "sse_event list \<Rightarrow> sse_event list" where
  "se_journal h = map ev_key (filter ev_hasContent h)"

definition se_logged :: "(nat \<Rightarrow> string) \<Rightarrow> sse_stream \<Rightarrow> bool" where
  "se_logged gen s \<longleftrightarrow>
     map ev_key (se_eventLog s) = lastn maxEventLogSize (se_journal (se_hist s)) \<and>
     map ev_ID (se_journal (se_hist s)) = map gen [0..<se_ids s] \<and>
     (\<forall>i \<in> set (se_subscribers s). map ev_key (sb_replay (se_subs s i)) =
        el_Replay (sb_eventId (se_subs s i)) (lastn maxEventLogSize (se_journal (take (sb_from (se_subs s i)) (se_hist s)))))"

lemma lastn_snoc: "lastn (Suc n) (lastn (Suc n) xs @ [x]) = lastn (Suc n) (xs @ [x])"
  by (cases "Suc n \<le> length xs") (auto simp: lastn_def Suc_diff_Suc Suc_le_eq)

lemma lastn_map: "lastn n (map f xs) = map f (lastn n xs)"
  by (simp add: lastn_def drop_map)

lemma el_Add_eq: "ev_hasContent e \<Longrightarrow> el_Add i now e l =
    (e\<lparr>ev_ID := i, ev_timestamp := Some now\<rparr>, lastn maxEventLogSize (l @ [e\<lparr>ev_ID := i, ev_timestamp := Some now\<rparr>]))"
  by (auto simp: el_Add_def lastn_def Let_def maxEventLogSize_def)

lemma ev_key_simps [simp]: "ev_ID (ev_key e) = ev_ID e" "ev_key (e\<lparr>ev_timestamp := t\<rparr>) = ev_key e"
    "ev_key (e\<lparr>ev_ID := i, ev_timestamp := t\<rparr>) = ev_key (e\<lparr>ev_ID := i\<rparr>)"
  by (simp_all add: ev_key_def)

lemma el_Replay_key: "map ev_key (el_Replay i l) = el_Replay i (map ev_key l)"
  by (simp add: el_Replay_def filter_map comp_def)

lemma se_journal_snoc: "se_journal (h @ [e]) = se_journal h @ (if ev_hasContent e then [ev_key e] else [])"
  by (simp add: se_journal_def)

lemma se_logged_onEvent:
  assumes "se_logged gen s" "se_flow s" "se_autoReplay s" "\<forall>n. gen n \<noteq> ''''"
  shows "se_logged gen (se_onEvent (gen (se_ids s)) now e rest s)"
proof -
  have t: "take (sb_from (se_subs s i)) (se_hist s @ [x]) = take (sb_from (se_subs s i)) (se_hist s)" if "i \<in> set (se_subscribers s)" for i x
    using assms(2) that by (auto simp: se_flow_def)
  show ?thesis
  proof (cases "ev_hasContent e")
    case True
    let ?i = "gen (se_ids s)"
    have c: "ev_hasContent (e\<lparr>ev_ID := ?i\<rparr>)" using assms(4) by (simp add: ev_hasContent_def)
    have "map ev_key (lastn maxEventLogSize (se_eventLog s @ [e\<lparr>ev_ID := ?i, ev_timestamp := Some now\<rparr>])) =
        lastn maxEventLogSize (lastn maxEventLogSize (se_journal (se_hist s)) @ [ev_key (e\<lparr>ev_ID := ?i\<rparr>)])"
      using assms(1) by (simp flip: lastn_map add: se_logged_def)
    also have "\<dots> = lastn maxEventLogSize (se_journal (se_hist s @ [e\<lparr>ev_ID := ?i\<rparr>]))"
      using c lastn_snoc[of 1023] by (simp add: se_journal_snoc maxEventLogSize_def)
    finally show ?thesis using True assms(1,3) t c by (simp add: se_logged_def se_onEvent_def el_Add_eq se_journal_snoc)
  next
    case False
    then show ?thesis using assms(1,3) t by (simp add: se_logged_def se_onEvent_def el_Add_def se_journal_snoc)
  qed
qed

lemma se_onEvent_autoReplay: "se_autoReplay (se_onEvent i now e rest s) = se_autoReplay s"
  by (simp add: se_onEvent_def Let_def split: prod.splits)

lemma se_autoReplay_step: "se_step gen s (Some s') \<Longrightarrow> se_wf s \<Longrightarrow> se_autoReplay s' = se_autoReplay s"
  by (erule se_step.cases)
    (auto simp: se_addSubscriber_def se_onRegister_def se_onEvent_autoReplay se_onDeregister_eq se_removeAll_eq se_close_def se_send_def Let_def
      split: if_splits)

lemma se_logged_step:
  assumes "se_step gen s (Some s')" "se_wf s" "se_flow s" "se_logged gen s" "se_autoReplay s" "\<forall>n. gen n \<noteq> ''''"
  shows "se_logged gen s'"
  using assms(1)
proof (cases rule: se_step.cases)
  case (Subscribe eventId)
  have "se_next s \<notin> set (se_subscribers s)" using assms(2) by (auto simp: se_wf_def)
  then show ?thesis using Subscribe assms(4) by (auto simp: se_logged_def se_addSubscriber_def Let_def)
next
  case (Register i)
  then have "i \<notin> set (se_subscribers s)" using assms(2) by (auto simp: se_wf_def)
  then show ?thesis using Register assms(4,5) by (auto simp: se_logged_def se_onRegister_def Let_def el_Replay_key)
next
  case (Event e rest now)
  then show ?thesis using se_logged_onEvent[OF assms(4,3,5,6)] by simp
next
  case (Deregister i)
  then show ?thesis using assms(2,4) unfolding se_onDeregister_eq[OF assms(2)]
    by (auto simp: se_logged_def Let_def dest: notin_set_remove1 split: if_splits)
next
  case Quit
  then show ?thesis using assms(4) unfolding se_removeAll_eq[OF assms(2)] by (auto simp: se_logged_def)
qed (use assms(4) in \<open>auto simp: se_logged_def se_close_def se_send_def split: if_splits\<close>)

lemma se_logged_reach:
  assumes "se_reach gen (newStream n k True a) s" "\<forall>n. gen n \<noteq> ''''"
  shows "se_logged gen s \<and> se_autoReplay s"
  using assms(1)
proof (induction rule: se_reach.induct)
  case se_reach_refl
  show ?case by (simp add: se_logged_def newStream_def se_journal_def lastn_def)
next
  case (se_reach_step s s')
  have "se_wf s" "se_flow s" using se_reach_step(1) se_wf_reach se_flow_reach se_wf_new se_flow_new by blast+
  then show ?case using se_reach_step(2,3) se_logged_step assms(2) se_autoReplay_step by blast
qed

lemma se_journal_append: "se_journal (a @ b) = se_journal a @ se_journal b"
  by (simp add: se_journal_def)

lemma sorted_gen: "strict_mono gen \<Longrightarrow> sorted_wrt (<) (map gen [0..<n])"
  by (auto simp: sorted_wrt_iff_nth_less strict_mono_def)

lemma lastn_after: "length b < n \<Longrightarrow> \<exists>c. lastn n (a @ e # b) = c @ e # b"
  by (auto simp: lastn_def intro: exI[of _ "drop (Suc (length a + length b) - n) a"])

lemma el_sorted_lastn: "el_sorted xs \<Longrightarrow> el_sorted (lastn n xs)"
  unfolding lastn_def drop_map[symmetric] by (rule sorted_wrt_drop)

text \<open>
  C37: the stream never panics and loses no count. In every state that publishers, clients, the loop and the end of the stream can
  reach, in any interleaving, no step sends on or closes a closed channel, and until the loop ends the counter of subscribers is the number of
  those registered and waiting.
\<close>

theorem se_safe:
  assumes "se_reach gen (newStream n k replay auto) s"
  shows "\<not> se_step gen s None \<and> (se_loop s \<noteq> LpDone \<longrightarrow>
    se_getSubscriberCount s = int (length (se_subscribers s) + length (se_register s)))"
  using se_wf_reach[OF assms se_wf_new] se_wf_step by (fastforce simp: se_wf_def se_getSubscriberCount_def)

text \<open>
  C8: every subscriber gets every event once and in order. Whatever the interleaving, what a client was sent is a prefix of
  its replay followed by the events dispatched since its registration; when the loop is back at its \<open>select\<close>, a registered client was sent all
  of them.
\<close>

theorem se_delivery:
  assumes "se_reach gen (newStream n k replay auto) s" "i < se_next s"
  shows "prefix (sb_got (se_subs s i) @ sb_conn (se_subs s i)) (sb_replay (se_subs s i) @ drop (sb_from (se_subs s i)) (se_hist s)) \<and>
    (i \<in> set (se_subscribers s) \<and> se_loop s = LpSelect \<longrightarrow>
     sb_got (se_subs s i) @ sb_conn (se_subs s i) = sb_replay (se_subs s i) @ drop (sb_from (se_subs s i)) (se_hist s))"
  using se_flow_reach[OF assms(1) se_wf_new se_flow_new] assms(2) by (auto simp: se_flow_def sb_sent_def sb_due_def)

text \<open>
  C9: a client that reconnects goes on where it stopped. IDs grow, as those of \<open>newEventID\<close> do. A client registers with the ID of an
  event as its \<open>Last-Event-ID\<close>, and fewer events with content than the log holds were dispatched in between. Then it is sent, up to
  timestamps, exactly the events with content after that one, and after its registration every event.
\<close>

theorem se_resume:
  assumes "se_reach gen (newStream n k True auto) s" "strict_mono gen" "\<forall>n. gen n \<noteq> ''''" "i \<in> set (se_subscribers s)" "se_loop s = LpSelect"
    "p < sb_from (se_subs s i)" "ev_hasContent (se_hist s ! p)" "sb_eventId (se_subs s i) = ev_ID (se_hist s ! p)"
    "length (filter ev_hasContent (drop (p + 1) (take (sb_from (se_subs s i)) (se_hist s)))) < maxEventLogSize"
  shows "map ev_key (sb_got (se_subs s i) @ sb_conn (se_subs s i)) =
    map ev_key (filter ev_hasContent (drop (p + 1) (take (sb_from (se_subs s i)) (se_hist s))) @ drop (sb_from (se_subs s i)) (se_hist s))"
proof -
  let ?b = "se_subs s i" and ?e = "se_hist s ! p"
  let ?h = "take (sb_from ?b) (se_hist s)"
  have f: "sb_got ?b @ sb_conn ?b = sb_replay ?b @ drop (sb_from ?b) (se_hist s)" "sb_from ?b \<le> length (se_hist s)"
    using se_flow_reach[OF assms(1) se_wf_new se_flow_new] assms(4,5) by (auto simp: se_flow_def sb_sent_def sb_due_def)
  have l: "map ev_ID (se_journal (se_hist s)) = map gen [0..<se_ids s]"
    "map ev_key (sb_replay ?b) = el_Replay (ev_ID ?e) (lastn maxEventLogSize (se_journal ?h))"
    using se_logged_reach[OF assms(1,3)] assms(4,8) by (auto simp: se_logged_def)
  have "el_sorted (se_journal ?h @ se_journal (drop (sb_from ?b) (se_hist s)))"
    using l(1) sorted_gen[OF assms(2)] by (simp flip: se_journal_append map_append)
  then have o: "el_sorted (lastn maxEventLogSize (se_journal ?h))" by (intro el_sorted_lastn) (simp add: sorted_wrt_append)
  have "?h = take p ?h @ ?e # drop (p + 1) ?h" using id_take_nth_drop[of p ?h] assms(6) f(2) by simp
  then have "se_journal ?h = se_journal (take p ?h @ ?e # drop (p + 1) ?h)" by (rule arg_cong)
  then have "se_journal ?h = se_journal (take p ?h) @ ev_key ?e # se_journal (drop (p + 1) ?h)"
    using assms(7) by (simp add: se_journal_def)
  moreover have "length (se_journal (drop (p + 1) ?h)) < maxEventLogSize" using assms(9) by (simp add: se_journal_def)
  ultimately obtain c where "lastn maxEventLogSize (se_journal ?h) = c @ ev_key ?e # se_journal (drop (p + 1) ?h)"
    using lastn_after[of "se_journal (drop (p + 1) ?h)" maxEventLogSize "se_journal (take p ?h)" "ev_key ?e"] by metis
  then have "map ev_key (sb_replay ?b) = se_journal (drop (p + 1) ?h)" using l(2) o el_Replay_after[of c "ev_key ?e"] by simp
  then show ?thesis unfolding f(1) by (simp add: se_journal_def)
qed

section \<open>A stream that stands still\<close>

lemma se_reach_trans: "se_reach gen t u \<Longrightarrow> se_reach gen s t \<Longrightarrow> se_reach gen s u"
  by (induction rule: se_reach.induct) (auto intro: se_reach_step)

lemma se_onEvent_obtain:
  obtains e' where "se_loop (se_onEvent i now e rest s) = LpSend e' (se_subscribers s)" "se_subs (se_onEvent i now e rest s) = se_subs s"
    "se_event (se_onEvent i now e rest s) = rest" "se_subscribers (se_onEvent i now e rest s) = se_subscribers s"
    "se_bufsize (se_onEvent i now e rest s) = se_bufsize s" "se_next (se_onEvent i now e rest s) = se_next s"
    "se_register (se_onEvent i now e rest s) = se_register s" "\<not> ev_hasContent e \<Longrightarrow> e' = e"
proof -
  show ?thesis
    by (rule that[of "if se_autoReplay s \<and> ev_hasContent e then e\<lparr>ev_ID := i\<rparr> else e"])
      (auto simp: se_onEvent_def el_Add_def Let_def)
qed

text \<open>The only subscriber's handler has ended, its connection holds \<open>m\<close> events, and the loop waits.\<close>

definition se_left :: "nat \<Rightarrow> nat \<Rightarrow> sse_stream \<Rightarrow> bool" where
  "se_left k m s \<longleftrightarrow> se_loop s = LpSelect \<and> se_subscribers s = [0] \<and> se_event s = [] \<and> se_bufsize s = k \<and> 0 < se_next s \<and>
     \<not> sb_handler (se_subs s 0) \<and> sb_open (se_subs s 0) \<and> length (sb_conn (se_subs s 0)) = m"

lemma se_left_dispatch:
  assumes "se_left k m s" "0 < k"
  shows "\<exists>t e. se_reach gen s t \<and> se_loop t = LpSend e [0] \<and> se_left k m (t\<lparr>se_loop := LpSelect\<rparr>)"
proof -
  let ?e = "ev_demo '''' ''x''" and ?s = "s\<lparr>se_event := se_event s @ [ev_demo '''' ''x'']\<rparr>"
  have 1: "se_step gen s (Some ?s)" using assms by (intro Publish) (simp add: se_left_def)
  have 2: "se_step gen ?s (Some (se_onEvent (gen (se_ids ?s)) 0 ?e [] ?s))" using assms(1) by (intro Event) (auto simp: se_left_def)
  have "se_reach gen s (se_onEvent (gen (se_ids ?s)) 0 ?e [] ?s)" using 1 2 by (meson se_reach_refl se_reach_step)
  moreover obtain e' where "se_loop (se_onEvent (gen (se_ids ?s)) 0 ?e [] ?s) = LpSend e' [0]"
      "se_left k m ((se_onEvent (gen (se_ids ?s)) 0 ?e [] ?s)\<lparr>se_loop := LpSelect\<rparr>)"
    by (rule se_onEvent_obtain[of "gen (se_ids ?s)" 0 ?e "[]" ?s]) (use assms(1) in \<open>simp add: se_left_def\<close>)
  ultimately show ?thesis by blast
qed

lemma se_left_more:
  assumes "se_left k m s" "0 < k" "m < sb_cap"
  shows "\<exists>t. se_reach gen s t \<and> se_left k (Suc m) t"
proof -
  obtain t e where t: "se_reach gen s t" "se_loop t = LpSend e [0]" "se_left k m (t\<lparr>se_loop := LpSelect\<rparr>)"
    using se_left_dispatch[OF assms(1,2)] by blast
  let ?t = "(se_upd 0 (\<lambda>b. b\<lparr>sb_conn := sb_conn b @ [e]\<rparr>) t)"
  have "se_send e 0 t = Some ?t" using t(3) by (simp add: se_send_def se_left_def)
  then have "se_step gen t (Some (?t\<lparr>se_loop := LpSend e []\<rparr>))" using Send[OF t(2), of gen] t(3) assms(3) by (simp add: se_left_def)
  moreover have "se_step gen (?t\<lparr>se_loop := LpSend e []\<rparr>) (Some (?t\<lparr>se_loop := LpSelect\<rparr>))"
    using Sent[of "?t\<lparr>se_loop := LpSend e []\<rparr>" e gen] by simp
  ultimately have "se_reach gen s (?t\<lparr>se_loop := LpSelect\<rparr>)" using t(1) by (meson se_reach_step)
  then show ?thesis using t(3) by (intro exI[of _ "?t\<lparr>se_loop := LpSelect\<rparr>"]) (simp add: se_left_def)
qed

lemma se_left_fill: "se_left k m s \<Longrightarrow> 0 < k \<Longrightarrow> m + n \<le> sb_cap \<Longrightarrow> \<exists>t. se_reach gen s t \<and> se_left k (m + n) t"
proof (induction n)
  case 0
  then show ?case using se_reach_refl by auto
next
  case (Suc n)
  then obtain t where t: "se_reach gen s t" "se_left k (m + n) t" by auto
  with Suc.prems obtain u where "se_reach gen t u" "se_left k (Suc (m + n)) u" using se_left_more[of k "m + n" t gen] by auto
  then show ?case using se_reach_trans[OF _ t(1)] by (metis add_Suc_right)
qed

text \<open>The event that ends a stream, sent to a single client.\<close>

definition sb_one :: "bool \<Rightarrow> bool \<Rightarrow> sse_event list \<Rightarrow> sse_event list \<Rightarrow> sse_sub" where
  "sb_one auto h g c = (sb_new '''' auto)\<lparr>sb_handler := h, sb_got := g, sb_conn := c\<rparr>"

definition se_one :: "nat \<Rightarrow> bool \<Rightarrow> bool \<Rightarrow> sse_event list \<Rightarrow> se_loop \<Rightarrow> sse_event list \<Rightarrow> sse_sub \<Rightarrow> sse_stream" where
  "se_one k replay auto ev l h b = (newStream ''s'' k replay auto)\<lparr>se_subscriberCount := 1, se_next := 1,
     se_subs := (se_subs (newStream ''s'' k replay auto))(0 := b), se_subscribers := [0], se_event := ev,
     se_calls := [OnSubscribe 0], se_loop := l, se_hist := h\<rparr>"

lemma se_one_simps [simp]:
  "se_loop (se_one k r a ev l h b) = l" "se_event (se_one k r a ev l h b) = ev" "se_bufsize (se_one k r a ev l h b) = k"
  "se_subs (se_one k r a ev l h b) 0 = b" "se_next (se_one k r a ev l h b) = 1" "se_register (se_one k r a ev l h b) = []"
  "se_subscribers (se_one k r a ev l h b) = [0]" "se_ids (se_one k r a ev l h b) = 0" "se_eventLog (se_one k r a ev l h b) = []"
  "se_hist (se_one k r a ev l h b) = h" "(se_one k r a ev l h b)\<lparr>se_loop := l'\<rparr> = se_one k r a ev l' h b"
  "(se_one k r a ev l h b)\<lparr>se_event := ev'\<rparr> = se_one k r a ev' l h b" "se_upd 0 f (se_one k r a ev l h b) = se_one k r a ev l h (f b)"
  by (simp_all add: se_one_def newStream_def se_upd_def)

lemma sb_one_simps [simp]:
  "sb_open (sb_one a h g c)" "sb_conn (sb_one a h g c) = c" "sb_handler (sb_one a h g c) = h" "sb_got (sb_one a h g c) = g"
  "(sb_one a h g c)\<lparr>sb_conn := c'\<rparr> = sb_one a h g c'" "(sb_one a h g c)\<lparr>sb_got := g'\<rparr> = sb_one a h g' c"
  "(sb_one a h g c)\<lparr>sb_handler := h'\<rparr> = sb_one a h' g c"
  "(sb_one a h g c)\<lparr>sb_conn := c', sb_got := g', sb_handler := h'\<rparr> = sb_one a h' g' c'"
  by (simp_all add: sb_one_def sb_new_def)

definition se_ended :: "nat \<Rightarrow> bool \<Rightarrow> bool \<Rightarrow> sse_stream" where
  "se_ended k replay auto = se_one k replay auto [] LpSelect [ev_demo '''' ''''] (sb_one auto False [ev_demo '''' ''''] [])"

lemma se_ended_left: "se_left k 0 (se_ended k replay auto)"
  by (simp add: se_left_def se_ended_def)

lemma se_ended_reach:
  assumes "0 < k"
  shows "se_reach gen (newStream ''s'' k replay auto) (se_ended k replay auto)"
proof -
  let ?s = "newStream ''s'' k replay auto" and ?e = "ev_demo '''' ''''"
  let ?t = "\<lambda>ev l h (b :: sse_sub). se_one k replay auto ev l h b" and ?b = "sb_one auto True []"
  have 1: "se_reach gen ?s (snd (se_addSubscriber '''' ?s))" by (rule se_reach_step[OF se_reach_refl Subscribe])
  have "se_onRegister 0 (snd (se_addSubscriber '''' ?s)) = ?t [] (LpReplay 0 []) [] (?b [])"
    by (simp add: se_onRegister_def se_addSubscriber_def newStream_def sb_new_def el_Replay_def se_upd_def se_one_def sb_one_def Let_def)
  then have "se_step gen (snd (se_addSubscriber '''' ?s)) (Some (?t [] (LpReplay 0 []) [] (?b [])))"
    using Register[of "snd (se_addSubscriber '''' ?s)" 0 gen] by (simp add: se_addSubscriber_def newStream_def Let_def)
  from se_reach_step[OF 1 this] have 2: "se_reach gen ?s (?t [] (LpReplay 0 []) [] (?b []))" .
  have "se_step gen (?t [] (LpReplay 0 []) [] (?b [])) (Some (?t [] LpSelect [] (?b [])))"
    using Replayed[of "?t [] (LpReplay 0 []) [] (?b [])" 0 gen] by simp
  from se_reach_step[OF 2 this] have 3: "se_reach gen ?s (?t [] LpSelect [] (?b []))" .
  have "se_step gen (?t [] LpSelect [] (?b [])) (Some (?t [?e] LpSelect [] (?b [])))"
    using Publish[of "?t [] LpSelect [] (?b [])" gen ?e] assms by simp
  from se_reach_step[OF 3 this] have 4: "se_reach gen ?s (?t [?e] LpSelect [] (?b []))" .
  have "se_onEvent i 0 ?e [] (?t [?e] LpSelect [] (?b [])) = ?t [] (LpSend ?e [0]) [?e] (?b [])" for i
    by (simp add: se_onEvent_def el_Add_def ev_hasContent_def ev_demo_def se_one_def newStream_def)
  then have "se_step gen (?t [?e] LpSelect [] (?b [])) (Some (?t [] (LpSend ?e [0]) [?e] (?b [])))"
    using Event[of "?t [?e] LpSelect [] (?b [])" ?e "[]" gen 0] by simp
  from se_reach_step[OF 4 this] have 5: "se_reach gen ?s (?t [] (LpSend ?e [0]) [?e] (?b []))" .
  have "se_step gen (?t [] (LpSend ?e [0]) [?e] (?b [])) (Some (?t [] (LpSend ?e []) [?e] (?b [?e])))"
    using Send[of "?t [] (LpSend ?e [0]) [?e] (?b [])" ?e 0 "[]" gen] by (simp add: se_send_def sb_cap_def)
  from se_reach_step[OF 5 this] have 6: "se_reach gen ?s (?t [] (LpSend ?e []) [?e] (?b [?e]))" .
  have "se_step gen (?t [] (LpSend ?e []) [?e] (?b [?e])) (Some (?t [] LpSelect [?e] (?b [?e])))"
    using Sent[of "?t [] (LpSend ?e []) [?e] (?b [?e])" ?e gen] by simp
  from se_reach_step[OF 6 this] have 7: "se_reach gen ?s (?t [] LpSelect [?e] (?b [?e]))" .
  have "ev_sentinel ?e" by (simp add: ev_sentinel_def ev_demo_def)
  then have "se_step gen (?t [] LpSelect [?e] (?b [?e])) (Some (se_ended k replay auto))"
    using Take[of 0 "?t [] LpSelect [?e] (?b [?e])" ?e "[]" gen] by (simp add: se_ended_def)
  from se_reach_step[OF 7 this] show ?thesis .
qed

lemma se_stuck_step:
  assumes "se_step gen s (Some s')" "se_loop s = LpSend e (i # is)" "i < se_next s" "sb_open (se_subs s i)" "\<not> sb_handler (se_subs s i)"
    "length (sb_conn (se_subs s i)) = sb_cap"
  shows "se_loop s' = LpSend e (i # is) \<and> i < se_next s' \<and> sb_open (se_subs s' i) \<and> \<not> sb_handler (se_subs s' i) \<and>
    length (sb_conn (se_subs s' i)) = sb_cap"
  using assms by (cases rule: se_step.cases) (auto simp: se_addSubscriber_def se_close_def Let_def split: if_splits)

text \<open>
  C38: the event that ends a stream can end it for everybody. The handler of a client returns at the empty event and reads no more, but the
  client stays registered until its deregistration reaches the loop; when the connection fills up before that, the loop waits in a send
  for ever: no event is dispatched, no client registered or removed and the stream cannot be closed, whatever happens after.
\<close>

theorem se_stands_still:
  assumes "0 < k"
  shows "\<exists>s e. se_reach gen (newStream ''s'' k replay auto) s \<and> (\<forall>s'. se_reach gen s s' \<longrightarrow> se_loop s' = LpSend e [0])"
proof -
  obtain t where t: "se_reach gen (se_ended k replay auto) t" "se_left k sb_cap t"
    using se_left_fill[OF se_ended_left assms, of sb_cap gen replay auto] by auto
  obtain u e where u: "se_reach gen t u" "se_loop u = LpSend e [0]" "se_left k sb_cap (u\<lparr>se_loop := LpSelect\<rparr>)"
    using se_left_dispatch[OF t(2) assms] by blast
  have "se_loop s' = LpSend e [0] \<and> 0 < se_next s' \<and> sb_open (se_subs s' 0) \<and> \<not> sb_handler (se_subs s' 0) \<and>
      length (sb_conn (se_subs s' 0)) = sb_cap" if "se_reach gen u s'" for s'
    using that
  proof (induction rule: se_reach.induct)
    case se_reach_refl
    show ?case using u(2,3) by (simp add: se_left_def)
  next
    case (se_reach_step s s')
    then show ?case using se_stuck_step[OF se_reach_step(2)] by blast
  qed
  moreover have "se_reach gen (newStream ''s'' k replay auto) u"
    using se_reach_trans[OF u(1) se_reach_trans[OF t(1) se_ended_reach[OF assms]]] .
  ultimately show ?thesis by blast
qed

theorem se_stands_still_witness:
  "\<exists>s e. se_reach (\<lambda>n. replicate (Suc n) CHR ''a'') (newStream ''s'' 1024 True False) s \<and>
    (\<forall>s'. se_reach (\<lambda>n. replicate (Suc n) CHR ''a'') s s' \<longrightarrow> se_loop s' = LpSend e [0])"
  by (rule se_stands_still) simp

section \<open>A run\<close>

text \<open>Two events are dispatched; then a client registers that has seen the first one.\<close>

definition se_gen :: "nat \<Rightarrow> string" where
  "se_gen n = replicate (Suc n) CHR ''a''"

lemma se_gen_mono: "strict_mono se_gen"
proof -
  have "replicate m c < replicate (m + Suc n) c" for m n and c :: char by (induction m) auto
  then have "se_gen m < se_gen n" if "m < n" for m n
    using that by (auto simp: se_gen_def less_iff_Suc_add simp del: replicate_Suc) (metis add_Suc)
  then show ?thesis by (rule strict_monoI)
qed

lemma se_gen_ne: "se_gen n \<noteq> ''''"
  by (simp add: se_gen_def)

definition se_demo0 :: sse_stream where
  "se_demo0 = newStream ''s'' 4 True False"

definition se_demo1 :: "sse_event \<Rightarrow> sse_stream \<Rightarrow> sse_stream" where
  "se_demo1 e s = (se_onEvent (se_gen (se_ids s)) 5 e [] (s\<lparr>se_event := se_event s @ [e]\<rparr>))\<lparr>se_loop := LpSelect\<rparr>"

definition se_demo2 :: sse_stream where
  "se_demo2 = se_demo1 (ev_demo '''' ''y'') (se_demo1 (ev_demo '''' ''x'') se_demo0)"

definition se_demo3 :: sse_stream where
  "se_demo3 = se_onRegister 0 (snd (se_addSubscriber ''a'' se_demo2))"

definition se_demo4 :: sse_stream where
  "se_demo4 = (se_upd 0 (\<lambda>b. b\<lparr>sb_conn := sb_replay b\<rparr>) se_demo3)\<lparr>se_loop := LpSelect\<rparr>"

lemma se_demo1_reach:
  assumes "se_loop s = LpSelect" "se_event s = []" "se_subscribers s = []" "0 < se_bufsize s"
  shows "se_reach se_gen s (se_demo1 e s)"
proof -
  let ?s = "s\<lparr>se_event := se_event s @ [e]\<rparr>"
  have 1: "se_reach se_gen s ?s" using assms by (intro se_reach_step[OF se_reach_refl Publish]) simp
  have 2: "se_step se_gen ?s (Some (se_onEvent (se_gen (se_ids ?s)) 5 e [] ?s))" using assms by (intro Event) simp_all
  obtain e' where "se_loop (se_onEvent (se_gen (se_ids ?s)) 5 e [] ?s) = LpSend e' []"
    by (rule se_onEvent_obtain[of "se_gen (se_ids ?s)" 5 e "[]" ?s]) (use assms in simp)
  from se_reach_step[OF se_reach_step[OF 1 2] Sent[OF this]] show ?thesis by (simp add: se_demo1_def)
qed

lemma se_demo_facts:
  "se_loop (se_demo1 (ev_demo '''' ''x'') se_demo0) = LpSelect" "se_event (se_demo1 (ev_demo '''' ''x'') se_demo0) = []"
  "se_subscribers (se_demo1 (ev_demo '''' ''x'') se_demo0) = []" "se_bufsize (se_demo1 (ev_demo '''' ''x'') se_demo0) = 4"
  "se_loop se_demo2 = LpSelect" "se_next se_demo2 = 0" "se_loop se_demo3 = LpReplay 0 (sb_replay (se_subs se_demo3 0))"
  "length (sb_replay (se_subs se_demo3 0)) = 1" "sb_open (se_subs se_demo3 0)" "sb_conn (se_subs se_demo3 0) = []"
  "se_loop (snd (se_addSubscriber ''a'' se_demo2)) = LpSelect" "se_register (snd (se_addSubscriber ''a'' se_demo2)) = [0]"
  by code_simp+

lemma se_demo4_reach: "se_reach se_gen se_demo0 se_demo4"
proof -
  have "se_loop se_demo0 = LpSelect" "se_event se_demo0 = []" "se_subscribers se_demo0 = []" "0 < se_bufsize se_demo0"
    by (simp_all add: se_demo0_def newStream_def)
  then have 1: "se_reach se_gen se_demo0 (se_demo1 (ev_demo '''' ''x'') se_demo0)" by (rule se_demo1_reach)
  have "se_reach se_gen (se_demo1 (ev_demo '''' ''x'') se_demo0) se_demo2"
    unfolding se_demo2_def by (rule se_demo1_reach) (simp_all add: se_demo_facts)
  from this 1 have 2: "se_reach se_gen se_demo0 se_demo2" by (rule se_reach_trans)
  have "se_step se_gen (snd (se_addSubscriber ''a'' se_demo2)) (Some se_demo3)"
    unfolding se_demo3_def by (rule Register) (simp_all add: se_demo_facts)
  then have 3: "se_reach se_gen se_demo0 se_demo3" by (rule se_reach_step[OF se_reach_step[OF 2 Subscribe]])
  obtain e where e: "sb_replay (se_subs se_demo3 0) = [e]" using se_demo_facts(8) by (auto simp: length_Suc_conv)
  let ?s = "se_upd 0 (\<lambda>b. b\<lparr>sb_conn := sb_conn b @ [e]\<rparr>) se_demo3"
  have l: "se_loop se_demo3 = LpReplay 0 (e # [])" using se_demo_facts(7) e by simp
  have "se_step se_gen se_demo3 (Some (?s\<lparr>se_loop := LpReplay 0 []\<rparr>))"
    using Replay[OF l, of se_gen] by (simp add: se_send_def se_demo_facts sb_cap_def)
  from se_reach_step[OF 3 this] have "se_reach se_gen se_demo0 (?s\<lparr>se_loop := LpReplay 0 []\<rparr>)" .
  from se_reach_step[OF this Replayed] have "se_reach se_gen se_demo0 (?s\<lparr>se_loop := LpSelect\<rparr>)" by simp
  moreover have "?s\<lparr>se_loop := LpSelect\<rparr> = se_demo4" by (simp add: se_demo4_def se_upd_def e se_demo_facts)
  ultimately show ?thesis by simp
qed

theorem se_safe_witness: "\<not> se_step se_gen se_demo4 None \<and> se_getSubscriberCount se_demo4 = 1"
proof -
  have "se_loop se_demo4 \<noteq> LpDone" "length (se_subscribers se_demo4) + length (se_register se_demo4) = 1" by code_simp+
  then show ?thesis using se_safe[OF se_demo4_reach[unfolded se_demo0_def]] by simp
qed

theorem se_delivery_witness: "sb_conn (se_subs se_demo4 0) = [(ev_demo ''aa'' ''y'')\<lparr>ev_timestamp := Some 5\<rparr>]"
proof -
  have "0 < se_next se_demo4" "0 \<in> set (se_subscribers se_demo4)" "se_loop se_demo4 = LpSelect" "sb_got (se_subs se_demo4 0) = []"
    "sb_replay (se_subs se_demo4 0) @ drop (sb_from (se_subs se_demo4 0)) (se_hist se_demo4) = [(ev_demo ''aa'' ''y'')\<lparr>ev_timestamp := Some 5\<rparr>]"
    by code_simp+
  then show ?thesis using se_delivery[OF se_demo4_reach[unfolded se_demo0_def], of 0] by simp
qed

theorem se_resume_witness:
  "map ev_key (sb_got (se_subs se_demo4 0) @ sb_conn (se_subs se_demo4 0)) = [ev_demo ''aa'' ''y'']"
proof -
  have f: "0 \<in> set (se_subscribers se_demo4)" "se_loop se_demo4 = LpSelect" "0 < sb_from (se_subs se_demo4 0)"
    "ev_hasContent (se_hist se_demo4 ! 0)" "sb_eventId (se_subs se_demo4 0) = ev_ID (se_hist se_demo4 ! 0)"
    "length (filter ev_hasContent (drop (0 + 1) (take (sb_from (se_subs se_demo4 0)) (se_hist se_demo4)))) < maxEventLogSize"
    "map ev_key (filter ev_hasContent (drop (0 + 1) (take (sb_from (se_subs se_demo4 0)) (se_hist se_demo4))) @
       drop (sb_from (se_subs se_demo4 0)) (se_hist se_demo4)) = [ev_demo ''aa'' ''y'']" by code_simp+
  show ?thesis
    unfolding se_resume[OF se_demo4_reach[unfolded se_demo0_def] se_gen_mono allI[OF se_gen_ne] f(1-6)] by (rule f(7))
qed

end
