(* ===== verification/Sse_Server.thy ===== *)
theory Sse_Server
  imports Sse_Stream
begin

text \<open>
  \<open>transport/sse\<close>, the table of streams (\<open>stream_manager.go\<close>), the server's configuration and publishing (\<open>options.go\<close>, \<open>server.go\<close>) and
  the admission of a request (\<open>http.go\<close>). Streams are addresses of a store. TLS, the listener, the middlewares and the choice of the codec
  are not modelled; the codec and the authorization function are parameters.
\<close>

section \<open>Streams\<close>

text \<open>The table is a list without double keys, in the order in which a range visits it.\<close>

record sse_world =
  sn_streams :: "(string \<times> nat) list"
  sn_heap :: "nat \<Rightarrow> sse_stream"
  sn_next :: nat

definition sn_upd :: "nat \<Rightarrow> (sse_stream \<Rightarrow> sse_stream) \<Rightarrow> sse_world \<Rightarrow> sse_world" where
  "sn_upd a f w = w\<lparr>sn_heap := (sn_heap w)(a := f (sn_heap w a))\<rparr>"

definition sn_Clean :: "sse_world \<Rightarrow> sse_world" where
  "sn_Clean w = (fold (\<lambda>(_, a). sn_upd a se_close) (sn_streams w) w)\<lparr>sn_streams := []\<rparr>"

definition sn_Count :: "sse_world \<Rightarrow> nat" where
  "sn_Count w = length (sn_streams w)"

definition sn_Get :: "string \<Rightarrow> sse_world \<Rightarrow> nat option" where
  "sn_Get streamId w = map_of (sn_streams w) streamId"

definition sn_Exist :: "string \<Rightarrow> sse_world \<Rightarrow> bool" where
  "sn_Exist streamId w \<longleftrightarrow> sn_Get streamId w \<noteq> None"

text \<open>The streams that \<open>Range\<close> hands to its function, a copy made under the lock.\<close>

definition sn_Range :: "sse_world \<Rightarrow> nat list" where
  "sn_Range w = map snd (sn_streams w)"

definition sn_Add :: "nat option \<Rightarrow> sse_world \<Rightarrow> sse_world" where
  "sn_Add stream w =
     (case stream of
        None \<Rightarrow> w
      | Some a \<Rightarrow>
          if map_of (sn_streams w) (se_id (sn_heap w a)) \<noteq> None then w
          else w\<lparr>sn_streams := sn_streams w @ [(se_id (sn_heap w a), a)]\<rparr>)"

definition sn_RemoveWithID :: "string \<Rightarrow> sse_world \<Rightarrow> sse_world" where
  "sn_RemoveWithID streamId w =
     (case map_of (sn_streams w) streamId of
        None \<Rightarrow> w
      | Some a \<Rightarrow> (sn_upd a se_close w)\<lparr>sn_streams := filter (\<lambda>(k, _). k \<noteq> streamId) (sn_streams w)\<rparr>)"

definition sn_Remove :: "nat \<Rightarrow> sse_world \<Rightarrow> sse_world" where
  "sn_Remove stream w =
     (case find (\<lambda>(_, a). a = stream) (sn_streams w) of
        None \<Rightarrow> w
      | Some (k, a) \<Rightarrow> (sn_upd a se_close w)\<lparr>sn_streams := filter (\<lambda>(k', _). k' \<noteq> k) (sn_streams w)\<rparr>)"

section \<open>Configuration\<close>

record sse_config =
  sc_path :: string
  sc_streamIdKey :: string
  sc_headers :: "(string \<times> string) list"
  sc_eventTTL :: duration
  sc_bufferSize :: int
  sc_encodeBase64 :: bool
  sc_splitData :: bool
  sc_autoStream :: bool
  sc_autoReplay :: bool
  sc_corsAllowOrigin :: string

datatype sse_opt =
  WithPath string | WithStreamIdKey string | WithBufferSize int | WithEncodeBase64 bool | WithSplitData bool | WithAutoStream bool
| WithAutoReplay bool | WithEventTTL duration | WithHeaders "(string \<times> string) list" | WithCORSAllowOrigin string

fun sc_apply :: "sse_opt \<Rightarrow> sse_config \<Rightarrow> sse_config" where
  "sc_apply (WithPath p) c = c\<lparr>sc_path := p\<rparr>"
| "sc_apply (WithStreamIdKey k) c = c\<lparr>sc_streamIdKey := k\<rparr>"
| "sc_apply (WithBufferSize n) c = c\<lparr>sc_bufferSize := n\<rparr>"
| "sc_apply (WithEncodeBase64 b) c = c\<lparr>sc_encodeBase64 := b\<rparr>"
| "sc_apply (WithSplitData b) c = c\<lparr>sc_splitData := b\<rparr>"
| "sc_apply (WithAutoStream b) c = c\<lparr>sc_autoStream := b\<rparr>"
| "sc_apply (WithAutoReplay b) c = c\<lparr>sc_autoReplay := b\<rparr>"
| "sc_apply (WithEventTTL t) c = c\<lparr>sc_eventTTL := t\<rparr>"
| "sc_apply (WithHeaders h) c = c\<lparr>sc_headers := h\<rparr>"
| "sc_apply (WithCORSAllowOrigin origin) c = c\<lparr>sc_corsAllowOrigin := origin\<rparr>"

definition DefaultBufferSize :: int where
  "DefaultBufferSize = 1024"

definition sw_NewServer :: "sse_opt list \<Rightarrow> sse_config" where
  "sw_NewServer opts = fold sc_apply opts
     \<lparr>sc_path = ''/events'', sc_streamIdKey = ''stream'', sc_headers = [], sc_eventTTL = 0, sc_bufferSize = DefaultBufferSize,
      sc_encodeBase64 = False, sc_splitData = False, sc_autoStream = False, sc_autoReplay = True, sc_corsAllowOrigin = ''*''\<rparr>"

section \<open>Creating and removing streams\<close>

text \<open>A channel of negative size panics.\<close>

definition sw_createStream :: "sse_config \<Rightarrow> string \<Rightarrow> sse_world \<Rightarrow> (nat \<times> sse_world) option" where
  "sw_createStream c streamId w =
     (if sc_bufferSize c < 0 then None
      else Some (sn_next w, w\<lparr>sn_next := sn_next w + 1,
        sn_heap := (sn_heap w)(sn_next w := newStream streamId (nat (sc_bufferSize c)) (sc_autoReplay c) (sc_autoStream c))\<rparr>))"

text \<open>The part of \<open>CreateStream\<close> after its lookup found nothing: it holds no lock in between.\<close>

definition sw_CreateStream_miss :: "sse_config \<Rightarrow> string \<Rightarrow> sse_world \<Rightarrow> (nat \<times> sse_world) option" where
  "sw_CreateStream_miss c streamId w = map_option (\<lambda>(a, w). (a, sn_Add (Some a) w)) (sw_createStream c streamId w)"

definition sw_CreateStream :: "sse_config \<Rightarrow> string \<Rightarrow> sse_world \<Rightarrow> (nat \<times> sse_world) option" where
  "sw_CreateStream c streamId w = (case sn_Get streamId w of Some a \<Rightarrow> Some (a, w) | None \<Rightarrow> sw_CreateStream_miss c streamId w)"

definition sw_RemoveStream :: "string \<Rightarrow> sse_world \<Rightarrow> sse_world" where
  "sw_RemoveStream streamId w = sn_RemoveWithID streamId w"

definition sw_GetStream :: "string \<Rightarrow> sse_world \<Rightarrow> nat option" where
  "sw_GetStream streamId w = sn_Get streamId w"

definition sw_StreamCount :: "sse_world \<Rightarrow> nat" where
  "sw_StreamCount w = sn_Count w"

section \<open>Publishing\<close>

definition sw_process :: "sse_config \<Rightarrow> go_time \<Rightarrow> sse_event \<Rightarrow> sse_event" where
  "sw_process c now e =
     (let e = (if ev_timestamp e = None then e\<lparr>ev_timestamp := Some now\<rparr> else e)
      in if sc_encodeBase64 c then ev_encodeBase64 e else e)"

text \<open>The payload may be nil.\<close>

definition sw_marshalEvent :: "('p \<Rightarrow> string + string) \<Rightarrow> 'p option \<Rightarrow> string + sse_event" where
  "sw_marshalEvent marshal dat =
     (let e = \<lparr>ev_timestamp = None, ev_ID = '''', ev_Data = '''', ev_Event = '''', ev_Retry = '''', ev_Comment = ''''\<rparr>
      in case dat of None \<Rightarrow> Inr e | Some p \<Rightarrow> (case marshal p of Inl err \<Rightarrow> Inl err | Inr bytes \<Rightarrow> Inr (e\<lparr>ev_Data := bytes\<rparr>)))"

text \<open>
  The \<open>select\<close> of a publisher between a stream that has ended and a channel with room; \<open>pickQuit\<close> is its choice when both are ready. When
  neither is, it waits.
\<close>

datatype sw_sent = SwIgnored | SwQuit | SwQueued | SwBlocked

definition se_offer :: "bool \<Rightarrow> sse_event \<Rightarrow> sse_stream \<Rightarrow> sw_sent \<times> sse_stream" where
  "se_offer pickQuit e s =
     (let room = length (se_event s) < se_bufsize s
      in if se_quit s \<and> (pickQuit \<or> \<not> room) then (SwQuit, s)
         else if room then (SwQueued, s\<lparr>se_event := se_event s @ [e]\<rparr>)
         else (SwBlocked, s))"

definition sw_Publish :: "sse_config \<Rightarrow> go_time \<Rightarrow> bool \<Rightarrow> string \<Rightarrow> sse_event \<Rightarrow> sse_world \<Rightarrow> sw_sent \<times> sse_world" where
  "sw_Publish c now pickQuit streamId e w =
     (case sn_Get streamId w of
        None \<Rightarrow> (SwIgnored, w)
      | Some a \<Rightarrow> (let (r, s) = se_offer pickQuit (sw_process c now e) (sn_heap w a) in (r, sn_upd a (\<lambda>_. s) w)))"

definition sw_TryPublish :: "sse_config \<Rightarrow> go_time \<Rightarrow> string \<Rightarrow> sse_event \<Rightarrow> sse_world \<Rightarrow> bool \<times> sse_world" where
  "sw_TryPublish c now streamId e w =
     (case sn_Get streamId w of
        None \<Rightarrow> (False, w)
      | Some a \<Rightarrow>
          if length (se_event (sn_heap w a)) < se_bufsize (sn_heap w a)
          then (True, sn_upd a (\<lambda>s. s\<lparr>se_event := se_event s @ [sw_process c now e]\<rparr>) w)
          else (False, w))"

definition sw_PublishDataWithMeta ::
  "sse_config \<Rightarrow> ('p \<Rightarrow> string + string) \<Rightarrow> go_time \<Rightarrow> bool \<Rightarrow> string \<Rightarrow> 'p option \<Rightarrow> ev_opt list \<Rightarrow> sse_world \<Rightarrow> (string + sw_sent) \<times> sse_world" where
  "sw_PublishDataWithMeta c marshal now pickQuit streamId dat opts w =
     (case sw_marshalEvent marshal dat of
        Inl err \<Rightarrow> (Inl err, w)
      | Inr e \<Rightarrow> (let (r, w) = sw_Publish c now pickQuit streamId (fold ev_apply opts e) w in (Inr r, w)))"

definition sw_PublishData ::
  "sse_config \<Rightarrow> ('p \<Rightarrow> string + string) \<Rightarrow> go_time \<Rightarrow> bool \<Rightarrow> string \<Rightarrow> 'p option \<Rightarrow> sse_world \<Rightarrow> (string + sw_sent) \<times> sse_world" where
  "sw_PublishData c marshal now pickQuit streamId dat w = sw_PublishDataWithMeta c marshal now pickQuit streamId dat [] w"

definition sw_PublishDataWithEventName ::
  "sse_config \<Rightarrow> ('p \<Rightarrow> string + string) \<Rightarrow> go_time \<Rightarrow> bool \<Rightarrow> string \<Rightarrow> string \<Rightarrow> 'p option \<Rightarrow> sse_world \<Rightarrow> (string + sw_sent) \<times> sse_world" where
  "sw_PublishDataWithEventName c marshal now pickQuit streamId eventName dat w =
     sw_PublishDataWithMeta c marshal now pickQuit streamId dat [WithEventName eventName] w"

text \<open>\<open>Notify\<close> offers the event to one stream after the other and waits at the first that has no room.\<close>

fun sw_notify :: "sse_config \<Rightarrow> go_time \<Rightarrow> bool \<Rightarrow> sse_event \<Rightarrow> nat list \<Rightarrow> sse_world \<Rightarrow> bool \<times> sse_world" where
  "sw_notify c now pickQuit e [] w = (True, w)"
| "sw_notify c now pickQuit e (a # as) w =
     (case se_offer pickQuit (sw_process c now e) (sn_heap w a) of
        (SwBlocked, s) \<Rightarrow> (False, w)
      | (r, s) \<Rightarrow> sw_notify c now pickQuit e as (sn_upd a (\<lambda>_. s) w))"

definition sw_Notify :: "sse_config \<Rightarrow> go_time \<Rightarrow> bool \<Rightarrow> sse_event \<Rightarrow> sse_world \<Rightarrow> bool \<times> sse_world" where
  "sw_Notify c now pickQuit e w = sw_notify c now pickQuit e (sn_Range w) w"

definition sw_NotifyDataWithMeta ::
  "sse_config \<Rightarrow> ('p \<Rightarrow> string + string) \<Rightarrow> go_time \<Rightarrow> bool \<Rightarrow> 'p option \<Rightarrow> ev_opt list \<Rightarrow> sse_world \<Rightarrow> (string + bool) \<times> sse_world" where
  "sw_NotifyDataWithMeta c marshal now pickQuit dat opts w =
     (case sw_marshalEvent marshal dat of
        Inl err \<Rightarrow> (Inl err, w)
      | Inr e \<Rightarrow> (let (r, w) = sw_Notify c now pickQuit (fold ev_apply opts e) w in (Inr r, w)))"

definition sw_NotifyData ::
  "sse_config \<Rightarrow> ('p \<Rightarrow> string + string) \<Rightarrow> go_time \<Rightarrow> bool \<Rightarrow> 'p option \<Rightarrow> sse_world \<Rightarrow> (string + bool) \<times> sse_world" where
  "sw_NotifyData c marshal now pickQuit dat w = sw_NotifyDataWithMeta c marshal now pickQuit dat [] w"

definition sw_NotifyDataWithEventName ::
  "sse_config \<Rightarrow> ('p \<Rightarrow> string + string) \<Rightarrow> go_time \<Rightarrow> bool \<Rightarrow> string \<Rightarrow> 'p option \<Rightarrow> sse_world \<Rightarrow> (string + bool) \<times> sse_world" where
  "sw_NotifyDataWithEventName c marshal now pickQuit eventName dat w =
     sw_NotifyDataWithMeta c marshal now pickQuit dat [WithEventName eventName] w"

section \<open>Requests\<close>

record sse_request =
  hr_Method :: string
  hr_Header :: "string \<Rightarrow> string"
  hr_Query :: "string \<Rightarrow> string"
  hr_flusher :: bool \<comment> \<open>the response writer can flush\<close>

text \<open>
  The part of \<open>ServeHTTP\<close> before it streams. The authorization function, if there is one, returns an error text and whether it is
  \<open>ErrForbidden\<close>. The result is an answer, or the headers, the stream and the subscriber.
\<close>

datatype sh_result = ShNoContent "(string \<times> string) list" | ShError nat string | ShSubscribed "(string \<times> string) list" nat nat

definition sh_prepareHeader :: "sse_config \<Rightarrow> (string \<times> string) list" where
  "sh_prepareHeader c =
     [(''Content-Type'', ''text/event-stream''), (''Cache-Control'', ''no-cache''), (''Connection'', ''keep-alive''),
      (''Access-Control-Allow-Origin'', sc_corsAllowOrigin c), (''Access-Control-Allow-Headers'', ''Content-Type'')] @ sc_headers c"

definition sh_admit ::
  "sse_config \<Rightarrow> (sse_request \<Rightarrow> string \<Rightarrow> (string \<times> bool) option) option \<Rightarrow> (sse_request \<Rightarrow> string) option \<Rightarrow> sse_request \<Rightarrow>
   sse_world \<Rightarrow> (sh_result \<times> sse_world) option" where
  "sh_admit c authorize extractor r w =
     (if hr_Method r = ''OPTIONS'' then
        Some (ShNoContent [(''Access-Control-Allow-Origin'', sc_corsAllowOrigin c), (''Access-Control-Allow-Methods'', ''GET, OPTIONS''),
          (''Access-Control-Allow-Headers'', ''Content-Type, Authorization, X-Token, Last-Event-ID''), (''Access-Control-Max-Age'', ''86400'')], w)
      else case (case authorize of
                   None \<Rightarrow> None
                 | Some f \<Rightarrow> f r (case extractor of None \<Rightarrow> '''' | Some g \<Rightarrow> g r)) of
             Some (msg, forbidden) \<Rightarrow> Some (ShError (if forbidden then 403 else 401) msg, w)
           | None \<Rightarrow>
               if \<not> hr_flusher r then Some (ShError 500 ''Streaming unsupported!'', w)
               else let streamID = hr_Query r (sc_streamIdKey c)
                    in if streamID = '''' then Some (ShError 500 ''Please specify a stream!'', w)
                       else case (case sn_Get streamID w of
                                    Some a \<Rightarrow> Some (Some (a, w))
                                  | None \<Rightarrow> if \<not> sc_autoStream c then Some None else map_option Some (sw_CreateStream c streamID w)) of
                              None \<Rightarrow> None
                            | Some None \<Rightarrow> Some (ShError 500 ''Stream not found!'', w)
                            | Some (Some (a, w)) \<Rightarrow>
                                (let (i, s) = se_addSubscriber (hr_Header r ''Last-Event-ID'') (sn_heap w a)
                                 in Some (ShSubscribed (sh_prepareHeader c) a i, sn_upd a (\<lambda>_. s) w)))"

text \<open>What the goroutine of a request does once the client has gone and \<open>sub.close\<close> has returned.\<close>

definition sh_gone :: "sse_config \<Rightarrow> string \<Rightarrow> nat \<Rightarrow> sse_world \<Rightarrow> sse_world" where
  "sh_gone c streamID a w =
     (if sc_autoStream c \<and> \<not> sc_autoReplay c \<and> se_getSubscriberCount (sn_heap w a) = 0 then sn_RemoveWithID streamID w else w)"

section \<open>Operations of the server are steps of its streams\<close>

text \<open>The table has one stream for each ID, and every stream in the store is one that the steps of \<open>Sse_Stream\<close> can reach.\<close>

definition sn_inv :: "(nat \<Rightarrow> string) \<Rightarrow> sse_world \<Rightarrow> bool" where
  "sn_inv gen w \<longleftrightarrow> distinct (map fst (sn_streams w)) \<and>
     (\<forall>(k, a) \<in> set (sn_streams w). a < sn_next w \<and> se_id (sn_heap w a) = k) \<and>
     (\<forall>a < sn_next w. \<exists>n k r t. se_reach gen (newStream n k r t) (sn_heap w a))"

lemma se_id_step: "se_step gen s (Some s') \<Longrightarrow> se_wf s \<Longrightarrow> se_id s' = se_id s"
  by (erule se_step.cases)
    (auto simp: se_addSubscriber_def se_onRegister_def se_onEvent_def se_onDeregister_eq se_removeAll_eq se_close_def se_send_def se_upd_def Let_def
      split: if_splits prod.splits)

lemma sn_upd_simps [simp]: "sn_streams (sn_upd a f w) = sn_streams w" "sn_next (sn_upd a f w) = sn_next w"
    "sn_heap (sn_upd a f w) b = (if b = a then f (sn_heap w a) else sn_heap w b)"
  by (simp_all add: sn_upd_def)

lemma sn_inv_step [wf_intros]:
  assumes "sn_inv gen w" "a < sn_next w" "se_step gen (sn_heap w a) (Some s)"
  shows "sn_inv gen (sn_upd a (\<lambda>_. s) w)"
proof -
  obtain n k r t where r: "se_reach gen (newStream n k r t) (sn_heap w a)" using assms(1,2) by (auto simp: sn_inv_def)
  then have "se_reach gen (newStream n k r t) s" using assms(3) by (rule se_reach_step)
  moreover have "se_id s = se_id (sn_heap w a)" using se_id_step[OF assms(3)] se_wf_reach[OF r se_wf_new] by blast
  ultimately show ?thesis using assms(1) by (fastforce simp: sn_inv_def)
qed

lemma sn_inv_streams: "sn_inv gen w \<Longrightarrow> distinct (map fst l) \<Longrightarrow> set l \<subseteq> set (sn_streams w) \<Longrightarrow> sn_inv gen (w\<lparr>sn_streams := l\<rparr>)"
  by (auto simp: sn_inv_def)

lemma sn_Get_lt: "sn_inv gen w \<Longrightarrow> sn_Get i w = Some a \<Longrightarrow> a < sn_next w"
  by (auto simp: sn_inv_def sn_Get_def dest: map_of_SomeD)

lemma sn_Range_lt: "sn_inv gen w \<Longrightarrow> a \<in> set (sn_Range w) \<Longrightarrow> a < sn_next w"
  by (auto simp: sn_inv_def sn_Range_def)

lemma sn_close_step: "sn_inv gen w \<Longrightarrow> a < sn_next w \<Longrightarrow> sn_inv gen (sn_upd a se_close w)"
  using sn_inv_step[of gen w a "se_close (sn_heap w a)"] Close by (auto simp: sn_upd_def)

lemma se_offer_cases:
  "se_offer p e s = (SwQueued, s\<lparr>se_event := se_event s @ [e]\<rparr>) \<and> se_step gen s (Some (s\<lparr>se_event := se_event s @ [e]\<rparr>)) \<or>
   (\<exists>r. se_offer p e s = (r, s))"
  by (auto simp: se_offer_def Let_def intro: Publish)

lemma sn_upd_same [simp]: "sn_upd a (\<lambda>_. sn_heap w a) w = w"
  by (simp add: sn_upd_def)

lemma sn_inv_offer:
  assumes "sn_inv gen w" "a < sn_next w" "se_offer p e (sn_heap w a) = (r, s)"
  shows "sn_inv gen (sn_upd a (\<lambda>_. s) w)"
  using se_offer_cases[of p e "sn_heap w a" gen] assms by (auto intro: sn_inv_step)

lemma sn_inv_Publish: "sn_inv gen w \<Longrightarrow> sn_inv gen (snd (sw_Publish c now p i e w))"
  by (auto simp: sw_Publish_def sn_Get_lt split: option.split prod.split intro: sn_inv_offer)

lemma sn_inv_TryPublish: "sn_inv gen w \<Longrightarrow> sn_inv gen (snd (sw_TryPublish c now i e w))"
proof (cases "sn_Get i w")
  case (Some a)
  assume w: "sn_inv gen w"
  let ?s = "sn_heap w a"
  have "sn_inv gen (sn_upd a (\<lambda>_. ?s\<lparr>se_event := se_event ?s @ [sw_process c now e]\<rparr>) w)" if "length (se_event ?s) < se_bufsize ?s"
    using that sn_Get_lt[OF w Some] w by (intro sn_inv_step Publish)
  then show ?thesis using w Some by (auto simp: sw_TryPublish_def sn_upd_def)
qed (simp add: sw_TryPublish_def)

lemma sn_inv_notify: "sn_inv gen w \<Longrightarrow> \<forall>a \<in> set as. a < sn_next w \<Longrightarrow> sn_inv gen (snd (sw_notify c now p e as w))"
proof (induction "as" arbitrary: w)
  case (Cons a "as")
  obtain r s where o: "se_offer p (sw_process c now e) (sn_heap w a) = (r, s)" by fastforce
  then have "sn_inv gen (sn_upd a (\<lambda>_. s) w)" using Cons.prems by (intro sn_inv_offer[OF _ _ o]) auto
  then show ?case using Cons o by (cases r) auto
qed simp

lemma sn_inv_createStream:
  assumes "sn_inv gen w" "sw_createStream c i w = Some (a, w')"
  shows "sn_inv gen w' \<and> a < sn_next w' \<and> se_id (sn_heap w' a) = i \<and> sn_streams w' = sn_streams w"
proof -
  have "\<exists>n k r t. se_reach gen (newStream n k r t) (newStream i (nat (sc_bufferSize c)) (sc_autoReplay c) (sc_autoStream c))"
    using se_reach_refl by blast
  then show ?thesis using assms by (fastforce simp: sn_inv_def sw_createStream_def newStream_def less_Suc_eq split: if_splits)
qed

lemma sn_inv_Add: "sn_inv gen w \<Longrightarrow> a < sn_next w \<Longrightarrow> sn_inv gen (sn_Add (Some a) w)"
  by (auto simp: sn_inv_def sn_Add_def map_of_eq_None_iff image_iff)

lemma sn_inv_CreateStream: "sn_inv gen w \<Longrightarrow> sw_CreateStream c i w = Some (a, w') \<Longrightarrow> sn_inv gen w' \<and> a < sn_next w'"
proof (cases "sn_Get i w")
  case None
  assume w: "sn_inv gen w" and s: "sw_CreateStream c i w = Some (a, w')"
  then obtain u where u: "sw_createStream c i w = Some (a, u)" "w' = sn_Add (Some a) u"
    using None by (auto simp: sw_CreateStream_def sw_CreateStream_miss_def)
  moreover have "sn_next (sn_Add (Some a) u) = sn_next u" by (simp add: sn_Add_def)
  ultimately show ?thesis using sn_inv_createStream[OF w u(1)] sn_inv_Add by metis
qed (auto simp: sw_CreateStream_def sn_Get_lt)

lemma sn_inv_RemoveWithID: "sn_inv gen w \<Longrightarrow> sn_inv gen (sn_RemoveWithID i w)"
proof (cases "map_of (sn_streams w) i")
  case (Some a)
  assume w: "sn_inv gen w"
  then have "sn_inv gen (sn_upd a se_close w)" using sn_close_step[OF w] sn_Get_lt[OF w] Some by (simp add: sn_Get_def)
  moreover have "distinct (map fst (filter (\<lambda>(k, _). k \<noteq> i) (sn_streams w)))" using w by (simp add: sn_inv_def distinct_map_filter)
  ultimately show ?thesis using sn_inv_streams[of gen "sn_upd a se_close w"] Some by (auto simp: sn_RemoveWithID_def)
qed (simp add: sn_RemoveWithID_def)

lemma sn_inv_Clean: "sn_inv gen w \<Longrightarrow> sn_inv gen (sn_Clean w)"
proof -
  assume w: "sn_inv gen w"
  have "sn_inv gen (fold (\<lambda>(_, a). sn_upd a se_close) l v)" if "sn_inv gen v" "\<forall>(_, a) \<in> set l. a < sn_next v" for l v
    using that by (induction l arbitrary: v) (auto simp: sn_close_step)
  moreover have "\<forall>(_, a) \<in> set (sn_streams w). a < sn_next w" using w by (auto simp: sn_inv_def)
  ultimately have "sn_inv gen (fold (\<lambda>(_, a). sn_upd a se_close) (sn_streams w) w)" using w by blast
  then show ?thesis unfolding sn_Clean_def by (rule sn_inv_streams) simp_all
qed

lemma sh_admit_cases:
  assumes "sh_admit c authorize extractor r w = Some (x, w')"
  shows "w' = w \<or> (\<exists>i j a v. (sn_Get i w = Some a \<and> v = w \<or> sw_CreateStream c i w = Some (a, v)) \<and>
    w' = sn_upd a (\<lambda>_. snd (se_addSubscriber j (sn_heap v a))) v)"
  using assms unfolding sh_admit_def Let_def
  by (simp split: if_splits option.splits prod.splits) (metis snd_conv)+

lemma sn_inv_admit:
  assumes "sn_inv gen w" "sh_admit c authorize extractor r w = Some (x, w')"
  shows "sn_inv gen w'"
proof -
  have "sn_inv gen (sn_upd a (\<lambda>_. snd (se_addSubscriber i (sn_heap v a))) v)" if "sn_inv gen v" "a < sn_next v" for a v i
    using that by (intro sn_inv_step Subscribe)
  then show ?thesis using sh_admit_cases[OF assms(2)] sn_Get_lt[OF assms(1)] sn_inv_CreateStream[OF assms(1)] assms(1) by metis
qed


definition sn_empty :: sse_world where
  "sn_empty = \<lparr>sn_streams = [], sn_heap = (\<lambda>_. newStream '''' 1 True False), sn_next = 0\<rparr>"


section \<open>Single operations\<close>

text \<open>A created stream is the one that the table gives, also when there was one.\<close>

lemma sw_CreateStream_Get:
  assumes "sn_inv gen w" "sw_CreateStream c i w = Some (a, w')"
  shows "sn_Get i w' = Some a"
proof (cases "sn_Get i w")
  case None
  then obtain u where u: "sw_createStream c i w = Some (a, u)" "w' = sn_Add (Some a) u"
    using assms(2) by (auto simp: sw_CreateStream_def sw_CreateStream_miss_def)
  then show ?thesis using sn_inv_createStream[OF assms(1) u(1)] None by (auto simp: sn_Add_def sn_Get_def map_add_def)
qed (use assms(2) in \<open>auto simp: sw_CreateStream_def\<close>)

text \<open>
  Two requests that create the same stream at the same time, both after a lookup that found nothing, get different streams: the second is
  in no table, and what is published goes to the first.
\<close>

lemma sw_create_race:
  assumes "sn_inv gen w" "sn_Get i w = None" "sw_CreateStream_miss c i w = Some (a, w1)" "sw_CreateStream_miss c i w1 = Some (b, w2)"
  shows "a \<noteq> b \<and> sn_Get i w2 = Some a \<and> b \<notin> set (sn_Range w2)"
proof -
  have a: "a = sn_next w" "sn_next w1 = a + 1" "sn_streams w1 = sn_streams w @ [(i, a)]"
    using assms(2,3) by (auto simp: sw_CreateStream_miss_def sw_createStream_def sn_Add_def sn_Get_def newStream_def split: if_splits)
  then have "b = a + 1" "sn_streams w2 = sn_streams w1"
    using assms(2,4) by (auto simp: sw_CreateStream_miss_def sw_createStream_def sn_Add_def sn_Get_def newStream_def split: if_splits)
  moreover have "\<forall>b \<in> set (sn_Range w). b < a" using sn_Range_lt[OF assms(1)] a(1) by blast
  ultimately show ?thesis using a(3) assms(2) by (auto simp: sn_Get_def sn_Range_def map_add_def)
qed

text \<open>A client that registers with a stream whose loop has ended waits for ever, and its handler with it.\<close>

lemma se_done_waits:
  "se_reach gen s s' \<Longrightarrow> se_loop s = LpDone \<Longrightarrow> i \<in> set (se_register s) \<Longrightarrow> se_loop s' = LpDone \<and> i \<in> set (se_register s')"
proof (induction rule: se_reach.induct)
  case (se_reach_step s s')
  from se_reach_step(2) show ?case
    by (cases rule: se_step.cases) (use se_reach_step in \<open>auto simp: se_addSubscriber_def se_close_def Let_def\<close>)
qed simp

text \<open>\<open>TryPublish\<close> reports success for a stream that has ended.\<close>

lemma sw_TryPublish_ended:
  "sn_Get i w = Some a \<Longrightarrow> se_loop (sn_heap w a) = LpDone \<Longrightarrow> length (se_event (sn_heap w a)) < se_bufsize (sn_heap w a) \<Longrightarrow>
    fst (sw_TryPublish c now i e w)"
  by (simp add: sw_TryPublish_def)

text \<open>A refused request changes nothing.\<close>

lemma sh_admit_refused:
  "hr_Method r \<noteq> ''OPTIONS'' \<Longrightarrow> f r (case extractor of None \<Rightarrow> '''' | Some g \<Rightarrow> g r) = Some (msg, forbidden) \<Longrightarrow>
    sh_admit c (Some f) extractor r w = Some (ShError (if forbidden then 403 else 401) msg, w)"
  by (simp add: sh_admit_def)

text \<open>Events that were published have a timestamp, and their data is encoded once, whatever the number of streams.\<close>

lemma sw_process_time: "ev_timestamp (sw_process c now e) \<noteq> None"
  by (simp add: sw_process_def ev_encodeBase64_def Let_def)

lemma sw_process_data:
  "sc_encodeBase64 c \<Longrightarrow> ev_Data e \<noteq> '''' \<Longrightarrow> map_option string_of (b64_decode (ev_Data (sw_process c now e))) = Some (ev_Data e)"
  by (simp add: sw_process_def ev_encodeBase64_def b64_roundtrip Let_def)

end
