(* ===== verification/Sql_Text.thy ===== *)
theory Sql_Text
  imports Filter_Expr
begin

text \<open>
  Conditions as text, shared by the SQL generators: the character classes of their white lists, text that cannot break out of
  its place in a statement, and the grammar of AND, OR and parentheses with the truth value of a text.
\<close>

section \<open>White lists\<close>

abbreviation sq :: char where "sq \<equiv> CHR 0x27"

definition fg_letter :: "char \<Rightarrow> bool" where
  "fg_letter c \<longleftrightarrow> (let n = (of_char c :: nat) in 65 \<le> n \<and> n \<le> 90 \<or> 97 \<le> n \<and> n \<le> 122)"

definition fg_digit :: "char \<Rightarrow> bool" where
  "fg_digit c \<longleftrightarrow> (let n = (of_char c :: nat) in 48 \<le> n \<and> n \<le> 57)"

definition fg_word :: "char \<Rightarrow> bool" where
  "fg_word c \<longleftrightarrow> fg_letter c \<or> fg_digit c \<or> c = CHR ''_''"

definition fg_keychar :: "char \<Rightarrow> bool" where
  "fg_keychar c \<longleftrightarrow> fg_word c \<or> c = CHR ''.''"

definition jsonKeyPattern :: "string \<Rightarrow> bool" where
  "jsonKeyPattern s \<longleftrightarrow> s \<noteq> [] \<and> list_all fg_keychar s"

definition identifierPattern :: "string \<Rightarrow> bool" where
  "identifierPattern s \<longleftrightarrow> s \<noteq> [] \<and> (fg_letter (hd s) \<or> hd s = CHR ''_'') \<and> list_all fg_word s"

section \<open>Harmless text\<close>

text \<open>Characters that end a statement, start a comment, escape, or open another kind of quotation.\<close>

definition fg_unsafe :: "char \<Rightarrow> bool" where
  "fg_unsafe c \<longleftrightarrow> (of_char c :: nat) \<in> {34, 35, 47, 59, 92, 96}"

text \<open>Harmless text: none of these, quotes in pairs, and as many question marks as arguments.\<close>

definition fg_clean :: "nat \<Rightarrow> string \<Rightarrow> bool" where
  "fg_clean n s \<longleftrightarrow> list_all (\<lambda>c. \<not> fg_unsafe c) s \<and> even (count_list s sq) \<and> count_list s (CHR ''?'') = n"

lemma fg_clean_append:
  "fg_clean m s \<Longrightarrow> fg_clean n t \<Longrightarrow> fg_clean (m + n) (s @ t)"
  by (simp add: fg_clean_def)

lemma fg_word_clean: "fg_word c \<Longrightarrow> \<not> fg_unsafe c \<and> c \<noteq> sq \<and> c \<noteq> CHR ''?''"
  by (auto simp: fg_word_def fg_letter_def fg_digit_def fg_unsafe_def Let_def)

lemma fg_keychar_clean: "fg_keychar c \<Longrightarrow> \<not> fg_unsafe c \<and> c \<noteq> sq \<and> c \<noteq> CHR ''?''"
  using fg_word_clean by (auto simp: fg_keychar_def fg_unsafe_def)

lemma fg_space_clean: "go_is_space c \<Longrightarrow> \<not> fg_unsafe c \<and> c \<noteq> sq \<and> c \<noteq> CHR ''?''"
  by (auto simp: go_is_space_def fg_unsafe_def)

lemma fg_clean_plain: "(\<And>c. c \<in> set s \<Longrightarrow> \<not> fg_unsafe c \<and> c \<noteq> sq \<and> c \<noteq> CHR ''?'') \<Longrightarrow> fg_clean 0 s"
  by (induction s) (auto simp: fg_clean_def)

lemma fg_clean_ident: "identifierPattern s \<Longrightarrow> fg_clean 0 s"
  by (rule fg_clean_plain) (auto simp: identifierPattern_def list_all_iff dest: fg_word_clean)

lemma fg_clean_key: "jsonKeyPattern s \<Longrightarrow> fg_clean 0 s"
  by (rule fg_clean_plain) (auto simp: jsonKeyPattern_def list_all_iff dest: fg_keychar_clean)

lemma go_TrimSpace_decomp:
  obtains l r where "s = l @ go_TrimSpace s @ r" "\<And>c. c \<in> set (l @ r) \<Longrightarrow> go_is_space c"
proof -
  let ?t = "dropWhile go_is_space s"
  have "s = takeWhile go_is_space s @ go_TrimSpace s @ rev (takeWhile go_is_space (rev ?t))"
    using takeWhile_dropWhile_id[of go_is_space "rev ?t"] unfolding go_TrimSpace_def
    by (metis rev_append rev_rev_ident takeWhile_dropWhile_id)
  moreover have "go_is_space c" if "c \<in> set (takeWhile go_is_space s @ rev (takeWhile go_is_space (rev ?t)))" for c
    using that by (auto dest: set_takeWhileD)
  ultimately show thesis using that by blast
qed

lemma fg_clean_trim: "fg_clean n (go_TrimSpace s) \<Longrightarrow> fg_clean n s"
proof -
  assume t: "fg_clean n (go_TrimSpace s)"
  obtain l r where lr: "s = l @ go_TrimSpace s @ r" "\<And>c. c \<in> set (l @ r) \<Longrightarrow> go_is_space c"
    using go_TrimSpace_decomp[of s] by blast
  have "fg_clean 0 l" "fg_clean 0 r" using lr(2) by (auto intro!: fg_clean_plain dest: fg_space_clean)
  then have "fg_clean (0 + (n + 0)) (l @ go_TrimSpace s @ r)" using t by (intro fg_clean_append)
  then show ?thesis using lr(1) by simp
qed

definition fg_clean_list :: "nat \<Rightarrow> string list \<Rightarrow> bool" where
  "fg_clean_list n fs \<longleftrightarrow> (\<exists>ns. list_all2 fg_clean ns fs \<and> sum_list ns = n)"

lemma fg_clean_list_Nil [simp]: "fg_clean_list n [] \<longleftrightarrow> n = 0"
  by (auto simp: fg_clean_list_def)

lemma fg_clean_list_Cons: "fg_clean m f \<Longrightarrow> fg_clean_list n fs \<Longrightarrow> fg_clean_list (m + n) (f # fs)"
  unfolding fg_clean_list_def by (metis list_all2_Cons sum_list.Cons)

lemma fg_clean_list_split:
  "fg_clean_list n (f # fs) \<Longrightarrow> \<exists>m k. fg_clean m f \<and> fg_clean_list k fs \<and> n = m + k"
  unfolding fg_clean_list_def by (force simp: list_all2_Cons2)

lemma fg_clean_list_append: "fg_clean_list m fs \<Longrightarrow> fg_clean_list n gs \<Longrightarrow> fg_clean_list (m + n) (fs @ gs)"
  unfolding fg_clean_list_def by (metis list_all2_appendI sum_list_append)

section \<open>The grammar\<close>

text \<open>
  The grammar of the generated conditions with the usual precedences, and the truth of a text for an
  assignment \<open>w\<close> of truth values to the atoms \<open>A\<close>: atoms and parentheses, then AND, then OR.
\<close>

inductive sq_atom ::
    "(string \<Rightarrow> 'a list \<Rightarrow> bool) \<Rightarrow> (string \<Rightarrow> 'a list \<Rightarrow> bool) \<Rightarrow> string \<Rightarrow> 'a list \<Rightarrow> bool \<Rightarrow> bool"
  and sq_and ::
    "(string \<Rightarrow> 'a list \<Rightarrow> bool) \<Rightarrow> (string \<Rightarrow> 'a list \<Rightarrow> bool) \<Rightarrow> string \<Rightarrow> 'a list \<Rightarrow> bool \<Rightarrow> bool"
  and sq_or ::
    "(string \<Rightarrow> 'a list \<Rightarrow> bool) \<Rightarrow> (string \<Rightarrow> 'a list \<Rightarrow> bool) \<Rightarrow> string \<Rightarrow> 'a list \<Rightarrow> bool \<Rightarrow> bool"
  for A w where
  sq_leaf: "A q as \<Longrightarrow> sq_atom A w q as (w q as)"
| sq_parens: "sq_or A w q as b \<Longrightarrow> sq_atom A w (''('' @ q @ '')'') as b"
| sq_and1: "sq_atom A w q as b \<Longrightarrow> sq_and A w q as b"
| sq_conj: "sq_and A w p as a \<Longrightarrow> sq_and A w q bs b \<Longrightarrow> sq_and A w (p @ '' AND '' @ q) (as @ bs) (a \<and> b)"
| sq_or1: "sq_and A w q as b \<Longrightarrow> sq_or A w q as b"
| sq_disj: "sq_or A w p as a \<Longrightarrow> sq_or A w q bs b \<Longrightarrow> sq_or A w (p @ '' OR '' @ q) (as @ bs) (a \<or> b)"

lemmas sq_intros = sq_atom_sq_and_sq_or.intros

text \<open>A list of fragments of the middle level, with all their arguments and their truth values.\<close>

inductive sq_list ::
    "(string \<Rightarrow> 'a list \<Rightarrow> bool) \<Rightarrow> (string \<Rightarrow> 'a list \<Rightarrow> bool) \<Rightarrow> string list \<Rightarrow> 'a list \<Rightarrow> bool list \<Rightarrow> bool"
  for A w where
  sq_Nil: "sq_list A w [] [] []"
| sq_Cons: "sq_and A w f a b \<Longrightarrow> sq_list A w fs as bs \<Longrightarrow> sq_list A w (f # fs) (a @ as) (b # bs)"

inductive_cases sq_list_ConsE: "sq_list A w (f # fs) as bs"
inductive_cases sq_list_NilE: "sq_list A w [] as bs"

lemma sq_list_append: "sq_list A w fs as bs \<Longrightarrow> sq_list A w gs cs ds \<Longrightarrow> sq_list A w (fs @ gs) (as @ cs) (bs @ ds)"
  by (induction rule: sq_list.induct) (auto intro: sq_Cons)

lemma sq_list_empty: "sq_list A w fs as bs \<Longrightarrow> fs = [] \<longleftrightarrow> bs = []"
  by (auto elim: sq_list.cases)

section \<open>Joined lists\<close>

lemma sq_list_and:
  "sq_list A w fs as bs \<Longrightarrow> fs \<noteq> [] \<Longrightarrow> sq_and A w (go_Join fs '' AND '') as (list_all (\<lambda>b. b) bs)"
proof (induction rule: sq_list.induct)
  case (sq_Cons f a b fs as bs)
  show ?case
  proof (cases fs)
    case Nil
    then show ?thesis using sq_Cons.hyps by (auto elim: sq_list_NilE)
  next
    case (Cons g gs)
    then show ?thesis using sq_conj[OF sq_Cons.hyps(1) sq_Cons.IH] by simp
  qed
qed simp

lemma sq_list_or:
  "sq_list A w fs as bs \<Longrightarrow> fs \<noteq> [] \<Longrightarrow> sq_or A w (go_Join fs '' OR '') as (list_ex (\<lambda>b. b) bs)"
proof (induction rule: sq_list.induct)
  case (sq_Cons f a b fs as bs)
  show ?case
  proof (cases fs)
    case Nil
    then have "as = []" "bs = []" using sq_Cons.hyps(2) by (auto elim: sq_list_NilE)
    then show ?thesis using Nil sq_or1[OF sq_Cons.hyps(1)] by simp
  next
    case (Cons g gs)
    then show ?thesis using sq_disj[OF sq_or1[OF sq_Cons.hyps(1)] sq_Cons.IH] by simp
  qed
qed simp

text \<open>A condition in parentheses conjoined with one more atom.\<close>

lemma sq_guard:
  assumes "sq_or A w q as b" "A p bs"
  shows "sq_and A w (''('' @ q @ '') AND '' @ p) (as @ bs) (b \<and> w p bs)"
proof -
  have "sq_and A w p bs (w p bs)" by (rule sq_and1, rule sq_leaf, rule assms(2))
  from sq_conj[OF sq_and1[OF sq_parens[OF assms(1)]] this] show ?thesis by simp
qed

lemma sq_mono:
  assumes "\<And>q as. A q as \<Longrightarrow> B q as"
  shows "sq_atom A w q as b \<Longrightarrow> sq_atom B w q as b"
    and "sq_and A w q as b \<Longrightarrow> sq_and B w q as b"
    and "sq_or A w q as b \<Longrightarrow> sq_or B w q as b"
  by (induction rule: sq_atom_sq_and_sq_or.inducts) (blast intro: sq_intros assms)+

lemma sq_list_mono:
  "sq_list A w fs as bs \<Longrightarrow> (\<And>q as. A q as \<Longrightarrow> B q as) \<Longrightarrow> sq_list B w fs as bs"
  by (induction rule: sq_list.induct) (auto intro: sq_Nil sq_Cons sq_mono(2)[of A B])

end
