(* ===== verification/Filter_Gorm.thy ===== *)
theory Filter_Gorm
  imports Sql_Text
begin

text \<open>
  \<open>crud/gorm/filter\<close>: a filter expression becomes parameterised SQL. The GORM session is a record of its
  dialect, the clauses \<open>Where\<close> and \<open>Not\<close> have added, and the errors; a nil session is \<open>None\<close>.
  The environment has the JSON decoders: the codec of the repository and \<open>encoding/json\<close>.
\<close>

section \<open>White lists\<close>

text \<open>The two alternatives of \<open>jsonExprPattern\<close>: a column, an arrow and a quoted key, or a call of JSON_EXTRACT.\<close>

definition fg_arrow :: string where
  "fg_arrow = '' ->> '' @ [sq]"

definition fg_path :: string where
  "fg_path = '', '' @ [sq] @ ''$.''"

definition jsonArrowPattern :: "string \<Rightarrow> bool" where
  "jsonArrowPattern f \<longleftrightarrow>
     (let col = takeWhile fg_word f; r = drop (length col) f; k = drop (length fg_arrow) r
      in identifierPattern col \<and> prefix fg_arrow r \<and> suffix [sq] k \<and> jsonKeyPattern (take (length k - 1) k))"

definition jsonExtractPattern :: "string \<Rightarrow> bool" where
  "jsonExtractPattern f \<longleftrightarrow> prefix ''JSON_EXTRACT('' f \<and>
     (let f = drop 13 f; col = takeWhile fg_word f; r = drop (length col) f; k = drop (length fg_path) r
      in identifierPattern col \<and> prefix fg_path r \<and> suffix [sq, CHR '')''] k \<and> jsonKeyPattern (take (length k - 2) k))"

definition jsonExprPattern :: "string \<Rightarrow> bool" where
  "jsonExprPattern f \<longleftrightarrow> jsonArrowPattern f \<or> jsonExtractPattern f"

definition isValidIdentifier :: "string \<Rightarrow> bool" where
  "isValidIdentifier identifier = identifierPattern (go_TrimSpace identifier)"

definition isValidFieldExpr :: "string \<Rightarrow> bool" where
  "isValidFieldExpr field \<longleftrightarrow>
     (let f = go_TrimSpace field in f \<noteq> [] \<and> (identifierPattern f \<or> jsonExprPattern f))"

section \<open>The session\<close>

datatype fq_arg = FQ_Str string | FQ_Json json | FQ_Strs "string list" | FQ_Jsons "json list"

datatype fg_error = FgInvalidField string | FgInvalidCondition string

datatype fg_clause = FgWhere string "fq_arg list" | FgNot string "fq_arg list"

record gorm_db =
  gd_dialect :: string
  gd_clauses :: "fg_clause list"
  gd_errors :: "fg_error list"

record fg_env =
  fg_codec :: "string \<Rightarrow> json list option"
  fg_json :: "string \<Rightarrow> json list option"

definition fg_Where :: "string \<Rightarrow> fq_arg list \<Rightarrow> gorm_db \<Rightarrow> gorm_db" where
  "fg_Where q args db = db\<lparr>gd_clauses := gd_clauses db @ [FgWhere q args]\<rparr>"

definition fg_Not :: "string \<Rightarrow> fq_arg list \<Rightarrow> gorm_db \<Rightarrow> gorm_db" where
  "fg_Not q args db = db\<lparr>gd_clauses := gd_clauses db @ [FgNot q args]\<rparr>"

definition fg_AddError :: "fg_error \<Rightarrow> gorm_db \<Rightarrow> gorm_db" where
  "fg_AddError e db = db\<lparr>gd_errors := gd_errors db @ [e]\<rparr>"

abbreviation fg_dialect :: "gorm_db \<Rightarrow> string" where
  "fg_dialect db \<equiv> go_ToLower (gd_dialect db)"

section \<open>The processor\<close>

text \<open>The head that the single operators share: the white list, then the skipped empty value.\<close>

definition fg_checked :: "string \<Rightarrow> (gorm_db \<Rightarrow> gorm_db) \<Rightarrow> gorm_db \<Rightarrow> gorm_db" where
  "fg_checked field k db = (if \<not> isValidFieldExpr field then fg_AddError (FgInvalidField field) db else k db)"

definition fg_nonempty :: "string \<Rightarrow> string \<Rightarrow> (gorm_db \<Rightarrow> gorm_db) \<Rightarrow> gorm_db \<Rightarrow> gorm_db" where
  "fg_nonempty field v k = fg_checked field (\<lambda>db. if go_TrimSpace v = [] then db else k db)"

definition fg_Equal :: "string \<Rightarrow> string \<Rightarrow> gorm_db \<Rightarrow> gorm_db" where
  "fg_Equal field v = fg_nonempty field v (fg_Where (field @ '' = ?'') [FQ_Str v])"

definition fg_NotEqual :: "string \<Rightarrow> string \<Rightarrow> gorm_db \<Rightarrow> gorm_db" where
  "fg_NotEqual field v = fg_nonempty field v (fg_Not (field @ '' = ?'') [FQ_Str v])"

definition fg_GTE :: "string \<Rightarrow> string \<Rightarrow> gorm_db \<Rightarrow> gorm_db" where
  "fg_GTE field v = fg_nonempty field v (fg_Where (field @ '' >= ?'') [FQ_Str v])"

definition fg_GT :: "string \<Rightarrow> string \<Rightarrow> gorm_db \<Rightarrow> gorm_db" where
  "fg_GT field v = fg_nonempty field v (fg_Where (field @ '' > ?'') [FQ_Str v])"

definition fg_LTE :: "string \<Rightarrow> string \<Rightarrow> gorm_db \<Rightarrow> gorm_db" where
  "fg_LTE field v = fg_nonempty field v (fg_Where (field @ '' <= ?'') [FQ_Str v])"

definition fg_LT :: "string \<Rightarrow> string \<Rightarrow> gorm_db \<Rightarrow> gorm_db" where
  "fg_LT field v = fg_nonempty field v (fg_Where (field @ '' < ?'') [FQ_Str v])"

definition fg_In :: "fg_env \<Rightarrow> string \<Rightarrow> string \<Rightarrow> string list \<Rightarrow> gorm_db \<Rightarrow> gorm_db" where
  "fg_In E field v vs = fg_checked field (\<lambda>db.
     if v \<noteq> [] then (case fg_codec E v of Some js \<Rightarrow> fg_Where (field @ '' IN ?'') [FQ_Jsons js] db | None \<Rightarrow> db)
     else if vs \<noteq> [] then fg_Where (field @ '' IN ?'') [FQ_Strs vs] db else db)"

definition fg_NotIn :: "fg_env \<Rightarrow> string \<Rightarrow> string \<Rightarrow> string list \<Rightarrow> gorm_db \<Rightarrow> gorm_db" where
  "fg_NotIn E field v vs = fg_checked field (\<lambda>db.
     if v \<noteq> [] then (case fg_codec E v of Some js \<Rightarrow> fg_Not (field @ '' IN ?'') [FQ_Jsons js] db | None \<Rightarrow> db)
     else if vs \<noteq> [] then fg_Not (field @ '' IN ?'') [FQ_Strs vs] db else db)"

definition fg_between :: "string \<Rightarrow> string" where
  "fg_between field = field @ '' >= ? AND '' @ field @ '' <= ?''"

definition fg_Range :: "fg_env \<Rightarrow> string \<Rightarrow> string \<Rightarrow> string list \<Rightarrow> gorm_db \<Rightarrow> gorm_db" where
  "fg_Range E field v vs = fg_checked field (\<lambda>db.
     if v \<noteq> []
     then (case fg_codec E v of
             Some js \<Rightarrow> if length js \<noteq> 2 then db else fg_Where (fg_between field) [FQ_Json (js ! 0), FQ_Json (js ! 1)] db
           | None \<Rightarrow> db)
     else if length vs = 2 then fg_Where (fg_between field) [FQ_Str (vs ! 0), FQ_Str (vs ! 1)] db else db)"

definition fg_IsNull :: "string \<Rightarrow> gorm_db \<Rightarrow> gorm_db" where
  "fg_IsNull field = fg_checked field (fg_Where (field @ '' IS NULL'') [])"

definition fg_IsNotNull :: "string \<Rightarrow> gorm_db \<Rightarrow> gorm_db" where
  "fg_IsNotNull field = fg_checked field (fg_Where (field @ '' IS NOT NULL'') [])"

definition fg_Contains :: "string \<Rightarrow> string \<Rightarrow> gorm_db \<Rightarrow> gorm_db" where
  "fg_Contains field v = fg_nonempty field v (fg_Where (field @ '' LIKE ?'') [FQ_Str (''%'' @ v @ ''%'')])"

definition fg_InsensitiveContains :: "string \<Rightarrow> string \<Rightarrow> gorm_db \<Rightarrow> gorm_db" where
  "fg_InsensitiveContains field v = fg_nonempty field v (\<lambda>db.
     if fg_dialect db = ''postgres'' then fg_Where (field @ '' ILIKE ?'') [FQ_Str (''%'' @ v @ ''%'')] db
     else fg_Where (''LOWER('' @ field @ '') LIKE ?'') [FQ_Str (''%'' @ go_ToLower v @ ''%'')] db)"

definition fg_StartsWith :: "string \<Rightarrow> string \<Rightarrow> gorm_db \<Rightarrow> gorm_db" where
  "fg_StartsWith field v = fg_nonempty field v (fg_Where (field @ '' LIKE ?'') [FQ_Str (v @ ''%'')])"

definition fg_InsensitiveStartsWith :: "string \<Rightarrow> string \<Rightarrow> gorm_db \<Rightarrow> gorm_db" where
  "fg_InsensitiveStartsWith field v = fg_nonempty field v (\<lambda>db.
     if fg_dialect db = ''postgres'' then fg_Where (field @ '' ILIKE ?'') [FQ_Str (v @ ''%'')] db
     else fg_Where (''LOWER('' @ field @ '') LIKE ?'') [FQ_Str (go_ToLower v @ ''%'')] db)"

definition fg_EndsWith :: "string \<Rightarrow> string \<Rightarrow> gorm_db \<Rightarrow> gorm_db" where
  "fg_EndsWith field v = fg_nonempty field v (fg_Where (field @ '' LIKE ?'') [FQ_Str (''%'' @ v)])"

definition fg_InsensitiveEndsWith :: "string \<Rightarrow> string \<Rightarrow> gorm_db \<Rightarrow> gorm_db" where
  "fg_InsensitiveEndsWith field v = fg_nonempty field v (\<lambda>db.
     if fg_dialect db = ''postgres'' then fg_Where (field @ '' ILIKE ?'') [FQ_Str (''%'' @ v)] db
     else fg_Where (''LOWER('' @ field @ '') LIKE ?'') [FQ_Str (''%'' @ go_ToLower v)] db)"

definition fg_Exact :: "string \<Rightarrow> string \<Rightarrow> gorm_db \<Rightarrow> gorm_db" where
  "fg_Exact field v = fg_nonempty field v (fg_Where (field @ '' = ?'') [FQ_Str v])"

definition fg_InsensitiveExact :: "string \<Rightarrow> string \<Rightarrow> gorm_db \<Rightarrow> gorm_db" where
  "fg_InsensitiveExact field v = fg_nonempty field v (\<lambda>db.
     if fg_dialect db = ''postgres'' then fg_Where (field @ '' ILIKE ?'') [FQ_Str v] db
     else fg_Where (''LOWER('' @ field @ '') = ?'') [FQ_Str (go_ToLower v)] db)"

definition fg_Regex :: "string \<Rightarrow> string \<Rightarrow> gorm_db \<Rightarrow> gorm_db" where
  "fg_Regex field v = fg_nonempty field v (\<lambda>db.
     if fg_dialect db = ''postgres'' then fg_Where (field @ '' ~ ?'') [FQ_Str v] db
     else if fg_dialect db = ''mysql'' then fg_Where (field @ '' REGEXP BINARY ?'') [FQ_Str v] db
     else if fg_dialect db = ''sqlite'' then fg_Where (field @ '' REGEXP ?'') [FQ_Str v] db
     else db)"

definition fg_fold_flag :: "string \<Rightarrow> string" where
  "fg_fold_flag v = (if prefix ''(?i)'' v then v else ''(?i)'' @ v)"

definition fg_InsensitiveRegex :: "string \<Rightarrow> string \<Rightarrow> gorm_db \<Rightarrow> gorm_db" where
  "fg_InsensitiveRegex field v = fg_nonempty field v (\<lambda>db.
     if fg_dialect db = ''postgres'' then fg_Where (field @ '' ~* ?'') [FQ_Str v] db
     else if fg_dialect db = ''mysql'' then fg_Where (field @ '' REGEXP ?'') [FQ_Str v] db
     else if fg_dialect db = ''sqlite'' then fg_Where (field @ '' REGEXP ?'') [FQ_Str (fg_fold_flag v)] db
     else db)"

definition fg_Search :: "string \<Rightarrow> string \<Rightarrow> gorm_db \<Rightarrow> gorm_db" where
  "fg_Search field v = fg_nonempty field v (\<lambda>db.
     if fg_dialect db = ''postgres'' then fg_Where (''to_tsvector('' @ field @ '') @@ plainto_tsquery(?)'') [FQ_Str v] db
     else if fg_dialect db = ''mysql''
     then fg_Where (''MATCH('' @ field @ '') AGAINST(? IN NATURAL LANGUAGE MODE)'') [FQ_Str v] db
     else fg_Where (field @ '' LIKE ?'') [FQ_Str (''%'' @ v @ ''%'')] db)"

definition fg_Process ::
  "fg_env \<Rightarrow> (string \<Rightarrow> string) \<Rightarrow> fe_op \<Rightarrow> string \<Rightarrow> string \<Rightarrow> string list \<Rightarrow> gorm_db option \<Rightarrow> gorm_db option" where
  "fg_Process E snake op field v vs db = map_option
     (let field = (if jsonExprPattern field then field else snake field)
      in fg_checked field (case op of
           EQ \<Rightarrow> fg_Equal field v
         | NEQ \<Rightarrow> fg_NotEqual field v
         | IN \<Rightarrow> fg_In E field v vs
         | NIN \<Rightarrow> fg_NotIn E field v vs
         | GTE \<Rightarrow> fg_GTE field v
         | GT \<Rightarrow> fg_GT field v
         | LTE \<Rightarrow> fg_LTE field v
         | LT \<Rightarrow> fg_LT field v
         | BETWEEN \<Rightarrow> fg_Range E field v vs
         | IS_NULL \<Rightarrow> fg_IsNull field
         | IS_NOT_NULL \<Rightarrow> fg_IsNotNull field
         | CONTAINS \<Rightarrow> fg_Contains field v
         | ICONTAINS \<Rightarrow> fg_InsensitiveContains field v
         | STARTS_WITH \<Rightarrow> fg_StartsWith field v
         | ISTARTS_WITH \<Rightarrow> fg_InsensitiveStartsWith field v
         | ENDS_WITH \<Rightarrow> fg_EndsWith field v
         | IENDS_WITH \<Rightarrow> fg_InsensitiveEndsWith field v
         | EXACT \<Rightarrow> fg_Exact field v
         | IEXACT \<Rightarrow> fg_InsensitiveExact field v
         | REGEXP \<Rightarrow> fg_Regex field v
         | IREGEXP \<Rightarrow> fg_InsensitiveRegex field v
         | SEARCH \<Rightarrow> fg_Search field v
         | _ \<Rightarrow> (\<lambda>db. db))) db"

definition fg_requiresValue :: "fe_op \<Rightarrow> bool" where
  "fg_requiresValue op \<longleftrightarrow> op \<notin> {IS_NULL, IS_NOT_NULL, IN, NIN, BETWEEN}"

definition fg_parseJSONValues :: "fg_env \<Rightarrow> string \<Rightarrow> json list option" where
  "fg_parseJSONValues E raw = (case fg_codec E raw of Some js \<Rightarrow> Some js | None \<Rightarrow> fg_json E raw)"

text \<open>The list of \<open>IN\<close> and \<open>NIN\<close>: the JSON array in the value, else the values.\<close>

definition fg_list :: "fg_env \<Rightarrow> string \<Rightarrow> string list \<Rightarrow> fq_arg option" where
  "fg_list E v vs =
     (case if v \<noteq> [] then fg_parseJSONValues E v else None of
        Some js \<Rightarrow> Some (FQ_Jsons js)
      | None \<Rightarrow> if vs \<noteq> [] then Some (FQ_Strs vs) else None)"

definition fg_pair :: "fg_env \<Rightarrow> string \<Rightarrow> string list \<Rightarrow> (fq_arg \<times> fq_arg) option" where
  "fg_pair E v vs =
     (case if v \<noteq> [] then fg_parseJSONValues E v else None of
        Some [a, b] \<Rightarrow> Some (FQ_Json a, FQ_Json b)
      | _ \<Rightarrow> if length vs = 2 then Some (FQ_Str (vs ! 0), FQ_Str (vs ! 1)) else None)"

text \<open>The fragment for an operator, field and value that have passed the checks.\<close>

definition fg_fragment ::
  "fg_env \<Rightarrow> string \<Rightarrow> fe_op \<Rightarrow> string \<Rightarrow> string \<Rightarrow> string list \<Rightarrow> (string \<times> fq_arg list) option" where
  "fg_fragment E dialect op field v vs = (case op of
       EQ \<Rightarrow> Some (field @ '' = ?'', [FQ_Str v])
     | NEQ \<Rightarrow> Some (''NOT ('' @ field @ '' = ?)'', [FQ_Str v])
     | GTE \<Rightarrow> Some (field @ '' >= ?'', [FQ_Str v])
     | GT \<Rightarrow> Some (field @ '' > ?'', [FQ_Str v])
     | LTE \<Rightarrow> Some (field @ '' <= ?'', [FQ_Str v])
     | LT \<Rightarrow> Some (field @ '' < ?'', [FQ_Str v])
     | IN \<Rightarrow> map_option (\<lambda>a. (field @ '' IN ?'', [a])) (fg_list E v vs)
     | NIN \<Rightarrow> map_option (\<lambda>a. (field @ '' NOT IN ?'', [a])) (fg_list E v vs)
     | BETWEEN \<Rightarrow> map_option (\<lambda>(a, b). (fg_between field, [a, b])) (fg_pair E v vs)
     | IS_NULL \<Rightarrow> Some (field @ '' IS NULL'', [])
     | IS_NOT_NULL \<Rightarrow> Some (field @ '' IS NOT NULL'', [])
     | CONTAINS \<Rightarrow> Some (field @ '' LIKE ?'', [FQ_Str (''%'' @ v @ ''%'')])
     | ICONTAINS \<Rightarrow> Some (if dialect = ''postgres'' then (field @ '' ILIKE ?'', [FQ_Str (''%'' @ v @ ''%'')])
         else (''LOWER('' @ field @ '') LIKE ?'', [FQ_Str (''%'' @ go_ToLower v @ ''%'')]))
     | STARTS_WITH \<Rightarrow> Some (field @ '' LIKE ?'', [FQ_Str (v @ ''%'')])
     | ISTARTS_WITH \<Rightarrow> Some (if dialect = ''postgres'' then (field @ '' ILIKE ?'', [FQ_Str (v @ ''%'')])
         else (''LOWER('' @ field @ '') LIKE ?'', [FQ_Str (go_ToLower v @ ''%'')]))
     | ENDS_WITH \<Rightarrow> Some (field @ '' LIKE ?'', [FQ_Str (''%'' @ v)])
     | IENDS_WITH \<Rightarrow> Some (if dialect = ''postgres'' then (field @ '' ILIKE ?'', [FQ_Str (''%'' @ v)])
         else (''LOWER('' @ field @ '') LIKE ?'', [FQ_Str (''%'' @ go_ToLower v)]))
     | EXACT \<Rightarrow> Some (field @ '' = ?'', [FQ_Str v])
     | IEXACT \<Rightarrow> Some (if dialect = ''postgres'' then (field @ '' ILIKE ?'', [FQ_Str v])
         else (''LOWER('' @ field @ '') = ?'', [FQ_Str (go_ToLower v)]))
     | REGEXP \<Rightarrow> (if dialect = ''postgres'' then Some (field @ '' ~ ?'', [FQ_Str v])
         else if dialect = ''mysql'' then Some (field @ '' REGEXP BINARY ?'', [FQ_Str v])
         else if dialect = ''sqlite'' then Some (field @ '' REGEXP ?'', [FQ_Str v]) else None)
     | IREGEXP \<Rightarrow> (if dialect = ''postgres'' then Some (field @ '' ~* ?'', [FQ_Str v])
         else if dialect = ''mysql'' then Some (field @ '' REGEXP ?'', [FQ_Str v])
         else if dialect = ''sqlite'' then Some (field @ '' REGEXP ?'', [FQ_Str (fg_fold_flag v)]) else None)
     | SEARCH \<Rightarrow> Some
         (if dialect = ''postgres'' then (''to_tsvector('' @ field @ '') @@ plainto_tsquery(?)'', [FQ_Str v])
          else if dialect = ''mysql'' then (''MATCH('' @ field @ '') AGAINST(? IN NATURAL LANGUAGE MODE)'', [FQ_Str v])
          else (field @ '' LIKE ?'', [FQ_Str (''%'' @ v @ ''%'')]))
     | _ \<Rightarrow> None)"

definition fg_BuildExpression ::
  "fg_env \<Rightarrow> gorm_db option \<Rightarrow> fe_op \<Rightarrow> string \<Rightarrow> string \<Rightarrow> string list \<Rightarrow> (string \<times> fq_arg list) option" where
  "fg_BuildExpression E db op field v vs =
     (case db of
        None \<Rightarrow> None
      | Some db \<Rightarrow>
          if \<not> isValidFieldExpr field then None
          else if fg_requiresValue op \<and> go_TrimSpace v = [] then None
          else fg_fragment E (fg_dialect db) op field v vs)"

section \<open>Date parts and JSON fields\<close>

definition fg_IsValidDatePartString :: "string \<Rightarrow> bool" where
  "fg_IsValidDatePartString s \<longleftrightarrow> s \<noteq> [] \<and> list_all (\<lambda>c. fg_letter c \<or> c = CHR ''_'') s"

definition fg_DatePart :: "string \<Rightarrow> string \<Rightarrow> gorm_db \<Rightarrow> gorm_db" where
  "fg_DatePart datePart field db =
     (if \<not> fg_IsValidDatePartString datePart then db
      else if \<not> isValidIdentifier field then fg_AddError (FgInvalidField field) db
      else let part = go_ToUpper datePart
           in if fg_dialect db = ''mysql'' then fg_Where (part @ ''('' @ field @ '') IS NOT NULL'') [] db
              else fg_Where (''EXTRACT('' @ [sq] @ part @ [sq] @ '' FROM '' @ field @ '') IS NOT NULL'') [] db)"

definition fg_JsonbFieldExpr :: "gorm_db \<Rightarrow> string \<Rightarrow> string \<Rightarrow> string" where
  "fg_JsonbFieldExpr db jsonbField field =
     (let k = go_TrimSpace jsonbField
      in if k = [] \<or> \<not> jsonKeyPattern k then ''''
         else if \<not> isValidIdentifier field then ''''
         else if fg_dialect db = ''mysql'' then ''JSON_EXTRACT('' @ field @ fg_path @ k @ [sq] @ '')''
         else field @ fg_arrow @ k @ [sq])"

definition fg_JsonbField :: "gorm_db \<Rightarrow> string \<Rightarrow> string \<Rightarrow> string" where
  "fg_JsonbField db jsonbField field = fg_JsonbFieldExpr db jsonbField field"

definition fg_Jsonb :: "string \<Rightarrow> string \<Rightarrow> gorm_db \<Rightarrow> gorm_db" where
  "fg_Jsonb jsonbField field db =
     (let k = go_TrimSpace jsonbField
      in if k = [] then db
         else if \<not> jsonKeyPattern k then db
         else if \<not> isValidIdentifier field then fg_AddError (FgInvalidField field) db
         else if fg_dialect db = ''mysql''
         then fg_Where (''JSON_EXTRACT('' @ field @ fg_path @ k @ [sq] @ '') IS NOT NULL'') [] db
         else fg_Where (field @ fg_arrow @ k @ [sq] @ '' IS NOT NULL'') [] db)"

section \<open>The structured filter\<close>

definition fg_isSkippableEmpty :: "filter_cond \<Rightarrow> string \<Rightarrow> bool" where
  "fg_isSkippableEmpty cond v \<longleftrightarrow>
     (if v \<noteq> [] then False else if fc_Op cond \<in> {IN, NIN, BETWEEN} then fc_Values cond = [] else True)"

text \<open>\<open>strings.SplitN(s, ".", 2)\<close> of a string with a dot.\<close>

definition fg_SplitDot :: "string \<Rightarrow> string \<times> string" where
  "fg_SplitDot s = (let a = takeWhile (\<lambda>c. c \<noteq> CHR ''.'') s in (a, drop (length a + 1) s))"

text \<open>The field of a condition as it stands in the SQL text.\<close>

definition fg_condField :: "(string \<Rightarrow> string) \<Rightarrow> gorm_db \<Rightarrow> filter_cond \<Rightarrow> string" where
  "fg_condField snake db cond =
     (if CHR ''.'' \<in> set (fc_Field cond)
      then let (a, k) = fg_SplitDot (fc_Field cond) in fg_JsonbFieldExpr db k (snake a)
      else snake (fc_Field cond))"

text \<open>The answer without an error is the fragment, or nothing for a condition that is skipped.\<close>

definition fg_condExpr ::
  "fg_env \<Rightarrow> (string \<Rightarrow> string) \<Rightarrow> gorm_db \<Rightarrow> filter_cond \<Rightarrow> fg_error + (string \<times> fq_arg list) option" where
  "fg_condExpr E snake db cond =
     (let v = (case fc_Value cond of FV_Value s \<Rightarrow> s | _ \<Rightarrow> ''''); field = fg_condField snake db cond
      in if CHR ''.'' \<in> set (fc_Field cond) \<and> field = [] then Inl (FgInvalidField (fc_Field cond))
         else if \<not> isValidFieldExpr field then Inl (FgInvalidField (fc_Field cond))
         else case fg_BuildExpression E (Some db) (fc_Op cond) field v (fc_Values cond) of
                Some r \<Rightarrow> Inr (Some r)
              | None \<Rightarrow> if fg_isSkippableEmpty cond v then Inr None else Inl (FgInvalidCondition (fc_Field cond)))"

fun fg_condExprs ::
  "fg_env \<Rightarrow> (string \<Rightarrow> string) \<Rightarrow> gorm_db \<Rightarrow> filter_cond list \<Rightarrow> fg_error + string list \<times> fq_arg list" where
  "fg_condExprs E snake db [] = Inr ([], [])"
| "fg_condExprs E snake db (c # cs) =
     (case fg_condExpr E snake db c of
        Inl e \<Rightarrow> Inl e
      | Inr r \<Rightarrow>
          (case fg_condExprs E snake db cs of
             Inl e \<Rightarrow> Inl e
           | Inr (fs, as) \<Rightarrow> Inr (case r of None \<Rightarrow> (fs, as) | Some (f, a) \<Rightarrow> (f # fs, a @ as))))"

definition fg_sep :: "fe_type \<Rightarrow> string" where
  "fg_sep t = (if t = ExprType_OR then '' OR '' else '' AND '')"

fun fg_buildExpr ::
  "fg_env \<Rightarrow> (string \<Rightarrow> string) \<Rightarrow> gorm_db \<Rightarrow> filter_expr \<Rightarrow> fg_error + string list \<times> fq_arg list"
and fg_groups ::
  "fg_env \<Rightarrow> (string \<Rightarrow> string) \<Rightarrow> gorm_db \<Rightarrow> filter_expr list \<Rightarrow> fg_error + string list \<times> fq_arg list" where
  "fg_buildExpr E snake db (FilterExpr t cs gs) =
     (case fg_condExprs E snake db cs of
        Inl e \<Rightarrow> Inl e
      | Inr (cf, ca) \<Rightarrow>
          (case fg_groups E snake db gs of Inl e \<Rightarrow> Inl e | Inr (gf, ga) \<Rightarrow> Inr (cf @ gf, ca @ ga)))"
| "fg_groups E snake db [] = Inr ([], [])"
| "fg_groups E snake db (g # gs) =
     (case fg_buildExpr E snake db g of
        Inl e \<Rightarrow> Inl e
      | Inr (sf, sa) \<Rightarrow>
          (case fg_groups E snake db gs of
             Inl e \<Rightarrow> Inl e
           | Inr (gf, ga) \<Rightarrow>
               Inr (if sf = [] then (gf, ga)
                    else ((''('' @ go_Join sf (fg_sep (fx_Type g)) @ '')'') # gf, sa @ ga))))"

definition fg_closure :: "fg_env \<Rightarrow> (string \<Rightarrow> string) \<Rightarrow> filter_expr \<Rightarrow> gorm_db option \<Rightarrow> gorm_db option" where
  "fg_closure E snake expr db =
     (case db of
        None \<Rightarrow> None
      | Some db \<Rightarrow>
          Some (case fg_buildExpr E snake db expr of
                  Inl e \<Rightarrow> fg_AddError e db
                | Inr (fs, as) \<Rightarrow> if fs = [] then db else fg_Where (go_Join fs (fg_sep (fx_Type expr))) as db))"

definition fg_buildFilterSelector ::
  "fg_env \<Rightarrow> (string \<Rightarrow> string) \<Rightarrow> filter_expr option \<Rightarrow> (gorm_db option \<Rightarrow> gorm_db option) option" where
  "fg_buildFilterSelector E snake expr =
     (case expr of
        None \<Rightarrow> None
      | Some e \<Rightarrow> if fx_Type e = ExprType_UNSPECIFIED then None else Some (fg_closure E snake e))"

definition fg_BuildSelectors ::
  "fg_env \<Rightarrow> (string \<Rightarrow> string) \<Rightarrow> filter_expr option \<Rightarrow> (gorm_db option \<Rightarrow> gorm_db option) list" where
  "fg_BuildSelectors E snake expr =
     (case expr of
        None \<Rightarrow> []
      | Some e \<Rightarrow>
          if fx_Type e = ExprType_UNSPECIFIED then []
          else case fg_buildFilterSelector E snake expr of Some sel \<Rightarrow> [sel] | None \<Rightarrow> [])"

section \<open>What the text can contain\<close>

lemma jsonArrow_decomp:
  assumes "jsonArrowPattern f"
  obtains col k where "f = col @ fg_arrow @ k @ [sq]" "identifierPattern col" "jsonKeyPattern k"
proof -
  define col where "col = takeWhile fg_word f"
  define r where "r = drop (length col) f"
  define k where "k = drop (length fg_arrow) r"
  have p: "identifierPattern col" "prefix fg_arrow r" "suffix [sq] k" "jsonKeyPattern (take (length k - 1) k)"
    using assms unfolding jsonArrowPattern_def Let_def col_def r_def k_def by blast+
  have "f = col @ r" unfolding col_def r_def by (metis dropWhile_eq_drop takeWhile_dropWhile_id)
  moreover have "r = fg_arrow @ k" using p(2) by (auto simp: k_def prefix_def)
  moreover have "k = take (length k - 1) k @ [sq]" using p(3) by (auto simp: suffix_def)
  ultimately show thesis using p that[of col "take (length k - 1) k"] by simp
qed

lemma jsonExtract_decomp:
  assumes "jsonExtractPattern f"
  obtains col k where "f = ''JSON_EXTRACT('' @ col @ fg_path @ k @ [sq, CHR '')'']" "identifierPattern col" "jsonKeyPattern k"
proof -
  define g where "g = drop 13 f"
  define col where "col = takeWhile fg_word g"
  define r where "r = drop (length col) g"
  define k where "k = drop (length fg_path) r"
  have p: "prefix ''JSON_EXTRACT('' f" "identifierPattern col" "prefix fg_path r" "suffix [sq, CHR '')''] k"
      "jsonKeyPattern (take (length k - 2) k)"
    using assms unfolding jsonExtractPattern_def Let_def g_def col_def r_def k_def by blast+
  have "f = ''JSON_EXTRACT('' @ g" using p(1) by (auto simp: g_def prefix_def)
  moreover have "g = col @ r" unfolding col_def r_def by (metis dropWhile_eq_drop takeWhile_dropWhile_id)
  moreover have "r = fg_path @ k" using p(3) by (auto simp: k_def prefix_def)
  moreover have "k = take (length k - 2) k @ [sq, CHR '')'']" using p(4) by (auto simp: suffix_def)
  ultimately show thesis using p that[of col "take (length k - 2) k"] by simp
qed

text \<open>A field that passes the white list is harmless and has no question mark.\<close>

lemma fg_clean_field: "isValidFieldExpr f \<Longrightarrow> fg_clean 0 f"
proof (rule fg_clean_trim)
  assume "isValidFieldExpr f"
  then consider "identifierPattern (go_TrimSpace f)" | "jsonArrowPattern (go_TrimSpace f)"
    | "jsonExtractPattern (go_TrimSpace f)" by (auto simp: isValidFieldExpr_def jsonExprPattern_def Let_def)
  then show "fg_clean 0 (go_TrimSpace f)"
  proof cases
    case 1
    then show ?thesis by (rule fg_clean_ident)
  next
    case 2
    then obtain col k where "go_TrimSpace f = col @ fg_arrow @ k @ [sq]" "identifierPattern col" "jsonKeyPattern k"
      by (rule jsonArrow_decomp)
    then show ?thesis using fg_clean_ident[of col] fg_clean_key[of k]
      by (simp add: fg_clean_def fg_arrow_def fg_unsafe_def)
  next
    case 3
    then obtain col k where "go_TrimSpace f = ''JSON_EXTRACT('' @ col @ fg_path @ k @ [sq, CHR '')'']"
        "identifierPattern col" "jsonKeyPattern k" by (rule jsonExtract_decomp)
    then show ?thesis using fg_clean_ident[of col] fg_clean_key[of k]
      by (simp add: fg_clean_def fg_path_def fg_unsafe_def)
  qed
qed

lemma fg_clean_fragment:
  assumes "fg_clean 0 field" "fg_fragment E d op field v vs = Some (q, as)"
  shows "fg_clean (length as) q"
  using assms by (cases op) (auto simp: fg_fragment_def fg_clean_def fg_unsafe_def fg_between_def split: if_splits)

lemma fg_clean_condExpr: "fg_condExpr E snake db c = Inr (Some (q, as)) \<Longrightarrow> fg_clean (length as) q"
  by (auto simp: fg_condExpr_def fg_BuildExpression_def Let_def intro: fg_clean_fragment[OF fg_clean_field]
      split: if_splits option.splits prod.splits)

lemma fg_clean_sep: "fg_clean 0 (fg_sep t)"
  by (simp add: fg_clean_def fg_sep_def fg_unsafe_def)

lemma fg_clean_Join: "fg_clean_list n fs \<Longrightarrow> fg_clean n (go_Join fs (fg_sep t))"
proof (induction fs "fg_sep t" arbitrary: n rule: go_Join.induct)
  case (3 x y xs)
  then obtain m k where "fg_clean m x" "fg_clean_list k (y # xs)" "n = m + k"
    using fg_clean_list_split by blast
  then show ?case using "3.hyps" fg_clean_append[OF _ fg_clean_append[OF fg_clean_sep[of t]], of m x] by force
qed (auto simp: fg_clean_list_def list_all2_Cons2 fg_clean_def)

lemma fg_clean_condExprs: "fg_condExprs E snake db cs = Inr (fs, as) \<Longrightarrow> fg_clean_list (length as) fs"
proof (induction cs arbitrary: fs as)
  case (Cons c cs)
  then obtain r fs' as' where r: "fg_condExpr E snake db c = Inr r" "fg_condExprs E snake db cs = Inr (fs', as')"
      "(fs, as) = (case r of None \<Rightarrow> (fs', as') | Some (f, a) \<Rightarrow> (f # fs', a @ as'))"
    by (auto split: sum.splits)
  then show ?case
    using Cons.IH fg_clean_condExpr[of E snake db c] fg_clean_list_Cons by (auto split: option.splits)
qed simp

lemma fg_clean_buildExpr:
  "fg_buildExpr E snake db e = Inr (fs, as) \<Longrightarrow> fg_clean_list (length as) fs"
  "fg_groups E snake db gs = Inr (fs, as) \<Longrightarrow> fg_clean_list (length as) fs"
proof (induction E snake db e and E snake db gs arbitrary: fs as and fs as rule: fg_buildExpr_fg_groups.induct)
  case (1 E snake db t cs gs)
  then obtain cf ca gf ga where "fg_condExprs E snake db cs = Inr (cf, ca)" "fg_groups E snake db gs = Inr (gf, ga)"
      "fs = cf @ gf" "as = ca @ ga" by (auto split: sum.splits)
  then show ?case using 1 fg_clean_list_append[OF fg_clean_condExprs] by force
next
  case (3 E snake db g gs)
  then obtain sf sa gf ga where g: "fg_buildExpr E snake db g = Inr (sf, sa)" "fg_groups E snake db gs = Inr (gf, ga)"
      "(fs, as) = (if sf = [] then (gf, ga) else ((''('' @ go_Join sf (fg_sep (fx_Type g)) @ '')'') # gf, sa @ ga))"
    by (auto split: sum.splits)
  have c: "fg_clean_list (length sa) sf" "fg_clean_list (length ga) gf" using 3 g by auto
  then have "fg_clean (length sa) (''('' @ go_Join sf (fg_sep (fx_Type g)) @ '')'')"
    using fg_clean_Join[of "length sa" sf "fx_Type g"] by (simp add: fg_clean_def fg_unsafe_def)
  then show ?case using c g(3) fg_clean_list_Cons by (auto split: if_splits)
qed auto


section \<open>What the text means\<close>

text \<open>The atoms of a condition: its fragment, or the two comparisons of BETWEEN.\<close>

definition fg_atoms :: "fg_env \<Rightarrow> (string \<Rightarrow> string) \<Rightarrow> gorm_db \<Rightarrow> filter_cond \<Rightarrow> (string \<times> fq_arg list) list" where
  "fg_atoms E snake db c =
     (case fg_condExpr E snake db c of
        Inr (Some (q, as)) \<Rightarrow>
          if fc_Op c = BETWEEN
          then [(fg_condField snake db c @ '' >= ?'', [as ! 0]), (fg_condField snake db c @ '' <= ?'', [as ! 1])]
          else [(q, as)]
      | _ \<Rightarrow> [])"

definition fg_holds ::
  "fg_env \<Rightarrow> (string \<Rightarrow> string) \<Rightarrow> gorm_db \<Rightarrow> (string \<Rightarrow> fq_arg list \<Rightarrow> bool) \<Rightarrow> filter_cond \<Rightarrow> bool" where
  "fg_holds E snake db w c = list_all (\<lambda>(q, as). w q as) (fg_atoms E snake db c)"

definition fg_kept :: "fg_env \<Rightarrow> (string \<Rightarrow> string) \<Rightarrow> gorm_db \<Rightarrow> filter_cond \<Rightarrow> bool" where
  "fg_kept E snake db c \<longleftrightarrow> fg_condExpr E snake db c \<noteq> Inr None"

text \<open>The expression without the skipped conditions and the groups that are then empty.\<close>

definition fx_empty :: "filter_expr \<Rightarrow> bool" where
  "fx_empty e \<longleftrightarrow> fx_Conditions e = [] \<and> fx_Groups e = []"

primrec fx_prune :: "(filter_cond \<Rightarrow> bool) \<Rightarrow> filter_expr \<Rightarrow> filter_expr" where
  "fx_prune p (FilterExpr t cs gs) = FilterExpr t (filter p cs) (filter (\<lambda>g. \<not> fx_empty g) (map (fx_prune p) gs))"

primrec fx_all :: "filter_expr \<Rightarrow> filter_cond list" where
  "fx_all (FilterExpr t cs gs) = cs @ concat (map fx_all gs)"

lemma fg_fragment_between:
  assumes "fg_fragment E d BETWEEN field v vs = Some (q, as)"
  shows "q = field @ '' >= ? AND '' @ field @ '' <= ?'' \<and> as = [as ! 0, as ! 1]"
  using assms by (auto simp: fg_fragment_def fg_between_def)

lemma sq_cond:
  assumes "fg_condExpr E snake db c = Inr (Some (q, as))" "\<And>q as. (q, as) \<in> set (fg_atoms E snake db c) \<Longrightarrow> A q as"
  shows "sq_and A w q as (fg_holds E snake db w c)"
proof (cases "fc_Op c = BETWEEN")
  case False
  then have "fg_atoms E snake db c = [(q, as)]" using assms(1) by (simp add: fg_atoms_def)
  then show ?thesis using assms(2) sq_and1[OF sq_leaf] by (simp add: fg_holds_def)
next
  case True
  let ?f = "fg_condField snake db c"
  have at: "fg_atoms E snake db c = [(?f @ '' >= ?'', [as ! 0]), (?f @ '' <= ?'', [as ! 1])]"
    using True assms(1) by (simp add: fg_atoms_def)
  have "q = ?f @ '' >= ? AND '' @ ?f @ '' <= ?'' \<and> as = [as ! 0, as ! 1]"
    using assms(1) True fg_fragment_between
    by (auto simp: fg_condExpr_def fg_BuildExpression_def Let_def split: if_splits option.splits)
  then have q: "q = (?f @ '' >= ?'') @ '' AND '' @ (?f @ '' <= ?'')" and as: "as = [as ! 0] @ [as ! 1]" by simp_all
  have "sq_and A w ((?f @ '' >= ?'') @ '' AND '' @ (?f @ '' <= ?'')) ([as ! 0] @ [as ! 1])
      (w (?f @ '' >= ?'') [as ! 0] \<and> w (?f @ '' <= ?'') [as ! 1])"
    by (intro sq_conj sq_and1 sq_leaf assms(2)) (simp_all add: at)
  moreover have "fg_holds E snake db w c = (w (?f @ '' >= ?'') [as ! 0] \<and> w (?f @ '' <= ?'') [as ! 1])"
    by (simp add: fg_holds_def at)
  ultimately show ?thesis using q as by metis
qed

lemma sq_list_join:
  "sq_list A w fs as bs \<Longrightarrow> fs \<noteq> [] \<Longrightarrow> sq_or A w (go_Join fs (fg_sep t)) as (fx_join t bs) \<and>
     (t \<noteq> ExprType_OR \<longrightarrow> sq_and A w (go_Join fs (fg_sep t)) as (fx_join t bs))"
proof (induction rule: sq_list.induct)
  case (sq_Cons f a b fs as bs)
  show ?case
  proof (cases fs)
    case Nil
    then have "as = []" "bs = []" using sq_Cons.hyps(2) by (auto elim: sq_list_NilE)
    then show ?thesis using Nil sq_Cons.hyps(1) sq_or1[OF sq_Cons.hyps(1)] by (simp add: fx_join_def)
  next
    case (Cons g gs)
    then have ih: "sq_or A w (go_Join fs (fg_sep t)) as (fx_join t bs)"
      "t \<noteq> ExprType_OR \<Longrightarrow> sq_and A w (go_Join fs (fg_sep t)) as (fx_join t bs)" using sq_Cons.IH by auto
    show ?thesis
    proof (cases "t = ExprType_OR")
      case True
      then show ?thesis using sq_disj[OF sq_or1[OF sq_Cons.hyps(1)] ih(1)] Cons by (simp add: fg_sep_def fx_join_def)
    next
      case False
      then have "sq_and A w (f @ '' AND '' @ go_Join fs (fg_sep t)) (a @ as) (b \<and> fx_join t bs)"
        using ih(2) sq_Cons.hyps(1) by (intro sq_conj)
      then show ?thesis using False Cons sq_or1 by (auto simp: fg_sep_def fx_join_def)
    qed
  qed
qed simp

definition fg_covers ::
  "(string \<Rightarrow> fq_arg list \<Rightarrow> bool) \<Rightarrow> fg_env \<Rightarrow> (string \<Rightarrow> string) \<Rightarrow> gorm_db \<Rightarrow> filter_cond list \<Rightarrow> bool" where
  "fg_covers A E snake db cs \<longleftrightarrow> (\<forall>c \<in> set cs. \<forall>(q, as) \<in> set (fg_atoms E snake db c). A q as)"

lemma fg_covers_simps [simp]:
  "fg_covers A E snake db (c # cs) \<longleftrightarrow> (\<forall>(q, as) \<in> set (fg_atoms E snake db c). A q as) \<and> fg_covers A E snake db cs"
  "fg_covers A E snake db (cs @ ds) \<longleftrightarrow> fg_covers A E snake db cs \<and> fg_covers A E snake db ds"
  by (auto simp: fg_covers_def)

lemma sq_condExprs:
  "fg_condExprs E snake db cs = Inr (fs, as) \<Longrightarrow> fg_covers A E snake db cs \<Longrightarrow>
   sq_list A w fs as (map (fg_holds E snake db w) (filter (fg_kept E snake db) cs))"
proof (induction cs arbitrary: fs as)
  case (Cons c cs)
  from Cons.prems(1) obtain r fs' as' where r: "fg_condExpr E snake db c = Inr r" "fg_condExprs E snake db cs = Inr (fs', as')"
      "(fs, as) = (case r of None \<Rightarrow> (fs', as') | Some (f, a) \<Rightarrow> (f # fs', a @ as'))"
    by (auto split: sum.splits)
  have ih: "sq_list A w fs' as' (map (fg_holds E snake db w) (filter (fg_kept E snake db) cs))"
    using Cons.IH[OF r(2)] Cons.prems(2) by simp
  show ?case
  proof (cases r)
    case (Some fa)
    obtain f a where fa: "fa = (f, a)" by fastforce
    have "sq_and A w f a (fg_holds E snake db w c)"
      using r(1) Some fa Cons.prems(2) by (intro sq_cond) auto
    moreover have "fg_kept E snake db c" using r(1) Some by (simp add: fg_kept_def)
    ultimately show ?thesis using ih r(3) Some fa by (simp add: sq_Cons)
  qed (use ih r in \<open>auto simp: fg_kept_def[of E snake db c]\<close>)
qed (auto intro: sq_Nil)

abbreviation fx_truths :: "(filter_cond \<Rightarrow> bool) \<Rightarrow> filter_expr \<Rightarrow> bool list" where
  "fx_truths v e \<equiv> map v (fx_Conditions e) @ map (fx_eval v) (fx_Groups e)"

lemma fx_prune_Type [simp]: "fx_Type (fx_prune p e) = fx_Type e"
  by (cases e) simp

lemma fx_eval_truths: "fx_eval v e = fx_join (fx_Type e) (fx_truths v e)"
  by (cases e) simp

lemma sq_buildExpr:
  "fg_buildExpr E snake db e = Inr (fs, as) \<Longrightarrow>
     fg_covers A E snake db (fx_all e) \<Longrightarrow>
     sq_list A w fs as (fx_truths (fg_holds E snake db w) (fx_prune (fg_kept E snake db) e))"
  "fg_groups E snake db gs = Inr (fs, as) \<Longrightarrow>
     fg_covers A E snake db (concat (map fx_all gs)) \<Longrightarrow>
     sq_list A w fs as (map (fx_eval (fg_holds E snake db w))
       (filter (\<lambda>g. \<not> fx_empty g) (map (fx_prune (fg_kept E snake db)) gs)))"
proof (induction E snake db e and E snake db gs arbitrary: fs as and fs as rule: fg_buildExpr_fg_groups.induct)
  case (1 E snake db t cs gs)
  from "1.prems"(1) obtain cf ca gf ga where
      h: "fg_condExprs E snake db cs = Inr (cf, ca)" "fg_groups E snake db gs = Inr (gf, ga)"
      "fs = cf @ gf" "as = ca @ ga" by (auto split: sum.splits)
  have "sq_list A w cf ca (map (fg_holds E snake db w) (filter (fg_kept E snake db) cs))"
    using sq_condExprs[OF h(1)] "1.prems"(2) by simp
  moreover have "sq_list A w gf ga (map (fx_eval (fg_holds E snake db w))
       (filter (\<lambda>g. \<not> fx_empty g) (map (fx_prune (fg_kept E snake db)) gs)))"
    using "1.IH"[OF h(1) _ h(2)] "1.prems"(2) by simp
  ultimately show ?case using sq_list_append h(3,4) by simp
next
  case (3 E snake db g gs)
  from "3.prems"(1) obtain sf sa gf ga where
      h: "fg_buildExpr E snake db g = Inr (sf, sa)" "fg_groups E snake db gs = Inr (gf, ga)"
      "(fs, as) = (if sf = [] then (gf, ga) else ((''('' @ go_Join sf (fg_sep (fx_Type g)) @ '')'') # gf, sa @ ga))"
    by (auto split: sum.splits)
  let ?v = "fg_holds E snake db w" and ?g = "fx_prune (fg_kept E snake db) g"
  have s: "sq_list A w sf sa (fx_truths ?v ?g)" using "3.IH"(1)[OF h(1)] "3.prems"(2) by simp
  have r: "sq_list A w gf ga (map (fx_eval ?v) (filter (\<lambda>g. \<not> fx_empty g) (map (fx_prune (fg_kept E snake db)) gs)))"
    using "3.IH"(2)[OF h(1) _ h(2)] "3.prems"(2) by simp
  have e: "sf = [] \<longleftrightarrow> fx_empty ?g" using sq_list_empty[OF s] by (auto simp: fx_empty_def)
  show ?case
  proof (cases "sf = []")
    case False
    from sq_list_join[OF s False, of "fx_Type g"]
    have "sq_or A w (go_Join sf (fg_sep (fx_Type g))) sa (fx_eval ?v ?g)"
      by (simp add: fx_eval_truths[of ?v ?g])
    from sq_and1[OF sq_parens[OF this]] show ?thesis using False e h(3) r sq_Cons by auto
  qed (use e h(3) r in simp)
qed (auto intro: sq_Nil)

abbreviation fg_atom_of ::
  "fg_env \<Rightarrow> (string \<Rightarrow> string) \<Rightarrow> gorm_db \<Rightarrow> filter_expr \<Rightarrow> string \<Rightarrow> fq_arg list \<Rightarrow> bool" where
  "fg_atom_of E snake db e q as \<equiv> \<exists>c \<in> set (fx_all e). (q, as) \<in> set (fg_atoms E snake db c)"

lemma sq_build_list:
  assumes "fg_buildExpr E snake db e = Inr (fs, as)"
  shows "sq_list (fg_atom_of E snake db e) w fs as (fx_truths (fg_holds E snake db w) (fx_prune (fg_kept E snake db) e))"
  by (rule sq_buildExpr(1)[OF assms]) (auto simp: fg_covers_def)

lemma sq_build_or:
  assumes "fg_buildExpr E snake db e = Inr (fs, as)" "fs \<noteq> []"
  shows "sq_or (fg_atom_of E snake db e) w (go_Join fs (fg_sep (fx_Type e))) as
    (fx_eval (fg_holds E snake db w) (fx_prune (fg_kept E snake db) e))"
  using sq_list_join[OF sq_build_list[OF assms(1), of w] assms(2), of "fx_Type e"]
  by (simp add: fx_eval_truths[of _ "fx_prune (fg_kept E snake db) e"])

lemma sq_build_empty:
  assumes "fg_buildExpr E snake db e = Inr (fs, as)"
  shows "fs = [] \<longleftrightarrow> fx_empty (fx_prune (fg_kept E snake db) e)"
  using sq_list_empty[OF sq_build_list[OF assms]] by (auto simp: fx_empty_def)

text \<open>
  The WHERE text means the filter. Read with the usual precedences of AND and OR, the text and
  arguments that \<open>buildFilterSelector\<close> adds have, for every assignment of truth values to the single comparisons, the
  truth value of the filter expression without its skipped conditions; when nothing is left no clause is added.
\<close>

theorem fg_where_meaning:
  assumes "fg_buildExpr E snake db e = Inr r"
  shows "if fx_empty (fx_prune (fg_kept E snake db) e) then fg_closure E snake e (Some db) = Some db
    else \<exists>q as. fg_closure E snake e (Some db) = Some (fg_Where q as db) \<and>
      (\<forall>w. sq_or (fg_atom_of E snake db e) w q as
        (fx_eval (fg_holds E snake db w) (fx_prune (fg_kept E snake db) e)))"
proof -
  obtain fs as where r: "r = (fs, as)" by fastforce
  show ?thesis using sq_build_empty[OF assms[unfolded r]] sq_build_or[OF assms[unfolded r]] assms r
    by (auto simp: fg_closure_def)
qed

section \<open>Two ways to the same condition\<close>

definition fg_as_clause :: "fe_op \<Rightarrow> string \<Rightarrow> string \<times> fq_arg list \<Rightarrow> fg_clause" where
  "fg_as_clause op field qa =
     (if op = NEQ then FgNot (field @ '' = ?'') (snd qa)
      else if op = NIN then FgNot (field @ '' IN ?'') (snd qa)
      else FgWhere (fst qa) (snd qa))"

text \<open>
  \<open>Process\<close>, which calls the single operators, and \<open>BuildExpression\<close>, which repeats them for
  nested groups, add the same condition for every operator and dialect, where the value and the values are not both
  given and the two JSON decoders agree; a field that fails the white list gives an error and no condition.
\<close>

theorem fg_Process_BuildExpression:
  assumes "fg_json E = fg_codec E" "v = [] \<or> vs = []"
    and field: "field' = (if jsonExprPattern field then field else snake field)"
  shows "fg_Process E snake op field v vs (Some db) = Some
    (if \<not> isValidFieldExpr field' then fg_AddError (FgInvalidField field') db
     else case fg_BuildExpression E (Some db) op field' v vs of
            None \<Rightarrow> db
          | Some qa \<Rightarrow> db\<lparr>gd_clauses := gd_clauses db @ [fg_as_clause op field' qa]\<rparr>)"
proof (cases "isValidFieldExpr field'")
  case False
  then show ?thesis by (simp add: fg_Process_def field Let_def fg_checked_def)
next
  case True
  note ops = fg_Equal_def fg_NotEqual_def fg_GTE_def fg_GT_def fg_LTE_def fg_LT_def fg_IsNull_def fg_IsNotNull_def
    fg_Contains_def fg_InsensitiveContains_def fg_StartsWith_def fg_InsensitiveStartsWith_def fg_EndsWith_def
    fg_InsensitiveEndsWith_def fg_Exact_def fg_InsensitiveExact_def fg_Regex_def fg_InsensitiveRegex_def fg_Search_def
  note base = fg_Process_def field[symmetric] Let_def fg_checked_def fg_nonempty_def True fg_BuildExpression_def
    fg_requiresValue_def fg_fragment_def fg_as_clause_def fg_Where_def fg_Not_def
  have two: "length js = 2 \<longleftrightarrow> (\<exists>a b. js = [a, b])" for js :: "json list" by (auto simp: length_Suc_conv numeral_2_eq_2)
  have lists: "fg_list E v vs = (if v \<noteq> [] then map_option FQ_Jsons (fg_codec E v) else if vs \<noteq> [] then Some (FQ_Strs vs) else None)"
    using assms(1,2) by (auto simp: fg_list_def fg_parseJSONValues_def split: option.splits)
  show ?thesis
  proof (cases op)
    case BETWEEN
    show ?thesis
    proof (cases "v = []")
      case True
      with BETWEEN show ?thesis by (auto simp: base fg_Range_def fg_pair_def)
    next
      case False
      with assms(2) have "vs = []" by simp
      with False BETWEEN show ?thesis using assms(1)
        by (auto simp: base fg_Range_def fg_pair_def fg_parseJSONValues_def two split: option.splits list.splits)
    qed
  qed (auto simp: base ops lists fg_In_def fg_NotIn_def split: option.splits)
qed

section \<open>Refused and skipped conditions\<close>

lemma fg_condExprs_isl: "isl (fg_condExprs E snake db cs) \<longleftrightarrow> list_ex (\<lambda>c. isl (fg_condExpr E snake db c)) cs"
  by (induction cs) (auto split: sum.splits)

lemma fg_buildExpr_isl:
  "isl (fg_buildExpr E snake db e) \<longleftrightarrow> list_ex (\<lambda>c. isl (fg_condExpr E snake db c)) (fx_all e)"
  "isl (fg_groups E snake db gs) \<longleftrightarrow> list_ex (\<lambda>c. isl (fg_condExpr E snake db c)) (concat (map fx_all gs))"
proof (induction E snake db e and E snake db gs rule: fg_buildExpr_fg_groups.induct)
  case (1 E snake db t cs gs)
  show ?case
  proof (cases "fg_condExprs E snake db cs")
    case (Inr r)
    then show ?thesis using 1[OF Inr, of "fst r" "snd r"] fg_condExprs_isl[of E snake db cs]
      by (auto split: sum.splits prod.splits)
  qed (use fg_condExprs_isl[of E snake db cs] in auto)
next
  case (3 E snake db g gs)
  show ?case
  proof (cases "fg_buildExpr E snake db g")
    case (Inr r)
    then show ?thesis using 3(1) 3(2)[OF Inr, of "fst r" "snd r"] by (auto split: sum.splits prod.splits)
  qed (use 3(1) in auto)
qed auto

text \<open>
  The filter fails closed. When a condition anywhere in the expression is refused, because its
  field is not on the white list or its operator cannot be translated, the session gets an error and no clause at all.
\<close>

theorem fg_fails_closed:
  assumes "c \<in> set (fx_all e)"
    "\<not> isValidFieldExpr (fg_condField snake db c) \<or>
     fc_Op c \<in> {OPERATOR_UNSPECIFIED, LIKE, ILIKE, NOT_LIKE, JSON_CONTAINS, ARRAY_CONTAINS, EXISTS} \<and>
       (\<exists>s. fc_Value c = FV_Value s \<and> s \<noteq> [])"
  shows "\<exists>x. fg_closure E snake e (Some db) = Some (fg_AddError x db)"
proof -
  have "isl (fg_condExpr E snake db c)"
  proof (cases "isValidFieldExpr (fg_condField snake db c)")
    case False
    then show ?thesis by (simp add: fg_condExpr_def Let_def)
  next
    case True
    with assms(2) obtain v where v: "fc_Value c = FV_Value v" "v \<noteq> []"
      "fc_Op c \<in> {OPERATOR_UNSPECIFIED, LIKE, ILIKE, NOT_LIKE, JSON_CONTAINS, ARRAY_CONTAINS, EXISTS}" by blast
    then have "fg_BuildExpression E (Some db) (fc_Op c) f v vs = None" for f vs
      by (auto simp: fg_BuildExpression_def fg_fragment_def)
    then show ?thesis using v(1,2) by (simp add: fg_condExpr_def Let_def fg_isSkippableEmpty_def)
  qed
  then have "isl (fg_buildExpr E snake db e)" using fg_buildExpr_isl(1) assms(1) by (auto simp: list_ex_iff)
  then show ?thesis by (auto simp: fg_closure_def isl_def)
qed

text \<open>
  A comparison whose value is a JSON value is skipped: only the string alternative of the value is read, and
  the path and the date part of a condition are not read at all.
\<close>

lemma fg_json_value_skipped:
  assumes "isValidFieldExpr (fg_condField snake db c)" "fc_Value c = FV_Json j" "fg_requiresValue (fc_Op c)"
    "CHR ''.'' \<notin> set (fc_Field c)"
  shows "fg_condExpr E snake db c = Inr None"
  using assms by (auto simp: fg_condExpr_def fg_BuildExpression_def fg_isSkippableEmpty_def fg_requiresValue_def go_TrimSpace_def)

lemma fg_date_part_ignored: "fg_condExpr E snake db (c\<lparr>fc_DatePart := d, fc_JsonPath := p\<rparr>) = fg_condExpr E snake db c"
proof -
  let ?c = "c\<lparr>fc_DatePart := d, fc_JsonPath := p\<rparr>"
  have sel: "fc_Field ?c = fc_Field c" "fc_Op ?c = fc_Op c" "fc_Value ?c = fc_Value c" "fc_Values ?c = fc_Values c"
    by simp_all
  show ?thesis unfolding fg_condExpr_def fg_condField_def fg_isSkippableEmpty_def sel by (rule refl)
qed

section \<open>Concrete instances\<close>

definition fg_demo_env :: fg_env where
  "fg_demo_env = \<lparr>fg_codec = \<lambda>_. None, fg_json = \<lambda>_. None\<rparr>"

definition fg_demo_db :: gorm_db where
  "fg_demo_db = \<lparr>gd_dialect = ''mysql'', gd_clauses = [], gd_errors = []\<rparr>"

definition fg_demo_cond :: "string \<Rightarrow> fe_op \<Rightarrow> string \<Rightarrow> string list \<Rightarrow> filter_cond" where
  "fg_demo_cond f op v vs = \<lparr>fc_Field = f, fc_Op = op, fc_Value = FV_Value v, fc_Values = vs, fc_DatePart = None, fc_JsonPath = None\<rparr>"

definition fg_demo_expr :: filter_expr where
  "fg_demo_expr = FilterExpr ExprType_AND [fg_demo_cond ''a'' EQ ''1'' []]
     [FilterExpr ExprType_OR [fg_demo_cond ''b'' BETWEEN '''' [''2'', ''3''], fg_demo_cond ''c.d'' EQ ''; DROP'' []] []]"

definition fg_demo_text :: string where
  "fg_demo_text = ''a = ? AND (b >= ? AND b <= ? OR JSON_EXTRACT(c, '' @ [sq] @ ''$.d'' @ [sq] @ '') = ?)''"

lemma fg_demo_run:
  "fg_buildExpr fg_demo_env (\<lambda>s. s) fg_demo_db fg_demo_expr =
     Inr ([''a = ?'', ''(b >= ? AND b <= ? OR JSON_EXTRACT(c, '' @ [sq] @ ''$.d'' @ [sq] @ '') = ?)''],
       [FQ_Str ''1'', FQ_Str ''2'', FQ_Str ''3'', FQ_Str ''; DROP''])"
  by code_simp

lemma fg_demo_closure:
  "fg_closure fg_demo_env (\<lambda>s. s) fg_demo_expr (Some fg_demo_db) =
     Some (fg_Where fg_demo_text [FQ_Str ''1'', FQ_Str ''2'', FQ_Str ''3'', FQ_Str ''; DROP''] fg_demo_db)"
  by code_simp


theorem fg_where_meaning_witness:
  "\<exists>q as. fg_closure fg_demo_env (\<lambda>s. s) fg_demo_expr (Some fg_demo_db) = Some (fg_Where q as fg_demo_db) \<and>
     sq_or (fg_atom_of fg_demo_env (\<lambda>s. s) fg_demo_db fg_demo_expr) (\<lambda>_ _. True) q as
       (fx_eval (fg_holds fg_demo_env (\<lambda>s. s) fg_demo_db (\<lambda>_ _. True))
         (fx_prune (fg_kept fg_demo_env (\<lambda>s. s) fg_demo_db) fg_demo_expr))"
proof -
  have "\<not> fx_empty (fx_prune (fg_kept fg_demo_env (\<lambda>s. s) fg_demo_db) fg_demo_expr)" by code_simp
  then show ?thesis using fg_where_meaning[OF fg_demo_run] by (metis (no_types, lifting))
qed

theorem fg_Process_BuildExpression_witness:
  "fg_Process fg_demo_env (\<lambda>s. s) NEQ ''a'' ''1'' [] (Some fg_demo_db) =
     Some (fg_demo_db\<lparr>gd_clauses := [FgNot ''a = ?'' [FQ_Str ''1'']]\<rparr>)"
proof -
  have v: "isValidFieldExpr ''a''" "\<not> jsonExprPattern ''a''" "go_TrimSpace ''1'' \<noteq> []" by code_simp+
  show ?thesis
    by (subst fg_Process_BuildExpression[where field' = "''a''"])
      (use v in \<open>simp_all add: fg_demo_env_def fg_BuildExpression_def fg_fragment_def fg_as_clause_def fg_demo_db_def\<close>)
qed

theorem fg_fails_closed_witness:
  "\<exists>x. fg_closure fg_demo_env (\<lambda>s. s) (FilterExpr ExprType_AND [fg_demo_cond ''a;b'' EQ ''1'' []] []) (Some fg_demo_db) =
     Some (fg_AddError x fg_demo_db)"
proof -
  have "\<not> isValidFieldExpr (fg_condField (\<lambda>s. s) fg_demo_db (fg_demo_cond ''a;b'' EQ ''1'' []))" by code_simp
  then show ?thesis by (intro fg_fails_closed[of "fg_demo_cond ''a;b'' EQ ''1'' []"]) simp_all
qed

end
