(* ===== verification/Filter_Convert.thy ===== *)
theory Filter_Convert
  imports Filter_Expr Go_Encoding
begin

text \<open>
  \<open>crud/pagination/filter\<close> and \<open>crud/pagination/sorting\<close>: the two query languages that become filter
  expressions, JSON objects (\<open>query_string_converter.go\<close>) and AIP-160 filters (\<open>filter_string_converter.go\<close>),
  their dispatch (\<open>converter.go\<close>), and the order-by strings. Parameters: the JSON decoder, the AIP parsers, the snake-case
  conversion of another module, and the verbs \<open>%v\<close> and \<open>%f\<close>.
\<close>

record qc_env =
  qc_snake :: "string \<Rightarrow> string"
  qc_show :: "json \<Rightarrow> string"
  qc_float :: "float64 \<Rightarrow> string"

section \<open>JSON queries\<close>

datatype fq_error =
  FqJson string | FqBothLogic | FqAndNotArray | FqOrNotArray | FqBadType
| FqUnknownOperator string "string list" | FqTooManySegments "string list" | FqUnknownFilterOp string | FqParse string

abbreviation QueryDelimiter :: string where "QueryDelimiter \<equiv> ''__''"
abbreviation QueryAnd :: string where "QueryAnd \<equiv> ''$and''"
abbreviation QueryOr :: string where "QueryOr \<equiv> ''$or''"

definition qc_splitQueryKey :: "string \<Rightarrow> string list" where
  "qc_splitQueryKey key = go_Split key QueryDelimiter"

definition qc_splitJsonFieldKey :: "string \<Rightarrow> string list" where
  "qc_splitJsonFieldKey key = go_Split key ''.''"

definition qc_isJsonFieldKey :: "string \<Rightarrow> bool" where
  "qc_isJsonFieldKey key = go_Contains key ''.''"

definition qc_hasOperations :: "qc_env \<Rightarrow> string \<Rightarrow> bool" where
  "qc_hasOperations E str = fe_IsValidOperatorString (qc_snake E) (go_ToLower str)"

definition qc_hasDatePart :: "qc_env \<Rightarrow> string \<Rightarrow> bool" where
  "qc_hasDatePart E str = fe_IsValidDatePartString (qc_snake E) (go_ToLower str)"

abbreviation qc_cond0 :: filter_cond where
  "qc_cond0 \<equiv> \<lparr>fc_Field = '''', fc_Op = OPERATOR_UNSPECIFIED, fc_Value = FV_None, fc_Values = [], fc_DatePart = None,
     fc_JsonPath = None\<rparr>"

text \<open>\<open>FilterCondition_Value\<close> of a value, and the field of a condition when its key is a JSON key with one dot.\<close>

definition qc_value :: "qc_env \<Rightarrow> json \<Rightarrow> fe_value" where
  "qc_value E v = FV_Value (fe_AnyToString (qc_show E) v)"

definition qc_field :: "qc_env \<Rightarrow> string \<Rightarrow> (string \<Rightarrow> string) \<Rightarrow> json \<Rightarrow> filter_cond \<Rightarrow> filter_cond" where
  "qc_field E field conv v c =
     (if qc_isJsonFieldKey field
      then case qc_splitJsonFieldKey field of
             [a, b] \<Rightarrow> c\<lparr>fc_Field := a, fc_JsonPath := Some b, fc_Value := FV_Json v\<rparr>
           | _ \<Rightarrow> c\<lparr>fc_Field := conv field, fc_Value := qc_value E v\<rparr>
      else c\<lparr>fc_Field := conv field, fc_Value := qc_value E v\<rparr>)"

text \<open>The condition that \<open>MakeFieldFilter\<close> appends; a key with an empty part gives none.\<close>

definition qc_condition :: "qc_env \<Rightarrow> string list \<Rightarrow> json \<Rightarrow> fq_error + filter_cond option" where
  "qc_condition E keys v = (case keys of
       [] \<Rightarrow> Inr None
     | [field] \<Rightarrow>
         if field = '''' then Inr None
         else Inr (Some (qc_field E field (qc_snake E) v qc_cond0\<lparr>fc_Op := EQ\<rparr>))
     | [field, op] \<Rightarrow>
         if field = '''' \<or> op = '''' then Inr None
         else let operator = fe_StringToOperator (qc_snake E) op
              in if operator = OPERATOR_UNSPECIFIED then Inl (FqUnknownOperator op keys)
                 else Inr (Some ((if qc_isJsonFieldKey field then qc_field E field (qc_snake E) v qc_cond0
                       else case v of
                              JArr vs \<Rightarrow> qc_cond0\<lparr>fc_Field := qc_snake E field, fc_Values := map (fe_AnyToString (qc_show E)) vs\<rparr>
                            | _ \<Rightarrow> qc_cond0\<lparr>fc_Field := qc_snake E field, fc_Value := qc_value E v\<rparr>)\<lparr>fc_Op := operator\<rparr>))
     | [field, op1, op2] \<Rightarrow>
         if field = '''' \<or> op1 = '''' \<or> op2 = '''' then Inr None
         else let c = qc_field E (qc_snake E field) (\<lambda>f. f) v qc_cond0;
                  c = (if qc_hasDatePart E op1 then c\<lparr>fc_DatePart := fe_StringToDatePart (qc_snake E) op1\<rparr> else c)
              in if qc_hasOperations E op2 then Inr (Some (c\<lparr>fc_Op := fe_StringToOperator (qc_snake E) op2\<rparr>))
                 else Inl (FqUnknownOperator op2 keys)
     | field # _ \<Rightarrow> if field = '''' then Inr None else Inl (FqTooManySegments keys))"

definition fx_addCondition :: "filter_cond \<Rightarrow> filter_expr \<Rightarrow> filter_expr" where
  "fx_addCondition c e = FilterExpr (fx_Type e) (fx_Conditions e @ [c]) (fx_Groups e)"

definition fx_addGroup :: "filter_expr \<Rightarrow> filter_expr \<Rightarrow> filter_expr" where
  "fx_addGroup g e = FilterExpr (fx_Type e) (fx_Conditions e) (fx_Groups e @ [g])"

definition qc_MakeFieldFilter :: "qc_env \<Rightarrow> filter_expr \<Rightarrow> string list \<Rightarrow> json \<Rightarrow> fq_error + filter_expr" where
  "qc_MakeFieldFilter E expr keys v =
     (case qc_condition E keys v of
        Inl e \<Rightarrow> Inl e | Inr None \<Rightarrow> Inr expr | Inr (Some c) \<Rightarrow> Inr (fx_addCondition c expr))"

fun qc_parseBaseCondition :: "qc_env \<Rightarrow> filter_expr \<Rightarrow> (string \<times> json) list \<Rightarrow> fq_error + filter_expr" where
  "qc_parseBaseCondition E node [] = Inr node"
| "qc_parseBaseCondition E node ((k, v) # m) =
     (case qc_MakeFieldFilter E node (qc_splitQueryKey k) v of
        Inl e \<Rightarrow> Inl e | Inr node \<Rightarrow> qc_parseBaseCondition E node m)"

lemma map_of_json_size: "map_of m k = Some v \<Longrightarrow> size v < size (JObj m)"
  by (induction m) (auto split: if_splits)

text \<open>
  \<open>parseRawQuery\<close>; \<open>qc_items\<close> is its loop over a top-level array, which parses the elements of an inner array in
  place, and \<open>qc_list\<close> the loops over the lists of the logical nodes.
\<close>

function (sequential)
  qc_parseRawQuery :: "qc_env \<Rightarrow> filter_expr \<Rightarrow> json \<Rightarrow> fq_error + filter_expr"
and qc_items :: "qc_env \<Rightarrow> filter_expr \<Rightarrow> json list \<Rightarrow> fq_error + filter_expr"
and qc_list :: "qc_env \<Rightarrow> filter_expr \<Rightarrow> json list \<Rightarrow> fq_error + filter_expr" where
  "qc_parseRawQuery E node (JArr vs) =
     (case qc_items E (FilterExpr ExprType_AND [] []) vs of Inl e \<Rightarrow> Inl e | Inr g \<Rightarrow> Inr (fx_addGroup g node))"
| "qc_parseRawQuery E node (JObj m) =
     (case (map_of m QueryAnd, map_of m QueryOr) of
        (Some _, Some _) \<Rightarrow> Inl FqBothLogic
      | (Some (JArr vs), None) \<Rightarrow>
          (case qc_list E (FilterExpr ExprType_AND [] []) vs of Inl e \<Rightarrow> Inl e | Inr g \<Rightarrow> Inr (fx_addGroup g node))
      | (Some _, None) \<Rightarrow> Inl FqAndNotArray
      | (None, Some (JArr vs)) \<Rightarrow>
          (case qc_list E (FilterExpr ExprType_OR [] []) vs of Inl e \<Rightarrow> Inl e | Inr g \<Rightarrow> Inr (fx_addGroup g node))
      | (None, Some _) \<Rightarrow> Inl FqOrNotArray
      | (None, None) \<Rightarrow> qc_parseBaseCondition E node m)"
| "qc_parseRawQuery E node _ = Inl FqBadType"
| "qc_items E g [] = Inr g"
| "qc_items E g (JArr sub # vs) = (case qc_list E g sub of Inl e \<Rightarrow> Inl e | Inr g \<Rightarrow> qc_items E g vs)"
| "qc_items E g (v # vs) = (case qc_parseRawQuery E g v of Inl e \<Rightarrow> Inl e | Inr g \<Rightarrow> qc_items E g vs)"
| "qc_list E g [] = Inr g"
| "qc_list E g (v # vs) = (case qc_parseRawQuery E g v of Inl e \<Rightarrow> Inl e | Inr g \<Rightarrow> qc_list E g vs)"
  by pat_completeness auto
termination
  by (relation "measure (\<lambda>x. case x of Inl (E, n, v) \<Rightarrow> size v | Inr (Inl (E, g, vs)) \<Rightarrow> size_list size vs
        | Inr (Inr (E, g, vs)) \<Rightarrow> size_list size vs)")
    (auto dest!: map_of_json_size[OF sym])

text \<open>\<open>ParseQuery\<close> on what the JSON decoder returns.\<close>

definition qc_ParseQuery :: "qc_env \<Rightarrow> (string \<Rightarrow> string + json) \<Rightarrow> string \<Rightarrow> fq_error + filter_expr" where
  "qc_ParseQuery E unmarshal queryJSON =
     (case unmarshal queryJSON of
        Inl err \<Rightarrow> Inl (FqJson err)
      | Inr raw \<Rightarrow> qc_parseRawQuery E (FilterExpr ExprType_AND [] []) raw)"

text \<open>\<open>QueryStringToMap\<close>; the two decoders are the codec's, into an object and into an array of objects.\<close>

definition qc_QueryStringToMap ::
  "(string \<Rightarrow> string + (string \<times> json) list) \<Rightarrow> (string \<Rightarrow> string + (string \<times> json) list list) \<Rightarrow> string \<Rightarrow>
   (string \<times> string) + (string \<times> json) list list" where
  "qc_QueryStringToMap obj arr s =
     (if s = '''' then Inr []
      else case obj s of
             Inr m \<Rightarrow> Inr [m]
           | Inl e1 \<Rightarrow> (case arr s of Inr ms \<Rightarrow> Inr ms | Inl e2 \<Rightarrow> Inl (e1, e2)))"

section \<open>AIP filters\<close>

datatype aip_const = CString string | CBool bool | CInt64 int | CUint64 nat | CDouble float64 | COther

text \<open>The parsed expression of the AIP library; other kinds of nodes are \<open>AOther\<close>.\<close>

datatype aip = AConst aip_const | AIdent string | ACall string "aip list" | ASelect aip string | AOther

definition aw_ConstantString :: "qc_env \<Rightarrow> aip_const option \<Rightarrow> string" where
  "aw_ConstantString E c = (case c of
       None \<Rightarrow> ''''
     | Some (CString s) \<Rightarrow> s
     | Some (CBool b) \<Rightarrow> if b then ''true'' else ''false''
     | Some (CInt64 i) \<Rightarrow> go_itoa i
     | Some (CUint64 n) \<Rightarrow> go_itoa (int n)
     | Some (CDouble d) \<Rightarrow> qc_float E d
     | Some COther \<Rightarrow> '''')"

definition aw_mapOperator :: "string \<Rightarrow> fe_op" where
  "aw_mapOperator op =
     (if op \<in> {''='', ''==''} then EQ
      else if op \<in> {''!='', ''not''} then NEQ
      else if op = ''<'' then LT
      else if op = ''<='' then LTE
      else if op = ''>'' then GT
      else if op = ''>='' then GTE
      else if op \<in> {''isnull'', ''isNull'', ''is_null''} then IS_NULL
      else if op \<in> {''isnotnull'', ''isNotNull'', ''is_not_null''} then IS_NOT_NULL
      else if op = ''contains'' then CONTAINS
      else if op \<in> {''startswith'', ''startsWith'', ''starts_with'', '':''} then STARTS_WITH
      else if op \<in> {''endswith'', ''endsWith'', ''ends_with''} then ENDS_WITH
      else if op = ''in'' then IN
      else if op \<in> {''notin'', ''notIn''} then NIN
      else OPERATOR_UNSPECIFIED)"

definition aw_invertOperator :: "fe_op \<Rightarrow> fe_op" where
  "aw_invertOperator op = (case op of
       EQ \<Rightarrow> NEQ | NEQ \<Rightarrow> EQ | IN \<Rightarrow> NIN | NIN \<Rightarrow> IN | IS_NULL \<Rightarrow> IS_NOT_NULL | IS_NOT_NULL \<Rightarrow> IS_NULL | _ \<Rightarrow> NEQ)"

definition aw_invertType :: "fe_type \<Rightarrow> fe_type" where
  "aw_invertType t = (if t = ExprType_AND then ExprType_OR else if t = ExprType_OR then ExprType_AND else t)"

primrec aw_invertFilterExpr :: "filter_expr \<Rightarrow> filter_expr" where
  "aw_invertFilterExpr (FilterExpr t cs gs) =
     FilterExpr (aw_invertType t) (map (\<lambda>c. c\<lparr>fc_Op := aw_invertOperator (fc_Op c)\<rparr>) cs) (map aw_invertFilterExpr gs)"

abbreviation fx_new :: filter_expr where
  "fx_new \<equiv> FilterExpr ExprType_UNSPECIFIED [] []"

definition fx_append :: "filter_expr \<Rightarrow> filter_expr \<Rightarrow> filter_expr" where
  "fx_append sub out =
     FilterExpr (fx_Type out) (fx_Conditions out @ fx_Conditions sub) (fx_Groups out @ fx_Groups sub)"

definition fx_setType :: "fe_type \<Rightarrow> filter_expr \<Rightarrow> filter_expr" where
  "fx_setType t e = FilterExpr t (fx_Conditions e) (fx_Groups e)"

definition fx_nothing :: "filter_expr \<Rightarrow> bool" where
  "fx_nothing e \<longleftrightarrow> fx_Conditions e = [] \<and> fx_Groups e = []"

fun aw_ident :: "aip \<Rightarrow> filter_cond \<Rightarrow> filter_cond" where
  "aw_ident (AIdent n) c = c\<lparr>fc_Field := n\<rparr>"
| "aw_ident _ c = c"

fun aw_inValue :: "qc_env \<Rightarrow> aip \<Rightarrow> filter_cond \<Rightarrow> filter_cond" where
  "aw_inValue E (AIdent n) c = c\<lparr>fc_Field := n\<rparr>"
| "aw_inValue E (AConst k) c = c\<lparr>fc_Values := fc_Values c @ [aw_ConstantString E (Some k)]\<rparr>"
| "aw_inValue E _ c = c"

fun aw_value :: "qc_env \<Rightarrow> aip \<Rightarrow> filter_cond \<Rightarrow> filter_cond" where
  "aw_value E (AConst k) c = c\<lparr>fc_Value := FV_Value (aw_ConstantString E (Some k))\<rparr>"
| "aw_value E _ c = c"

text \<open>The last part of the branch for comparisons: the first two arguments are field and value.\<close>

definition aw_compare :: "qc_env \<Rightarrow> aip list \<Rightarrow> filter_cond \<Rightarrow> filter_expr \<Rightarrow> filter_expr" where
  "aw_compare E args c out =
     fx_addCondition (case args of a # b # _ \<Rightarrow> aw_value E b (aw_ident a c) | _ \<Rightarrow> c) out"

text \<open>\<open>walk\<close> on the expression built so far and the first error.\<close>

fun aw_walk :: "qc_env \<Rightarrow> filter_expr \<times> fq_error option \<Rightarrow> aip \<Rightarrow> filter_expr \<times> fq_error option"
and aw_args :: "qc_env \<Rightarrow> filter_expr \<times> fq_error option \<Rightarrow> aip list \<Rightarrow> filter_expr \<times> fq_error option" where
  "aw_walk E (out, err) (AConst k) =
     (fx_addCondition (qc_cond0\<lparr>fc_Value := FV_Value (aw_ConstantString E (Some k))\<rparr>) out, err)"
| "aw_walk E (out, err) (AIdent n) = (fx_addCondition (qc_cond0\<lparr>fc_Field := n\<rparr>) out, err)"
| "aw_walk E (out, err) (ACall f args) =
     (let op = go_ToLower f
      in if op = ''and'' \<or> op = ''or''
         then aw_args E (fx_setType (if op = ''and'' then ExprType_AND else ExprType_OR) out, err) args
         else
           let mapped = aw_mapOperator op;
               err = (if mapped = OPERATOR_UNSPECIFIED \<and> err = None then Some (FqUnknownFilterOp op) else err);
               c = qc_cond0\<lparr>fc_Op := mapped\<rparr>
           in if op = ''isnull'' \<or> op = ''isnotnull''
              then (fx_addCondition (case args of a # _ \<Rightarrow> aw_ident a c | [] \<Rightarrow> c) out, err)
              else if (op = ''in'' \<or> op = ''notin'') \<and> length args \<ge> 2
              then (fx_addCondition (fold (aw_inValue E) args (aw_ident (hd args) c)) out, err)
              else if op = ''not''
              then (case args of
                      [inner] \<Rightarrow>
                        let (sub, err) = aw_walk E (FilterExpr ExprType_AND [] [], err) inner;
                            (sub, err) = (if fx_nothing sub \<and> (case inner of ACall _ _ \<Rightarrow> True | _ \<Rightarrow> False)
                                          then aw_walk E (fx_new, err) inner else (sub, err))
                        in if fx_nothing sub then (out, err)
                           else let sub = aw_invertFilterExpr sub
                                in (if fx_nothing out then fx_append sub (fx_setType (fx_Type sub) out)
                                    else fx_addGroup sub out, err)
                    | _ \<Rightarrow> (aw_compare E args c out, err))
              else (aw_compare E args c out, err))"
| "aw_walk E (out, err) (ASelect operand field) =
     (case operand of
        AIdent n \<Rightarrow> (fx_addCondition (qc_cond0\<lparr>fc_Field := n @ ''.'' @ field\<rparr>) out, err)
      | _ \<Rightarrow> (out, err))"
| "aw_walk E (out, err) AOther = (out, err)"
| "aw_args E (out, err) [] = (out, err)"
| "aw_args E (out, err) (a # args) =
     (let (sub, err) = aw_walk E (fx_new, err) a in aw_args E (fx_append sub out, err) args)"

definition aw_Convert :: "qc_env \<Rightarrow> (string \<Rightarrow> string + aip option) \<Rightarrow> string \<Rightarrow> fq_error + filter_expr option" where
  "aw_Convert E parse s =
     (if s = '''' then Inr None
      else case parse s of
             Inl e \<Rightarrow> Inl (FqParse e)
           | Inr None \<Rightarrow> Inr (Some (FilterExpr ExprType_AND [] []))
           | Inr (Some a) \<Rightarrow>
               (case aw_walk E (FilterExpr ExprType_AND [] [], None) a of
                  (out, None) \<Rightarrow> Inr (Some out)
                | (_, Some err) \<Rightarrow> Inl err))"

section \<open>Dispatch\<close>

record fr_request =
  fr_FilterExpr :: "filter_expr option"
  fr_Query :: string
  fr_Filter :: string

definition fr_convertFilterRequest ::
  "qc_env \<Rightarrow> (string \<Rightarrow> string + json) \<Rightarrow> (string \<Rightarrow> string + aip option) \<Rightarrow> fr_request option \<Rightarrow>
   fq_error + filter_expr option" where
  "fr_convertFilterRequest E unmarshal parse req =
     (case req of
        None \<Rightarrow> Inr None
      | Some r \<Rightarrow>
          if fr_FilterExpr r \<noteq> None then Inr (fr_FilterExpr r)
          else if fr_Query r \<noteq> '''' then map_sum (\<lambda>e. e) Some (qc_ParseQuery E unmarshal (fr_Query r))
          else if fr_Filter r \<noteq> '''' then aw_Convert E parse (fr_Filter r)
          else Inr None)"

section \<open>Order by\<close>

datatype so_direction = Sorting_ASC | Sorting_DESC

type_synonym so_sorting = "string \<times> so_direction"

fun so_items :: "(string \<Rightarrow> string) \<Rightarrow> string list \<Rightarrow> so_sorting list" where
  "so_items snake [] = []"
| "so_items snake (item # items) =
     (let item = go_TrimSpace item
      in if item = '''' then so_items snake items
         else if prefix ''-'' item
         then (if tl item = '''' then so_items snake items
               else (snake (go_TrimSpace (tl item)), Sorting_DESC) # so_items snake items)
         else (snake (go_TrimSpace item), Sorting_ASC) # so_items snake items)"

definition so_ParseJsonString :: "(string \<Rightarrow> string) \<Rightarrow> (string \<Rightarrow> string + string list) \<Rightarrow> string \<Rightarrow> string + so_sorting list" where
  "so_ParseJsonString snake unmarshal s = (if s = '''' then Inr [] else map_sum (\<lambda>e. e) (so_items snake) (unmarshal s))"

definition so_ParseAIPString :: "(string \<Rightarrow> string + (string \<times> bool) list) \<Rightarrow> string \<Rightarrow> string + so_sorting list" where
  "so_ParseAIPString parse s =
     (if s = '''' then Inr []
      else map_sum (\<lambda>e. e) (map (\<lambda>(path, desc). (path, if desc then Sorting_DESC else Sorting_ASC))) (parse s))"

definition so_Convert ::
  "(string \<Rightarrow> string) \<Rightarrow> (string \<Rightarrow> string + string list) \<Rightarrow> (string \<Rightarrow> string + (string \<times> bool) list) \<Rightarrow> string \<Rightarrow>
   string + so_sorting list" where
  "so_Convert snake unmarshal parse orderBy =
     (if orderBy = '''' then Inr []
      else if prefix ''['' orderBy \<and> suffix '']'' orderBy then so_ParseJsonString snake unmarshal orderBy
      else so_ParseAIPString parse orderBy)"

section \<open>The meaning of a JSON query\<close>

text \<open>
  A query as a predicate, given the truth of single conditions: arrays and \<open>$and\<close> need all elements, \<open>$or\<close>
  one, and a plain object all its conditions. \<open>qm_object\<close> says how the conditions of a plain object are joined.
\<close>

definition qm_conditions :: "qc_env \<Rightarrow> (string \<times> json) list \<Rightarrow> filter_cond list" where
  "qm_conditions E m = concat (map (\<lambda>(k, v). case qc_condition E (qc_splitQueryKey k) v of Inr (Some c) \<Rightarrow> [c] | _ \<Rightarrow> []) m)"

function (sequential)
  qm_eval :: "(fe_type \<Rightarrow> fe_type) \<Rightarrow> qc_env \<Rightarrow> (filter_cond \<Rightarrow> bool) \<Rightarrow> fe_type \<Rightarrow> json \<Rightarrow> bool"
and qm_items :: "(fe_type \<Rightarrow> fe_type) \<Rightarrow> qc_env \<Rightarrow> (filter_cond \<Rightarrow> bool) \<Rightarrow> json list \<Rightarrow> bool list"
and qm_list :: "(fe_type \<Rightarrow> fe_type) \<Rightarrow> qc_env \<Rightarrow> (filter_cond \<Rightarrow> bool) \<Rightarrow> fe_type \<Rightarrow> json list \<Rightarrow> bool list" where
  "qm_eval ob E v t (JArr vs) = fx_join ExprType_AND (qm_items ob E v vs)"
| "qm_eval ob E v t (JObj m) =
     (case (map_of m QueryAnd, map_of m QueryOr) of
        (Some (JArr vs), None) \<Rightarrow> fx_join ExprType_AND (qm_list ob E v ExprType_AND vs)
      | (None, Some (JArr vs)) \<Rightarrow> fx_join ExprType_OR (qm_list ob E v ExprType_OR vs)
      | _ \<Rightarrow> fx_join (ob t) (map v (qm_conditions E m)))"
| "qm_eval ob E v t _ = True"
| "qm_items ob E v [] = []"
| "qm_items ob E v (JArr sub # vs) = qm_list ob E v ExprType_AND sub @ qm_items ob E v vs"
| "qm_items ob E v (w # vs) = qm_eval ob E v ExprType_AND w # qm_items ob E v vs"
| "qm_list ob E v t [] = []"
| "qm_list ob E v t (w # vs) = qm_eval ob E v t w # qm_list ob E v t vs"
  by pat_completeness auto
termination
  by (relation "measure (\<lambda>x. case x of Inl (b, E, v, t, w) \<Rightarrow> size w | Inr (Inl (b, E, v, vs)) \<Rightarrow> size_list size vs
        | Inr (Inr (b, E, v, t, vs)) \<Rightarrow> size_list size vs)")
    (auto dest!: map_of_json_size[OF sym])

lemma fx_join_append: "fx_join t (bs @ cs) = fx_join t [fx_join t bs, fx_join t cs]"
  by (auto simp: fx_join_def)

lemma fx_eval_addCondition: "fx_eval v (fx_addCondition c e) = fx_join (fx_Type e) [fx_eval v e, v c]"
  by (cases e) (auto simp: fx_addCondition_def fx_join_def)

lemma fx_eval_addGroup: "fx_eval v (fx_addGroup g e) = fx_join (fx_Type e) [fx_eval v e, fx_eval v g]"
  by (cases e) (auto simp: fx_addGroup_def fx_join_def)

lemma fx_Type_add [simp]: "fx_Type (fx_addCondition c e) = fx_Type e" "fx_Type (fx_addGroup g e) = fx_Type e"
  by (simp_all add: fx_addCondition_def fx_addGroup_def)

lemma fx_join_assoc: "fx_join t [fx_join t [a, b], c] = fx_join t [a, fx_join t [b, c]]"
  by (auto simp: fx_join_def)

lemma fx_join_Cons: "fx_join t (b # bs) = fx_join t [b, fx_join t bs]"
  by (auto simp: fx_join_def)

lemma fx_join_single [simp]: "fx_join t [b] = b"
  by (simp add: fx_join_def)

lemma qc_base_eval:
  "qc_parseBaseCondition E node m = Inr e \<Longrightarrow>
   fx_Type e = fx_Type node \<and> fx_eval v e = fx_join (fx_Type node) [fx_eval v node, fx_join (fx_Type node) (map v (qm_conditions E m))]"
proof (induction E node m rule: qc_parseBaseCondition.induct)
  case (1 E node)
  then show ?case by (auto simp: qm_conditions_def fx_join_def)
next
  case (2 E node k w m)
  from "2.prems" obtain node' where n: "qc_MakeFieldFilter E node (qc_splitQueryKey k) w = Inr node'"
      "qc_parseBaseCondition E node' m = Inr e" by (auto split: sum.splits)
  note ih = "2.IH"[OF n]
  consider "node' = node" "qc_condition E (qc_splitQueryKey k) w = Inr None"
    | c where "node' = fx_addCondition c node" "qc_condition E (qc_splitQueryKey k) w = Inr (Some c)"
    using n(1) by (auto simp: qc_MakeFieldFilter_def split: sum.splits option.splits)
  then show ?case
  proof cases
    case 1
    then show ?thesis using ih by (simp add: qm_conditions_def)
  next
    case 2
    then show ?thesis using ih
      by (auto simp: qm_conditions_def fx_eval_addCondition fx_join_def)
  qed
qed

text \<open>The exact meaning: a plain object joins its conditions like the group it stands in.\<close>

lemma qc_raw_eval:
  "qc_parseRawQuery E node raw = Inr e \<Longrightarrow> fx_Type e = fx_Type node \<and>
     fx_eval v e = fx_join (fx_Type node) [fx_eval v node, qm_eval (\<lambda>t. t) E v (fx_Type node) raw]"
  "qc_items E g vs = Inr e \<Longrightarrow> fx_Type g = ExprType_AND \<Longrightarrow> fx_Type e = ExprType_AND \<and>
     fx_eval v e = fx_join ExprType_AND [fx_eval v g, fx_join ExprType_AND (qm_items (\<lambda>t. t) E v vs)]"
  "qc_list E g vs = Inr e \<Longrightarrow> fx_Type e = fx_Type g \<and>
     fx_eval v e = fx_join (fx_Type g) [fx_eval v g, fx_join (fx_Type g) (qm_list (\<lambda>t. t) E v (fx_Type g) vs)]"
proof (induction E node raw and E g vs and E g vs arbitrary: e and e and e rule: qc_parseRawQuery_qc_items_qc_list.induct)
  case (2 E node m)
  show ?case
  proof (cases "map_of m QueryAnd")
    case None
    show ?thesis
    proof (cases "map_of m QueryOr")
      case None2: None
      then show ?thesis using "2.prems" None qc_base_eval[of E node m e v] by simp
    next
      case (Some j)
      then show ?thesis using 2 None by (cases j) (auto simp: fx_eval_addGroup fx_join_def split: sum.splits)
    qed
  next
    case (Some j)
    then show ?thesis using 2 by (cases j) (auto simp: fx_eval_addGroup fx_join_def split: sum.splits option.splits)
  qed
qed (auto simp: fx_eval_addGroup fx_join_def split: sum.splits)

text \<open>Every plain object that stands directly in an \<open>$or\<close> has exactly one condition.\<close>

lemma json_size_mem: "w \<in> set vs \<Longrightarrow> size w < Suc (size_list size vs)"
  by (induction vs) auto

function (sequential) qm_fine :: "qc_env \<Rightarrow> fe_type \<Rightarrow> json \<Rightarrow> bool" where
  "qm_fine E t (JArr vs) = (\<forall>w \<in> set vs. qm_fine E ExprType_AND w)"
| "qm_fine E t (JObj m) =
     (case (map_of m QueryAnd, map_of m QueryOr) of
        (Some (JArr vs), None) \<Rightarrow> \<forall>w \<in> set vs. qm_fine E ExprType_AND w
      | (None, Some (JArr vs)) \<Rightarrow> \<forall>w \<in> set vs. qm_fine E ExprType_OR w
      | _ \<Rightarrow> t \<noteq> ExprType_OR \<or> length (qm_conditions E m) = 1)"
| "qm_fine E t _ = True"
  by pat_completeness auto
termination
  by (relation "measure (\<lambda>(E, t, w). size w)") (auto dest!: map_of_json_size[OF sym] json_size_mem)

lemma qm_fine_eval:
  "t \<noteq> ExprType_UNSPECIFIED \<Longrightarrow> qm_fine E t raw \<Longrightarrow> qm_eval (\<lambda>t. t) E v t raw = qm_eval (\<lambda>_. ExprType_AND) E v t raw"
  "(\<forall>w \<in> set vs. qm_fine E ExprType_AND w) \<Longrightarrow> qm_items (\<lambda>t. t) E v vs = qm_items (\<lambda>_. ExprType_AND) E v vs"
  "t \<noteq> ExprType_UNSPECIFIED \<Longrightarrow> (\<forall>w \<in> set us. qm_fine E t w) \<Longrightarrow>
     qm_list (\<lambda>t. t) E v t us = qm_list (\<lambda>_. ExprType_AND) E v t us"
proof (induction "\<lambda>t :: fe_type. t" E v t raw and "\<lambda>t :: fe_type. t" E v vs and "\<lambda>t :: fe_type. t" E v t us
    rule: qm_eval_qm_items_qm_list.induct)
  case (2 E v t m)
  have one: "fx_join t (map v (qm_conditions E m)) = fx_join ExprType_AND (map v (qm_conditions E m))"
    if "t \<noteq> ExprType_OR \<or> length (qm_conditions E m) = 1"
    using that by (auto simp: fx_join_def length_Suc_conv)
  show ?case
  proof (cases "map_of m QueryAnd")
    case None
    show ?thesis
    proof (cases "map_of m QueryOr")
      case None2: None
      then show ?thesis using "2.prems" None one by simp
    next
      case (Some j)
      then show ?thesis using 2 None one by (cases j) auto
    qed
  next
    case (Some j)
    then show ?thesis using 2 one by (cases j) (auto split: option.splits)
  qed
qed auto

lemma qc_parse_eval:
  assumes "unmarshal q = Inr raw" "qc_ParseQuery E unmarshal q = Inr e"
  shows "fx_eval v e = qm_eval (\<lambda>t. t) E v ExprType_AND raw"
proof -
  have "qc_parseRawQuery E (FilterExpr ExprType_AND [] []) raw = Inr e" using assms by (simp add: qc_ParseQuery_def)
  from qc_raw_eval(1)[OF this, of v] show ?thesis by (simp add: fx_join_def)
qed

text \<open>
  The filter that \<open>ParseQuery\<close> builds means the query: arrays and \<open>$and\<close> need all their elements, \<open>$or\<close>
  one of them, and an object all its conditions, for every truth of the single conditions, as long as each object that
  stands directly in an \<open>$or\<close> has one condition.
\<close>

theorem qc_ParseQuery_meaning:
  assumes "unmarshal q = Inr raw" "qc_ParseQuery E unmarshal q = Inr e" "qm_fine E ExprType_AND raw"
  shows "fx_eval v e = qm_eval (\<lambda>_. ExprType_AND) E v ExprType_AND raw"
  using qc_parse_eval[OF assms(1,2)] qm_fine_eval(1)[OF _ assms(3)] by simp

definition qc_demo_env :: qc_env where
  "qc_demo_env = \<lparr>qc_snake = \<lambda>s. s, qc_show = \<lambda>_. '''', qc_float = \<lambda>_. ''''\<rparr>"

definition qc_demo_or :: json where
  "qc_demo_or = JObj [(QueryOr, JArr [JObj [(''a'', JStr ''1''), (''b'', JStr ''2'')]])]"

definition qc_demo_only_a :: "filter_cond \<Rightarrow> bool" where
  "qc_demo_only_a c \<longleftrightarrow> fc_Field c = ''a''"

text \<open>
  An object with several conditions inside an \<open>$or\<close> is not read as their conjunction: for the query
  \<open>{"$or": [{"a": 1, "b": 2}]}\<close> the filter accepts a row that satisfies only one of the two.
\<close>

theorem qc_or_object_loses_and:
  "\<exists>e. qc_parseRawQuery qc_demo_env (FilterExpr ExprType_AND [] []) qc_demo_or = Inr e \<and> fx_eval qc_demo_only_a e \<and>
     \<not> qm_eval (\<lambda>_. ExprType_AND) qc_demo_env qc_demo_only_a ExprType_AND qc_demo_or"
proof -
  have "fx_eval qc_demo_only_a (projr (qc_parseRawQuery qc_demo_env (FilterExpr ExprType_AND [] []) qc_demo_or)) \<and>
      \<not> isl (qc_parseRawQuery qc_demo_env (FilterExpr ExprType_AND [] []) qc_demo_or) \<and>
      \<not> qm_eval (\<lambda>_. ExprType_AND) qc_demo_env qc_demo_only_a ExprType_AND qc_demo_or" by code_simp
  then show ?thesis by (metis sum.collapse(2))
qed

text \<open>
  The other keys of an object with \<open>$and\<close> or \<open>$or\<close> are ignored, so a condition next to it is lost; and a key
  whose field or operator is empty gives no condition.
\<close>

lemma qc_siblings_ignored:
  assumes "map_of m QueryAnd = map_of m' QueryAnd" "map_of m QueryOr = map_of m' QueryOr"
    "map_of m QueryAnd \<noteq> None \<or> map_of m QueryOr \<noteq> None"
  shows "qc_parseRawQuery E node (JObj m) = qc_parseRawQuery E node (JObj m')"
  using assms by (auto split: option.splits json.splits)

lemma qc_empty_parts_dropped: "qc_condition E ['''', op] v = Inr None" "qc_condition E [field, ''''] v = Inr None"
  by (simp_all add: qc_condition_def)

definition qc_demo_query :: json where
  "qc_demo_query = JArr [JObj [(''a'', JStr ''1'')], JObj [(QueryOr, JArr [JObj [(''b__gt'', JStr ''2'')], JObj [(''c'', JStr ''3'')]])]]"

theorem qc_ParseQuery_meaning_witness:
  "\<exists>e. qc_ParseQuery qc_demo_env (\<lambda>_. Inr qc_demo_query) ''q'' = Inr e \<and> \<not> fx_eval qc_demo_only_a e"
proof -
  have "\<not> isl (qc_ParseQuery qc_demo_env (\<lambda>_. Inr qc_demo_query) ''q'')" by code_simp
  then obtain e where e: "qc_ParseQuery qc_demo_env (\<lambda>_. Inr qc_demo_query) ''q'' = Inr e" by (metis sum.collapse(2))
  have "qm_fine qc_demo_env ExprType_AND qc_demo_query" by code_simp
  from qc_ParseQuery_meaning[OF refl e this, of qc_demo_only_a]
  have "fx_eval qc_demo_only_a e = qm_eval (\<lambda>_. ExprType_AND) qc_demo_env qc_demo_only_a ExprType_AND qc_demo_query" .
  moreover have "\<not> qm_eval (\<lambda>_. ExprType_AND) qc_demo_env qc_demo_only_a ExprType_AND qc_demo_query" by code_simp
  ultimately show ?thesis using e by blast
qed

section \<open>The meaning of an AIP filter\<close>

text \<open>Filters of comparisons, AND and OR, with their comparisons from left to right, and their meaning.\<close>

definition aw_cmp :: "string \<Rightarrow> bool" where
  "aw_cmp f \<longleftrightarrow> go_ToLower f \<in> {''='', ''!='', ''<'', ''<='', ''>'', ''>='', '':''}"

definition aw_junction :: "string \<Rightarrow> bool" where
  "aw_junction f \<longleftrightarrow> go_ToLower f = ''and'' \<or> go_ToLower f = ''or''"

definition aw_type :: "string \<Rightarrow> fe_type" where
  "aw_type f = (if go_ToLower f = ''and'' then ExprType_AND else ExprType_OR)"

definition aw_leafcond :: "qc_env \<Rightarrow> string \<Rightarrow> string \<Rightarrow> aip_const \<Rightarrow> filter_cond" where
  "aw_leafcond E f n k =
     qc_cond0\<lparr>fc_Op := aw_mapOperator (go_ToLower f), fc_Field := n, fc_Value := FV_Value (aw_ConstantString E (Some k))\<rparr>"

inductive aw_bool :: "qc_env \<Rightarrow> aip \<Rightarrow> filter_cond list \<Rightarrow> bool" for E where
  leaf: "aw_cmp f \<Longrightarrow> aw_bool E (ACall f [AIdent n, AConst k]) [aw_leafcond E f n k]"
| junction: "aw_junction f \<Longrightarrow> list_all2 (aw_bool E) args css \<Longrightarrow> aw_bool E (ACall f args) (concat css)"

fun aw_meaning :: "qc_env \<Rightarrow> (filter_cond \<Rightarrow> bool) \<Rightarrow> aip \<Rightarrow> bool" where
  "aw_meaning E v (ACall f args) =
     (if aw_junction f then fx_join (aw_type f) (map (aw_meaning E v) args)
      else case args of [AIdent n, AConst k] \<Rightarrow> v (aw_leafcond E f n k) | _ \<Rightarrow> True)"
| "aw_meaning E v _ = True"

text \<open>All the connectives are the given one.\<close>

fun aw_uniform :: "fe_type \<Rightarrow> aip \<Rightarrow> bool" where
  "aw_uniform t (ACall f args) \<longleftrightarrow> (aw_junction f \<longrightarrow> aw_type f = t \<and> list_all (aw_uniform t) args)"
| "aw_uniform t _ = True"

lemma aw_walk_leaf:
  assumes "aw_cmp f"
  shows "aw_walk E (out, err) (ACall f [AIdent n, AConst k]) = (fx_addCondition (aw_leafcond E f n k) out, err)"
proof -
  have "aw_mapOperator (go_ToLower f) \<noteq> OPERATOR_UNSPECIFIED" "go_ToLower f \<notin> {''and'', ''or'', ''isnull'', ''isnotnull'', ''in'', ''notin'', ''not''}"
    using assms by (auto simp: aw_cmp_def aw_mapOperator_def)
  then show ?thesis by (simp add: Let_def aw_compare_def aw_leafcond_def)
qed

lemma aw_walk_bool:
  "aw_bool E e cs \<Longrightarrow>
   aw_walk E (out, err) e =
     (FilterExpr (case e of ACall f _ \<Rightarrow> if aw_junction f then aw_type f else fx_Type out | _ \<Rightarrow> fx_Type out)
        (fx_Conditions out @ cs) (fx_Groups out), err)"
proof (induction arbitrary: out err rule: aw_bool.induct)
  case (leaf f n k)
  have "\<not> aw_junction f" using leaf by (auto simp: aw_cmp_def aw_junction_def)
  then show ?case using aw_walk_leaf[OF leaf] by (simp add: fx_addCondition_def)
next
  case (junction f args css)
  have "aw_args E (out, err) args = (FilterExpr (fx_Type out) (fx_Conditions out @ concat css) (fx_Groups out), err)" for out
    using junction(2) by (induction args css arbitrary: out rule: list_all2_induct) (auto simp: fx_append_def)
  then show ?case using junction(1) by (simp add: Let_def aw_junction_def aw_type_def fx_setType_def)
qed

lemma aw_uniform_meaning:
  "aw_bool E e cs \<Longrightarrow> aw_uniform t e \<Longrightarrow> aw_meaning E v e = fx_join t (map v cs)"
proof (induction rule: aw_bool.induct)
  case (leaf f n k)
  have "\<not> aw_junction f" using leaf by (auto simp: aw_cmp_def aw_junction_def)
  then show ?case by simp
next
  case (junction f args css)
  have "list_all (aw_uniform t) args" "aw_type f = t" using junction(1,3) by auto
  with junction(2) have "fx_join t (map (aw_meaning E v) args) = fx_join t (map v (concat css))"
  proof (induction args css rule: list_all2_induct)
    case (Cons a as cs css)
    then show ?case by (simp add: fx_join_def split: if_splits)
  qed simp
  then show ?case using junction(1) \<open>aw_type f = t\<close> by simp
qed

text \<open>
  Conversion of an AIP filter of comparisons, AND and OR. The result is the outermost connective applied to
  all comparisons at any depth; so it has the meaning of the filter when all connectives are the same.
\<close>

theorem aw_Convert_flattens:
  assumes "aw_bool E (ACall f args) cs" "aw_junction f" "parse s = Inr (Some (ACall f args))" "s \<noteq> ''''"
  shows "aw_Convert E parse s = Inr (Some (FilterExpr (aw_type f) cs [])) \<and>
    (aw_uniform (aw_type f) (ACall f args) \<longrightarrow> fx_eval v (FilterExpr (aw_type f) cs []) = aw_meaning E v (ACall f args))"
  using assms aw_walk_bool[OF assms(1), of "FilterExpr ExprType_AND [] []" None]
    aw_uniform_meaning[OF assms(1), of "aw_type f" v]
  by (simp add: aw_Convert_def)

text \<open>
  An OR nested in an AND becomes part of the AND: \<open>a = 1 AND (b = 2 OR c = 3)\<close> is converted to a filter that
  rejects a row with \<open>a = 1\<close> and \<open>b = 2\<close> that the filter string accepts.
\<close>

theorem aw_nested_or_lost:
  "let e = ACall ''AND'' [ACall ''='' [AIdent ''a'', AConst (CInt64 1)],
         ACall ''OR'' [ACall ''='' [AIdent ''b'', AConst (CInt64 2)], ACall ''='' [AIdent ''c'', AConst (CInt64 3)]]];
       row = (\<lambda>c. fc_Field c \<noteq> ''c'')
   in (\<exists>out. aw_Convert qc_demo_env (\<lambda>_. Inr (Some e)) ''q'' = Inr (Some out) \<and> \<not> fx_eval row out) \<and>
      aw_meaning qc_demo_env row e"
proof -
  let ?a = "ACall ''='' [AIdent ''a'', AConst (CInt64 1)]" and ?b = "ACall ''='' [AIdent ''b'', AConst (CInt64 2)]"
    and ?c = "ACall ''='' [AIdent ''c'', AConst (CInt64 3)]"
  have cmp: "aw_cmp ''=''" and j: "aw_junction ''AND''" "aw_junction ''OR''" "\<not> aw_junction ''=''"
    and ty: "aw_type ''AND'' = ExprType_AND" "aw_type ''OR'' = ExprType_OR" by code_simp+
  let ?l = "\<lambda>n k. aw_leafcond qc_demo_env ''='' n (CInt64 k)"
  have "aw_bool qc_demo_env (ACall ''OR'' [?b, ?c]) (concat [[?l ''b'' 2], [?l ''c'' 3]])"
    by (intro aw_bool.junction j) (simp add: aw_bool.leaf[OF cmp])
  then have "aw_bool qc_demo_env (ACall ''AND'' [?a, ACall ''OR'' [?b, ?c]]) (concat [[?l ''a'' 1], [?l ''b'' 2, ?l ''c'' 3]])"
    by (intro aw_bool.junction j) (simp add: aw_bool.leaf[OF cmp])
  from aw_walk_bool[OF this, of "FilterExpr ExprType_AND [] []" None]
  have "aw_Convert qc_demo_env (\<lambda>_. Inr (Some (ACall ''AND'' [?a, ACall ''OR'' [?b, ?c]]))) ''q'' =
      Inr (Some (FilterExpr ExprType_AND [?l ''a'' 1, ?l ''b'' 2, ?l ''c'' 3] []))"
    using j(1) ty by (simp add: aw_Convert_def)
  moreover have "fc_Field (?l n k) = n" for n k by (simp add: aw_leafcond_def)
  ultimately show ?thesis using j ty by (simp add: Let_def fx_join_def)
qed

theorem aw_Convert_flattens_witness:
  "\<exists>cs. aw_Convert qc_demo_env (\<lambda>_. Inr (Some (ACall ''or'' [ACall ''='' [AIdent ''a'', AConst (CInt64 1)],
      ACall ''<'' [AIdent ''b'', AConst (CInt64 2)]]))) ''q'' = Inr (Some (FilterExpr ExprType_OR cs [])) \<and> length cs = 2"
proof -
  have cmp: "aw_cmp ''=''" "aw_cmp ''<''" and j: "aw_junction ''or''" and ty: "aw_type ''or'' = ExprType_OR" by code_simp+
  have "aw_bool qc_demo_env (ACall ''or'' [ACall ''='' [AIdent ''a'', AConst (CInt64 1)], ACall ''<'' [AIdent ''b'', AConst (CInt64 2)]])
      (concat [[aw_leafcond qc_demo_env ''='' ''a'' (CInt64 1)], [aw_leafcond qc_demo_env ''<'' ''b'' (CInt64 2)]])"
    by (intro aw_bool.junction j) (simp add: aw_bool.leaf[OF cmp(1)] aw_bool.leaf[OF cmp(2)])
  from aw_Convert_flattens[OF this j, of "\<lambda>_. Inr (Some (ACall ''or'' [ACall ''='' [AIdent ''a'', AConst (CInt64 1)],
      ACall ''<'' [AIdent ''b'', AConst (CInt64 2)]]))" "''q''"]
  show ?thesis using ty by simp
qed

section \<open>Negation and the shared converter\<close>

text \<open>The negation of an ordering comparison is an inequality, not the complementary comparison.\<close>

lemma aw_not_less: "aw_invertOperator LT = NEQ" "aw_invertOperator CONTAINS = NEQ"
  by (simp_all add: aw_invertOperator_def)

text \<open>
  The converter is one shared object, and its error a field of it: \<open>Convert\<close> clears the field, walks, and reads it.
  When a second call starts between the walk and the read, the unknown operator of the first is not reported.
\<close>

definition aw_shared_start :: "fq_error option \<Rightarrow> fq_error option" where
  "aw_shared_start err = None"

definition aw_shared_walk :: "qc_env \<Rightarrow> aip \<Rightarrow> fq_error option \<Rightarrow> filter_expr \<times> fq_error option" where
  "aw_shared_walk E a err = aw_walk E (FilterExpr ExprType_AND [] [], err) a"

definition aw_shared_finish :: "filter_expr \<Rightarrow> fq_error option \<Rightarrow> fq_error + filter_expr option" where
  "aw_shared_finish out err = (case err of Some e \<Rightarrow> Inl e | None \<Rightarrow> Inr (Some out))"

lemma aw_shared_sequential:
  "s \<noteq> '''' \<Longrightarrow> parse s = Inr (Some a) \<Longrightarrow>
   aw_Convert E parse s = (let (out, err) = aw_shared_walk E a (aw_shared_start err0) in aw_shared_finish out err)"
  by (auto simp: aw_Convert_def aw_shared_walk_def aw_shared_start_def aw_shared_finish_def split: option.splits prod.splits)

lemma aw_shared_error_lost:
  "let (out, err) = aw_shared_walk E a (aw_shared_start err0) in aw_shared_finish out (aw_shared_start err) = Inr (Some out)"
  by (simp add: aw_shared_finish_def aw_shared_start_def split: prod.splits)

end
