(* ===== verification/Viewer.thy ===== *)
theory Viewer
  imports Sql_Text "HOL-Library.Word"
begin

text \<open>
  \<open>crud/viewer\<close>: who performs an operation, and the decision that every database module takes from it
  before it touches tenant-scoped data. The interface \<open>Context\<close> is a record of its methods; a
  \<open>context.Context\<close> is the chain of values stored in it. A type is tenant scoped when a pointer to it
  implements \<open>ScopedModel\<close>: that is an argument, as is the method \<open>SetTenantID\<close> of an entity.
\<close>

section \<open>Viewers\<close>

record data_scope =
  ds_ScopeType :: string
  ds_TargetIDs :: "64 word list"

record viewer =
  vw_UserID :: "64 word"
  vw_TenantID :: "64 word"
  vw_OrgUnitID :: "64 word"
  vw_Permissions :: "string list"
  vw_Roles :: "string list"
  vw_DataScope :: "data_scope list"
  vw_TraceID :: string
  vw_HasPermission :: "string \<Rightarrow> string \<Rightarrow> bool"
  vw_IsPlatformContext :: bool
  vw_IsTenantContext :: bool
  vw_IsSystemContext :: bool
  vw_ShouldAudit :: bool

definition vw_NewNoopContext :: viewer where
  "vw_NewNoopContext =
     \<lparr>vw_UserID = 0, vw_TenantID = 0, vw_OrgUnitID = 0, vw_Permissions = [], vw_Roles = [], vw_DataScope = [],
      vw_TraceID = '''', vw_HasPermission = (\<lambda>_ _. False), vw_IsPlatformContext = False,
      vw_IsTenantContext = False, vw_IsSystemContext = False, vw_ShouldAudit = False\<rparr>"

definition vw_NewSystemContext :: viewer where
  "vw_NewSystemContext =
     \<lparr>vw_UserID = 0, vw_TenantID = 0, vw_OrgUnitID = 0, vw_Permissions = [], vw_Roles = [], vw_DataScope = [],
      vw_TraceID = '''', vw_HasPermission = (\<lambda>_ _. True), vw_IsPlatformContext = True,
      vw_IsTenantContext = False, vw_IsSystemContext = True, vw_ShouldAudit = False\<rparr>"

definition vw_NewUserContext :: "64 word \<Rightarrow> 64 word \<Rightarrow> 64 word \<Rightarrow> string \<Rightarrow> data_scope list \<Rightarrow> viewer" where
  "vw_NewUserContext uid tid ouid traceID dataScopes =
     \<lparr>vw_UserID = uid, vw_TenantID = tid, vw_OrgUnitID = ouid, vw_Permissions = [], vw_Roles = [],
      vw_DataScope = dataScopes, vw_TraceID = traceID, vw_HasPermission = (\<lambda>_ _. False),
      vw_IsPlatformContext = (tid = 0), vw_IsTenantContext = (tid > 0), vw_IsSystemContext = False,
      vw_ShouldAudit = False\<rparr>"

section \<open>Viewers in a context\<close>

text \<open>
  The chain of \<open>context.WithValue\<close> and other contexts; a nil viewer is \<open>None\<close>. Looking up the
  key finds the innermost value.
\<close>

datatype go_ctx = CtxBackground | CtxViewer "viewer option" go_ctx | CtxOther go_ctx

definition vw_WithContext :: "go_ctx \<Rightarrow> viewer option \<Rightarrow> go_ctx" where
  "vw_WithContext ctx vc = CtxViewer vc ctx"

definition vw_WithSystemContext :: "go_ctx \<Rightarrow> go_ctx" where
  "vw_WithSystemContext ctx = vw_WithContext ctx (Some vw_NewSystemContext)"

primrec vw_FromContext :: "go_ctx \<Rightarrow> viewer option" where
  "vw_FromContext CtxBackground = None"
| "vw_FromContext (CtxViewer vc ctx) = vc"
| "vw_FromContext (CtxOther ctx) = vw_FromContext ctx"

definition vw_MustFromContext :: "go_ctx option \<Rightarrow> viewer" where
  "vw_MustFromContext ctx =
     (case ctx of
        None \<Rightarrow> vw_NewNoopContext
      | Some c \<Rightarrow> (case vw_FromContext c of Some vc \<Rightarrow> vc | None \<Rightarrow> vw_NewNoopContext))"

section \<open>The decision\<close>

datatype vw_error = ErrMissingViewer

record vw_decision =
  ed_Enforce :: bool
  ed_TenantID :: "64 word"

definition ed_none :: vw_decision where
  "ed_none = \<lparr>ed_Enforce = False, ed_TenantID = 0\<rparr>"

definition vw_EnforceTenant :: "go_ctx \<Rightarrow> vw_error + vw_decision" where
  "vw_EnforceTenant ctx =
     (case vw_FromContext ctx of
        None \<Rightarrow> Inl ErrMissingViewer
      | Some vc \<Rightarrow>
          if vw_IsPlatformContext vc \<or> vw_IsSystemContext vc then Inr ed_none
          else Inr \<lparr>ed_Enforce = True, ed_TenantID = vw_TenantID vc\<rparr>)"

text \<open>An instance with its method \<open>SetTenantID\<close>, \<open>None\<close> when the type assertion fails; a nil instance is \<open>None\<close>.\<close>

definition vw_EnforceOnScopedInstance ::
  "(32 word \<Rightarrow> 'a \<Rightarrow> 'a) option \<Rightarrow> go_ctx \<Rightarrow> 'a option \<Rightarrow> vw_error + 'a option" where
  "vw_EnforceOnScopedInstance sm ctx inst =
     (case inst of
        None \<Rightarrow> Inr None
      | Some x \<Rightarrow>
          (case sm of
             None \<Rightarrow> Inr (Some x)
           | Some set_tid \<Rightarrow>
               (case vw_EnforceTenant ctx of
                  Inl e \<Rightarrow> Inl e
                | Inr dec \<Rightarrow>
                    if \<not> ed_Enforce dec then Inr (Some x)
                    else Inr (Some (set_tid (ucast (ed_TenantID dec)) x)))))"

definition vw_EnforceOnScopedInstanceAny ::
  "(32 word \<Rightarrow> 'a \<Rightarrow> 'a) option \<Rightarrow> go_ctx \<Rightarrow> 'a option \<Rightarrow> vw_error + 'a option" where
  "vw_EnforceOnScopedInstanceAny sm ctx inst =
     (case inst of
        None \<Rightarrow> Inr None
      | Some x \<Rightarrow>
          (case sm of
             None \<Rightarrow> Inr (Some x)
           | Some set_tid \<Rightarrow>
               (case vw_EnforceTenant ctx of
                  Inl e \<Rightarrow> Inl e
                | Inr dec \<Rightarrow>
                    if \<not> ed_Enforce dec then Inr (Some x)
                    else Inr (Some (set_tid (ucast (ed_TenantID dec)) x)))))"

text \<open>The three cases of a decision, for every caller.\<close>

datatype vw_case = VwMissing | VwPass | VwTenant "64 word"

definition vw_view :: "go_ctx \<Rightarrow> vw_case" where
  "vw_view ctx =
     (case vw_FromContext ctx of
        None \<Rightarrow> VwMissing
      | Some vc \<Rightarrow> if vw_IsPlatformContext vc \<or> vw_IsSystemContext vc then VwPass else VwTenant (vw_TenantID vc))"

lemma vw_Enforce_view:
  "vw_EnforceTenant ctx =
     (case vw_view ctx of
        VwMissing \<Rightarrow> Inl ErrMissingViewer | VwPass \<Rightarrow> Inr ed_none
      | VwTenant t \<Rightarrow> Inr \<lparr>ed_Enforce = True, ed_TenantID = t\<rparr>)"
  by (simp add: vw_EnforceTenant_def vw_view_def split: option.splits)

end
