(* ===== verification/Tenant.thy ===== *)
theory Tenant
  imports Viewer Go_Encoding
begin

text \<open>
  The tenant guards of the database modules: \<open>crud/cassandra\<close>, \<open>crud/mongodb\<close>, \<open>crud/milvus\<close>, \<open>crud/neo4j\<close>,
  \<open>crud/qdrant\<close>, \<open>crud/weaviate\<close> and \<open>crud/gorm\<close> (each in its file \<open>tenant_enforce.go\<close>). A guard adds the tenant to the
  condition of a query, a verifier checks a row that was read by its key. The argument \<open>scoped\<close> says whether the entity type
  implements \<open>ScopedModel\<close>; types of the client libraries are arguments.
\<close>

section \<open>Guards of queries\<close>

text \<open>
  The contract of a guard on a scoped type: no viewer, no query; platform and system views pass; in a tenant's view the
  guarded query is true only of rows of the tenant, and of all of those that satisfied the query before.
\<close>

locale tenant_guard =
  fixes inject :: "go_ctx \<Rightarrow> 'q \<Rightarrow> vw_error + 'q"
    and holds :: "'w \<Rightarrow> 'q \<Rightarrow> bool \<Rightarrow> bool"
    and owner :: "'w \<Rightarrow> 64 word \<Rightarrow> bool"
  assumes missing: "vw_view ctx = VwMissing \<Longrightarrow> inject ctx q = Inl ErrMissingViewer"
    and pass: "vw_view ctx = VwPass \<Longrightarrow> inject ctx q = Inr q"
    and tenant: "vw_view ctx = VwTenant t \<Longrightarrow> holds w q b \<Longrightarrow>
      \<exists>q' b'. inject ctx q = Inr q' \<and> holds w q' b' \<and> (b' \<longrightarrow> owner w t) \<and> (b \<and> owner w t \<longrightarrow> b')"
begin

lemma guarded_iff: "(\<exists>q'. inject ctx q = Inr q') \<Longrightarrow> vw_view ctx \<noteq> VwMissing"
  using missing by auto

text \<open>Guarding twice, as \<open>Count\<close> does for the conditions of a list query, adds nothing.\<close>

lemma twice:
  assumes "vw_view ctx = VwTenant t" "holds w q b"
  shows "\<exists>q1 q2 b2. inject ctx q = Inr q1 \<and> inject ctx q1 = Inr q2 \<and> holds w q2 b2 \<and> (b2 \<longrightarrow> owner w t) \<and>
    (b \<and> owner w t \<longrightarrow> b2)"
proof -
  obtain q1 b1 where 1: "inject ctx q = Inr q1" "holds w q1 b1" "b \<and> owner w t \<longrightarrow> b1" using tenant[OF assms] by blast
  then show ?thesis using tenant[OF assms(1) 1(2)] by blast
qed

end

subsection \<open>Cassandra\<close>

datatype 'a cs_arg = CsCaller 'a | CsInt64 int

definition cs_InjectTenantWhere ::
  "bool \<Rightarrow> go_ctx \<Rightarrow> string \<times> 'a cs_arg list \<Rightarrow> vw_error + string \<times> 'a cs_arg list" where
  "cs_InjectTenantWhere scoped ctx q = (case q of (where_, args) \<Rightarrow>
     if \<not> scoped then Inr (where_, args)
     else case vw_EnforceTenant ctx of
            Inl e \<Rightarrow> Inl e
          | Inr dec \<Rightarrow>
              if \<not> ed_Enforce dec then Inr (where_, args)
              else let merged = args @ [CsInt64 (sint (ed_TenantID dec))]
                   in if where_ = '''' then Inr (''tenant_id = ?'', merged)
                      else Inr (''('' @ where_ @ '') AND tenant_id = ?'', merged))"

text \<open>The truth of a WHERE text; \<open>A\<close> are the comparisons of the caller.\<close>

definition sq_where ::
  "(string \<Rightarrow> 'a list \<Rightarrow> bool) \<Rightarrow> (string \<Rightarrow> 'a list \<Rightarrow> bool) \<Rightarrow> string \<times> 'a list \<Rightarrow> bool \<Rightarrow> bool" where
  "sq_where A w q b \<longleftrightarrow> (case q of (where_, args) \<Rightarrow>
     if where_ = [] then args = [] \<and> b else sq_or (\<lambda>q as. A q as \<or> q = ''tenant_id = ?'') w where_ args b)"

interpretation cass: tenant_guard "cs_InjectTenantWhere True" "sq_where A" "\<lambda>w t. w ''tenant_id = ?'' [CsInt64 (sint t)]"
  for A :: "string \<Rightarrow> 'a cs_arg list \<Rightarrow> bool"
proof
  fix ctx and q :: "string \<times> 'a cs_arg list" and t w b
  assume t: "vw_view ctx = VwTenant t" and h: "sq_where A w q b"
  let ?o = "w ''tenant_id = ?'' [CsInt64 (sint t)]" and ?A = "\<lambda>q as. A q as \<or> q = ''tenant_id = ?''"
  obtain tx args where q: "q = (tx, args)" by fastforce
  show "\<exists>q' b'. cs_InjectTenantWhere True ctx q = Inr q' \<and> sq_where A w q' b' \<and> (b' \<longrightarrow> ?o) \<and> (b \<and> ?o \<longrightarrow> b')"
  proof (cases "tx = []")
    case True
    have "sq_or ?A w ''tenant_id = ?'' [CsInt64 (sint t)] ?o" by (intro sq_or1 sq_and1 sq_leaf) simp
    then show ?thesis using True q t h by (intro exI[of _ "(''tenant_id = ?'', [CsInt64 (sint t)])"] exI[of _ ?o])
        (auto simp: cs_InjectTenantWhere_def vw_Enforce_view sq_where_def)
  next
    case False
    then have "sq_or ?A w (''('' @ tx @ '') AND tenant_id = ?'') (args @ [CsInt64 (sint t)]) (b \<and> ?o)"
      using h q sq_or1[OF sq_guard[of ?A w tx args b "''tenant_id = ?''" "[CsInt64 (sint t)]"]]
      by (simp add: sq_where_def)
    then show ?thesis using False q t
      by (intro exI[of _ "(''('' @ tx @ '') AND tenant_id = ?'', args @ [CsInt64 (sint t)])"] exI[of _ "b \<and> ?o"])
        (auto simp: cs_InjectTenantWhere_def vw_Enforce_view sq_where_def)
  qed
qed (auto simp: cs_InjectTenantWhere_def vw_Enforce_view ed_none_def)

subsection \<open>MongoDB\<close>

text \<open>The filter of \<open>query.Builder\<close>, nil as \<open>None\<close>; all its entries must hold. The type of values is the driver's.\<close>

definition mg_Where :: "(string \<rightharpoonup> 'v) \<Rightarrow> (string \<rightharpoonup> 'v) option \<Rightarrow> (string \<rightharpoonup> 'v) option" where
  "mg_Where cond flt = Some ((case flt of None \<Rightarrow> Map.empty | Some m \<Rightarrow> m) ++ cond)"

definition mg_InjectTenantFilterIntoBuilder ::
  "(64 word \<Rightarrow> 'v) \<Rightarrow> bool \<Rightarrow> go_ctx \<Rightarrow> (string \<rightharpoonup> 'v) option \<Rightarrow> vw_error + (string \<rightharpoonup> 'v) option" where
  "mg_InjectTenantFilterIntoBuilder val scoped ctx flt =
     (if \<not> scoped then Inr flt
      else case vw_EnforceTenant ctx of
             Inl e \<Rightarrow> Inl e
           | Inr dec \<Rightarrow>
               if \<not> ed_Enforce dec then Inr flt
               else Inr (mg_Where [''tenant_id'' \<mapsto> val (ed_TenantID dec)] flt))"

definition mg_holds :: "(string \<Rightarrow> 'v \<Rightarrow> bool) \<Rightarrow> (string \<rightharpoonup> 'v) option \<Rightarrow> bool \<Rightarrow> bool" where
  "mg_holds w flt b \<longleftrightarrow> b = (\<forall>m k v. flt = Some m \<longrightarrow> m k = Some v \<longrightarrow> w k v)"

interpretation mongo: tenant_guard "mg_InjectTenantFilterIntoBuilder val True" mg_holds "\<lambda>w t. w ''tenant_id'' (val t)"
  for val :: "64 word \<Rightarrow> 'v"
proof
  fix ctx and q :: "(string \<rightharpoonup> 'v) option" and t w b
  assume "vw_view ctx = VwTenant t" and h: "mg_holds w q b"
  then have i: "mg_InjectTenantFilterIntoBuilder val True ctx q = Inr (mg_Where [''tenant_id'' \<mapsto> val t] q)"
    by (simp add: mg_InjectTenantFilterIntoBuilder_def vw_Enforce_view)
  show "\<exists>q' b'. mg_InjectTenantFilterIntoBuilder val True ctx q = Inr q' \<and> mg_holds w q' b' \<and>
      (b' \<longrightarrow> w ''tenant_id'' (val t)) \<and> (b \<and> w ''tenant_id'' (val t) \<longrightarrow> b')"
    using h unfolding i by (cases q) (auto simp: mg_holds_def mg_Where_def map_add_def split: option.splits)
qed (auto simp: mg_InjectTenantFilterIntoBuilder_def vw_Enforce_view ed_none_def)

subsection \<open>GORM\<close>

text \<open>
  A statement: its table, the column of the schema's field \<open>tenant_id\<close> (\<open>None\<close> without one), the equalities that
  \<open>AddClause\<close> has added and the errors. A nil database, statement or schema is \<open>None\<close>.
\<close>

record 'v gt_stmt =
  gt_table :: string
  gt_tenant_col :: "string option"
  gt_where :: "(string \<times> string \<times> 'v) list"
  gt_errors :: "vw_error list"

definition gt_tenantScopeCallback :: "(64 word \<Rightarrow> 'v) \<Rightarrow> go_ctx \<Rightarrow> 'v gt_stmt option \<Rightarrow> 'v gt_stmt option" where
  "gt_tenantScopeCallback val ctx db =
     (case db of
        None \<Rightarrow> None
      | Some st \<Rightarrow>
          (case gt_tenant_col st of
             None \<Rightarrow> Some st
           | Some col \<Rightarrow>
               (case vw_EnforceTenant ctx of
                  Inl e \<Rightarrow> Some (st\<lparr>gt_errors := gt_errors st @ [e]\<rparr>)
                | Inr dec \<Rightarrow>
                    if \<not> ed_Enforce dec then Some st
                    else Some (st\<lparr>gt_where := gt_where st @ [(gt_table st, col, val (ed_TenantID dec))]\<rparr>))))"

text \<open>The registration on the three paths; \<open>register\<close> is the library's, with its error.\<close>

datatype gt_hook = GtQuery | GtUpdate | GtDelete

definition gt_RegisterTenantCallbacks :: "(gt_hook \<Rightarrow> 's \<Rightarrow> 'e + 's) \<Rightarrow> 's \<Rightarrow> (gt_hook \<times> 'e) + 's" where
  "gt_RegisterTenantCallbacks register s =
     (case register GtQuery s of
        Inl e \<Rightarrow> Inl (GtQuery, e)
      | Inr s \<Rightarrow>
          (case register GtUpdate s of
             Inl e \<Rightarrow> Inl (GtUpdate, e)
           | Inr s \<Rightarrow> (case register GtDelete s of Inl e \<Rightarrow> Inl (GtDelete, e) | Inr s \<Rightarrow> Inr s)))"

text \<open>The forced value on the create path; \<open>set_field\<close> is the field's method \<open>Set\<close>, with its error.\<close>

definition gt_setTenantIDOnCreate ::
  "(vw_error \<Rightarrow> 'e) \<Rightarrow> (32 word \<Rightarrow> 'a \<Rightarrow> 'e + 'a) option \<Rightarrow> go_ctx \<Rightarrow> 'a \<Rightarrow> 'e + 'a" where
  "gt_setTenantIDOnCreate err set_field ctx x =
     (case set_field of
        None \<Rightarrow> Inr x
      | Some f \<Rightarrow>
          (case vw_EnforceTenant ctx of
             Inl e \<Rightarrow> Inl (err e)
           | Inr dec \<Rightarrow> if \<not> ed_Enforce dec then Inr x else f (ucast (ed_TenantID dec)) x))"

definition gt_SetTenantIDOnCreateBeforeHook ::
  "(vw_error \<Rightarrow> 'e) \<Rightarrow> (32 word \<Rightarrow> 'a \<Rightarrow> 'e + 'a) option option \<Rightarrow> go_ctx \<Rightarrow> 'a \<Rightarrow> 'e + 'a" where
  "gt_SetTenantIDOnCreateBeforeHook err tx ctx x =
     (case tx of None \<Rightarrow> Inr x | Some set_field \<Rightarrow> gt_setTenantIDOnCreate err set_field ctx x)"

text \<open>A statement on a schema with the column, as a query: the first error makes the library refuse it.\<close>

definition gt_inject ::
  "(64 word \<Rightarrow> 'v) \<Rightarrow> string \<Rightarrow> go_ctx \<Rightarrow> 'v gt_stmt \<Rightarrow> vw_error + 'v gt_stmt" where
  "gt_inject val col ctx st =
     (case gt_tenantScopeCallback val ctx (Some (st\<lparr>gt_tenant_col := Some col, gt_errors := []\<rparr>)) of
        Some st' \<Rightarrow> (case gt_errors st' of e # _ \<Rightarrow> Inl e | [] \<Rightarrow> Inr (st\<lparr>gt_where := gt_where st'\<rparr>))
      | None \<Rightarrow> Inl ErrMissingViewer)"

definition gt_holds :: "string \<times> (string \<Rightarrow> string \<Rightarrow> 'v \<Rightarrow> bool) \<Rightarrow> 'v gt_stmt \<Rightarrow> bool \<Rightarrow> bool" where
  "gt_holds w st b \<longleftrightarrow> gt_table st = fst w \<and> b = list_all (\<lambda>(tb, col, v). snd w tb col v) (gt_where st)"

interpretation gorm: tenant_guard "gt_inject val col" gt_holds "\<lambda>w t. snd w (fst w) col (val t)"
  for val :: "64 word \<Rightarrow> 'v" and col
  by unfold_locales (auto simp: gt_inject_def gt_tenantScopeCallback_def vw_Enforce_view ed_none_def gt_holds_def)

section \<open>Verifiers of rows\<close>

text \<open>Values in a row or in properties, by their dynamic type; the interface \<open>any\<close> also holds nil.\<close>

datatype tn_any = GaNil | GaInt64 int | GaInt int | GaUint32 "32 word" | GaFloat64 rat | GaOther

abbreviation maxUint32 :: int where "maxUint32 \<equiv> 4294967295"

definition tn_in32 :: "int \<Rightarrow> 32 word option" where
  "tn_in32 iv = (if iv < 0 \<or> iv > maxUint32 then None else Some (word_of_int iv))"

definition cs_rowTenantID :: "(string \<rightharpoonup> tn_any) \<Rightarrow> 32 word option" where
  "cs_rowTenantID row =
     (case row ''tenant_id'' of
        None \<Rightarrow> None
      | Some GaNil \<Rightarrow> None
      | Some (GaInt64 n) \<Rightarrow> tn_in32 n
      | Some (GaInt n) \<Rightarrow> tn_in32 n
      | Some _ \<Rightarrow> None)"

definition nj_nodeTenantID :: "(string \<rightharpoonup> tn_any) \<Rightarrow> 32 word option" where
  "nj_nodeTenantID props = (case props ''tenant_id'' of Some (GaInt64 iv) \<Rightarrow> tn_in32 iv | _ \<Rightarrow> None)"

definition qd_payloadTenantID :: "(string \<rightharpoonup> tn_any) \<Rightarrow> 32 word option" where
  "qd_payloadTenantID payload = (case payload ''tenant_id'' of Some (GaInt64 iv) \<Rightarrow> tn_in32 iv | _ \<Rightarrow> None)"

definition wv_propsTenantID :: "(string \<rightharpoonup> tn_any) \<Rightarrow> 32 word option" where
  "wv_propsTenantID props =
     (case props ''tenant_id'' of
        Some (GaFloat64 x) \<Rightarrow> if x < 0 \<or> x > of_int maxUint32 then None else Some (word_of_int (rat_trunc x))
      | Some (GaInt64 iv) \<Rightarrow> tn_in32 iv
      | Some (GaInt iv) \<Rightarrow> tn_in32 iv
      | Some (GaUint32 v) \<Rightarrow> Some v
      | _ \<Rightarrow> None)"

datatype tn_error = TnViewer vw_error | ErrTenantMismatch

definition cs_verifyTenantOnRow :: "bool \<Rightarrow> go_ctx \<Rightarrow> (string \<rightharpoonup> tn_any) \<Rightarrow> tn_error option" where
  "cs_verifyTenantOnRow scoped ctx row =
     (if \<not> scoped then None
      else case vw_EnforceTenant ctx of
             Inl e \<Rightarrow> Some (TnViewer e)
           | Inr dec \<Rightarrow>
               if \<not> ed_Enforce dec then None
               else case cs_rowTenantID row of
                      None \<Rightarrow> Some ErrTenantMismatch
                    | Some tid \<Rightarrow> if tid \<noteq> ucast (ed_TenantID dec) then Some ErrTenantMismatch else None)"

definition nj_verifyTenantOnNode :: "bool \<Rightarrow> go_ctx \<Rightarrow> (string \<rightharpoonup> tn_any) \<Rightarrow> tn_error option" where
  "nj_verifyTenantOnNode scoped ctx node =
     (if \<not> scoped then None
      else case vw_EnforceTenant ctx of
             Inl e \<Rightarrow> Some (TnViewer e)
           | Inr dec \<Rightarrow>
               if \<not> ed_Enforce dec then None
               else case nj_nodeTenantID node of
                      None \<Rightarrow> Some ErrTenantMismatch
                    | Some tid \<Rightarrow> if tid \<noteq> ucast (ed_TenantID dec) then Some ErrTenantMismatch else None)"

definition qd_verifyTenantOnPayload :: "bool \<Rightarrow> go_ctx \<Rightarrow> (string \<rightharpoonup> tn_any) \<Rightarrow> tn_error option" where
  "qd_verifyTenantOnPayload scoped ctx payload =
     (if \<not> scoped then None
      else case vw_EnforceTenant ctx of
             Inl e \<Rightarrow> Some (TnViewer e)
           | Inr dec \<Rightarrow>
               if \<not> ed_Enforce dec then None
               else case qd_payloadTenantID payload of
                      None \<Rightarrow> Some ErrTenantMismatch
                    | Some tid \<Rightarrow> if tid \<noteq> ucast (ed_TenantID dec) then Some ErrTenantMismatch else None)"

definition wv_verifyTenantOnProps :: "bool \<Rightarrow> go_ctx \<Rightarrow> (string \<rightharpoonup> tn_any) \<Rightarrow> tn_error option" where
  "wv_verifyTenantOnProps scoped ctx props =
     (if \<not> scoped then None
      else case vw_EnforceTenant ctx of
             Inl e \<Rightarrow> Some (TnViewer e)
           | Inr dec \<Rightarrow>
               if \<not> ed_Enforce dec then None
               else case wv_propsTenantID props of
                      None \<Rightarrow> Some ErrTenantMismatch
                    | Some tid \<Rightarrow> if tid \<noteq> ucast (ed_TenantID dec) then Some ErrTenantMismatch else None)"

text \<open>Milvus: the column of a result set at the row, \<open>None\<close> when the column or the value cannot be read.\<close>

definition mv_checkTenantColumn :: "bool \<Rightarrow> go_ctx \<Rightarrow> tn_any option \<Rightarrow> tn_error option" where
  "mv_checkTenantColumn scoped ctx cell =
     (if \<not> scoped then None
      else case vw_EnforceTenant ctx of
             Inl e \<Rightarrow> Some (TnViewer e)
           | Inr dec \<Rightarrow>
               if \<not> ed_Enforce dec then None
               else case cell of
                      Some (GaInt64 tid) \<Rightarrow>
                        if tid \<le> 0 \<or> tid \<noteq> sint (ed_TenantID dec) then Some ErrTenantMismatch else None
                    | _ \<Rightarrow> Some ErrTenantMismatch)"

definition mv_InjectTenantFilterIntoExpr :: "bool \<Rightarrow> go_ctx \<Rightarrow> string \<Rightarrow> vw_error + string" where
  "mv_InjectTenantFilterIntoExpr scoped ctx expr =
     (if \<not> scoped then Inr expr
      else case vw_EnforceTenant ctx of
             Inl e \<Rightarrow> Inl e
           | Inr dec \<Rightarrow>
               if \<not> ed_Enforce dec then Inr expr
               else let tenantPred = ''tenant_id == '' @ go_itoa (uint (ed_TenantID dec))
                    in if go_TrimSpace expr = '''' then Inr tenantPred
                       else Inr (''('' @ expr @ '') and '' @ tenantPred))"

section \<open>Width of the tenant\<close>

lemma tn_in32_ucast: "tn_in32 n = Some (ucast (t :: 64 word)) \<longleftrightarrow> n = uint t mod 2 ^ 32"
proof -
  have u: "uint (ucast t :: 32 word) = uint t mod 2 ^ 32" by (simp add: unsigned_ucast_eq take_bit_eq_mod)
  show ?thesis
  proof (cases "n < 0 \<or> n > maxUint32")
    case True
    moreover have "0 \<le> uint t mod 2 ^ 32" "uint t mod 2 ^ 32 \<le> maxUint32" by simp_all
    ultimately show ?thesis by (auto simp: tn_in32_def)
  next
    case False
    then have "uint (word_of_int n :: 32 word) = n" by (simp add: uint_word_of_int)
    then show ?thesis using False u by (auto simp: tn_in32_def word_uint_eq_iff)
  qed
qed

lemmas tn_verifiers = cs_verifyTenantOnRow_def cs_rowTenantID_def nj_verifyTenantOnNode_def nj_nodeTenantID_def
  qd_verifyTenantOnPayload_def qd_payloadTenantID_def wv_verifyTenantOnProps_def wv_propsTenantID_def



text \<open>
  The same width on both sides of Milvus: the column is compared with the whole tenant, but an instance is created with its
  low 32 bits, so what a tenant from \<open>2^32\<close> on creates it does not see.
\<close>

lemma mv_created_invisible:
  assumes "vw_view ctx = VwTenant t" "vw_EnforceOnScopedInstance (Some (\<lambda>v _. v)) ctx (Some x) = Inr (Some v)"
    "2 ^ 32 \<le> uint t"
  shows "mv_checkTenantColumn True ctx (Some (GaInt64 (uint v))) = Some ErrTenantMismatch"
proof -
  have "v = ucast t" using assms(1,2) by (simp add: vw_EnforceOnScopedInstance_def vw_Enforce_view)
  then have v: "uint v < 2 ^ 32" using uint_bounded[of v] by simp
  have "sint t \<noteq> uint v"
  proof
    assume s: "sint t = uint v"
    have "uint t = uint (word_of_int (sint t) :: 64 word)" by simp
    also have "\<dots> = uint v" unfolding s using v by (simp add: unsigned_ucast_eq take_bit_eq_mod)
    finally show False using v assms(3) by simp
  qed
  then show ?thesis using assms(1) by (simp add: mv_checkTenantColumn_def vw_Enforce_view)
qed

lemma tn_created_readable:
  assumes "vw_view ctx = VwTenant t" "vw_EnforceOnScopedInstance (Some (\<lambda>v _. v)) ctx (Some x) = Inr (Some v)"
    "vw_view ctx' = VwTenant t'" "uint t < 2 ^ 32" "uint t' < 2 ^ 32"
  shows "cs_verifyTenantOnRow True ctx' [''tenant_id'' \<mapsto> GaInt64 (uint v)] = None \<longleftrightarrow> t = t'"
proof -
  have "v = ucast t" using assms(1,2) by (simp add: vw_EnforceOnScopedInstance_def vw_Enforce_view)
  then have "uint v = uint t" using assms(4) by (simp add: unsigned_ucast_eq take_bit_eq_mod)
  moreover have "cs_verifyTenantOnRow True ctx' [''tenant_id'' \<mapsto> GaInt64 (uint v)] = None \<longleftrightarrow>
      tn_in32 (uint v) = Some (ucast t')"
    using assms(3) by (auto simp: tn_verifiers vw_Enforce_view split: option.splits if_splits)
  ultimately show ?thesis using assms(5) by (simp add: tn_in32_ucast word_uint_eq_iff)
qed

end
