(* ===== verification/Ch_Query.thy ===== *)
theory Ch_Query
  imports Tenant Filter_Convert Paginator Token_Codec
begin

text \<open>
  \<open>crud/clickhouse/query\<close>: the SQL builder, with what uses it directly: the tenant guards of
  \<open>crud/clickhouse/tenant_enforce.go\<close>, the sortings, the field selector. A builder is a record; a method returns the builder
  after the call, \<open>None\<close> when it panics. \<open>snake\<close> is \<open>stringcase.ToSnakeCase\<close> of another module. The logger is left
  out. Strings are ASCII.
\<close>

section \<open>White lists\<close>

definition qb_isValidIdentifier :: "string \<Rightarrow> bool" where
  "qb_isValidIdentifier identifier =
     (let s = go_TrimSpace identifier
      in if s = '''' then False
         else if prefix ''`'' s \<and> suffix ''`'' s \<and> length s \<ge> 2 then identifierPattern (butlast (tl s))
         else identifierPattern s)"

definition qb_isValidCondition :: "string \<Rightarrow> bool" where
  "qb_isValidCondition condition \<longleftrightarrow> \<not> go_Contains condition '';'' \<and> \<not> go_Contains condition ''--''"

text \<open>
  \<open>LimitKeywordPattern\<close>: the word LIMIT in any case, at the start or after a character that is not a word character, and
  followed by white space. The first argument says whether a word may start here.
\<close>

definition qb_limit_here :: "string \<Rightarrow> bool" where
  "qb_limit_here s \<longleftrightarrow> length s \<ge> 6 \<and> go_ToLower (take 5 s) = ''limit'' \<and> (of_char (s ! 5) :: nat) \<in> {9, 10, 12, 13, 32}"

fun qb_LimitKeyword :: "bool \<Rightarrow> string \<Rightarrow> bool" where
  "qb_LimitKeyword start [] = False"
| "qb_LimitKeyword start (c # s) = (start \<and> qb_limit_here (c # s) \<or> qb_LimitKeyword (\<not> fg_word c) s)"

definition qb_LimitKeywordPattern :: "string \<Rightarrow> bool" where
  "qb_LimitKeywordPattern s = qb_LimitKeyword True s"

section \<open>The builder\<close>

text \<open>Arguments: strings, JSON values, a cursor, a tenant, and values of an entity's fields.\<close>

datatype 'v ch_arg = ChStr string | ChJson json | ChInt int | ChUint "64 word" | ChField 'v

record 'v ch_builder =
  qb_table :: string
  qb_columns :: "string list"
  qb_distinct :: bool
  qb_conditions :: "string list"
  qb_orderBy :: "string list"
  qb_groupBy :: "string list"
  qb_having :: "string list"
  qb_joins :: "string list"
  qb_with :: "string list"
  qb_union :: "string list"
  qb_offset :: int
  qb_limit :: int
  qb_limitBy :: string
  qb_params :: "'v ch_arg list"
  qb_useIndex :: string
  qb_cacheResult :: bool
  qb_debug :: bool

definition qb_NewQueryBuilder :: "string \<Rightarrow> 'v ch_builder" where
  "qb_NewQueryBuilder tbl =
     \<lparr>qb_table = tbl, qb_columns = [], qb_distinct = False, qb_conditions = [], qb_orderBy = [], qb_groupBy = [],
      qb_having = [], qb_joins = [], qb_with = [], qb_union = [], qb_offset = 0, qb_limit = 0, qb_limitBy = '''',
      qb_params = [], qb_useIndex = '''', qb_cacheResult = False, qb_debug = False\<rparr>"

definition qb_EnableDebug :: "'v ch_builder \<Rightarrow> 'v ch_builder" where
  "qb_EnableDebug qb = qb\<lparr>qb_debug := True\<rparr>"

definition qb_WithTableName :: "string \<Rightarrow> 'v ch_builder \<Rightarrow> 'v ch_builder" where
  "qb_WithTableName tbl qb = qb\<lparr>qb_table := tbl\<rparr>"

fun qb_Select :: "string list \<Rightarrow> 'v ch_builder \<Rightarrow> 'v ch_builder option" where
  "qb_Select [] qb = Some qb"
| "qb_Select (column # columns) qb =
     (if \<not> qb_isValidIdentifier column then None
      else qb_Select columns (qb\<lparr>qb_columns := qb_columns qb @ [column]\<rparr>))"

definition qb_Distinct :: "'v ch_builder \<Rightarrow> 'v ch_builder" where
  "qb_Distinct qb = qb\<lparr>qb_distinct := True\<rparr>"

definition qb_Where :: "string \<Rightarrow> 'v ch_arg list \<Rightarrow> 'v ch_builder \<Rightarrow> 'v ch_builder option" where
  "qb_Where condition args qb =
     (if \<not> qb_isValidCondition condition then None
      else Some (qb\<lparr>qb_conditions := qb_conditions qb @ [condition], qb_params := qb_params qb @ args\<rparr>))"

definition ch_SplitDot :: "string \<Rightarrow> string \<times> string" where
  "ch_SplitDot s = (takeWhile (\<lambda>c. c \<noteq> CHR ''.'') s, tl (dropWhile (\<lambda>c. c \<noteq> CHR ''.'') s))"

definition ch_json :: "string \<Rightarrow> string \<Rightarrow> string" where
  "ch_json col key = ''JSONExtractString('' @ col @ '', '' @ [sq] @ key @ [sq, CHR '')'']"

definition qb_OrderBy :: "(string \<Rightarrow> string) \<Rightarrow> string \<Rightarrow> bool \<Rightarrow> 'v ch_builder \<Rightarrow> 'v ch_builder option" where
  "qb_OrderBy snake ord desc qb =
     (let ord = go_TrimSpace ord; dir = (if desc then ''DESC'' else ''ASC'')
      in if ord = '''' then Some qb
         else if go_Contains ord '';'' \<or> go_Contains ord ''--'' then None
         else if go_Contains ord ''.'' then
           (let (p0, p1) = ch_SplitDot ord
            in if \<not> qb_isValidIdentifier p0 then None
               else Some (qb\<lparr>qb_orderBy := qb_orderBy qb @ [ch_json (snake p0) p1 @ '' '' @ dir]\<rparr>))
         else Some (qb\<lparr>qb_orderBy := qb_orderBy qb @ [snake ord @ '' '' @ dir]\<rparr>))"

definition qb_GroupBy :: "string list \<Rightarrow> 'v ch_builder \<Rightarrow> 'v ch_builder" where
  "qb_GroupBy columns qb = qb\<lparr>qb_groupBy := qb_groupBy qb @ columns\<rparr>"

definition qb_Having :: "string \<Rightarrow> 'v ch_arg list \<Rightarrow> 'v ch_builder \<Rightarrow> 'v ch_builder" where
  "qb_Having condition args qb =
     qb\<lparr>qb_having := qb_having qb @ [condition], qb_params := qb_params qb @ args\<rparr>"

definition qb_Join :: "string \<Rightarrow> string \<Rightarrow> string \<Rightarrow> 'v ch_builder \<Rightarrow> 'v ch_builder" where
  "qb_Join joinType tbl onCondition qb =
     qb\<lparr>qb_joins := qb_joins qb @ [joinType @ '' JOIN '' @ tbl @ '' ON '' @ onCondition]\<rparr>"

definition qb_With :: "string \<Rightarrow> 'v ch_builder \<Rightarrow> 'v ch_builder" where
  "qb_With expression qb = qb\<lparr>qb_with := qb_with qb @ [expression]\<rparr>"

definition qb_Union :: "string \<Rightarrow> 'v ch_builder \<Rightarrow> 'v ch_builder" where
  "qb_Union query qb = qb\<lparr>qb_union := qb_union qb @ [query]\<rparr>"

definition qb_Limit :: "int \<Rightarrow> 'v ch_builder \<Rightarrow> 'v ch_builder" where
  "qb_Limit limit qb = qb\<lparr>qb_limit := limit\<rparr>"

definition qb_Offset :: "int \<Rightarrow> 'v ch_builder \<Rightarrow> 'v ch_builder" where
  "qb_Offset off qb = qb\<lparr>qb_offset := off\<rparr>"

definition qb_UseIndex :: "string \<Rightarrow> 'v ch_builder \<Rightarrow> 'v ch_builder" where
  "qb_UseIndex index qb = qb\<lparr>qb_useIndex := index\<rparr>"

definition qb_CacheResult :: "'v ch_builder \<Rightarrow> 'v ch_builder" where
  "qb_CacheResult qb = qb\<lparr>qb_cacheResult := True\<rparr>"

definition qb_ArrayJoin :: "string \<Rightarrow> 'v ch_builder \<Rightarrow> 'v ch_builder" where
  "qb_ArrayJoin expression qb = qb\<lparr>qb_joins := qb_joins qb @ [''ARRAY JOIN '' @ expression]\<rparr>"

definition qb_Final :: "'v ch_builder \<Rightarrow> 'v ch_builder" where
  "qb_Final qb = qb\<lparr>qb_table := qb_table qb @ '' FINAL''\<rparr>"

text \<open>The rate is printed with the verb \<open>%f\<close>.\<close>

definition qb_Sample :: "(float64 \<Rightarrow> string) \<Rightarrow> float64 \<Rightarrow> 'v ch_builder \<Rightarrow> 'v ch_builder" where
  "qb_Sample show_f rate qb = qb\<lparr>qb_table := qb_table qb @ '' SAMPLE '' @ show_f rate\<rparr>"

definition qb_limitByColumn :: "string \<Rightarrow> bool" where
  "qb_limitByColumn c =
     (let c = go_TrimSpace c
      in c \<noteq> '''' \<and> (if go_Contains c ''.'' then qb_isValidIdentifier (fst (ch_SplitDot c)) else qb_isValidIdentifier c))"

definition qb_LimitBy :: "int \<Rightarrow> string list \<Rightarrow> 'v ch_builder \<Rightarrow> 'v ch_builder option" where
  "qb_LimitBy limit columns qb =
     (if limit \<le> 0 \<or> columns = [] then Some qb
      else if \<not> list_all qb_limitByColumn columns then None
      else Some (qb\<lparr>qb_limitBy := ''LIMIT '' @ go_itoa limit @ '' BY ('' @ go_Join columns '', '' @ '')'', qb_limit := 0\<rparr>))"

definition qb_PreWhere :: "string \<Rightarrow> 'v ch_arg list \<Rightarrow> 'v ch_builder \<Rightarrow> 'v ch_builder" where
  "qb_PreWhere condition args qb =
     qb\<lparr>qb_conditions := condition # qb_conditions qb, qb_params := args @ qb_params qb\<rparr>"

definition qb_Format :: "string \<Rightarrow> 'v ch_builder \<Rightarrow> 'v ch_builder" where
  "qb_Format fmt qb = qb\<lparr>qb_union := qb_union qb @ [''FORMAT '' @ fmt]\<rparr>"

definition qb_buildColumns :: "'v ch_builder \<Rightarrow> string" where
  "qb_buildColumns qb = (if qb_columns qb = [] then ''*'' else go_Join (qb_columns qb) '', '')"

definition qb_Build :: "'v ch_builder \<Rightarrow> string \<times> 'v ch_arg list" where
  "qb_Build qb =
     ((if qb_cacheResult qb then ''/* CACHE */ '' else '''')
      @ ''SELECT ''
      @ (if qb_distinct qb then ''DISTINCT '' else '''')
      @ qb_buildColumns qb
      @ '' FROM '' @ qb_table qb
      @ (if qb_useIndex qb \<noteq> '''' then '' USE INDEX ('' @ qb_useIndex qb @ '')'' else '''')
      @ (if qb_conditions qb \<noteq> [] then '' WHERE '' @ go_Join (qb_conditions qb) '' AND '' else '''')
      @ (if qb_groupBy qb \<noteq> [] then '' GROUP BY '' @ go_Join (qb_groupBy qb) '', '' else '''')
      @ (if qb_having qb \<noteq> [] then '' HAVING '' @ go_Join (qb_having qb) '' AND '' else '''')
      @ (if qb_orderBy qb \<noteq> [] then '' ORDER BY '' @ go_Join (qb_orderBy qb) '', '' else '''')
      @ (if qb_limitBy qb \<noteq> '''' then '' '' @ qb_limitBy qb
         else if qb_limit qb > 0 then '' LIMIT '' @ go_itoa (qb_limit qb) else '''')
      @ (if qb_offset qb > 0 then '' OFFSET '' @ go_itoa (qb_offset qb) else ''''),
      qb_params qb)"

definition qb_BuildWhereParam :: "'v ch_builder \<Rightarrow> string \<times> 'v ch_arg list" where
  "qb_BuildWhereParam qb = (go_Join (qb_conditions qb) '' AND '', qb_params qb)"

section \<open>Tenant guards\<close>

text \<open>On a builder that is not nil, as the repository calls it.\<close>

definition ch_InjectTenantFilterIntoBuilder ::
  "bool \<Rightarrow> go_ctx \<Rightarrow> 'v ch_builder \<Rightarrow> (vw_error + 'v ch_builder) option" where
  "ch_InjectTenantFilterIntoBuilder scoped ctx qb =
     (if \<not> scoped then Some (Inr qb)
      else case vw_EnforceTenant ctx of
             Inl e \<Rightarrow> Some (Inl e)
           | Inr dec \<Rightarrow>
               if \<not> ed_Enforce dec then Some (Inr qb)
               else map_option Inr (qb_Where ''tenant_id = ?'' [ChUint (ed_TenantID dec)] qb))"

definition ch_InjectTenantFilterIntoBaseWhere ::
  "bool \<Rightarrow> go_ctx \<Rightarrow> string \<Rightarrow> 'v ch_arg list \<Rightarrow> vw_error + string \<times> 'v ch_arg list" where
  "ch_InjectTenantFilterIntoBaseWhere scoped ctx baseWhere whereArgs =
     (if \<not> scoped then Inr (baseWhere, whereArgs)
      else case vw_EnforceTenant ctx of
             Inl e \<Rightarrow> Inl e
           | Inr dec \<Rightarrow>
               if \<not> ed_Enforce dec then Inr (baseWhere, whereArgs)
               else let bw = go_TrimSpace baseWhere;
                        newWhere = (if bw = '''' then ''WHERE tenant_id = ?''
                                    else if \<not> prefix ''WHERE'' (go_ToUpper bw) then ''WHERE '' @ bw @ '' AND tenant_id = ?''
                                    else bw @ '' AND tenant_id = ?'')
                    in Inr (newWhere, whereArgs @ [ChUint (ed_TenantID dec)]))"

section \<open>Sorting\<close>

definition ss_fieldName :: "string \<Rightarrow> bool" where
  "ss_fieldName s \<longleftrightarrow> s \<noteq> [] \<and> (fg_letter (hd s) \<or> hd s = CHR ''_'') \<and> list_all fg_keychar s"

definition ss_order :: "(string \<Rightarrow> string) \<Rightarrow> so_sorting \<Rightarrow> 'v ch_builder \<Rightarrow> 'v ch_builder option" where
  "ss_order snake o1 qb =
     (let field = go_TrimSpace (fst o1)
      in if field = '''' then Some qb
         else if \<not> ss_fieldName field then Some qb
         else qb_OrderBy snake field (snd o1 = Sorting_DESC) qb)"

definition ss_BuildOrderClause :: "(string \<Rightarrow> string) \<Rightarrow> so_sorting list \<Rightarrow> 'v ch_builder \<Rightarrow> 'v ch_builder option" where
  "ss_BuildOrderClause snake orders qb = (if orders = [] then Some qb else fold_opt (ss_order snake) orders qb)"

definition ss_BuildOrderClauseWithDefaultField ::
  "(string \<Rightarrow> string) \<Rightarrow> so_sorting list \<Rightarrow> string \<Rightarrow> bool \<Rightarrow> 'v ch_builder \<Rightarrow> 'v ch_builder option" where
  "ss_BuildOrderClauseWithDefaultField snake orders defaultOrderField defaultDesc qb =
     (if orders = []
      then ss_BuildOrderClause snake [(defaultOrderField, if \<not> defaultDesc then Sorting_ASC else Sorting_DESC)] qb
      else ss_BuildOrderClause snake orders qb)"

section \<open>Field masks\<close>

definition fs_bq :: char where
  "fs_bq = CHR 0x60"

definition fs_NormalizePath :: "string \<Rightarrow> string" where
  "fs_NormalizePath f =
     (let f = go_TrimSpace f
      in if f = '''' then f
         else case go_Split f ''.'' of
                [p] \<Rightarrow>
                  (let p = go_TrimSpace p
                   in if p = ''*'' \<or> \<not> identifierPattern p then ''''
                      else [fs_bq] @ concat (map (\<lambda>c. if c = fs_bq then [fs_bq, fs_bq] else [c]) p) @ [fs_bq])
              | _ \<Rightarrow> '''')"

definition fs_NormalizePaths :: "string list \<Rightarrow> string list" where
  "fs_NormalizePaths flds = map fs_NormalizePath flds"

text \<open>A mask is its paths, nil is \<open>None\<close>; \<open>pbnorm\<close> is the method \<open>Normalize\<close> of the protobuf library.\<close>

definition fs_NormalizeFieldMaskPaths :: "(string list \<Rightarrow> string list) \<Rightarrow> string list option \<Rightarrow> string list option" where
  "fs_NormalizeFieldMaskPaths pbnorm fm =
     (case fm of
        None \<Rightarrow> None
      | Some paths \<Rightarrow> if paths = [] then Some paths else Some (fs_NormalizePaths (pbnorm paths)))"

definition fs_trim_bq :: "string \<Rightarrow> string" where
  "fs_trim_bq s = rev (dropWhile (\<lambda>c. c = fs_bq) (rev (dropWhile (\<lambda>c. c = fs_bq) s)))"

text \<open>The keys of the set.\<close>

definition fs_MaskSet :: "string list option \<Rightarrow> string list" where
  "fs_MaskSet fm =
     (case fm of None \<Rightarrow> [] | Some paths \<Rightarrow> map (\<lambda>p. go_Join (map fs_trim_bq (go_Split p ''.'')) ''.'') paths)"

fun fs_select :: "string list \<Rightarrow> 'v ch_builder \<Rightarrow> 'v ch_builder option" where
  "fs_select [] qb = Some qb"
| "fs_select (field # flds) qb =
     (if field = '''' then fs_select flds qb
      else case qb_Select [field] qb of None \<Rightarrow> None | Some qb \<Rightarrow> fs_select flds qb)"

definition fs_BuildSelector :: "string list \<Rightarrow> 'v ch_builder \<Rightarrow> 'v ch_builder option" where
  "fs_BuildSelector flds qb = (if flds = [] then Some qb else fs_select (fs_NormalizePaths flds) qb)"

section \<open>Paginators\<close>

text \<open>
  \<open>crud/clickhouse/pagination\<close>. A paginator keeps one \<open>impl\<close> for the life of the repository; \<open>BuildClause\<close> first writes the
  request into it (\<open>_write\<close>) and then reads the clause back (\<open>_read\<close>), without a lock.
\<close>

definition cp_page :: "int \<Rightarrow> int \<Rightarrow> 'v ch_builder \<Rightarrow> 'v ch_builder" where
  "cp_page li off qb =
     (if li \<le> 0 then qb else if off > 0 then qb_Limit li (qb_Offset off qb) else qb_Limit li qb)"

definition cp_offset_write :: "pg_vars \<Rightarrow> int \<Rightarrow> int \<Rightarrow> op \<Rightarrow> op" where
  "cp_offset_write G off limit impl = op_WithLimit G limit (op_WithOffset off impl)"

definition cp_offset_read :: "op \<Rightarrow> 'v ch_builder \<Rightarrow> 'v ch_builder" where
  "cp_offset_read impl qb = cp_page (op_Limit impl) (op_Offset impl) qb"

definition cp_OffsetBuildClause :: "pg_vars \<Rightarrow> int \<Rightarrow> int \<Rightarrow> 'v ch_builder \<Rightarrow> op \<Rightarrow> 'v ch_builder \<times> op" where
  "cp_OffsetBuildClause G off limit qb impl =
     (let impl = cp_offset_write G off limit impl in (cp_offset_read impl qb, impl))"

definition cp_page_write :: "pg_vars \<Rightarrow> int \<Rightarrow> int \<Rightarrow> pp \<Rightarrow> pp" where
  "cp_page_write G page sz impl = pp_WithSize G sz (pp_WithPage page impl)"

definition cp_page_read :: "pp \<Rightarrow> 'v ch_builder \<Rightarrow> 'v ch_builder" where
  "cp_page_read impl qb = cp_page (pp_Limit impl) (pp_Offset impl) qb"

definition cp_PageBuildClause :: "pg_vars \<Rightarrow> int \<Rightarrow> int \<Rightarrow> 'v ch_builder \<Rightarrow> pp \<Rightarrow> 'v ch_builder \<times> pp" where
  "cp_PageBuildClause G page sz qb impl =
     (let impl = cp_page_write G page sz impl in (cp_page_read impl qb, impl))"

text \<open>\<open>decode\<close> is \<open>VerifyAndDecode\<close> with the process-wide secret.\<close>

definition cp_token_write :: "pg_vars \<Rightarrow> string \<Rightarrow> int \<Rightarrow> tp \<Rightarrow> tp" where
  "cp_token_write G token pageSize impl = tp_WithSize G pageSize (tp_WithToken token impl)"

definition cp_token_read :: "(string \<Rightarrow> int \<times> bool) \<Rightarrow> string \<Rightarrow> tp \<Rightarrow> 'v ch_builder \<Rightarrow> 'v ch_builder option" where
  "cp_token_read decode token impl qb =
     (let sz = tp_Size impl
      in if sz \<le> 0 then Some qb
         else if token = '''' then Some (qb_Limit sz qb)
         else let (lastID, ok) = decode token
              in if \<not> ok then Some (qb_Limit sz qb) else qb_Where ''id > ?'' [ChInt lastID] (qb_Limit sz qb))"

definition cp_TokenBuildClause ::
  "pg_vars \<Rightarrow> (string \<Rightarrow> int \<times> bool) \<Rightarrow> string \<Rightarrow> int \<Rightarrow> 'v ch_builder \<Rightarrow> tp \<Rightarrow> 'v ch_builder option \<times> tp" where
  "cp_TokenBuildClause G decode token pageSize qb impl =
     (let impl = cp_token_write G token pageSize impl in (cp_token_read decode token impl qb, impl))"

section \<open>Lemmas\<close>

lemma contains_char: "go_Contains s [c] \<longleftrightarrow> c \<in> set s"
  by (auto simp: go_Contains_def sublist_def in_set_conv_decomp)

lemma contains_dashes: "go_Contains s ''--'' \<Longrightarrow> CHR ''-'' \<in> set s"
  by (auto simp: go_Contains_def sublist_def)

lemma qb_validI: "CHR '';'' \<notin> set s \<Longrightarrow> CHR ''-'' \<notin> set s \<Longrightarrow> qb_isValidCondition s"
  using contains_dashes by (auto simp: qb_isValidCondition_def contains_char)

lemma qb_tenant_valid [simp]: "qb_isValidCondition ''tenant_id = ?''" "qb_isValidCondition ''id > ?''"
  by (auto intro!: qb_validI)

lemma qb_Where_tenant [simp]:
  "qb_Where ''tenant_id = ?'' as qb =
     Some (qb\<lparr>qb_conditions := qb_conditions qb @ [''tenant_id = ?''], qb_params := qb_params qb @ as\<rparr>)"
  "qb_Where ''id > ?'' as qb =
     Some (qb\<lparr>qb_conditions := qb_conditions qb @ [''id > ?''], qb_params := qb_params qb @ as\<rparr>)"
  by (simp_all add: qb_Where_def)

text \<open>White listed names stay as they are when trimmed.\<close>

lemma keychar_plain: "fg_keychar c \<Longrightarrow> \<not> go_is_space c \<and> c \<noteq> CHR '';'' \<and> c \<noteq> CHR ''-'' \<and> c \<noteq> fs_bq"
  by (auto simp: fg_keychar_def fg_word_def fg_letter_def fg_digit_def go_is_space_def fs_bq_def Let_def)

lemma word_keychar: "fg_word c \<Longrightarrow> fg_keychar c"
  by (simp add: fg_keychar_def)

lemma dropWhile_none: "(\<And>c. c \<in> set s \<Longrightarrow> \<not> P c) \<Longrightarrow> dropWhile P s = s"
  by (cases s) auto

lemma trim_keychars: "list_all fg_keychar s \<Longrightarrow> go_TrimSpace s = s"
proof -
  assume "list_all fg_keychar s"
  then have "dropWhile go_is_space s = s" "dropWhile go_is_space (rev s) = rev s"
    by (auto intro!: dropWhile_none simp: list_all_iff keychar_plain)
  then show ?thesis by (simp add: go_TrimSpace_def)
qed

lemma ident_keychars: "identifierPattern s \<Longrightarrow> list_all fg_keychar s"
  by (auto simp: identifierPattern_def list_all_iff word_keychar)

lemma go_split_plain: "CHR ''.'' \<notin> set s \<Longrightarrow> go_split ''.'' acc 0 s = [acc @ s]"
  by (induction s arbitrary: acc) auto

lemma fs_esc: "identifierPattern p \<Longrightarrow> concat (map (\<lambda>c. if c = fs_bq then [fs_bq, fs_bq] else [c]) p) = p"
proof -
  assume "identifierPattern p"
  then have "\<And>c. c \<in> set p \<Longrightarrow> c \<noteq> fs_bq" using ident_keychars keychar_plain by (auto simp: list_all_iff)
  then show ?thesis by (induction p) auto
qed

text \<open>A normalised path is empty or an identifier in back quotes.\<close>

lemma fs_NormalizePath_cases:
  "fs_NormalizePath f = '''' \<or> (\<exists>p. identifierPattern p \<and> fs_NormalizePath f = [fs_bq] @ p @ [fs_bq])"
  by (auto simp: fs_NormalizePath_def Let_def fs_esc split: list.splits)

lemma bq_ident:
  assumes "identifierPattern p"
  shows "go_TrimSpace ([fs_bq] @ p @ [fs_bq]) = [fs_bq] @ p @ [fs_bq]" "\<not> identifierPattern ([fs_bq] @ p @ [fs_bq])"
    "qb_isValidIdentifier ([fs_bq] @ p @ [fs_bq])"
proof -
  show t: "go_TrimSpace ([fs_bq] @ p @ [fs_bq]) = [fs_bq] @ p @ [fs_bq]"
    by (simp add: go_TrimSpace_def go_is_space_def fs_bq_def)
  show "\<not> identifierPattern ([fs_bq] @ p @ [fs_bq])"
    by (simp add: identifierPattern_def fg_letter_def fg_word_def fg_digit_def fs_bq_def)
  show "qb_isValidIdentifier ([fs_bq] @ p @ [fs_bq])"
    unfolding qb_isValidIdentifier_def t using assms by (simp add: fs_bq_def suffix_def butlast_append)
qed

lemma fs_Normalize_twice: "fs_NormalizePath (fs_NormalizePath f) = ''''"
  using fs_NormalizePath_cases[of f]
proof
  assume "\<exists>p. identifierPattern p \<and> fs_NormalizePath f = [fs_bq] @ p @ [fs_bq]"
  then obtain p where p: "identifierPattern p" "fs_NormalizePath f = [fs_bq] @ p @ [fs_bq]" by blast
  let ?q = "[fs_bq] @ p @ [fs_bq]"
  have "\<not> fg_word (CHR ''.'')" by (simp add: fg_word_def fg_letter_def fg_digit_def)
  then have "CHR ''.'' \<notin> set p" using p(1) by (auto simp: identifierPattern_def list_all_iff)
  then have "go_Split ?q ''.'' = [?q]" using go_split_plain[of ?q "[]"] by (simp add: go_Split_def fs_bq_def)
  then have "fs_NormalizePath ?q = ''''" using bq_ident(1,2)[OF p(1)] by (simp add: fs_NormalizePath_def Let_def)
  then show ?thesis using p(2) by simp
qed (simp add: fs_NormalizePath_def go_TrimSpace_def)

lemma fs_select_ok: "\<exists>cols. fs_select (map fs_NormalizePath ps) qb = Some (qb\<lparr>qb_columns := qb_columns qb @ cols\<rparr>) \<and>
   list_all (\<lambda>c. \<exists>p. identifierPattern p \<and> c = [fs_bq] @ p @ [fs_bq]) cols"
proof (induction ps arbitrary: qb)
  case (Cons f ps)
  show ?case
  proof (cases "fs_NormalizePath f = ''''")
    case False
    then obtain p where p: "identifierPattern p" "fs_NormalizePath f = [fs_bq] @ p @ [fs_bq]"
      using fs_NormalizePath_cases by blast
    obtain cols where "fs_select (map fs_NormalizePath ps) (qb\<lparr>qb_columns := qb_columns qb @ [fs_NormalizePath f]\<rparr>) =
        Some (qb\<lparr>qb_columns := (qb_columns qb @ [fs_NormalizePath f]) @ cols\<rparr>)"
        "list_all (\<lambda>c. \<exists>p. identifierPattern p \<and> c = [fs_bq] @ p @ [fs_bq]) cols"
      using Cons.IH[of "qb\<lparr>qb_columns := qb_columns qb @ [fs_NormalizePath f]\<rparr>"] by auto
    then show ?thesis using p False bq_ident(3)[OF p(1)]
      by (intro exI[of _ "fs_NormalizePath f # cols"]) auto
  qed (use Cons.IH in simp)
qed (auto intro: exI[of _ "[]"])

lemma keychars_dash: "list_all fg_keychar s \<Longrightarrow> CHR '';'' \<notin> set s \<and> CHR ''-'' \<notin> set s"
  using keychar_plain by (auto simp: list_all_iff)

lemma splitDot_ident: "ss_fieldName f \<Longrightarrow> qb_isValidIdentifier (fst (ch_SplitDot f))"
proof -
  assume f: "ss_fieldName f"
  let ?p = "takeWhile (\<lambda>c. c \<noteq> CHR ''.'') f"
  have "hd f \<noteq> CHR ''.''" using f by (auto simp: ss_fieldName_def fg_letter_def)
  then have h: "?p \<noteq> []" "hd ?p = hd f" using f by (cases f; auto simp: ss_fieldName_def)+
  have "list_all fg_word ?p" using f set_takeWhileD[of _ "\<lambda>c. c \<noteq> CHR ''.''" f]
    by (fastforce simp: ss_fieldName_def list_all_iff fg_keychar_def)
  then have i: "identifierPattern ?p" using f h by (simp add: identifierPattern_def ss_fieldName_def)
  have "fs_bq \<notin> set ?p" using ident_keychars[OF i] keychar_plain by (auto simp: list_all_iff)
  then have "\<not> prefix ''`'' ?p" by (cases ?p) (auto simp: fs_bq_def)
  then show ?thesis using i h(1) trim_keychars[OF ident_keychars[OF i]]
    by (simp add: qb_isValidIdentifier_def ch_SplitDot_def)
qed

lemma ss_order_ok: "\<exists>os. ss_order snake o1 qb = Some (qb\<lparr>qb_orderBy := qb_orderBy qb @ os\<rparr>)"
proof -
  let ?f = "go_TrimSpace (fst o1)"
  show ?thesis
  proof (cases "ss_fieldName ?f")
    case True
    then have k: "list_all fg_keychar ?f" "?f \<noteq> ''''" by (auto simp: ss_fieldName_def)
    then show ?thesis using trim_keychars[OF k(1)] keychars_dash[OF k(1)] contains_dashes[of ?f] True splitDot_ident[OF True]
      by (auto simp: ss_order_def qb_OrderBy_def Let_def contains_char split: prod.splits)
  qed (auto simp: ss_order_def Let_def intro: exI[of _ "[]"])
qed

lemma ss_Build_ok: "\<exists>os. ss_BuildOrderClause snake orders qb = Some (qb\<lparr>qb_orderBy := qb_orderBy qb @ os\<rparr>)"
proof -
  have "\<exists>os. fold_opt (ss_order snake) orders qb = Some (qb\<lparr>qb_orderBy := qb_orderBy qb @ os\<rparr>)"
  proof (induction orders arbitrary: qb)
    case (Cons o1 orders)
    obtain os where os: "ss_order snake o1 qb = Some (qb\<lparr>qb_orderBy := qb_orderBy qb @ os\<rparr>)" using ss_order_ok by blast
    show ?case using Cons.IH[of "qb\<lparr>qb_orderBy := qb_orderBy qb @ os\<rparr>"] os by fastforce
  qed (auto intro: exI[of _ "[]"])
  then show ?thesis by (auto simp: ss_BuildOrderClause_def intro: exI[of _ "[]"])
qed

section \<open>The guards\<close>

definition ch_guard :: "go_ctx \<Rightarrow> 'v ch_builder \<Rightarrow> vw_error + 'v ch_builder" where
  "ch_guard ctx qb = (case ch_InjectTenantFilterIntoBuilder True ctx qb of Some r \<Rightarrow> r | None \<Rightarrow> Inl ErrMissingViewer)"

text \<open>The conditions of a builder are joined by AND; \<open>A\<close> are the atoms of the caller.\<close>

definition ch_holds ::
  "(string \<Rightarrow> 'v ch_arg list \<Rightarrow> bool) \<Rightarrow> (string \<Rightarrow> 'v ch_arg list \<Rightarrow> bool) \<Rightarrow> 'v ch_builder \<Rightarrow> bool \<Rightarrow> bool" where
  "ch_holds A w qb b \<longleftrightarrow> (\<exists>bs. sq_list (\<lambda>q as. A q as \<or> q = ''tenant_id = ?'') w (qb_conditions qb) (qb_params qb) bs \<and>
     b = list_all (\<lambda>b. b) bs)"

lemma ch_holds_add:
  assumes "ch_holds A w qb b" "A p as \<or> p = ''tenant_id = ?''"
  shows "ch_holds A w (qb\<lparr>qb_conditions := qb_conditions qb @ [p], qb_params := qb_params qb @ as\<rparr>) (b \<and> w p as)"
proof -
  let ?A = "\<lambda>q as. A q as \<or> q = ''tenant_id = ?''"
  obtain bs where bs: "sq_list ?A w (qb_conditions qb) (qb_params qb) bs" "b = list_all (\<lambda>b. b) bs"
    using assms(1) by (auto simp: ch_holds_def)
  have "sq_and ?A w p as (w p as)" by (rule sq_and1, rule sq_leaf, rule assms(2))
  then have "sq_list ?A w [p] (as @ []) [w p as]" by (intro sq_Cons sq_Nil)
  from sq_list_append[OF bs(1) this] show ?thesis using bs(2) unfolding ch_holds_def
    by (intro exI[of _ "bs @ [w p as]"]) simp
qed

interpretation chq: tenant_guard ch_guard "ch_holds A" "\<lambda>w t. w ''tenant_id = ?'' [ChUint t]"
  for A :: "string \<Rightarrow> 'v ch_arg list \<Rightarrow> bool"
proof
  fix ctx and q :: "'v ch_builder" and t w b
  assume "vw_view ctx = VwTenant t" "ch_holds A w q b"
  then show "\<exists>q' b'. ch_guard ctx q = Inr q' \<and> ch_holds A w q' b' \<and> (b' \<longrightarrow> w ''tenant_id = ?'' [ChUint t]) \<and>
      (b \<and> w ''tenant_id = ?'' [ChUint t] \<longrightarrow> b')"
    using ch_holds_add[of A w q b "''tenant_id = ?''" "[ChUint t]"]
    by (auto simp: ch_guard_def ch_InjectTenantFilterIntoBuilder_def vw_Enforce_view)
qed (auto simp: ch_guard_def ch_InjectTenantFilterIntoBuilder_def vw_Enforce_view ed_none_def)

text \<open>
  The guard of \<open>Count\<close> and \<open>Exists\<close> does not isolate tenants. It appends the tenant to the caller's condition without
  parentheses, so for a condition \<open>p OR q\<close> the text is, by the usual precedences, true of every row with \<open>p\<close>,
  whoever owns it.
\<close>

theorem ch_baseWhere_or_escapes:
  assumes "vw_view ctx = VwTenant t" "A p as" "A q bs" "go_TrimSpace (p @ '' OR '' @ q) = p @ '' OR '' @ q"
    "\<not> prefix ''WHERE'' (go_ToUpper (p @ '' OR '' @ q))"
  shows "\<exists>cond. ch_InjectTenantFilterIntoBaseWhere True ctx (p @ '' OR '' @ q) (as @ bs) =
      Inr (''WHERE '' @ cond, as @ bs @ [ChUint t]) \<and>
    (\<forall>w. sq_or (\<lambda>q as. A q as \<or> q = ''tenant_id = ?'') w cond (as @ bs @ [ChUint t])
      (w p as \<or> w q bs \<and> w ''tenant_id = ?'' [ChUint t]))"
proof -
  let ?A = "\<lambda>q as. A q as \<or> q = ''tenant_id = ?''" and ?t = "''tenant_id = ?''"
  have leaf: "sq_and ?A w c cs (w c cs)" if "A c cs \<or> c = ?t" for w c cs by (rule sq_and1, rule sq_leaf, rule that)
  have "sq_or ?A w (p @ '' OR '' @ q @ '' AND '' @ ?t) (as @ bs @ [ChUint t]) (w p as \<or> w q bs \<and> w ?t [ChUint t])" for w
    by (intro sq_disj sq_conj sq_or1 leaf) (use assms(2,3) in auto)
  moreover have "ch_InjectTenantFilterIntoBaseWhere True ctx (p @ '' OR '' @ q) (as @ bs) =
      Inr (''WHERE '' @ p @ '' OR '' @ q @ '' AND '' @ ?t, as @ bs @ [ChUint t])"
    using assms(1,4,5) by (simp add: ch_InjectTenantFilterIntoBaseWhere_def vw_Enforce_view Let_def)
  ultimately show ?thesis by blast
qed

theorem ch_baseWhere_or_escapes_witness:
  "\<exists>cond. ch_InjectTenantFilterIntoBaseWhere True (CtxViewer (Some (vw_NewUserContext 1 7 0 [] [])) CtxBackground)
      ''a = ? OR b = ?'' [ChStr ''x'', ChStr ''y''] =
        (Inr (''WHERE '' @ cond, [ChStr ''x'', ChStr ''y'', ChUint 7]) :: vw_error + string \<times> unit ch_arg list) \<and>
    (\<forall>w. sq_or (\<lambda>q as. True \<or> q = ''tenant_id = ?'') w cond [ChStr ''x'', ChStr ''y'', ChUint 7 :: unit ch_arg]
      (w ''a = ?'' [ChStr ''x''] \<or> w ''b = ?'' [ChStr ''y''] \<and> w ''tenant_id = ?'' [ChUint 7]))"
proof -
  let ?ctx = "CtxViewer (Some (vw_NewUserContext 1 7 0 [] [])) CtxBackground"
  have v: "vw_view ?ctx = VwTenant 7" by (simp add: vw_view_def vw_NewUserContext_def)
  have "go_TrimSpace (''a = ?'' @ '' OR '' @ ''b = ?'') = ''a = ?'' @ '' OR '' @ ''b = ?''"
    "\<not> prefix ''WHERE'' (go_ToUpper (''a = ?'' @ '' OR '' @ ''b = ?''))" by code_simp+
  from ch_baseWhere_or_escapes[where A = "\<lambda>_ _. True" and as = "[ChStr ''x'']" and bs = "[ChStr ''y'' :: unit ch_arg]", OF v _ _ this]
  show ?thesis by simp
qed

text \<open>A condition without OR at its top keeps the guard.\<close>

lemma ch_baseWhere_and:
  assumes "vw_view ctx = VwTenant t" "sq_and (\<lambda>q as. A q as \<or> q = ''tenant_id = ?'') w bw as b" "go_TrimSpace bw = bw" "bw \<noteq> ''''"
    "\<not> prefix ''WHERE'' (go_ToUpper bw)"
  shows "\<exists>cond. ch_InjectTenantFilterIntoBaseWhere True ctx bw as = Inr (''WHERE '' @ cond, as @ [ChUint t]) \<and>
    sq_and (\<lambda>q as. A q as \<or> q = ''tenant_id = ?'') w cond (as @ [ChUint t]) (b \<and> w ''tenant_id = ?'' [ChUint t])"
proof -
  let ?A = "\<lambda>q as. A q as \<or> q = ''tenant_id = ?''"
  have "sq_and ?A w ''tenant_id = ?'' [ChUint t] (w ''tenant_id = ?'' [ChUint t])" by (rule sq_and1, rule sq_leaf) simp
  from sq_conj[OF assms(2) this] show ?thesis using assms(1,3-5)
    by (intro exI[of _ "bw @ '' AND tenant_id = ?''"])
      (simp add: ch_InjectTenantFilterIntoBaseWhere_def vw_Enforce_view Let_def)
qed

text \<open>
  A column whose name starts with the letters of WHERE is taken for the keyword, and the statement lacks it.
\<close>

lemma ch_where_column: "ch_InjectTenantFilterIntoBaseWhere True (CtxViewer (Some (vw_NewUserContext 1 7 0 [] [])) CtxBackground)
    ''whereabouts = ?'' [a] = Inr (''whereabouts = ? AND tenant_id = ?'', [a, ChUint 7])"
proof -
  have "go_TrimSpace ''whereabouts = ?'' = ''whereabouts = ?''" "prefix ''WHERE'' (go_ToUpper ''whereabouts = ?'')"
    by code_simp+
  then show ?thesis
    by (simp add: ch_InjectTenantFilterIntoBaseWhere_def vw_Enforce_view vw_view_def vw_NewUserContext_def Let_def)
qed

text \<open>
  Two requests that share the repository: when the second writes its page before the first reads, the first gets the page of
  the second.
\<close>

lemma cp_race:
  "cp_offset_read (cp_offset_write G off2 limit2 (cp_offset_write G off1 limit1 impl)) qb1 =
     fst (cp_OffsetBuildClause G off2 limit2 qb1 impl)"
  by (simp add: cp_OffsetBuildClause_def cp_offset_read_def cp_offset_write_def op_WithLimit_def op_WithOffset_def
      op_Limit_def op_Offset_def Let_def)

end
