(* ===== verification/Ch_Filter.thy ===== *)
theory Ch_Filter
  imports Ch_Query
begin

text \<open>
  \<open>crud/clickhouse/filter\<close>: the operators on a builder (\<open>Processor\<close>) and the structured filter that the repository uses.
  The white lists are those of \<^theory_text>\<open>Sql_Text\<close>. \<open>codec\<close> is the JSON codec: the decoded array, or \<open>None\<close> for an error.
\<close>

section \<open>The processor\<close>

definition cf_isValidIdentifier :: "string \<Rightarrow> bool" where
  "cf_isValidIdentifier identifier = identifierPattern (go_TrimSpace identifier)"

record cf_env =
  cf_snake :: "string \<Rightarrow> string"
  cf_codec :: "string \<Rightarrow> json list option"

definition cf_colExpr :: "cf_env \<Rightarrow> string \<Rightarrow> string" where
  "cf_colExpr E field =
     (let field = go_TrimSpace field
      in if field = '''' then ''''
         else if go_Contains field ''.'' then
           (let parts = go_Split field ''.''; col = cf_snake E (hd parts); jsonKey = go_Join (tl parts) ''.''
            in if \<not> cf_isValidIdentifier col then ''''
               else if \<not> jsonKeyPattern jsonKey then col
               else ch_json col jsonKey)
         else let col = cf_snake E field in if \<not> cf_isValidIdentifier col then '''' else col)"

definition cf_appendWhere :: "string \<Rightarrow> 'v ch_arg list \<Rightarrow> 'v ch_builder \<Rightarrow> 'v ch_builder option" where
  "cf_appendWhere expr args qb = (if expr = '''' then Some qb else qb_Where expr args qb)"

text \<open>The test of the column that every operator starts with.\<close>

definition cf_on :: "cf_env \<Rightarrow> string \<Rightarrow> (string \<Rightarrow> 'v ch_builder option) \<Rightarrow> 'v ch_builder \<Rightarrow> 'v ch_builder option" where
  "cf_on E field f qb = (let col = cf_colExpr E field in if col = '''' then Some qb else f col)"

definition cf_Equal :: "cf_env \<Rightarrow> string \<Rightarrow> string \<Rightarrow> 'v ch_builder \<Rightarrow> 'v ch_builder option" where
  "cf_Equal E field v qb = cf_on E field (\<lambda>col. cf_appendWhere (col @ '' = ?'') [ChStr v] qb) qb"

definition cf_NotEqual :: "cf_env \<Rightarrow> string \<Rightarrow> string \<Rightarrow> 'v ch_builder \<Rightarrow> 'v ch_builder option" where
  "cf_NotEqual E field v qb = cf_on E field (\<lambda>col. cf_appendWhere (col @ '' != ?'') [ChStr v] qb) qb"

definition cf_marks :: "nat \<Rightarrow> string" where
  "cf_marks n = go_Join (replicate n ''?'') '',''"

text \<open>The pieces of a comma separated value, without the empty ones.\<close>

definition cf_pieces :: "string \<Rightarrow> string list" where
  "cf_pieces v = filter (\<lambda>p. p \<noteq> '''') (map go_TrimSpace (go_Split v '',''))"

definition cf_In :: "cf_env \<Rightarrow> string \<Rightarrow> string \<Rightarrow> string list \<Rightarrow> 'v ch_builder \<Rightarrow> 'v ch_builder option" where
  "cf_In E field v vs qb = cf_on E field (\<lambda>col.
     let others = (if vs \<noteq> [] then cf_appendWhere (col @ '' IN ('' @ cf_marks (length vs) @ '')'') (map ChStr vs) qb else Some qb)
     in if v \<noteq> '''' then
          (case cf_codec E v of
             Some arr \<Rightarrow>
               if arr = [] then cf_appendWhere ''1 = 0'' [] qb
               else cf_appendWhere (col @ '' IN ('' @ cf_marks (length arr) @ '')'') (map ChJson arr) qb
           | None \<Rightarrow>
               if go_Contains v '','' then
                 (let args = cf_pieces v
                  in if args = [] then cf_appendWhere ''1 = 0'' [] qb
                     else cf_appendWhere (col @ '' IN ('' @ cf_marks (length args) @ '')'') (map ChStr args) qb)
               else others)
        else others) qb"

definition cf_NotIn :: "cf_env \<Rightarrow> string \<Rightarrow> string \<Rightarrow> string list \<Rightarrow> 'v ch_builder \<Rightarrow> 'v ch_builder option" where
  "cf_NotIn E field v vs qb = cf_on E field (\<lambda>col.
     let others = (if vs \<noteq> [] then cf_appendWhere (col @ '' NOT IN ('' @ cf_marks (length vs) @ '')'') (map ChStr vs) qb else Some qb)
     in if v \<noteq> '''' then
          (case cf_codec E v of
             Some arr \<Rightarrow>
               if arr = [] then Some qb
               else cf_appendWhere (col @ '' NOT IN ('' @ cf_marks (length arr) @ '')'') (map ChJson arr) qb
           | None \<Rightarrow>
               if go_Contains v '','' then
                 (let args = cf_pieces v
                  in if args = [] then cf_appendWhere ''1 = 0'' [] qb
                     else cf_appendWhere (col @ '' IN ('' @ cf_marks (length args) @ '')'') (map ChStr args) qb)
               else others)
        else others) qb"

definition cf_GTE :: "cf_env \<Rightarrow> string \<Rightarrow> string \<Rightarrow> 'v ch_builder \<Rightarrow> 'v ch_builder option" where
  "cf_GTE E field v qb = cf_on E field (\<lambda>col. cf_appendWhere (col @ '' >= ?'') [ChStr v] qb) qb"

definition cf_GT :: "cf_env \<Rightarrow> string \<Rightarrow> string \<Rightarrow> 'v ch_builder \<Rightarrow> 'v ch_builder option" where
  "cf_GT E field v qb = cf_on E field (\<lambda>col. cf_appendWhere (col @ '' > ?'') [ChStr v] qb) qb"

definition cf_LTE :: "cf_env \<Rightarrow> string \<Rightarrow> string \<Rightarrow> 'v ch_builder \<Rightarrow> 'v ch_builder option" where
  "cf_LTE E field v qb = cf_on E field (\<lambda>col. cf_appendWhere (col @ '' <= ?'') [ChStr v] qb) qb"

definition cf_LT :: "cf_env \<Rightarrow> string \<Rightarrow> string \<Rightarrow> 'v ch_builder \<Rightarrow> 'v ch_builder option" where
  "cf_LT E field v qb = cf_on E field (\<lambda>col. cf_appendWhere (col @ '' < ?'') [ChStr v] qb) qb"

text \<open>The two parts around the first comma.\<close>

definition cf_comma :: "string \<Rightarrow> string \<times> string" where
  "cf_comma s = (takeWhile (\<lambda>c. c \<noteq> CHR '','') s, tl (dropWhile (\<lambda>c. c \<noteq> CHR '','') s))"

definition cf_Range :: "cf_env \<Rightarrow> string \<Rightarrow> string \<Rightarrow> string list \<Rightarrow> 'v ch_builder \<Rightarrow> 'v ch_builder option" where
  "cf_Range E field v vs qb = cf_on E field (\<lambda>col.
     let between = col @ '' BETWEEN ? AND ?'';
         others = (case vs of
                     [a, b] \<Rightarrow> cf_appendWhere between [ChStr a, ChStr b] qb
                   | _ \<Rightarrow> if v \<noteq> '''' then cf_appendWhere (col @ '' = ?'') [ChStr v] qb else Some qb)
     in if v \<noteq> '''' then
          (case cf_codec E v of
             Some [a, b] \<Rightarrow> cf_appendWhere between [ChJson a, ChJson b] qb
           | Some _ \<Rightarrow> others
           | None \<Rightarrow>
               if go_Contains v '',''
               then (case cf_comma v of (a, b) \<Rightarrow>
                       cf_appendWhere between [ChStr (go_TrimSpace a), ChStr (go_TrimSpace b)] qb)
               else others)
        else others) qb"

definition cf_IsNull :: "cf_env \<Rightarrow> string \<Rightarrow> 'v ch_builder \<Rightarrow> 'v ch_builder option" where
  "cf_IsNull E field qb = cf_on E field (\<lambda>col. cf_appendWhere (col @ '' IS NULL'') [] qb) qb"

definition cf_IsNotNull :: "cf_env \<Rightarrow> string \<Rightarrow> 'v ch_builder \<Rightarrow> 'v ch_builder option" where
  "cf_IsNotNull E field qb = cf_on E field (\<lambda>col. cf_appendWhere (col @ '' IS NOT NULL'') [] qb) qb"

definition cf_Contains :: "cf_env \<Rightarrow> string \<Rightarrow> string \<Rightarrow> 'v ch_builder \<Rightarrow> 'v ch_builder option" where
  "cf_Contains E field v qb =
     cf_on E field (\<lambda>col. cf_appendWhere (col @ '' LIKE ?'') [ChStr (''%'' @ v @ ''%'')] qb) qb"

definition cf_InsensitiveContains :: "cf_env \<Rightarrow> string \<Rightarrow> string \<Rightarrow> 'v ch_builder \<Rightarrow> 'v ch_builder option" where
  "cf_InsensitiveContains E field v qb =
     cf_on E field (\<lambda>col. cf_appendWhere (''lower('' @ col @ '') LIKE lower(?)'') [ChStr (''%'' @ v @ ''%'')] qb) qb"

definition cf_StartsWith :: "cf_env \<Rightarrow> string \<Rightarrow> string \<Rightarrow> 'v ch_builder \<Rightarrow> 'v ch_builder option" where
  "cf_StartsWith E field v qb = cf_on E field (\<lambda>col. cf_appendWhere (col @ '' LIKE ?'') [ChStr (v @ ''%'')] qb) qb"

definition cf_InsensitiveStartsWith :: "cf_env \<Rightarrow> string \<Rightarrow> string \<Rightarrow> 'v ch_builder \<Rightarrow> 'v ch_builder option" where
  "cf_InsensitiveStartsWith E field v qb =
     cf_on E field (\<lambda>col. cf_appendWhere (''lower('' @ col @ '') LIKE lower(?)'') [ChStr (v @ ''%'')] qb) qb"

definition cf_EndsWith :: "cf_env \<Rightarrow> string \<Rightarrow> string \<Rightarrow> 'v ch_builder \<Rightarrow> 'v ch_builder option" where
  "cf_EndsWith E field v qb = cf_on E field (\<lambda>col. cf_appendWhere (col @ '' LIKE ?'') [ChStr (''%'' @ v)] qb) qb"

definition cf_InsensitiveEndsWith :: "cf_env \<Rightarrow> string \<Rightarrow> string \<Rightarrow> 'v ch_builder \<Rightarrow> 'v ch_builder option" where
  "cf_InsensitiveEndsWith E field v qb =
     cf_on E field (\<lambda>col. cf_appendWhere (''lower('' @ col @ '') LIKE lower(?)'') [ChStr (''%'' @ v)] qb) qb"

definition cf_Exact :: "cf_env \<Rightarrow> string \<Rightarrow> string \<Rightarrow> 'v ch_builder \<Rightarrow> 'v ch_builder option" where
  "cf_Exact E field v qb = cf_on E field (\<lambda>col. cf_appendWhere (col @ '' = ?'') [ChStr v] qb) qb"

definition cf_InsensitiveExact :: "cf_env \<Rightarrow> string \<Rightarrow> string \<Rightarrow> 'v ch_builder \<Rightarrow> 'v ch_builder option" where
  "cf_InsensitiveExact E field v qb =
     cf_on E field (\<lambda>col. cf_appendWhere (''lower('' @ col @ '') = lower(?)'') [ChStr v] qb) qb"

definition cf_Regex :: "cf_env \<Rightarrow> string \<Rightarrow> string \<Rightarrow> 'v ch_builder \<Rightarrow> 'v ch_builder option" where
  "cf_Regex E field v qb =
     (if go_TrimSpace v = '''' then Some qb
      else cf_on E field (\<lambda>col. cf_appendWhere (''match('' @ col @ '', ?)'') [ChStr v] qb) qb)"

definition cf_InsensitiveRegex :: "cf_env \<Rightarrow> string \<Rightarrow> string \<Rightarrow> 'v ch_builder \<Rightarrow> 'v ch_builder option" where
  "cf_InsensitiveRegex E field v qb =
     (if go_TrimSpace v = '''' then Some qb
      else cf_on E field (\<lambda>col. cf_appendWhere (''match(lower('' @ col @ ''), lower(?))'') [ChStr v] qb) qb)"

definition cf_Search :: "cf_env \<Rightarrow> string \<Rightarrow> string \<Rightarrow> 'v ch_builder \<Rightarrow> 'v ch_builder option" where
  "cf_Search E field v qb =
     (if go_TrimSpace v = '''' then Some qb
      else cf_on E field (\<lambda>col. cf_appendWhere (col @ '' LIKE ?'') [ChStr (''%'' @ v @ ''%'')] qb) qb)"

definition cf_Process ::
  "cf_env \<Rightarrow> fe_op \<Rightarrow> string \<Rightarrow> string \<Rightarrow> string list \<Rightarrow> 'v ch_builder \<Rightarrow> 'v ch_builder option" where
  "cf_Process E op field v vs qb =
     (case op of
        EQ \<Rightarrow> cf_Equal E field v qb
      | NEQ \<Rightarrow> cf_NotEqual E field v qb
      | IN \<Rightarrow> cf_In E field v vs qb
      | NIN \<Rightarrow> cf_NotIn E field v vs qb
      | GTE \<Rightarrow> cf_GTE E field v qb
      | GT \<Rightarrow> cf_GT E field v qb
      | LTE \<Rightarrow> cf_LTE E field v qb
      | LT \<Rightarrow> cf_LT E field v qb
      | BETWEEN \<Rightarrow> cf_Range E field v vs qb
      | IS_NULL \<Rightarrow> cf_IsNull E field qb
      | IS_NOT_NULL \<Rightarrow> cf_IsNotNull E field qb
      | CONTAINS \<Rightarrow> cf_Contains E field v qb
      | ICONTAINS \<Rightarrow> cf_InsensitiveContains E field v qb
      | STARTS_WITH \<Rightarrow> cf_StartsWith E field v qb
      | ISTARTS_WITH \<Rightarrow> cf_InsensitiveStartsWith E field v qb
      | ENDS_WITH \<Rightarrow> cf_EndsWith E field v qb
      | IENDS_WITH \<Rightarrow> cf_InsensitiveEndsWith E field v qb
      | EXACT \<Rightarrow> cf_Exact E field v qb
      | IEXACT \<Rightarrow> cf_InsensitiveExact E field v qb
      | REGEXP \<Rightarrow> cf_Regex E field v qb
      | IREGEXP \<Rightarrow> cf_InsensitiveRegex E field v qb
      | SEARCH \<Rightarrow> cf_Search E field v qb
      | _ \<Rightarrow> Some qb)"

definition cf_DatePartField :: "cf_env \<Rightarrow> string \<Rightarrow> string \<Rightarrow> string" where
  "cf_DatePartField E datePart field =
     (if \<not> fe_IsValidDatePartString (cf_snake E) datePart \<or> go_TrimSpace field = '''' then ''''
      else let part = go_ToUpper datePart; col = cf_snake E field
           in if \<not> cf_isValidIdentifier col then '''' else part @ ''('' @ col @ '')'')"

definition cf_JsonbField :: "cf_env \<Rightarrow> string \<Rightarrow> string \<Rightarrow> string" where
  "cf_JsonbField E jsonbField field =
     (let field = cf_snake E (go_TrimSpace field)
      in if field = '''' \<or> go_TrimSpace jsonbField = '''' then ''''
         else if \<not> cf_isValidIdentifier field \<or> \<not> jsonKeyPattern jsonbField then ''''
         else ch_json field jsonbField)"

section \<open>The structured filter\<close>

datatype cf_error = CfInvalidField string | CfBuilderNil

definition cf_field :: "(string \<Rightarrow> string) \<Rightarrow> string \<Rightarrow> string option" where
  "cf_field snake field =
     (if go_Contains field ''.'' then
        (let (p0, jsonKey) = ch_SplitDot field; col = snake p0
         in if \<not> cf_isValidIdentifier col \<or> \<not> jsonKeyPattern jsonKey then None else Some (ch_json col jsonKey))
      else let col = snake field in if \<not> cf_isValidIdentifier col then None else Some col)"

definition cf_value :: "filter_cond \<Rightarrow> string" where
  "cf_value c = (case fc_Value c of FV_Value v \<Rightarrow> v | _ \<Rightarrow> '''')"

text \<open>The text and the arguments of an operator; \<open>None\<close> is the empty clause.\<close>

definition cf_clause :: "fe_op \<Rightarrow> string \<Rightarrow> string \<Rightarrow> string list \<Rightarrow> (string \<times> 'v ch_arg list) option" where
  "cf_clause op col val vs =
     (case op of
        EQ \<Rightarrow> Some (col @ '' = ?'', [ChStr val])
      | NEQ \<Rightarrow> Some (col @ '' != ?'', [ChStr val])
      | GT \<Rightarrow> Some (col @ '' > ?'', [ChStr val])
      | GTE \<Rightarrow> Some (col @ '' >= ?'', [ChStr val])
      | LT \<Rightarrow> Some (col @ '' < ?'', [ChStr val])
      | LTE \<Rightarrow> Some (col @ '' <= ?'', [ChStr val])
      | IS_NULL \<Rightarrow> Some (col @ '' IS NULL'', [])
      | IS_NOT_NULL \<Rightarrow> Some (col @ '' IS NOT NULL'', [])
      | IN \<Rightarrow>
          (let args = (if vs \<noteq> [] then vs else if val \<noteq> '''' then map go_TrimSpace (go_Split val '','') else [])
           in if args = [] then Some (''1 = 0'', [])
              else Some (col @ '' IN ('' @ cf_marks (length args) @ '')'', map ChStr args))
      | BETWEEN \<Rightarrow>
          (case vs of
             a # b # _ \<Rightarrow> Some (col @ '' BETWEEN ? AND ?'', [ChStr a, ChStr b])
           | _ \<Rightarrow>
               (case go_Split val '','' of
                  a # b # _ \<Rightarrow> Some (col @ '' BETWEEN ? AND ?'', [ChStr (go_TrimSpace a), ChStr (go_TrimSpace b)])
                | _ \<Rightarrow> Some (col @ '' = ?'', [ChStr val])))
      | CONTAINS \<Rightarrow> Some (col @ '' LIKE ?'', [ChStr (''%'' @ val @ ''%'')])
      | LIKE \<Rightarrow> Some (col @ '' LIKE ?'', [ChStr (''%'' @ val @ ''%'')])
      | STARTS_WITH \<Rightarrow> Some (col @ '' LIKE ?'', [ChStr (val @ ''%'')])
      | ENDS_WITH \<Rightarrow> Some (col @ '' LIKE ?'', [ChStr (''%'' @ val)])
      | _ \<Rightarrow> if val \<noteq> '''' then Some (col @ '' = ?'', [ChStr val]) else None)"

definition cf_buildCond :: "(string \<Rightarrow> string) \<Rightarrow> filter_cond \<Rightarrow> cf_error + (string \<times> 'v ch_arg list) option" where
  "cf_buildCond snake c =
     (case cf_field snake (fc_Field c) of
        None \<Rightarrow> Inl (CfInvalidField (fc_Field c))
      | Some col \<Rightarrow> Inr (cf_clause (fc_Op c) col (cf_value c) (fc_Values c)))"

fun cf_conds :: "(string \<Rightarrow> string) \<Rightarrow> filter_cond list \<Rightarrow> cf_error + (string \<times> 'v ch_arg list) list" where
  "cf_conds snake [] = Inr []"
| "cf_conds snake (c # cs) =
     (case cf_buildCond snake c of
        Inl e \<Rightarrow> Inl e
      | Inr r \<Rightarrow>
          (case cf_conds snake cs of
             Inl e \<Rightarrow> Inl e
           | Inr ps \<Rightarrow> Inr ((case r of None \<Rightarrow> [] | Some p \<Rightarrow> [p]) @ ps)))"

text \<open>
  \<open>buildParts\<close>, with the parts and their arguments as pairs. The error of a group is logged and the group skipped.
\<close>

definition cf_group :: "string \<Rightarrow> (string \<times> 'v ch_arg list) list \<Rightarrow> string \<times> 'v ch_arg list" where
  "cf_group sep ps = (''('' @ go_Join (map fst ps) sep @ '')'', concat (map snd ps))"

fun cf_buildParts :: "(string \<Rightarrow> string) \<Rightarrow> filter_expr \<Rightarrow> cf_error + (string \<times> 'v ch_arg list) list"
and cf_groups :: "(string \<Rightarrow> string) \<Rightarrow> filter_expr list \<Rightarrow> (string \<times> 'v ch_arg list) list" where
  "cf_buildParts snake (FilterExpr t cs gs) =
     (if t = ExprType_UNSPECIFIED then Inr []
      else case cf_conds snake cs of
             Inl e \<Rightarrow> Inl e
           | Inr ps \<Rightarrow>
               (let qs = ps @ cf_groups snake gs
                in if t = ExprType_AND then Inr qs
                   else if qs = [] then Inr [] else Inr [cf_group '' OR '' qs]))"
| "cf_groups snake [] = []"
| "cf_groups snake (g # gs) =
     (case cf_buildParts snake g of
        Inl e \<Rightarrow> cf_groups snake gs
      | Inr ps \<Rightarrow> (if ps = [] then [] else [cf_group '' AND '' ps]) @ cf_groups snake gs)"

definition cf_add :: "string \<times> 'v ch_arg list \<Rightarrow> 'v ch_builder \<Rightarrow> 'v ch_builder option" where
  "cf_add p qb = (if go_TrimSpace (fst p) = '''' then Some qb else qb_Where (fst p) (snd p) qb)"

text \<open>The builder and the expression may be nil; the result is a panic, an error or the builder.\<close>

definition cf_BuildSelectors ::
  "(string \<Rightarrow> string) \<Rightarrow> filter_expr option \<Rightarrow> 'v ch_builder option \<Rightarrow> (cf_error + 'v ch_builder) option" where
  "cf_BuildSelectors snake expr qb =
     (case qb of
        None \<Rightarrow> Some (Inl CfBuilderNil)
      | Some qb \<Rightarrow>
          (case expr of
             None \<Rightarrow> Some (Inr qb)
           | Some e \<Rightarrow>
               if fx_Type e = ExprType_UNSPECIFIED then Some (Inr qb)
               else case cf_buildParts snake e of
                      Inl err \<Rightarrow> Some (Inl err)
                    | Inr ps \<Rightarrow> map_option Inr (fold_opt cf_add ps qb)))"

section \<open>What the text can contain\<close>

text \<open>Harmless text with one mark per argument, without a dash, and not blank.\<close>

definition cf_fine :: "string \<times> 'v ch_arg list \<Rightarrow> bool" where
  "cf_fine p \<longleftrightarrow> fg_clean (length (snd p)) (fst p) \<and> CHR ''-'' \<notin> set (fst p) \<and> (\<exists>c \<in> set (fst p). \<not> go_is_space c)"

lemma not_blank: "(\<exists>c \<in> set s. \<not> go_is_space c) \<Longrightarrow> go_TrimSpace s \<noteq> ''''"
  using go_TrimSpace_decomp[of s] by (metis append_Nil)

lemma ident_space: "identifierPattern (go_TrimSpace s) \<Longrightarrow> c \<in> set s \<Longrightarrow> fg_keychar c \<or> go_is_space c"
  using go_TrimSpace_decomp[of s] ident_keychars[of "go_TrimSpace s"] unfolding list_all_iff
  by (metis (no_types) Un_iff set_append)

lemma cf_col_plain:
  assumes "cf_isValidIdentifier col"
  shows "fg_clean 0 col" "CHR ''-'' \<notin> set col"
proof -
  show "fg_clean 0 col" using assms fg_clean_trim fg_clean_ident by (auto simp: cf_isValidIdentifier_def)
  show "CHR ''-'' \<notin> set col"
  proof
    assume "CHR ''-'' \<in> set col"
    then have "fg_keychar (CHR ''-'') \<or> go_is_space (CHR ''-'')" using assms ident_space by (auto simp: cf_isValidIdentifier_def)
    then show False using keychar_plain[of "CHR ''-''"] by (auto simp: go_is_space_def)
  qed
qed

lemma cf_field_plain: "cf_field snake f = Some col \<Longrightarrow> fg_clean 0 col \<and> CHR ''-'' \<notin> set col"
proof (cases "go_Contains f ''.''")
  case True
  assume "cf_field snake f = Some col"
  then obtain c k where ck: "col = ch_json c k" "cf_isValidIdentifier c" "jsonKeyPattern k"
    using True by (auto simp: cf_field_def Let_def split: prod.splits if_splits)
  have "CHR ''-'' \<notin> set k" using ck(3) keychar_plain by (auto simp: jsonKeyPattern_def list_all_iff)
  then show ?thesis using ck(1) cf_col_plain[OF ck(2)] fg_clean_key[OF ck(3)]
    by (simp add: ch_json_def fg_clean_def fg_unsafe_def)
qed (auto simp: cf_field_def Let_def cf_col_plain split: if_splits)

lemma cf_marks_set: "set (cf_marks n) \<subseteq> {CHR ''?'', CHR '',''}" "count_list (cf_marks n) (CHR ''?'') = n"
proof -
  have "set (go_Join (replicate n ''?'') '','') \<subseteq> {CHR ''?'', CHR '',''} \<and> count_list (go_Join (replicate n ''?'') '','') (CHR ''?'') = n"
  proof (induction n)
    case (Suc n)
    then show ?case by (cases n) auto
  qed simp
  then show "set (cf_marks n) \<subseteq> {CHR ''?'', CHR '',''}" "count_list (cf_marks n) (CHR ''?'') = n" by (simp_all add: cf_marks_def)
qed

lemma cf_marks_plain: "fg_clean n (cf_marks n)" "CHR ''-'' \<notin> set (cf_marks n)"
proof -
  have "sq \<notin> set (cf_marks n)" using cf_marks_set(1)[of n] by auto
  moreover have "list_all (\<lambda>c. \<not> fg_unsafe c) (cf_marks n)"
    using cf_marks_set(1)[of n] by (auto simp: list_all_iff fg_unsafe_def)
  ultimately show "fg_clean n (cf_marks n)" using cf_marks_set(2) by (simp add: fg_clean_def count_list_0_iff)
  show "CHR ''-'' \<notin> set (cf_marks n)" using cf_marks_set(1)[of n] by auto
qed

lemma cf_fine_cond:
  assumes "cf_buildCond snake c = Inr (Some p)"
  shows "cf_fine p"
proof -
  obtain col where c: "cf_field snake (fc_Field c) = Some col" "cf_clause (fc_Op c) col (cf_value c) (fc_Values c) = Some p"
    using assms by (auto simp: cf_buildCond_def split: option.splits)
  have "fg_clean 0 col" "CHR ''-'' \<notin> set col" using cf_field_plain[OF c(1)] by auto
  then show ?thesis using c(2) cf_marks_plain
    by (cases "fc_Op c") (auto simp: cf_clause_def cf_fine_def fg_clean_def fg_unsafe_def go_is_space_def Let_def split: if_splits list.splits)
qed

lemma cf_join_plain:
  "list_all cf_fine ps \<Longrightarrow> fg_clean 0 sep \<Longrightarrow> CHR ''-'' \<notin> set sep \<Longrightarrow>
   fg_clean (length (concat (map snd ps))) (go_Join (map fst ps) sep) \<and> CHR ''-'' \<notin> set (go_Join (map fst ps) sep)"
proof (induction ps)
  case (Cons p ps)
  show ?case
  proof (cases ps)
    case Nil
    then show ?thesis using Cons.prems(1) by (simp add: cf_fine_def)
  next
    case (Cons q qs)
    then show ?thesis using Cons.IH Cons.prems fg_clean_append[OF _ fg_clean_append, of "length (snd p)" "fst p" 0 sep]
      by (simp add: cf_fine_def)
  qed
qed (simp add: fg_clean_def)

lemma cf_group_fine:
  assumes "list_all cf_fine ps" "sep = '' AND '' \<or> sep = '' OR ''"
  shows "cf_fine (cf_group sep ps)"
proof -
  have "fg_clean 0 sep" "CHR ''-'' \<notin> set sep" using assms(2) by (auto simp: fg_clean_def fg_unsafe_def)
  from cf_join_plain[OF assms(1) this] show ?thesis
    by (simp add: cf_group_def cf_fine_def fg_clean_def fg_unsafe_def go_is_space_def)
qed

lemma cf_conds_fine: "cf_conds snake cs = Inr ps \<Longrightarrow> list_all cf_fine ps"
  by (induction cs arbitrary: ps) (auto dest!: cf_fine_cond split: sum.splits option.splits)

lemma cf_parts_fine:
  "cf_buildParts snake e = Inr (ps :: (string \<times> 'v ch_arg list) list) \<Longrightarrow> list_all cf_fine ps"
  "list_all cf_fine (cf_groups snake gs :: (string \<times> 'v ch_arg list) list)"
proof (induction snake e and snake gs arbitrary: ps and rule: cf_buildParts_cf_groups.induct[where 'v = 'v])
  case (1 snake t cs gs)
  show ?case
  proof (cases "t = ExprType_UNSPECIFIED")
    case False
    obtain cps :: "(string \<times> 'v ch_arg list) list" where c: "cf_conds snake cs = Inr cps"
      using 1(2) False by (auto split: sum.splits)
    have "list_all cf_fine (cps @ cf_groups snake gs)" using 1(1)[OF False c] cf_conds_fine[OF c] by simp
    then show ?thesis using 1(2) c False by (auto simp: Let_def intro!: cf_group_fine split: if_splits)
  qed (use 1 in simp)
next
  case (3 snake g gs)
  then show ?case by (auto intro!: cf_group_fine split: sum.splits)
qed simp

lemma cf_add_fine:
  "cf_fine p \<Longrightarrow> cf_add p qb = Some (qb\<lparr>qb_conditions := qb_conditions qb @ [fst p], qb_params := qb_params qb @ snd p\<rparr>)"
proof -
  assume f: "cf_fine p"
  then have "CHR '';'' \<notin> set (fst p)" by (auto simp: cf_fine_def fg_clean_def list_all_iff fg_unsafe_def)
  then have "qb_isValidCondition (fst p)" using f by (intro qb_validI) (simp_all add: cf_fine_def)
  then show ?thesis using f not_blank[of "fst p"] by (simp add: cf_add_def qb_Where_def cf_fine_def)
qed

lemma cf_fold_fine:
  "list_all cf_fine ps \<Longrightarrow> fold_opt cf_add ps qb =
     Some (qb\<lparr>qb_conditions := qb_conditions qb @ map fst ps, qb_params := qb_params qb @ concat (map snd ps)\<rparr>)"
  by (induction ps arbitrary: qb) (simp_all add: cf_add_fine)

text \<open>
  \<open>BuildSelectors\<close> never panics, whatever the client sends: it returns an error, or adds conditions that are harmless text
  with a mark for each argument.
\<close>

lemma cf_BuildSelectors_cases:
  obtains e where "cf_BuildSelectors snake expr (Some qb) = Some (Inl e)"
    "\<exists>x. expr = Some x \<and> fx_Type x \<noteq> ExprType_UNSPECIFIED \<and> (cf_buildParts snake x :: cf_error + (string \<times> 'v ch_arg list) list) = Inl e"
  | ps where "cf_BuildSelectors snake expr (Some (qb :: 'v ch_builder)) = Some (Inr (qb\<lparr>qb_conditions := qb_conditions qb @ map fst ps,
      qb_params := qb_params qb @ concat (map snd ps)\<rparr>))" "list_all cf_fine ps"
    "case expr of None \<Rightarrow> ps = [] | Some x \<Rightarrow>
       if fx_Type x = ExprType_UNSPECIFIED then ps = [] else cf_buildParts snake x = Inr ps"
proof (cases expr)
  case None
  then show thesis using that(2)[of "[]"] by (simp add: cf_BuildSelectors_def)
next
  case (Some x)
  show thesis
  proof (cases "fx_Type x = ExprType_UNSPECIFIED")
    case True
    then show thesis using Some that(2)[of "[]"] by (simp add: cf_BuildSelectors_def)
  next
    case False
    show thesis
    proof (cases "cf_buildParts snake x :: cf_error + (string \<times> 'v ch_arg list) list")
      case (Inl e)
      then show thesis using Some False that(1)[of e] by (simp add: cf_BuildSelectors_def)
    next
      case (Inr ps)
      then show thesis using Some False that(2)[of ps] cf_parts_fine(1)[OF Inr] cf_fold_fine[of ps qb]
        by (simp add: cf_BuildSelectors_def)
    qed
  qed
qed

section \<open>What the text means\<close>

definition cf_atom :: "(string \<Rightarrow> string) \<Rightarrow> string \<Rightarrow> 'v ch_arg list \<Rightarrow> bool" where
  "cf_atom snake q as \<longleftrightarrow> (\<exists>c. cf_buildCond snake c = Inr (Some (q, as)))"

definition cf_holds :: "(string \<Rightarrow> string) \<Rightarrow> (string \<Rightarrow> 'v ch_arg list \<Rightarrow> bool) \<Rightarrow> filter_cond \<Rightarrow> bool" where
  "cf_holds snake w c = (case cf_buildCond snake c of Inr (Some (q, as)) \<Rightarrow> w q as | _ \<Rightarrow> True)"

text \<open>
  The expression as it is applied: without the conditions that have no clause, without groups of no type, without groups with
  a refused field, and without groups that are then empty. \<open>B\<close> is \<open>buildCond\<close>.
\<close>

definition fx_none :: "filter_expr \<Rightarrow> bool" where
  "fx_none e \<longleftrightarrow> fx_Conditions e = [] \<and> fx_Groups e = []"

definition cf_alive :: "(filter_cond \<Rightarrow> cf_error + 'p option) \<Rightarrow> filter_expr \<Rightarrow> bool" where
  "cf_alive B g \<longleftrightarrow> fx_Type g \<noteq> ExprType_UNSPECIFIED \<and> list_all (\<lambda>c. \<not> isl (B c)) (fx_Conditions g)"

fun cf_applied :: "(filter_cond \<Rightarrow> cf_error + 'p option) \<Rightarrow> filter_expr \<Rightarrow> filter_expr" where
  "cf_applied B (FilterExpr t cs gs) =
     FilterExpr t (filter (\<lambda>c. B c \<noteq> Inr None) cs)
       (concat (map (\<lambda>g. if cf_alive B g \<and> \<not> fx_none (cf_applied B g) then [cf_applied B g] else []) gs))"

definition cf_reads ::
  "(string \<Rightarrow> 'v ch_arg list \<Rightarrow> bool) \<Rightarrow> (string \<Rightarrow> 'v ch_arg list \<Rightarrow> bool) \<Rightarrow> (string \<times> 'v ch_arg list) list \<Rightarrow> bool list \<Rightarrow> bool" where
  "cf_reads A w ps bs \<longleftrightarrow> sq_list A w (map fst ps) (concat (map snd ps)) bs"

lemma cf_reads_simps [simp]: "cf_reads A w [] []"
  by (simp add: cf_reads_def sq_Nil)

lemma cf_reads_append: "cf_reads A w ps bs \<Longrightarrow> cf_reads A w qs cs \<Longrightarrow> cf_reads A w (ps @ qs) (bs @ cs)"
  by (simp add: cf_reads_def sq_list_append)

lemma cf_reads_single: "sq_and A w (fst p) (snd p) b \<Longrightarrow> cf_reads A w [p] [b]"
  using sq_Cons[OF _ sq_Nil, of A w "fst p" "snd p" b] by (simp add: cf_reads_def)

lemma cf_reads_empty: "cf_reads A w ps bs \<Longrightarrow> ps = [] \<longleftrightarrow> bs = []"
  using sq_list_empty by (fastforce simp: cf_reads_def)

lemma cf_group_and:
  assumes "cf_reads A w ps bs" "ps \<noteq> []"
  shows "cf_reads A w [cf_group '' AND '' ps] [list_all (\<lambda>b. b) bs]"
proof (rule cf_reads_single)
  have "sq_and A w (go_Join (map fst ps) '' AND '') (concat (map snd ps)) (list_all (\<lambda>b. b) bs)"
    using assms by (intro sq_list_and) (simp_all add: cf_reads_def)
  then show "sq_and A w (fst (cf_group '' AND '' ps)) (snd (cf_group '' AND '' ps)) (list_all (\<lambda>b. b) bs)"
    using sq_and1[OF sq_parens[OF sq_or1]] by (simp add: cf_group_def)
qed

lemma cf_group_or:
  assumes "cf_reads A w ps bs" "ps \<noteq> []"
  shows "cf_reads A w [cf_group '' OR '' ps] [list_ex (\<lambda>b. b) bs]"
proof (rule cf_reads_single)
  have "sq_or A w (go_Join (map fst ps) '' OR '') (concat (map snd ps)) (list_ex (\<lambda>b. b) bs)"
    using assms by (intro sq_list_or) (simp_all add: cf_reads_def)
  then show "sq_and A w (fst (cf_group '' OR '' ps)) (snd (cf_group '' OR '' ps)) (list_ex (\<lambda>b. b) bs)"
    using sq_and1[OF sq_parens] by (simp add: cf_group_def)
qed

lemma cf_conds_reads:
  "cf_conds snake cs = Inr ps \<Longrightarrow>
   cf_reads (cf_atom snake) w ps (map (cf_holds snake w) (filter (\<lambda>c. cf_buildCond snake c \<noteq> (Inr None :: cf_error + (string \<times> 'v ch_arg list) option)) cs)) \<and>
   list_all (\<lambda>c. \<not> isl (cf_buildCond snake c :: cf_error + (string \<times> 'v ch_arg list) option)) cs"
  for ps :: "(string \<times> 'v ch_arg list) list"
proof (induction cs arbitrary: ps)
  case (Cons c cs)
  then obtain r ps' where r: "cf_buildCond snake c = Inr r" "cf_conds snake cs = Inr ps'"
      "ps = (case r of None \<Rightarrow> [] | Some p \<Rightarrow> [p]) @ ps'" by (auto split: sum.splits)
  show ?case
  proof (cases r)
    case (Some p)
    have "sq_and (cf_atom snake) w (fst p) (snd p) (w (fst p) (snd p))"
      using r(1) Some by (intro sq_and1 sq_leaf) (auto simp: cf_atom_def)
    moreover have "cf_holds snake w c = w (fst p) (snd p)" using r(1) Some by (simp add: cf_holds_def split: prod.splits)
    ultimately show ?thesis using r Some Cons.IH[OF r(2)] cf_reads_append[OF cf_reads_single] by fastforce
  qed (use r Cons.IH[OF r(2)] in simp)
qed simp

lemma cf_conds_error:
  "cf_conds snake cs = (Inl e :: cf_error + (string \<times> 'v ch_arg list) list) \<Longrightarrow>
   \<not> list_all (\<lambda>c. \<not> isl (cf_buildCond snake c :: cf_error + (string \<times> 'v ch_arg list) option)) cs"
  by (induction cs) (auto split: sum.splits)

lemma fx_none_truths: "fx_none e \<longleftrightarrow> map v (fx_Conditions e) @ map (fx_eval v) (fx_Groups e) = []"
  by (simp add: fx_none_def)

lemma fx_eval_FilterExpr: "fx_eval v e = fx_join (fx_Type e) (map v (fx_Conditions e) @ map (fx_eval v) (fx_Groups e))"
  by (cases e) simp

lemma cf_applied_Type [simp]: "fx_Type (cf_applied B e) = fx_Type e"
  by (cases e) simp

text \<open>The conditions of an expression read as the expression that is applied.\<close>

lemma cf_parts_read:
  fixes snake :: "string \<Rightarrow> string" and w :: "string \<Rightarrow> 'v ch_arg list \<Rightarrow> bool"
  defines "B \<equiv> cf_buildCond snake :: filter_cond \<Rightarrow> cf_error + (string \<times> 'v ch_arg list) option"
  shows "cf_buildParts snake e = Inr ps \<Longrightarrow> fx_Type e \<noteq> ExprType_UNSPECIFIED \<Longrightarrow>
      cf_alive B e \<and> (\<exists>bs. cf_reads (cf_atom snake) w ps bs \<and> (ps = [] \<longleftrightarrow> fx_none (cf_applied B e)) \<and>
        (ps \<noteq> [] \<longrightarrow> list_all (\<lambda>b. b) bs = fx_eval (cf_holds snake w) (cf_applied B e)))"
    and "cf_reads (cf_atom snake) w (cf_groups snake gs)
      (map (fx_eval (cf_holds snake w))
        (concat (map (\<lambda>g. if cf_alive B g \<and> \<not> fx_none (cf_applied B g) then [cf_applied B g] else []) gs)))"
  unfolding B_def
proof (induction snake e and snake gs arbitrary: ps and rule: cf_buildParts_cf_groups.induct[where 'v = 'v])
  case (1 snake t cs gs)
  let ?B = "cf_buildCond snake :: filter_cond \<Rightarrow> cf_error + (string \<times> 'v ch_arg list) option"
  let ?v = "cf_holds snake w" and ?e = "cf_applied ?B (FilterExpr t cs gs)"
  from 1(2,3) obtain cps :: "(string \<times> 'v ch_arg list) list" where
    c: "cf_conds snake cs = Inr cps" and t: "t \<noteq> ExprType_UNSPECIFIED" by (auto split: sum.splits)
  let ?qs = "cps @ cf_groups snake gs" and ?bs = "map ?v (fx_Conditions ?e) @ map (fx_eval ?v) (fx_Groups ?e)"
  have q: "cf_reads (cf_atom snake) w ?qs ?bs" "list_all (\<lambda>c. \<not> isl (?B c)) cs"
    using cf_reads_append[OF conjunct1[OF cf_conds_reads[OF c]] 1(1)[OF t c]] cf_conds_reads[OF c, of w] by simp_all
  have n: "?qs = [] \<longleftrightarrow> fx_none ?e" using cf_reads_empty[OF q(1)] fx_none_truths by blast
  have al: "cf_alive ?B (FilterExpr t cs gs)" using t q(2) by (simp add: cf_alive_def)
  show ?case
  proof (cases "t = ExprType_AND")
    case True
    then have "ps = ?qs" using 1(2) c by simp
    then show ?thesis using al q(1) n True fx_eval_FilterExpr[of ?v ?e] by (auto simp: fx_join_def)
  next
    case False
    then have ps: "ps = (if ?qs = [] then [] else [cf_group '' OR '' ?qs])" using 1(2) t c
      by (auto simp: Let_def split: if_splits)
    show ?thesis
    proof (cases "?qs = []")
      case True
      then have "ps = []" "fx_none ?e" using ps n by simp_all
      then show ?thesis using al by (intro conjI exI[of _ "[]"]) simp_all
    next
      case nonempty: False
      have "fx_eval ?v ?e = list_ex (\<lambda>b. b) ?bs" using False t fx_eval_FilterExpr[of ?v ?e]
        by (cases t) (simp_all add: fx_join_def)
      then show ?thesis using al n ps nonempty cf_group_or[OF q(1) nonempty]
        by (intro conjI exI[of _ "[list_ex (\<lambda>b. b) ?bs]"]) auto
    qed
  qed
next
  case (3 snake g gs)
  let ?B = "cf_buildCond snake :: filter_cond \<Rightarrow> cf_error + (string \<times> 'v ch_arg list) option"
  let ?v = "cf_holds snake w"
  let ?G = "\<lambda>g. if cf_alive ?B g \<and> \<not> fx_none (cf_applied ?B g) then [cf_applied ?B g] else []"
  have gs: "cf_reads (cf_atom snake) w (cf_groups snake gs) (map (fx_eval ?v) (concat (map ?G gs)))"
    using 3(2,3) by (cases "cf_buildParts snake g :: cf_error + (string \<times> 'v ch_arg list) list") auto
  show ?case
  proof (cases "cf_buildParts snake g :: cf_error + (string \<times> 'v ch_arg list) list")
    case (Inl err)
    then have "\<not> cf_alive ?B g" using cf_conds_error
      by (cases g) (auto simp: cf_alive_def Let_def split: if_splits sum.splits)
    then show ?thesis using gs Inl by simp
  next
    case (Inr ps)
    show ?thesis
    proof (cases "fx_Type g = ExprType_UNSPECIFIED")
      case True
      then have "ps = []" "\<not> cf_alive ?B g" using Inr by (cases g; simp add: cf_alive_def)+
      then show ?thesis using gs Inr by simp
    next
      case False
      from 3(1)[OF Inr False] obtain bs where bs: "cf_alive ?B g" "cf_reads (cf_atom snake) w ps bs"
          "ps = [] \<longleftrightarrow> fx_none (cf_applied ?B g)" "ps \<noteq> [] \<longrightarrow> list_all (\<lambda>b. b) bs = fx_eval ?v (cf_applied ?B g)" by blast
      show ?thesis
      proof (cases "ps = []")
        case True
        then show ?thesis using gs Inr bs by simp
      next
        case nonempty: False
        then show ?thesis using cf_reads_append[OF cf_group_and[OF bs(2) nonempty] gs] Inr bs by simp
      qed
    qed
  qed
qed simp

lemma cf_selectors_holds:
  fixes w :: "string \<Rightarrow> 'v ch_arg list \<Rightarrow> bool"
  assumes "cf_BuildSelectors snake (Some e) (Some qb) = Some (Inr qb')" "fx_Type e \<noteq> ExprType_UNSPECIFIED"
    "ch_holds (cf_atom snake) w qb b" "e' = cf_applied (cf_buildCond snake :: _ \<Rightarrow> cf_error + (string \<times> 'v ch_arg list) option) e"
  shows "ch_holds (cf_atom snake) w qb' (b \<and> (fx_none e' \<or> fx_eval (cf_holds snake w) e'))"
proof -
  let ?A = "\<lambda>q as. cf_atom snake q as \<or> q = ''tenant_id = ?''"
  obtain ps where ps: "cf_buildParts snake e = Inr ps"
      "qb' = qb\<lparr>qb_conditions := qb_conditions qb @ map fst ps, qb_params := qb_params qb @ concat (map snd ps)\<rparr>"
    by (cases rule: cf_BuildSelectors_cases[of snake "Some e" qb]) (use assms(1,2) in auto)
  obtain bs where bs: "cf_reads (cf_atom snake) w ps bs" "ps = [] \<longleftrightarrow> fx_none e'"
      "ps \<noteq> [] \<longrightarrow> list_all (\<lambda>b. b) bs = fx_eval (cf_holds snake w) e'"
    using cf_parts_read(1)[OF ps(1) assms(2)] assms(4) by blast
  obtain cs where cs: "sq_list ?A w (qb_conditions qb) (qb_params qb) cs" "b = list_all (\<lambda>b. b) cs"
    using assms(3) by (auto simp: ch_holds_def)
  have "sq_list ?A w (map fst ps) (concat (map snd ps)) bs" using bs(1) by (auto simp: cf_reads_def elim: sq_list_mono)
  from sq_list_append[OF cs(1) this]
  have "ch_holds (cf_atom snake) w qb' (list_all (\<lambda>b. b) (cs @ bs))" unfolding ch_holds_def ps(2) by auto
  moreover have "list_all (\<lambda>b. b) (cs @ bs) = (b \<and> (fx_none e' \<or> fx_eval (cf_holds snake w) e'))"
    using cs(2) bs cf_reads_empty[OF bs(1)] by (cases "ps = []") auto
  ultimately show ?thesis by simp
qed


text \<open>
  A refused field inside a group is not an error: the group is left out, and in a conjunction the rest of the filter is
  applied as if the group had not been there. At the top level the same field is refused.
\<close>

theorem cf_group_fails_open:
  assumes "cf_buildParts snake g = (Inl err :: cf_error + (string \<times> 'v ch_arg list) list)"
  shows "cf_BuildSelectors snake (Some (FilterExpr ExprType_AND cs (gs @ g # hs))) (Some qb) =
      cf_BuildSelectors snake (Some (FilterExpr ExprType_AND cs (gs @ hs))) (Some (qb :: 'v ch_builder)) \<and>
    cf_BuildSelectors snake (Some g) (Some qb) = Some (Inl err)"
proof -
  have "cf_groups snake (gs @ g # hs) = (cf_groups snake (gs @ hs) :: (string \<times> 'v ch_arg list) list)" for gs
    using assms by (induction gs) (auto split: sum.splits)
  moreover have "fx_Type g \<noteq> ExprType_UNSPECIFIED" using assms by (cases g) auto
  ultimately show ?thesis using assms by (auto simp: cf_BuildSelectors_def Let_def split: sum.splits)
qed

text \<open>
  Operators outside the list of the structured filter become an equality, the negations NIN and NOT_LIKE included: with a value the
  condition is the one of EQ, without one it is left out.
\<close>

theorem cf_unsupported_is_equality:
  assumes "fc_Op c \<in> {NIN, NOT_LIKE, ILIKE, REGEXP, IREGEXP, ICONTAINS, ISTARTS_WITH, IENDS_WITH, SEARCH, EXACT, IEXACT,
      JSON_CONTAINS, ARRAY_CONTAINS, EXISTS, OPERATOR_UNSPECIFIED}"
    "cf_field snake (fc_Field c) = Some col"
  shows "cf_buildCond snake c =
    (if cf_value c = '''' then Inr None else cf_buildCond snake (c\<lparr>fc_Op := EQ\<rparr>) :: cf_error + (string \<times> 'v ch_arg list) option)"
  using assms by (auto simp: cf_buildCond_def cf_clause_def cf_value_def)

text \<open>In the processor a comma separated NIN is the IN of the same list.\<close>

lemma cf_NotIn_is_In:
  "cf_codec E v = None \<Longrightarrow> go_Contains v '','' \<Longrightarrow> cf_NotIn E field v vs qb = cf_In E field v vs qb"
  by (cases "v = ''''") (auto simp: cf_NotIn_def cf_In_def go_Contains_def)

text \<open>And a single plain value of IN is dropped.\<close>

lemma cf_In_single_lost:
  "cf_codec E v = None \<Longrightarrow> \<not> go_Contains v '','' \<Longrightarrow> cf_In E field v [] qb = Some qb"
  by (simp add: cf_In_def cf_on_def Let_def)

section \<open>Concrete instances\<close>

definition cf_cond :: "string \<Rightarrow> fe_op \<Rightarrow> string \<Rightarrow> filter_cond" where
  "cf_cond f op v = \<lparr>fc_Field = f, fc_Op = op, fc_Value = FV_Value v, fc_Values = [], fc_DatePart = None, fc_JsonPath = None\<rparr>"

definition cf_demo_expr :: filter_expr where
  "cf_demo_expr = FilterExpr ExprType_AND [cf_cond ''a'' EQ ''1'']
     [FilterExpr ExprType_OR [cf_cond ''b'' GT ''2'', cf_cond ''p.k'' LIKE ''x''] []]"

definition cf_demo_qb :: "unit ch_builder" where
  "cf_demo_qb = qb_NewQueryBuilder ''t''"


theorem cf_group_fails_open_witness:
  "cf_BuildSelectors (\<lambda>s. s) (Some (FilterExpr ExprType_AND [] [FilterExpr ExprType_AND [cf_cond ''owner-id'' EQ ''7''] []]))
     (Some cf_demo_qb) = cf_BuildSelectors (\<lambda>s. s) (Some (FilterExpr ExprType_AND [] [])) (Some cf_demo_qb)"
proof -
  have "(cf_buildParts (\<lambda>s. s) (FilterExpr ExprType_AND [cf_cond ''owner-id'' EQ ''7''] []) ::
      cf_error + (string \<times> unit ch_arg list) list) = Inl (CfInvalidField ''owner-id'')" by code_simp
  from cf_group_fails_open[OF this, of "[]" "[]" "[]" cf_demo_qb] show ?thesis by simp
qed

theorem cf_unsupported_is_equality_witness:
  "(cf_buildCond (\<lambda>s. s) (cf_cond ''a'' NIN ''1'') :: cf_error + (string \<times> unit ch_arg list) option) =
     cf_buildCond (\<lambda>s. s) (cf_cond ''a'' EQ ''1'')"
proof -
  have "cf_field (\<lambda>s. s) ''a'' = Some ''a''" by code_simp
  then show ?thesis using cf_unsupported_is_equality[of "cf_cond ''a'' NIN ''1''" "\<lambda>s. s" "''a''", where 'v = unit]
    by (simp add: cf_cond_def cf_value_def)
qed

end
