(* ===== verification/Ch_Repository.thy ===== *)
theory Ch_Repository
  imports Ch_Filter
begin

text \<open>
  \<open>crud/clickhouse/repository.go\<close> with \<open>crud/clickhouse/mixin\<close>: the operations of the generic repository and the statements they
  send. An entity type is the list of its struct fields with their tags, an entity the list of the values of
  the fields; the mapper between DTOs and entities, the method \<open>SetTenantID\<close>, \<open>reflect.Value.IsZero\<close> and the elements of a
  slice value are parameters. The database answers from the list of all statements so far; the texts of the
  driver's errors are only logged. A nil client is \<open>re_client = False\<close>; the connection inside a client is not nil, as
  \<open>NewClient\<close> makes it. Rows come back as entities, so the type assertions on them succeed.
\<close>

section \<open>Entities\<close>

record sfield =
  sf_Name :: string
  sf_exported :: bool
  sf_db :: string
  sf_ch :: string
  sf_json :: string
  sf_pk :: string

definition rp_col :: "sfield \<Rightarrow> string" where
  "rp_col sf =
     (if sf_db sf \<noteq> '''' then sf_db sf
      else if sf_ch sf \<noteq> '''' then sf_ch sf
      else let col = takeWhile (\<lambda>c. c \<noteq> CHR '','') (sf_json sf)
           in if col \<noteq> '''' then col else go_ToLower (sf_Name sf))"

text \<open>The mixin that makes an entity tenant scoped: a pointer to a number.\<close>

record mx_TenantID =
  mx_tid :: "32 word option"

definition mx_GetTenantID :: "mx_TenantID \<Rightarrow> 32 word option" where
  "mx_GetTenantID m = mx_tid m"

definition mx_SetTenantID :: "32 word \<Rightarrow> mx_TenantID \<Rightarrow> mx_TenantID" where
  "mx_SetTenantID tid m = m\<lparr>mx_tid := Some tid\<rparr>"

record ('d, 'v) ch_repo =
  re_client :: bool
  re_table :: string
  re_struct :: bool
  re_fields :: "sfield list"
  re_SetTenantID :: "(32 word \<Rightarrow> 'v list \<Rightarrow> 'v list) option"
  re_isZero :: "'v \<Rightarrow> bool"
  re_elems :: "'v \<Rightarrow> 'v list option"
  re_ToEntity :: "'d \<Rightarrow> 'v list option"
  re_ToDTO :: "'v list \<Rightarrow> 'd"

abbreviation re_scoped :: "('d, 'v) ch_repo \<Rightarrow> bool" where
  "re_scoped R \<equiv> re_SetTenantID R \<noteq> None"

section \<open>The database\<close>

type_synonym 'v ch_stmt = "string \<times> 'v ch_arg list"

datatype ch_count = CountQueryErr | CountScanErr | CountRow "64 word" | CountIterErr | CountNoRow

datatype ch_scan = ScanRow | ScanNoRows | ScanErr string

record 'v ch_db =
  db_Exec :: "'v ch_stmt list \<Rightarrow> bool"
  db_Query :: "'v ch_stmt list \<Rightarrow> 'v list list option"
  db_Count :: "'v ch_stmt list \<Rightarrow> ch_count"
  db_Scan :: "'v ch_stmt list \<Rightarrow> ch_scan"

datatype ch_error = ChErr string | ChViewer vw_error | ChFilter cf_error | ChConvert fq_error | ChOrder string

type_synonym ('r, 'v) ch_result = "(ch_error + 'r) \<times> 'v ch_stmt list"

definition rp_ready :: "('d, 'v) ch_repo \<Rightarrow> 'v ch_stmt list \<Rightarrow> ('r, 'v) ch_result \<Rightarrow> ('r, 'v) ch_result" where
  "rp_ready R lg act =
     (if \<not> re_client R then (Inl (ChErr ''clickhouse client is nil''), lg)
      else if re_table R = '''' then (Inl (ChErr ''table is empty''), lg)
      else act)"

text \<open>A single argument that is a slice stands for its elements.\<close>

definition rp_expand :: "('d, 'v) ch_repo \<Rightarrow> 'v ch_arg list \<Rightarrow> 'v ch_arg list" where
  "rp_expand R args =
     (case args of
        [ChField v] \<Rightarrow> (case re_elems R v of Some vs \<Rightarrow> map ChField vs | None \<Rightarrow> args)
      | [ChJson (JArr js)] \<Rightarrow> map ChJson js
      | _ \<Rightarrow> args)"

definition rp_Query :: "('d, 'v) ch_repo \<Rightarrow> 'v ch_db \<Rightarrow> 'v ch_stmt \<Rightarrow> 'v ch_stmt list \<Rightarrow> 'v list list option \<times> 'v ch_stmt list" where
  "rp_Query R D st lg = (let lg = lg @ [(fst st, rp_expand R (snd st))] in (db_Query D lg, lg))"

definition rp_Exec :: "'v ch_db \<Rightarrow> 'v ch_stmt \<Rightarrow> 'v ch_stmt list \<Rightarrow> bool \<times> 'v ch_stmt list" where
  "rp_Exec D st lg = (let lg = lg @ [st] in (db_Exec D lg, lg))"

section \<open>Count and Exists\<close>

definition rp_where :: "string \<Rightarrow> string" where
  "rp_where baseWhere =
     (let bw = go_TrimSpace baseWhere
      in if bw = '''' then ''''
         else if \<not> prefix ''WHERE'' (go_ToUpper bw) then '' WHERE '' @ bw else '' '' @ bw)"

definition rp_Count ::
  "('d, 'v) ch_repo \<Rightarrow> 'v ch_db \<Rightarrow> go_ctx \<Rightarrow> string \<Rightarrow> 'v ch_arg list \<Rightarrow> 'v ch_stmt list \<Rightarrow> (64 word, 'v) ch_result" where
  "rp_Count R D ctx baseWhere whereArgs lg = rp_ready R lg
     (case ch_InjectTenantFilterIntoBaseWhere (re_scoped R) ctx baseWhere (rp_expand R whereArgs) of
        Inl e \<Rightarrow> (Inl (ChViewer e), lg)
      | Inr (baseWhere, whereArgs) \<Rightarrow>
          (let lg = lg @ [(''SELECT COUNT(1) FROM '' @ re_table R @ rp_where baseWhere, whereArgs)]
           in (case db_Count D lg of
                 CountQueryErr \<Rightarrow> Inl (ChErr ''count query failed'')
               | CountScanErr \<Rightarrow> Inl (ChErr ''scan count failed'')
               | CountRow n \<Rightarrow> Inr n
               | CountIterErr \<Rightarrow> Inl (ChErr ''rows iteration error'')
               | CountNoRow \<Rightarrow> Inr 0, lg)))"

definition rp_Exists ::
  "('d, 'v) ch_repo \<Rightarrow> 'v ch_db \<Rightarrow> go_ctx \<Rightarrow> string \<Rightarrow> 'v ch_arg list \<Rightarrow> 'v ch_stmt list \<Rightarrow> (bool, 'v) ch_result" where
  "rp_Exists R D ctx baseWhere whereArgs lg = rp_ready R lg
     (case ch_InjectTenantFilterIntoBaseWhere (re_scoped R) ctx baseWhere (rp_expand R whereArgs) of
        Inl e \<Rightarrow> (Inl (ChViewer e), lg)
      | Inr (baseWhere, whereArgs) \<Rightarrow>
          (let lg = lg @ [(''SELECT 1 FROM '' @ re_table R @ rp_where baseWhere @ '' LIMIT 1'', whereArgs)]
           in (case db_Scan D lg of
                 ScanRow \<Rightarrow> Inr True
               | ScanNoRows \<Rightarrow> Inr False
               | ScanErr msg \<Rightarrow>
                   if go_Contains (go_ToLower msg) ''no rows'' \<or> go_Contains (go_ToLower msg) ''not found'' then Inr False
                   else Inl (ChErr ''exists query failed''), lg)))"

section \<open>Creating\<close>

definition rp_masked :: "bool \<Rightarrow> string list \<Rightarrow> sfield \<Rightarrow> bool" where
  "rp_masked given msk sf \<longleftrightarrow> (given \<and> msk \<noteq> [] \<longrightarrow> sf_Name sf \<in> set msk \<or> rp_col sf \<in> set msk)"

text \<open>The columns of the exported fields that the mask lets through, with their values.\<close>

definition rp_columns :: "(sfield \<Rightarrow> bool) \<Rightarrow> sfield list \<Rightarrow> 'v list \<Rightarrow> (string \<times> 'v) list" where
  "rp_columns p sfs ent = [(rp_col sf, v). (sf, v) \<leftarrow> zip sfs ent, sf_exported sf, p sf]"

definition rp_insert :: "string \<Rightarrow> (string \<times> 'v) list \<Rightarrow> 'v ch_stmt" where
  "rp_insert tbl cvs =
     (''INSERT INTO '' @ tbl @ '' ('' @ go_Join (map fst cvs) '','' @ '') VALUES ('' @ cf_marks (length cvs) @ '')'',
      map (ChField \<circ> snd) cvs)"

definition rp_create ::
  "('d, 'v) ch_repo \<Rightarrow> 'v ch_db \<Rightarrow> (string list \<Rightarrow> string list) \<Rightarrow> go_ctx \<Rightarrow> 'd option \<Rightarrow> string list option \<Rightarrow>
   ('v list \<Rightarrow> 'r) \<Rightarrow> 'v ch_stmt list \<Rightarrow> ('r, 'v) ch_result" where
  "rp_create R D pbnorm ctx dto viewMask res lg = rp_ready R lg
     (case dto of
        None \<Rightarrow> (Inl (ChErr ''dto is nil''), lg)
      | Some d \<Rightarrow>
          (let viewMask = fs_NormalizeFieldMaskPaths pbnorm viewMask; msk = fs_MaskSet viewMask
           in case vw_EnforceOnScopedInstance (re_SetTenantID R) ctx (re_ToEntity R d) of
                Inl e \<Rightarrow> (Inl (ChViewer e), lg)
              | Inr None \<Rightarrow> (Inl (ChErr ''entity must be a struct or pointer to struct''), lg)
              | Inr (Some ent) \<Rightarrow>
                  if \<not> re_struct R then (Inl (ChErr ''entity must be a struct or pointer to struct''), lg)
                  else let cvs = rp_columns (rp_masked (viewMask \<noteq> None) msk) (re_fields R) ent
                       in if cvs = [] then (Inl (ChErr ''no columns to insert''), lg)
                          else let (failed, lg) = rp_Exec D (rp_insert (re_table R) cvs) lg
                               in if failed then (Inl (ChErr ''create failed''), lg) else (Inr (res ent), lg)))"

definition rp_Create ::
  "('d, 'v) ch_repo \<Rightarrow> 'v ch_db \<Rightarrow> (string list \<Rightarrow> string list) \<Rightarrow> go_ctx \<Rightarrow> 'd option \<Rightarrow> string list option \<Rightarrow>
   'v ch_stmt list \<Rightarrow> ('d, 'v) ch_result" where
  "rp_Create R D pbnorm ctx dto viewMask lg = rp_create R D pbnorm ctx dto viewMask (re_ToDTO R) lg"

definition rp_CreateX ::
  "('d, 'v) ch_repo \<Rightarrow> 'v ch_db \<Rightarrow> (string list \<Rightarrow> string list) \<Rightarrow> go_ctx \<Rightarrow> 'd option \<Rightarrow> string list option \<Rightarrow>
   'v ch_stmt list \<Rightarrow> (int, 'v) ch_result" where
  "rp_CreateX R D pbnorm ctx dto viewMask lg = rp_create R D pbnorm ctx dto viewMask (\<lambda>_. 1) lg"

text \<open>The entities of a batch, nil DTOs left out; the first error ends the loop.\<close>

fun rp_entities :: "('d, 'v) ch_repo \<Rightarrow> go_ctx \<Rightarrow> 'd option list \<Rightarrow> vw_error + 'v list option list" where
  "rp_entities R ctx [] = Inr []"
| "rp_entities R ctx (None # ds) = rp_entities R ctx ds"
| "rp_entities R ctx (Some d # ds) =
     (case vw_EnforceOnScopedInstance (re_SetTenantID R) ctx (re_ToEntity R d) of
        Inl e \<Rightarrow> Inl e
      | Inr ent \<Rightarrow> (case rp_entities R ctx ds of Inl e \<Rightarrow> Inl e | Inr ents \<Rightarrow> Inr (ent # ents)))"

text \<open>
  \<open>BatchCreate\<close>; \<open>None\<close> is a panic: the value of a nil entity after the first has no fields.
\<close>

definition rp_BatchCreate ::
  "('d, 'v) ch_repo \<Rightarrow> 'v ch_db \<Rightarrow> (string list \<Rightarrow> string list) \<Rightarrow> go_ctx \<Rightarrow> 'd option list \<Rightarrow> string list option \<Rightarrow>
   'v ch_stmt list \<Rightarrow> ('d list, 'v) ch_result option" where
  "rp_BatchCreate R D pbnorm ctx dtos viewMask lg =
     (if \<not> re_client R then Some (Inl (ChErr ''clickhouse client is nil''), lg)
      else if re_table R = '''' then Some (Inl (ChErr ''table is empty''), lg)
      else if dtos = [] then Some (Inr [], lg)
      else let viewMask = fs_NormalizeFieldMaskPaths pbnorm viewMask; msk = fs_MaskSet viewMask
           in case rp_entities R ctx dtos of
                Inl e \<Rightarrow> Some (Inl (ChViewer e), lg)
              | Inr [] \<Rightarrow> Some (Inr [], lg)
              | Inr (None # ents) \<Rightarrow> Some (Inl (ChErr ''entity must be a struct or pointer to struct''), lg)
              | Inr (Some ent # ents) \<Rightarrow>
                  if \<not> re_struct R then Some (Inl (ChErr ''entity must be a struct or pointer to struct''), lg)
                  else let p = rp_masked (viewMask \<noteq> None) msk; cols = map fst (rp_columns p (re_fields R) ent)
                       in if cols = [] then Some (Inl (ChErr ''no columns to insert''), lg)
                          else if None \<in> set ents then None
                          else let es = ent # map the ents;
                                   row = ''('' @ cf_marks (length cols) @ '')'';
                                   sql = ''INSERT INTO '' @ re_table R @ '' ('' @ go_Join cols '','' @ '') VALUES ''
                                         @ go_Join (map (\<lambda>_. row) es) '','';
                                   vals = concat (map (\<lambda>e. map (ChField \<circ> snd) (rp_columns p (re_fields R) e)) es);
                                   (failed, lg) = rp_Exec D (sql, vals) lg
                               in Some (if failed then Inl (ChErr ''batch create failed'') else Inr (map (re_ToDTO R) es), lg))"

section \<open>Updating\<close>

text \<open>
  The primary key: the last field tagged \<open>pk:"true"\<close>, else the first one called id. The state of the loop is the index and the column.
\<close>

fun rp_pk_loop :: "nat \<Rightarrow> sfield list \<Rightarrow> nat option \<times> string \<Rightarrow> nat option \<times> string" where
  "rp_pk_loop i [] st = st"
| "rp_pk_loop i (sf # sfs) (pkIdx, pkCol) =
     (if \<not> sf_exported sf then rp_pk_loop (Suc i) sfs (pkIdx, pkCol)
      else let pkIdx = (if sf_pk sf = ''true'' then Some i else pkIdx);
               col = rp_col sf;
               pkIdx = (if pkIdx = None \<and> (go_ToLower col = ''id'' \<or> go_ToLower (sf_Name sf) = ''id'') then Some i else pkIdx)
           in rp_pk_loop (Suc i) sfs (pkIdx, if pkIdx = Some i then col else pkCol))"

definition rp_pk :: "('d, 'v) ch_repo \<Rightarrow> (nat \<times> string) option" where
  "rp_pk R = (case rp_pk_loop 0 (re_fields R) (None, '''') of (Some i, col) \<Rightarrow> if col = '''' then None else Some (i, col) | _ \<Rightarrow> None)"

text \<open>The assignments: by the mask, or without one the fields that are not zero; the key is left out.\<close>

definition rp_sets :: "('d, 'v) ch_repo \<Rightarrow> string list \<Rightarrow> nat \<Rightarrow> 'v list \<Rightarrow> (string \<times> 'v) list" where
  "rp_sets R msk pkIdx ent =
     [(rp_col sf, v). (i, sf, v) \<leftarrow> enumerate 0 (zip (re_fields R) ent), i \<noteq> pkIdx, sf_exported sf,
        if msk \<noteq> [] then sf_Name sf \<in> set msk \<or> rp_col sf \<in> set msk else \<not> re_isZero R v]"

definition rp_update :: "string \<Rightarrow> (string \<times> 'v) list \<Rightarrow> string \<Rightarrow> 'v ch_arg list \<Rightarrow> 'v ch_stmt" where
  "rp_update tbl cvs whereClause args =
     (''ALTER TABLE '' @ tbl @ '' UPDATE '' @ go_Join (map (\<lambda>(c, _). c @ '' = ?'') cvs) '', '' @ '' WHERE '' @ whereClause,
      map (ChField \<circ> snd) cvs @ args)"

definition rp_read :: "('d, 'v) ch_repo \<Rightarrow> string \<Rightarrow> 'v ch_arg list \<Rightarrow> 'v ch_stmt" where
  "rp_read R whereClause args = (''SELECT * FROM '' @ re_table R @ '' WHERE '' @ whereClause @ '' LIMIT 1'', args)"

text \<open>The condition on the tenant that \<open>Update\<close> and \<open>Delete\<close> append.\<close>

definition rp_tenant :: "('d, 'v) ch_repo \<Rightarrow> go_ctx \<Rightarrow> vw_error + 64 word option" where
  "rp_tenant R ctx =
     (if \<not> re_scoped R then Inr None
      else case vw_EnforceTenant ctx of
             Inl e \<Rightarrow> Inl e
           | Inr dec \<Rightarrow> if ed_Enforce dec then Inr (Some (ed_TenantID dec)) else Inr None)"

definition rp_first :: "('d, 'v) ch_repo \<Rightarrow> string \<Rightarrow> 'v list list option \<Rightarrow> ch_error + 'd option" where
  "rp_first R msg rows =
     (case rows of None \<Rightarrow> Inl (ChErr msg) | Some [] \<Rightarrow> Inr None | Some (e # _) \<Rightarrow> Inr (Some (re_ToDTO R e)))"

definition rp_Update ::
  "('d, 'v) ch_repo \<Rightarrow> 'v ch_db \<Rightarrow> (string list \<Rightarrow> string list) \<Rightarrow> go_ctx \<Rightarrow> 'd option \<Rightarrow> string list option \<Rightarrow>
   'v ch_stmt list \<Rightarrow> ('d option, 'v) ch_result" where
  "rp_Update R D pbnorm ctx dto updateMask lg = rp_ready R lg
     (case dto of
        None \<Rightarrow> (Inl (ChErr ''dto is nil''), lg)
      | Some d \<Rightarrow>
          (let msk = fs_MaskSet (fs_NormalizeFieldMaskPaths pbnorm updateMask)
           in case re_ToEntity R d of
                None \<Rightarrow> (Inl (ChErr ''entity must be a struct or pointer to struct''), lg)
              | Some ent \<Rightarrow>
                  if \<not> re_struct R then (Inl (ChErr ''entity must be a struct or pointer to struct''), lg)
                  else case rp_pk R of
                         None \<Rightarrow> (Inl (ChErr ''primary key field not found; cannot determine WHERE clause''), lg)
                       | Some (pkIdx, pkCol) \<Rightarrow>
                           (let cvs = rp_sets R msk pkIdx ent
                            in if cvs = [] then (Inl (ChErr ''no columns to update''), lg)
                               else case rp_tenant R ctx of
                                      Inl e \<Rightarrow> (Inl (ChViewer e), lg)
                                    | Inr tid \<Rightarrow>
                                        (let whereClause = pkCol @ '' = ?'' @ (if tid = None then '''' else '' AND tenant_id = ?'');
                                             args = ChField (ent ! pkIdx) # (case tid of None \<Rightarrow> [] | Some t \<Rightarrow> [ChUint t]);
                                             (failed, lg) = rp_Exec D (rp_update (re_table R) cvs whereClause args) lg
                                         in if failed then (Inl (ChErr ''update failed''), lg)
                                            else let (rows, lg) = rp_Query R D (rp_read R whereClause args) lg
                                                 in (rp_first R ''read updated record failed'' rows, lg)))))"

definition rp_UpdateX ::
  "('d, 'v) ch_repo \<Rightarrow> 'v ch_db \<Rightarrow> (string list \<Rightarrow> string list) \<Rightarrow> go_ctx \<Rightarrow> 'd option \<Rightarrow> string list option \<Rightarrow>
   'v ch_stmt list \<Rightarrow> (int, 'v) ch_result" where
  "rp_UpdateX R D pbnorm ctx dto updateMask lg = rp_ready R lg
     (case dto of
        None \<Rightarrow> (Inl (ChErr ''dto is nil''), lg)
      | Some d \<Rightarrow>
          (let msk = fs_MaskSet (fs_NormalizeFieldMaskPaths pbnorm updateMask)
           in case re_ToEntity R d of
                None \<Rightarrow> (Inl (ChErr ''entity must be a struct or pointer to struct''), lg)
              | Some ent \<Rightarrow>
                  if \<not> re_struct R then (Inl (ChErr ''entity must be a struct or pointer to struct''), lg)
                  else case rp_pk R of
                         None \<Rightarrow> (Inl (ChErr ''primary key field not found; cannot determine WHERE clause''), lg)
                       | Some (pkIdx, pkCol) \<Rightarrow>
                           (let cvs = rp_sets R msk pkIdx ent
                            in if cvs = [] then (Inl (ChErr ''no columns to update''), lg)
                               else let (failed, lg) = rp_Exec D
                                          (rp_update (re_table R) cvs (pkCol @ '' = ?'') [ChField (ent ! pkIdx)]) lg
                                    in (if failed then Inl (ChErr ''update failed'') else Inr 1, lg))))"

text \<open>
  Insert first, and update by the key when that fails; \<open>res\<close> and \<open>fin\<close> are what the two variants return after the insert and after the
  update.
\<close>

definition rp_upsert ::
  "('d, 'v) ch_repo \<Rightarrow> 'v ch_db \<Rightarrow> (string list \<Rightarrow> string list) \<Rightarrow> 'd option \<Rightarrow> string list option \<Rightarrow>
   ('v list \<Rightarrow> 'r) \<Rightarrow> (string \<Rightarrow> 'v ch_arg list \<Rightarrow> 'v ch_stmt list \<Rightarrow> ('r, 'v) ch_result) \<Rightarrow> 'v ch_stmt list \<Rightarrow> ('r, 'v) ch_result" where
  "rp_upsert R D pbnorm dto updateMask res fin lg = rp_ready R lg
     (case dto of
        None \<Rightarrow> (Inl (ChErr ''dto is nil''), lg)
      | Some d \<Rightarrow>
          (let msk = fs_MaskSet (fs_NormalizeFieldMaskPaths pbnorm updateMask)
           in case re_ToEntity R d of
                None \<Rightarrow> (Inl (ChErr ''entity must be a struct or pointer to struct''), lg)
              | Some ent \<Rightarrow>
                  if \<not> re_struct R then (Inl (ChErr ''entity must be a struct or pointer to struct''), lg)
                  else let icvs = rp_columns (\<lambda>_. True) (re_fields R) ent
                       in if icvs = [] then (Inl (ChErr ''no columns to insert''), lg)
                          else let (failed, lg) = rp_Exec D (rp_insert (re_table R) icvs) lg
                               in if \<not> failed then (Inr (res ent), lg)
                                  else case rp_pk R of
                                         None \<Rightarrow> (Inl (ChErr ''upsert failed and primary key not found''), lg)
                                       | Some (pkIdx, pkCol) \<Rightarrow>
                                           (let cvs = rp_sets R msk pkIdx ent;
                                                whereClause = pkCol @ '' = ?''; args = [ChField (ent ! pkIdx)]
                                            in if cvs = [] then (Inl (ChErr ''no columns to update''), lg)
                                               else let (failed, lg) = rp_Exec D (rp_update (re_table R) cvs whereClause args) lg
                                                    in if failed then (Inl (ChErr ''upsert update failed''), lg)
                                                       else fin whereClause args lg)))"

definition rp_Upsert ::
  "('d, 'v) ch_repo \<Rightarrow> 'v ch_db \<Rightarrow> (string list \<Rightarrow> string list) \<Rightarrow> go_ctx \<Rightarrow> 'd option \<Rightarrow> string list option \<Rightarrow>
   'v ch_stmt list \<Rightarrow> ('d option, 'v) ch_result" where
  "rp_Upsert R D pbnorm ctx dto updateMask lg =
     rp_upsert R D pbnorm dto updateMask (\<lambda>ent. Some (re_ToDTO R ent))
       (\<lambda>whereClause args lg.
          let (rows, lg) = rp_Query R D (rp_read R whereClause args) lg in (rp_first R ''read upserted record failed'' rows, lg)) lg"

definition rp_UpsertX ::
  "('d, 'v) ch_repo \<Rightarrow> 'v ch_db \<Rightarrow> (string list \<Rightarrow> string list) \<Rightarrow> go_ctx \<Rightarrow> 'd option \<Rightarrow> string list option \<Rightarrow>
   'v ch_stmt list \<Rightarrow> (int, 'v) ch_result" where
  "rp_UpsertX R D pbnorm ctx dto updateMask lg =
     rp_upsert R D pbnorm dto updateMask (\<lambda>_. 1) (\<lambda>_ _ lg. (Inr 1, lg)) lg"

section \<open>Deleting\<close>

definition rp_deletedCol :: "('d, 'v) ch_repo \<Rightarrow> string" where
  "rp_deletedCol R =
     (case find (\<lambda>sf. sf_exported sf \<and>
        (go_ToLower (rp_col sf) \<in> {''deleted_at'', ''deletedat''} \<or> go_ToLower (sf_Name sf) \<in> {''deleted_at'', ''deletedat''}))
        (re_fields R) of
        Some sf \<Rightarrow> rp_col sf | None \<Rightarrow> '''')"

definition rp_Delete ::
  "('d, 'v) ch_repo \<Rightarrow> 'v ch_db \<Rightarrow> go_ctx \<Rightarrow> bool \<Rightarrow> 'v ch_stmt list \<Rightarrow> (int, 'v) ch_result" where
  "rp_Delete R D ctx notSoftDelete lg = rp_ready R lg
     (if notSoftDelete then
        (case rp_tenant R ctx of
           Inl e \<Rightarrow> (Inl (ChViewer e), lg)
         | Inr (Some _) \<Rightarrow>
             (Inl (ChErr ''hard delete (truncate) not allowed in tenant context on tenant-scoped table''), lg)
         | Inr None \<Rightarrow>
             (let (failed, lg) = rp_Exec D (''TRUNCATE TABLE '' @ re_table R, []) lg
              in (if failed then Inl (ChErr ''delete failed'') else Inr 1, lg)))
      else if \<not> re_struct R then (Inl (ChErr ''entity must be a struct type''), lg)
      else if rp_deletedCol R = ''''
           then (Inl (ChErr ''soft delete not supported: deleted_at field not found on entity''), lg)
           else case rp_tenant R ctx of
                  Inl e \<Rightarrow> (Inl (ChViewer e), lg)
                | Inr tid \<Rightarrow>
                    (let (failed, lg) = rp_Exec D
                           (''ALTER TABLE '' @ re_table R @ '' UPDATE '' @ rp_deletedCol R @ '' = now() WHERE 1''
                              @ (if tid = None then '''' else '' AND tenant_id = ?''),
                            case tid of None \<Rightarrow> [] | Some t \<Rightarrow> [ChUint t]) lg
                     in (if failed then Inl (ChErr ''delete failed'') else Inr 1, lg)))"

definition rp_SoftDelete :: "('d, 'v) ch_repo \<Rightarrow> 'v ch_db \<Rightarrow> go_ctx \<Rightarrow> 'v ch_stmt list \<Rightarrow> (int, 'v) ch_result" where
  "rp_SoftDelete R D ctx lg = rp_Delete R D ctx False lg"

section \<open>Reading\<close>

definition rp_Get ::
  "('d, 'v) ch_repo \<Rightarrow> 'v ch_db \<Rightarrow> (string list \<Rightarrow> string list) \<Rightarrow> go_ctx \<Rightarrow> 'v ch_builder option \<Rightarrow> string list option \<Rightarrow>
   'v ch_stmt list \<Rightarrow> ('d option, 'v) ch_result option" where
  "rp_Get R D pbnorm ctx qb viewMask lg =
     (if \<not> re_client R then Some (Inl (ChErr ''clickhouse client is nil''), lg)
      else if re_table R = '''' then Some (Inl (ChErr ''table is empty''), lg)
      else let viewMask = fs_NormalizeFieldMaskPaths pbnorm viewMask;
               qb = (case qb of None \<Rightarrow> qb_NewQueryBuilder (re_table R) | Some qb \<Rightarrow> qb_WithTableName (re_table R) qb)
           in case (case viewMask of Some paths \<Rightarrow> if paths \<noteq> [] then fs_BuildSelector paths qb else Some qb | None \<Rightarrow> Some qb) of
                None \<Rightarrow> None
              | Some qb \<Rightarrow>
                  (case ch_InjectTenantFilterIntoBuilder (re_scoped R) ctx qb of
                     None \<Rightarrow> None
                   | Some (Inl e) \<Rightarrow> Some (Inl (ChViewer e), lg)
                   | Some (Inr qb) \<Rightarrow>
                       (let (sql, args) = qb_Build qb;
                            sql = go_TrimSpace sql;
                            sql = (if \<not> qb_LimitKeywordPattern sql then sql @ '' LIMIT 1'' else sql);
                            (rows, lg) = rp_Query R D (sql, args) lg
                        in Some (rp_first R ''get query failed'' rows, lg))))"

definition rp_Only ::
  "('d, 'v) ch_repo \<Rightarrow> 'v ch_db \<Rightarrow> (string list \<Rightarrow> string list) \<Rightarrow> go_ctx \<Rightarrow> 'v ch_builder option \<Rightarrow> string list option \<Rightarrow>
   'v ch_stmt list \<Rightarrow> ('d option, 'v) ch_result option" where
  "rp_Only R D pbnorm ctx qb viewMask lg = rp_Get R D pbnorm ctx qb viewMask lg"

text \<open>
  The environment of the list queries: the decoders and parsers of filters, orders and tokens, the limits; the state:
  the paginators that live as long as the repository.
\<close>

record rp_env =
  en_snake :: "string \<Rightarrow> string"
  en_qc :: qc_env
  en_unmarshal :: "string \<Rightarrow> string + json"
  en_aip :: "string \<Rightarrow> string + aip option"
  en_strings :: "string \<Rightarrow> string + string list"
  en_order :: "string \<Rightarrow> string + (string \<times> bool) list"
  en_limits :: pg_vars
  en_NoPagingMaxLimit :: int
  en_decode :: "string \<Rightarrow> int \<times> bool"

record rp_pagers =
  pa_offset :: op
  pa_page :: pp
  pa_token :: tp

definition rp_pagers0 :: "pg_vars \<Rightarrow> rp_pagers" where
  "rp_pagers0 G = \<lparr>pa_offset = op_NewWithDefault G, pa_page = pp_NewWithDefault G, pa_token = tp_NewWithDefault G\<rparr>"

text \<open>Requests are not nil; the generated getters give zero values for fields that are not set.\<close>

record rp_paging =
  rq_Filter :: fr_request
  rq_FieldMask :: "string list option"
  rq_Sorting :: "so_sorting list"
  rq_OrderBy :: string
  rq_NoPaging :: bool
  rq_Page :: "32 word option"
  rq_PageSize :: "32 word option"
  rq_Offset :: "64 word option"
  rq_Limit :: "32 word option"
  rq_Token :: "string option"

datatype rp_kind =
  PgOffset "64 word" "32 word" | PgPage "32 word" "32 word" | PgToken string "32 word" | PgNoPaging | PgUnset

record rp_pagination =
  rn_Filter :: fr_request
  rn_FieldMask :: "string list option"
  rn_Sorting :: "so_sorting list"
  rn_OrderBy :: string
  rn_Kind :: rp_kind

text \<open>
  The part that both list queries share: filter, tenant, count, fields and order. \<open>None\<close> is a panic; otherwise an error, or the
  builder and the total.
\<close>

definition rp_order :: "rp_env \<Rightarrow> so_sorting list \<Rightarrow> string \<Rightarrow> 'v ch_builder \<Rightarrow> (ch_error + 'v ch_builder) option" where
  "rp_order E sorting orderBy qb =
     (if sorting \<noteq> [] then map_option Inr (ss_BuildOrderClause (en_snake E) sorting qb)
      else if orderBy \<noteq> '''' then
        (case so_Convert (en_snake E) (en_strings E) (en_order E) orderBy of
           Inl e \<Rightarrow> Some (Inl (ChOrder e))
         | Inr sortings \<Rightarrow> map_option Inr (ss_BuildOrderClause (en_snake E) sortings qb))
      else Some (Inr qb))"

definition rp_mask_fields :: "string list option \<Rightarrow> 'v ch_builder \<Rightarrow> 'v ch_builder option" where
  "rp_mask_fields fm qb = (case fm of Some paths \<Rightarrow> if paths \<noteq> [] then fs_BuildSelector paths qb else Some qb | None \<Rightarrow> Some qb)"

definition rp_prepare ::
  "('d, 'v) ch_repo \<Rightarrow> 'v ch_db \<Rightarrow> rp_env \<Rightarrow> go_ctx \<Rightarrow> fr_request \<Rightarrow> string list option \<Rightarrow> so_sorting list \<Rightarrow> string \<Rightarrow>
   'v ch_stmt list \<Rightarrow> ('v ch_builder \<times> 64 word, 'v) ch_result option" where
  "rp_prepare R D E ctx req fm sorting orderBy lg =
     (if \<not> re_client R then Some (Inl (ChErr ''clickhouse client is nil''), lg)
      else if re_table R = '''' then Some (Inl (ChErr ''table is empty''), lg)
      else case fr_convertFilterRequest (en_qc E) (en_unmarshal E) (en_aip E) (Some req) of
             Inl e \<Rightarrow> Some (Inl (ChConvert e), lg)
           | Inr expr \<Rightarrow>
               (case cf_BuildSelectors (en_snake E) expr (Some (qb_NewQueryBuilder (re_table R))) of
                  None \<Rightarrow> None
                | Some (Inl e) \<Rightarrow> Some (Inl (ChFilter e), lg)
                | Some (Inr qb) \<Rightarrow>
                    (case ch_InjectTenantFilterIntoBuilder (re_scoped R) ctx qb of
                       None \<Rightarrow> None
                     | Some (Inl e) \<Rightarrow> Some (Inl (ChViewer e), lg)
                     | Some (Inr qb) \<Rightarrow>
                         (let (sql, args) = qb_BuildWhereParam qb
                          in case rp_Count R D ctx sql args lg of
                               (Inl e, lg) \<Rightarrow> Some (Inl e, lg)
                             | (Inr tot, lg) \<Rightarrow>
                                 (case rp_mask_fields fm qb of
                                    None \<Rightarrow> None
                                  | Some qb \<Rightarrow>
                                      (case rp_order E sorting orderBy qb of
                                         None \<Rightarrow> None
                                       | Some (Inl e) \<Rightarrow> Some (Inl e, lg)
                                       | Some (Inr qb) \<Rightarrow> Some (Inr (qb, tot), lg)))))))"

definition rp_fetch ::
  "('d, 'v) ch_repo \<Rightarrow> 'v ch_db \<Rightarrow> 'v ch_builder \<Rightarrow> 64 word \<Rightarrow> 'v ch_stmt list \<Rightarrow> ('d list \<times> 64 word, 'v) ch_result" where
  "rp_fetch R D qb tot lg =
     (let (rows, lg) = rp_Query R D (qb_Build qb) lg
      in (case rows of None \<Rightarrow> Inl (ChErr ''list query failed'') | Some es \<Rightarrow> Inr (map (re_ToDTO R) es, tot), lg))"

text \<open>The page of a request; the offset of \<open>int(uint64)\<close> wraps.\<close>

definition rp_paging_clause ::
  "rp_env \<Rightarrow> rp_paging \<Rightarrow> 'v ch_builder \<Rightarrow> rp_pagers \<Rightarrow> 'v ch_builder option \<times> rp_pagers" where
  "rp_paging_clause E req qb ps =
     (if \<not> rq_NoPaging req then
        (case (rq_Page req, rq_PageSize req) of
           (Some page, Some sz) \<Rightarrow>
             (let (qb, impl) = cp_PageBuildClause (en_limits E) (uint page) (uint sz) qb (pa_page ps)
              in (Some qb, ps\<lparr>pa_page := impl\<rparr>))
         | _ \<Rightarrow>
             (case (rq_Offset req, rq_Limit req, rq_Token req) of
                (Some off, Some li, _) \<Rightarrow>
                  (let (qb, impl) = cp_OffsetBuildClause (en_limits E) (sint off) (uint li) qb (pa_offset ps)
                   in (Some qb, ps\<lparr>pa_offset := impl\<rparr>))
              | (Some off, None, Some token) \<Rightarrow>
                  (let (qb, impl) = cp_TokenBuildClause (en_limits E) (en_decode E) token (sint off) qb (pa_token ps)
                   in (qb, ps\<lparr>pa_token := impl\<rparr>))
              | _ \<Rightarrow> (Some qb, ps)))
      else (Some (if en_NoPagingMaxLimit E > 0 then qb_Limit (en_NoPagingMaxLimit E) qb else qb), ps))"

definition rp_kind_clause ::
  "rp_env \<Rightarrow> rp_kind \<Rightarrow> 'v ch_builder \<Rightarrow> rp_pagers \<Rightarrow> 'v ch_builder option \<times> rp_pagers" where
  "rp_kind_clause E k qb ps =
     (case k of
        PgOffset off li \<Rightarrow>
          (let (qb, impl) = cp_OffsetBuildClause (en_limits E) (sint off) (uint li) qb (pa_offset ps)
           in (Some qb, ps\<lparr>pa_offset := impl\<rparr>))
      | PgPage page sz \<Rightarrow>
          (let (qb, impl) = cp_PageBuildClause (en_limits E) (uint page) (uint sz) qb (pa_page ps)
           in (Some qb, ps\<lparr>pa_page := impl\<rparr>))
      | PgToken token sz \<Rightarrow>
          (let (qb, impl) = cp_TokenBuildClause (en_limits E) (en_decode E) token (uint sz) qb (pa_token ps)
           in (qb, ps\<lparr>pa_token := impl\<rparr>))
      | _ \<Rightarrow> (Some (if en_NoPagingMaxLimit E > 0 then qb_Limit (en_NoPagingMaxLimit E) qb else qb), ps))"

definition rp_ListWithPaging ::
  "('d, 'v) ch_repo \<Rightarrow> 'v ch_db \<Rightarrow> rp_env \<Rightarrow> go_ctx \<Rightarrow> rp_paging \<Rightarrow> 'v ch_stmt list \<Rightarrow> rp_pagers \<Rightarrow>
   (('d list \<times> 64 word, 'v) ch_result \<times> rp_pagers) option" where
  "rp_ListWithPaging R D E ctx req lg ps =
     (case rp_prepare R D E ctx (rq_Filter req) (rq_FieldMask req) (rq_Sorting req) (rq_OrderBy req) lg of
        None \<Rightarrow> None
      | Some (Inl e, lg) \<Rightarrow> Some ((Inl e, lg), ps)
      | Some (Inr (qb, tot), lg) \<Rightarrow>
          (case rp_paging_clause E req qb ps of
             (None, ps) \<Rightarrow> None
           | (Some qb, ps) \<Rightarrow> Some (rp_fetch R D qb tot lg, ps)))"

definition rp_ListWithPagination ::
  "('d, 'v) ch_repo \<Rightarrow> 'v ch_db \<Rightarrow> rp_env \<Rightarrow> go_ctx \<Rightarrow> rp_pagination \<Rightarrow> 'v ch_stmt list \<Rightarrow> rp_pagers \<Rightarrow>
   (('d list \<times> 64 word, 'v) ch_result \<times> rp_pagers) option" where
  "rp_ListWithPagination R D E ctx req lg ps =
     (case rp_prepare R D E ctx (rn_Filter req) (rn_FieldMask req) (rn_Sorting req) (rn_OrderBy req) lg of
        None \<Rightarrow> None
      | Some (Inl e, lg) \<Rightarrow> Some ((Inl e, lg), ps)
      | Some (Inr (qb, tot), lg) \<Rightarrow>
          (case rp_kind_clause E (rn_Kind req) qb ps of
             (None, ps) \<Rightarrow> None
           | (Some qb, ps) \<Rightarrow> Some (rp_fetch R D qb tot lg, ps)))"

section \<open>Statements of the list queries\<close>

lemma fs_BuildSelector_ok: "\<exists>cols. fs_BuildSelector paths qb = Some (qb\<lparr>qb_columns := qb_columns qb @ cols\<rparr>)"
  using fs_select_ok[of paths qb] by (auto simp: fs_BuildSelector_def fs_NormalizePaths_def intro: exI[of _ "[]"])

lemma rp_mask_fields_ok: "\<exists>cols. rp_mask_fields fm qb = Some (qb\<lparr>qb_columns := qb_columns qb @ cols\<rparr>)"
  using fs_BuildSelector_ok by (cases fm) (auto simp: rp_mask_fields_def intro: exI[of _ "[]"])

lemma rp_order_ok:
  "(\<exists>e. rp_order E sorting orderBy qb = Some (Inl e)) \<or>
   (\<exists>os. rp_order E sorting orderBy qb = Some (Inr (qb\<lparr>qb_orderBy := qb_orderBy qb @ os\<rparr>)))"
proof -
  have "\<exists>os. map_option Inr (ss_BuildOrderClause (en_snake E) srt qb) = Some (Inr (qb\<lparr>qb_orderBy := qb_orderBy qb @ os\<rparr>))" for srt
    using ss_Build_ok[of "en_snake E" srt qb] by fastforce
  then show ?thesis by (auto simp: rp_order_def split: sum.splits intro: exI[of _ "[]"])
qed

lemma ch_Inject_ok: "ch_InjectTenantFilterIntoBuilder scoped ctx qb \<noteq> None"
  by (simp add: ch_InjectTenantFilterIntoBuilder_def split: sum.splits)

lemma ch_Inject_tenant:
  "vw_view ctx = VwTenant t \<Longrightarrow> ch_InjectTenantFilterIntoBuilder True ctx qb =
     Some (Inr (qb\<lparr>qb_conditions := qb_conditions qb @ [''tenant_id = ?''], qb_params := qb_params qb @ [ChUint t]\<rparr>))"
  by (simp add: ch_InjectTenantFilterIntoBuilder_def vw_Enforce_view)

lemma rp_Count_log: "rp_Count R D ctx bw args lg = (r, lg') \<Longrightarrow> \<exists>sts. lg' = lg @ sts"
  by (auto simp: rp_Count_def rp_ready_def Let_def split: if_splits sum.splits prod.splits)

text \<open>What \<open>rp_prepare\<close> leaves in the builder: the conditions of the filter and the guard; the rest is not a condition.\<close>

lemma rp_prepare_ok:
  fixes R :: "('d, 'v) ch_repo"
  obtains e lg' where "rp_prepare R D E ctx req fm sorting orderBy lg = Some (Inl e, lg')"
  | qb tot lg' expr qb0 qb1 cols os where
    "rp_prepare R D E ctx req fm sorting orderBy lg = Some (Inr (qb, tot), lg')"
    "fr_convertFilterRequest (en_qc E) (en_unmarshal E) (en_aip E) (Some req) = Inr expr"
    "cf_BuildSelectors (en_snake E) expr (Some (qb_NewQueryBuilder (re_table R))) = Some (Inr qb0)"
    "ch_InjectTenantFilterIntoBuilder (re_scoped R) ctx qb0 = Some (Inr qb1)"
    "qb = qb1\<lparr>qb_columns := qb_columns qb1 @ cols, qb_orderBy := qb_orderBy qb1 @ os\<rparr>" "\<exists>sts. lg' = lg @ sts"
proof (cases "\<not> re_client R \<or> re_table R = ''''")
  case True
  then have "\<exists>e. rp_prepare R D E ctx req fm sorting orderBy lg = Some (Inl e, lg)"
    by (cases "re_client R") (auto simp: rp_prepare_def)
  then show thesis using that(1) by blast
next
  case ready: False
  show thesis
  proof (cases "fr_convertFilterRequest (en_qc E) (en_unmarshal E) (en_aip E) (Some req)")
    case (Inl e)
    then show thesis using that(1) ready by (simp add: rp_prepare_def)
  next
    case (Inr expr)
    let ?S = "cf_BuildSelectors (en_snake E) expr (Some (qb_NewQueryBuilder (re_table R) :: 'v ch_builder))"
    consider e where "?S = Some (Inl e)" | qb0 where "?S = Some (Inr qb0)"
      by (cases rule: cf_BuildSelectors_cases[of "en_snake E" expr "qb_NewQueryBuilder (re_table R)"]) blast+
    then show thesis
    proof cases
      case 1
      then show thesis using that(1) ready Inr by (simp add: rp_prepare_def)
    next
      case (2 qb0)
      consider e where "ch_InjectTenantFilterIntoBuilder (re_scoped R) ctx qb0 = Some (Inl e)"
        | qb1 where "ch_InjectTenantFilterIntoBuilder (re_scoped R) ctx qb0 = Some (Inr qb1)"
        using ch_Inject_ok by (metis option.exhaust sum.exhaust)
      then show thesis
      proof cases
        case 1
        then show thesis using that(1) ready Inr 2 by (simp add: rp_prepare_def)
      next
        case (2 qb1)
        obtain r lg' where c: "rp_Count R D ctx (go_Join (qb_conditions qb1) '' AND '') (qb_params qb1) lg = (r, lg')" by fastforce
        obtain cols where cols: "rp_mask_fields fm qb1 = Some (qb1\<lparr>qb_columns := qb_columns qb1 @ cols\<rparr>)"
          using rp_mask_fields_ok by blast
        note pre = ready Inr \<open>?S = Some (Inr qb0)\<close> 2 c cols
        show thesis
        proof (cases r)
          case (Inl e)
          then show thesis using that(1) pre by (simp add: rp_prepare_def qb_BuildWhereParam_def)
        next
          case (Inr tot)
          let ?q = "qb1\<lparr>qb_columns := qb_columns qb1 @ cols\<rparr>"
          have eq: "rp_prepare R D E ctx req fm sorting orderBy lg =
              (case rp_order E sorting orderBy ?q of None \<Rightarrow> None | Some (Inl e) \<Rightarrow> Some (Inl e, lg')
               | Some (Inr qb) \<Rightarrow> Some (Inr (qb, tot), lg'))"
            using Inr pre by (simp add: rp_prepare_def qb_BuildWhereParam_def)
          consider e where "rp_order E sorting orderBy ?q = Some (Inl e)"
            | os where "rp_order E sorting orderBy ?q = Some (Inr (?q\<lparr>qb_orderBy := qb_orderBy ?q @ os\<rparr>))"
            using rp_order_ok by blast
          then show thesis
          proof cases
            case 1
            then show thesis using that(1) eq by simp
          next
            case (2 os)
            then have "rp_prepare R D E ctx req fm sorting orderBy lg =
                Some (Inr (qb1\<lparr>qb_columns := qb_columns qb1 @ cols, qb_orderBy := qb_orderBy qb1 @ os\<rparr>, tot), lg')"
              using eq by simp
            from that(2)[OF this pre(2-4) refl rp_Count_log[OF c]] show thesis .
          qed
        qed
      qed
    qed
  qed
qed

text \<open>A page adds at most the condition on the cursor.\<close>

definition rp_paged :: "bool \<Rightarrow> 'v ch_builder \<Rightarrow> 'v ch_builder \<Rightarrow> bool" where
  "rp_paged token qb qb' \<longleftrightarrow>
     qb_conditions qb' = qb_conditions qb \<and> qb_params qb' = qb_params qb \<or>
     token \<and> (\<exists>i. qb_conditions qb' = qb_conditions qb @ [''id > ?''] \<and> qb_params qb' = qb_params qb @ [ChInt i])"

lemma cp_page_paged [simp]: "rp_paged token qb (cp_page li off qb)"
  by (simp add: rp_paged_def cp_page_def qb_Limit_def qb_Offset_def)

lemma cp_token_paged: "\<exists>qb'. cp_token_read decode token impl qb = Some qb' \<and> rp_paged True qb qb'"
  by (auto simp: cp_token_read_def rp_paged_def Let_def qb_Limit_def split: prod.splits)

lemmas cp_clauses = cp_OffsetBuildClause_def cp_PageBuildClause_def cp_TokenBuildClause_def cp_offset_read_def cp_page_read_def

lemma rp_paging_paged:
  "\<exists>qb' ps'. rp_paging_clause E req qb ps = (Some qb', ps') \<and> rp_paged (rq_Token req \<noteq> None) qb qb'"
proof -
  have l: "rp_paged b qb (qb_Limit n qb)" "rp_paged b qb qb" for b n by (simp_all add: rp_paged_def qb_Limit_def)
  show ?thesis
    using cp_token_paged[of "en_decode E"] l
    by (auto simp: rp_paging_clause_def cp_clauses Let_def split: option.splits prod.splits)
qed

lemma rp_kind_paged:
  "\<exists>qb' ps'. rp_kind_clause E k qb ps = (Some qb', ps') \<and> rp_paged (\<exists>tk sz. k = PgToken tk sz) qb qb'"
proof -
  have l: "rp_paged b qb (qb_Limit n qb)" "rp_paged b qb qb" for b n by (simp_all add: rp_paged_def qb_Limit_def)
  show ?thesis using cp_token_paged[of "en_decode E"] l
    by (cases k) (auto simp: rp_kind_clause_def cp_clauses Let_def split: prod.splits)
qed

lemma rp_expand_uint: "ChUint t \<in> set args \<Longrightarrow> rp_expand R args = args"
  by (auto simp: rp_expand_def split: list.splits ch_arg.splits json.splits)

lemma sq_and_join:
  assumes "sq_list A w fs as bs" "fs \<noteq> []"
  shows "\<exists>b. sq_and A w (go_Join fs '' AND '') as b \<and> b = list_all (\<lambda>b. b) bs"
  using sq_list_and[OF assms] by blast

text \<open>The filter as it is applied to a row.\<close>

definition rp_means :: "rp_env \<Rightarrow> filter_expr option \<Rightarrow> (string \<Rightarrow> 'v ch_arg list \<Rightarrow> bool) \<Rightarrow> bool" where
  "rp_means E expr w =
     (case expr of
        None \<Rightarrow> True
      | Some e \<Rightarrow>
          fx_Type e = ExprType_UNSPECIFIED \<or>
          (let e' = cf_applied (cf_buildCond (en_snake E) :: _ \<Rightarrow> cf_error + (string \<times> 'v ch_arg list) option) e
           in fx_none e' \<or> fx_eval (cf_holds (en_snake E) w) e'))"

lemma ch_holds_new: "ch_holds A w (qb_NewQueryBuilder tbl) True"
  by (auto simp: ch_holds_def qb_NewQueryBuilder_def intro: exI[of _ "[]"] sq_Nil)

lemma rp_filter_holds:
  assumes "cf_BuildSelectors (en_snake E) expr (Some (qb_NewQueryBuilder tbl)) = Some (Inr qb0)"
  shows "ch_holds (cf_atom (en_snake E)) w qb0 (rp_means E expr w)"
proof (cases "\<exists>e. expr = Some e \<and> fx_Type e \<noteq> ExprType_UNSPECIFIED")
  case True
  then obtain e where e: "expr = Some e" "fx_Type e \<noteq> ExprType_UNSPECIFIED" by blast
  show ?thesis using cf_selectors_holds[OF assms[unfolded e(1)] e(2) ch_holds_new refl] e by (simp add: rp_means_def Let_def)
next
  case False
  then have "qb0 = qb_NewQueryBuilder tbl" "rp_means E expr w"
    using assms by (auto simp: cf_BuildSelectors_def rp_means_def split: option.splits)
  then show ?thesis using ch_holds_new by simp
qed

abbreviation rp_atom :: "rp_env \<Rightarrow> string \<Rightarrow> 'v ch_arg list \<Rightarrow> bool" where
  "rp_atom E q as \<equiv> cf_atom (en_snake E) q as \<or> q = ''id > ?''"

abbreviation rp_atom_t :: "rp_env \<Rightarrow> string \<Rightarrow> 'v ch_arg list \<Rightarrow> bool" where
  "rp_atom_t E q as \<equiv> rp_atom E q as \<or> q = ''tenant_id = ?''"

lemma ch_holds_mono: "ch_holds A w qb b \<Longrightarrow> (\<And>q as. A q as \<Longrightarrow> B q as) \<Longrightarrow> ch_holds B w qb b"
proof -
  assume h: "ch_holds A w qb b" and AB: "\<And>q as. A q as \<Longrightarrow> B q as"
  then obtain bs where bs: "sq_list (\<lambda>q as. A q as \<or> q = ''tenant_id = ?'') w (qb_conditions qb) (qb_params qb) bs"
      "b = list_all (\<lambda>b. b) bs" by (auto simp: ch_holds_def)
  have "sq_list (\<lambda>q as. B q as \<or> q = ''tenant_id = ?'') w (qb_conditions qb) (qb_params qb) bs"
    by (rule sq_list_mono[OF bs(1)]) (use AB in auto)
  then show ?thesis using bs(2) by (auto simp: ch_holds_def)
qed

text \<open>The list statement of a tenant: its condition is the filter, the tenant and the cursor.\<close>

lemma rp_tenant_statement:
  assumes "ch_holds (cf_atom (en_snake E)) w qb0 b"
    "qb1 = qb0\<lparr>qb_conditions := qb_conditions qb0 @ [''tenant_id = ?''], qb_params := qb_params qb0 @ [ChUint t]\<rparr>"
    "qb_conditions qb2 = qb_conditions qb1" "qb_params qb2 = qb_params qb1" "rp_paged token qb2 qb3"
  shows "\<exists>c. sq_and (rp_atom_t E) w (go_Join (qb_conditions qb3) '' AND '') (qb_params qb3)
      (b \<and> w ''tenant_id = ?'' [ChUint t] \<and> c) \<and> (\<not> token \<longrightarrow> c)"
proof -
  let ?o = "w ''tenant_id = ?'' [ChUint t]"
  have "ch_holds (rp_atom E) w qb0 b" by (rule ch_holds_mono[OF assms(1)]) simp
  then have h1: "ch_holds (rp_atom E) w qb1 (b \<and> ?o)"
    unfolding assms(2) by (rule ch_holds_add) simp
  have "\<exists>c. ch_holds (rp_atom E) w qb3 ((b \<and> ?o) \<and> c) \<and> (\<not> token \<longrightarrow> c)"
  proof (cases "qb_conditions qb3 = qb_conditions qb2 \<and> qb_params qb3 = qb_params qb2")
    case True
    then show ?thesis using h1 assms(3,4) by (intro exI[of _ True]) (simp add: ch_holds_def)
  next
    case False
    then obtain i where i: token "qb_conditions qb3 = qb_conditions qb1 @ [''id > ?'']" "qb_params qb3 = qb_params qb1 @ [ChInt i]"
      using assms(3-5) by (auto simp: rp_paged_def)
    from ch_holds_add[OF h1, of "''id > ?''" "[ChInt i]"] i show ?thesis
      by (intro exI[of _ "w ''id > ?'' [ChInt i]"]) (simp add: ch_holds_def)
  qed
  then obtain c bs where c: "sq_list (rp_atom_t E) w (qb_conditions qb3) (qb_params qb3) bs"
      "((b \<and> ?o) \<and> c) = list_all (\<lambda>b. b) bs" "\<not> token \<longrightarrow> c" by (auto simp: ch_holds_def)
  have "qb_conditions qb3 \<noteq> []" using assms(2,3,5) by (auto simp: rp_paged_def)
  from sq_list_and[OF c(1) this] show ?thesis using c(2,3) by (intro exI[of _ c]) (simp add: conj_assoc)
qed

lemma qb_Build_where:
  "qb_conditions qb \<noteq> [] \<Longrightarrow> \<exists>pre post. qb_Build qb = (pre @ '' WHERE '' @ go_Join (qb_conditions qb) '' AND '' @ post, qb_params qb)"
  by (intro exI[of _ "(if qb_cacheResult qb then ''/* CACHE */ '' else '''') @ ''SELECT '' @
      (if qb_distinct qb then ''DISTINCT '' else '''') @ qb_buildColumns qb @ '' FROM '' @ qb_table qb @
      (if qb_useIndex qb \<noteq> '''' then '' USE INDEX ('' @ qb_useIndex qb @ '')'' else '''')"]
      exI[of _ "(if qb_groupBy qb \<noteq> [] then '' GROUP BY '' @ go_Join (qb_groupBy qb) '', '' else '''') @
      (if qb_having qb \<noteq> [] then '' HAVING '' @ go_Join (qb_having qb) '' AND '' else '''') @
      (if qb_orderBy qb \<noteq> [] then '' ORDER BY '' @ go_Join (qb_orderBy qb) '', '' else '''') @
      (if qb_limitBy qb \<noteq> '''' then '' '' @ qb_limitBy qb
       else if qb_limit qb > 0 then '' LIMIT '' @ go_itoa (qb_limit qb) else '''') @
      (if qb_offset qb > 0 then '' OFFSET '' @ go_itoa (qb_offset qb) else '''')"])
    (simp add: qb_Build_def)

lemma rp_prepare_tenant:
  fixes R :: "('d, 'v) ch_repo"
  assumes "re_scoped R" "vw_view ctx = VwTenant t" "rp_prepare R D E ctx req fm sorting orderBy lg = Some (Inr (qb, tot), lg1)"
    "rp_paged token qb qb'"
  shows "\<exists>expr pre cond post args. fr_convertFilterRequest (en_qc E) (en_unmarshal E) (en_aip E) (Some req) = Inr expr \<and>
    snd (rp_fetch R D qb' tot lg1) = lg1 @ [(pre @ '' WHERE '' @ cond @ post, args)] \<and>
    (\<forall>w. \<exists>c. sq_and (rp_atom_t E) w cond args (rp_means E expr w \<and> w ''tenant_id = ?'' [ChUint t] \<and> c) \<and> (\<not> token \<longrightarrow> c))"
proof (cases rule: rp_prepare_ok[of R D E ctx req fm sorting orderBy lg])
  case (2 qb2 tot2 lg2 expr qb0 qb1 cols os)
  let ?qb1 = "qb0\<lparr>qb_conditions := qb_conditions qb0 @ [''tenant_id = ?''], qb_params := qb_params qb0 @ [ChUint t]\<rparr>"
  have "qb1 = ?qb1" using 2(4) assms(1) ch_Inject_tenant[OF assms(2), of qb0] by simp
  then have q: "qb_conditions qb = qb_conditions ?qb1" "qb_params qb = qb_params ?qb1" using 2(1,5) assms(3) by auto
  then have n: "qb_conditions qb' \<noteq> []" "ChUint t \<in> set (qb_params qb')" using assms(4) by (auto simp: rp_paged_def)
  obtain pre post where b: "qb_Build qb' = (pre @ '' WHERE '' @ go_Join (qb_conditions qb') '' AND '' @ post, qb_params qb')"
    using qb_Build_where[OF n(1)] by blast
  have "snd (rp_fetch R D qb' tot lg1) = lg1 @ [(pre @ '' WHERE '' @ go_Join (qb_conditions qb') '' AND '' @ post, qb_params qb')]"
    using rp_expand_uint[OF n(2)] by (simp add: rp_fetch_def rp_Query_def b Let_def)
  moreover have "\<exists>c. sq_and (rp_atom_t E) w (go_Join (qb_conditions qb') '' AND '') (qb_params qb')
      (rp_means E expr w \<and> w ''tenant_id = ?'' [ChUint t] \<and> c) \<and> (\<not> token \<longrightarrow> c)" for w
    by (rule rp_tenant_statement[OF rp_filter_holds[OF 2(3)] refl q assms(4)])
  ultimately show ?thesis using 2(2) by blast
qed (use assms(3) in simp)

lemma rp_fetch_rows:
  "rp_fetch R D qb tot lg = (Inr (items, n), lg') \<Longrightarrow> \<exists>rows. db_Query D lg' = Some rows \<and> items = map (re_ToDTO R) rows"
  by (auto simp: rp_fetch_def rp_Query_def Let_def split: option.splits prod.splits)



section \<open>Statements of the writes\<close>

lemma rp_tenant_view: "re_scoped R \<Longrightarrow> rp_tenant R ctx =
   (case vw_view ctx of VwMissing \<Rightarrow> Inl ErrMissingViewer | VwPass \<Rightarrow> Inr None | VwTenant t \<Rightarrow> Inr (Some t))"
  by (simp add: rp_tenant_def vw_Enforce_view ed_none_def split: vw_case.splits)

lemma rp_columns_sets: "rp_columns (\<lambda>_. True) (re_fields R) ent = [] \<Longrightarrow> rp_sets R msk i ent = []"
proof -
  assume "rp_columns (\<lambda>_. True) (re_fields R) ent = []"
  then have "\<not> sf_exported sf" if "(sf, v) \<in> set (zip (re_fields R) ent)" for sf v
    using that by (auto simp: rp_columns_def split: if_splits)
  then have "\<not> sf_exported sf" if "(n, sf, v) \<in> set (enumerate 0 (zip (re_fields R) ent))" for n sf v
    using that set_zip_rightD[of n "(sf, v)"] by (auto simp: enumerate_eq_zip)
  then show ?thesis by (auto simp: rp_sets_def)
qed

text \<open>An update that reached the database, with what led to it.\<close>

lemma rp_Update_sent:
  assumes "rp_Update R D pbnorm ctx dto m lg = (r, lg')" "lg' \<noteq> lg"
  obtains d ent i col cvs tid rest where "re_client R" "re_table R \<noteq> ''''" "dto = Some d" "re_ToEntity R d = Some ent" "re_struct R"
    "rp_pk R = Some (i, col)" "cvs = rp_sets R (fs_MaskSet (fs_NormalizeFieldMaskPaths pbnorm m)) i ent" "cvs \<noteq> []"
    "rp_tenant R ctx = Inr tid"
    "lg' = lg @ [rp_update (re_table R) cvs (col @ '' = ?'' @ (if tid = None then '''' else '' AND tenant_id = ?''))
       (ChField (ent ! i) # (case tid of None \<Rightarrow> [] | Some t \<Rightarrow> [ChUint t]))] @ rest"
proof -
  obtain d where d: "re_client R" "re_table R \<noteq> ''''" "dto = Some d"
    using assms by (auto simp: rp_Update_def rp_ready_def split: if_splits option.splits)
  obtain ent where e: "re_ToEntity R d = Some ent" "re_struct R"
    using assms d by (auto simp: rp_Update_def rp_ready_def Let_def split: if_splits option.splits)
  obtain i col where p: "rp_pk R = Some (i, col)"
    using assms d e by (auto simp: rp_Update_def rp_ready_def Let_def split: option.splits)
  let ?cvs = "rp_sets R (fs_MaskSet (fs_NormalizeFieldMaskPaths pbnorm m)) i ent"
  have c: "?cvs \<noteq> []" using assms d e p by (auto simp: rp_Update_def rp_ready_def)
  obtain tid where t: "rp_tenant R ctx = Inr tid"
    using assms d e p c by (auto simp: rp_Update_def rp_ready_def split: sum.splits)
  let ?w = "col @ '' = ?'' @ (if tid = None then '''' else '' AND tenant_id = ?'')"
  let ?as = "ChField (ent ! i) # (case tid of None \<Rightarrow> [] | Some t \<Rightarrow> [ChUint t])"
  have "rp_Update R D pbnorm ctx dto m lg =
     (let (failed, lg) = rp_Exec D (rp_update (re_table R) ?cvs ?w ?as) lg
      in if failed then (Inl (ChErr ''update failed''), lg)
         else let (rows, lg) = rp_Query R D (rp_read R ?w ?as) lg in (rp_first R ''read updated record failed'' rows, lg))"
    using d e p c t unfolding rp_Update_def rp_ready_def by (simp only: Let_def simp_thms if_False option.case sum.case prod.case if_True)
  then have "\<exists>rest. lg' = lg @ [rp_update (re_table R) ?cvs ?w ?as] @ rest"
    using assms(1) by (auto simp: rp_Exec_def rp_Query_def Let_def split: if_splits)
  then show thesis using that[OF d e p refl c t] by blast
qed

text \<open>
  C34: \<open>UpdateX\<close> is not guarded. Where \<open>Update\<close>, in the view of tenant \<open>t\<close>, sends a statement restricted to the rows of \<open>t\<close>, \<open>UpdateX\<close>
  and, after a failed insert, \<open>UpsertX\<close> send the same statement without that restriction, whoever calls it.
\<close>

theorem rp_UpdateX_unguarded:
  assumes "re_SetTenantID R \<noteq> None" "vw_view ctx = VwTenant t" "rp_Update R D pbnorm ctx dto m lg = (r, lg')" "lg' \<noteq> lg"
  shows "\<exists>sql args rest ins. lg' = lg @ [(sql @ '' AND tenant_id = ?'', args @ [ChUint t])] @ rest \<and>
    snd (rp_UpdateX R D pbnorm ctx' dto m lg) = lg @ [(sql, args)] \<and>
    snd (rp_UpsertX R D pbnorm ctx' dto m lg) = (if db_Exec D (lg @ [ins]) then lg @ [ins, (sql, args)] else lg @ [ins])"
proof -
  obtain d ent i col cvs tid rest where u: "re_client R" "re_table R \<noteq> ''''" "dto = Some d" "re_ToEntity R d = Some ent" "re_struct R"
    "rp_pk R = Some (i, col)" "cvs = rp_sets R (fs_MaskSet (fs_NormalizeFieldMaskPaths pbnorm m)) i ent" "cvs \<noteq> []"
    "rp_tenant R ctx = Inr tid"
    "lg' = lg @ [rp_update (re_table R) cvs (col @ '' = ?'' @ (if tid = None then '''' else '' AND tenant_id = ?''))
       (ChField (ent ! i) # (case tid of None \<Rightarrow> [] | Some t \<Rightarrow> [ChUint t]))] @ rest"
    using rp_Update_sent[OF assms(3,4)] .
  let ?st = "rp_update (re_table R) cvs (col @ '' = ?'') [ChField (ent ! i)]"
  let ?icvs = "rp_columns (\<lambda>_. True) (re_fields R) ent"
  have "tid = Some t" using u(9) rp_tenant_view[OF assms(1), of ctx] assms(2) by simp
  then have "lg' = lg @ [(fst ?st @ '' AND tenant_id = ?'', snd ?st @ [ChUint t])] @ rest"
    using u(10) by (simp add: rp_update_def)
  moreover have "snd (rp_UpdateX R D pbnorm ctx' dto m lg) = lg @ [(fst ?st, snd ?st)]"
    using u by (simp add: rp_UpdateX_def rp_ready_def Let_def rp_Exec_def)
  moreover have "?icvs \<noteq> []" using rp_columns_sets u(7,8) by blast
  ultimately show ?thesis
    using u by (intro exI[of _ "fst ?st"] exI[of _ "snd ?st"] exI[of _ rest] exI[of _ "rp_insert (re_table R) ?icvs"])
      (auto simp: rp_UpsertX_def rp_upsert_def rp_ready_def Let_def rp_Exec_def)
qed

text \<open>
  The mask of \<open>Get\<close> has no effect. Its paths are normalised once by \<open>Get\<close> and once more by \<open>BuildSelector\<close>, and a normalised
  path is not a valid path: every \<open>Get\<close> selects all columns.
\<close>

theorem rp_Get_ignores_mask: "rp_Get R D pbnorm ctx qb viewMask lg = rp_Get R D pbnorm ctx qb None lg"
proof (cases viewMask)
  case (Some paths)
  have sel: "fs_select (map (\<lambda>p. fs_NormalizePath (fs_NormalizePath p)) ps) q = Some q" for ps and q :: "'b ch_builder"
    by (induction ps) (simp_all add: fs_Normalize_twice)
  have "fs_BuildSelector (fs_NormalizePaths ps) q = Some q" for ps and q :: "'b ch_builder"
    using sel[of ps q] by (simp add: fs_BuildSelector_def fs_NormalizePaths_def comp_def)
  then show ?thesis using Some by (simp add: rp_Get_def fs_NormalizeFieldMaskPaths_def Let_def)
qed simp

lemma rp_create_stmt:
  assumes "rp_create R D pbnorm ctx dto m res lg = (r, lg')" "m = Some paths"
    "msk = fs_MaskSet (fs_NormalizeFieldMaskPaths pbnorm m)"
  shows "lg' = lg \<or> (\<exists>ent. lg' = lg @ [rp_insert (re_table R) (rp_columns (rp_masked True msk) (re_fields R) ent)])"
  using assms by (auto simp: rp_create_def rp_ready_def Let_def rp_Exec_def fs_NormalizeFieldMaskPaths_def
      split: if_splits option.splits sum.splits)

lemma rp_columns_masked:
  assumes "msk \<noteq> []" "col \<notin> set msk" "\<And>sf. sf \<in> set sfs \<Longrightarrow> rp_col sf = col \<Longrightarrow> sf_Name sf \<notin> set msk"
  shows "col \<notin> fst ` set (rp_columns (rp_masked True msk) sfs ent)"
  using assms by (fastforce simp: rp_columns_def rp_masked_def dest: set_zip_leftD split: if_splits)

text \<open>
  A mask can keep the tenant out of a new row. With a mask that names neither the column \<open>tenant_id\<close> nor its field, the statement of
  \<open>Create\<close> has no such column, although the entity was given the viewer's tenant.
\<close>

theorem rp_Create_mask_drops_tenant:
  assumes "rp_Create R D pbnorm ctx dto (Some paths) lg = (r, lg')"
    "msk = fs_MaskSet (fs_NormalizeFieldMaskPaths pbnorm (Some paths))" "msk \<noteq> []" "''tenant_id'' \<notin> set msk"
    "\<forall>sf \<in> set (re_fields R). rp_col sf = ''tenant_id'' \<longrightarrow> sf_Name sf \<notin> set msk"
  shows "lg' = lg \<or> (\<exists>cvs. lg' = lg @ [rp_insert (re_table R) cvs] \<and> ''tenant_id'' \<notin> fst ` set cvs)"
  using rp_create_stmt[OF assms(1)[unfolded rp_Create_def] refl assms(2)] rp_columns_masked[OF assms(3,4)] assms(5) by blast

text \<open>
  An entity that embeds the mixin, as its documentation says, has the struct itself as a field: its column is not the tenant's.
\<close>

lemma rp_embedded_mixin:
  "sf_Name sf = ''TenantID'' \<Longrightarrow> sf_db sf = '''' \<Longrightarrow> sf_ch sf = '''' \<Longrightarrow> sf_json sf = '''' \<Longrightarrow> rp_col sf = ''tenantid''"
proof -
  have "go_ToLower ''TenantID'' = ''tenantid''" by code_simp
  then show "sf_Name sf = ''TenantID'' \<Longrightarrow> sf_db sf = '''' \<Longrightarrow> sf_ch sf = '''' \<Longrightarrow> sf_json sf = '''' \<Longrightarrow> ?thesis"
    by (simp add: rp_col_def)
qed

lemma rp_columns_fst: "length ent = length sfs \<Longrightarrow> map fst (rp_columns p sfs ent) = map rp_col (filter (\<lambda>sf. sf_exported sf \<and> p sf) sfs)"
proof (induction ent sfs rule: list_induct2)
  case (Cons v ent sf sfs)
  then show ?case by (simp add: rp_columns_def)
qed (simp add: rp_columns_def)

lemma rp_columns_length: "length ent = length sfs \<Longrightarrow> length ent' = length sfs \<Longrightarrow>
   length (rp_columns p sfs ent) = length (rp_columns p sfs ent')"
  using arg_cong[OF rp_columns_fst, of ent sfs length p] arg_cong[OF rp_columns_fst, of ent' sfs length p] by simp

definition rp_typed :: "('d, 'v) ch_repo \<Rightarrow> bool" where
  "rp_typed R \<longleftrightarrow> (\<forall>d ent. re_ToEntity R d = Some ent \<longrightarrow> length ent = length (re_fields R)) \<and>
     (\<forall>f tid ent. re_SetTenantID R = Some f \<longrightarrow> length (f tid ent) = length ent)"

lemma rp_Enforce_typed:
  "rp_typed R \<Longrightarrow> vw_EnforceOnScopedInstance (re_SetTenantID R) ctx (re_ToEntity R d) = Inr (Some ent) \<Longrightarrow>
   length ent = length (re_fields R)"
  by (auto simp: rp_typed_def vw_EnforceOnScopedInstance_def split: option.splits sum.splits if_splits)

lemma rp_entities_typed:
  "rp_typed R \<Longrightarrow> rp_entities R ctx ds = Inr ents \<Longrightarrow>
   length ents \<le> length ds \<and> (\<forall>ent. Some ent \<in> set ents \<longrightarrow> length ent = length (re_fields R))"
proof (induction ds arbitrary: ents)
  case (Cons x ds)
  show ?case
  proof (cases x)
    case (Some d)
    then obtain e es where "vw_EnforceOnScopedInstance (re_SetTenantID R) ctx (re_ToEntity R d) = Inr e"
        "rp_entities R ctx ds = Inr es" "ents = e # es" using Cons.prems(2) by (auto split: sum.splits)
    then show ?thesis using Cons.IH[OF Cons.prems(1)] rp_Enforce_typed[OF Cons.prems(1)] by auto
  qed (use Cons in fastforce)
qed simp

lemma count_rows: "count_list (go_Join (replicate n (''('' @ cf_marks k @ '')'')) '','') (CHR ''?'') = n * k"
proof (induction n)
  case (Suc n)
  then show ?case by (cases n) (simp_all add: cf_marks_set(2))
qed simp

lemma concat_length: "(\<And>x. x \<in> set xs \<Longrightarrow> length (f x) = k) \<Longrightarrow> length (concat (map f xs)) = length xs * k"
  by (induction xs) auto

text \<open>
  C35: the statement of a batch is well formed. When every entity has a value for each field of its type, the statement has one column
  list, a row of marks for each entity, and as many arguments as marks.
\<close>

theorem rp_batch_wf:
  assumes "rp_typed R" "rp_BatchCreate R D pbnorm ctx dtos m lg = Some (r, lg')" "lg' \<noteq> lg"
  shows "\<exists>cols rows vals n. lg' = lg @ [(''INSERT INTO '' @ re_table R @ '' ('' @ go_Join cols '','' @ '') VALUES '' @ rows, vals)] \<and>
    cols \<noteq> [] \<and> count_list rows (CHR ''?'') = length vals \<and> length vals = n * length cols \<and> 0 < n \<and> n \<le> length dtos"
proof -
  let ?m = "fs_NormalizeFieldMaskPaths pbnorm m"
  let ?p = "rp_masked (?m \<noteq> None) (fs_MaskSet ?m)"
  obtain ents where e: "rp_entities R ctx dtos = Inr ents"
    using assms(2,3) by (auto simp: rp_BatchCreate_def Let_def split: if_splits sum.splits)
  obtain ent es where s: "ents = Some ent # es"
    using assms(2,3) e by (auto simp: rp_BatchCreate_def Let_def split: if_splits list.splits option.splits)
  let ?cols = "map fst (rp_columns ?p (re_fields R) ent)" and ?es = "ent # map the es"
  let ?vals = "concat (map (\<lambda>e. map (ChField \<circ> snd) (rp_columns ?p (re_fields R) e)) ?es)"
  let ?rows = "go_Join (map (\<lambda>_. ''('' @ cf_marks (length ?cols) @ '')'') ?es) '',''"
  have c: "?cols \<noteq> []" "None \<notin> set es"
    using assms(2,3) e s by (auto simp: rp_BatchCreate_def Let_def split: if_splits)
  have l: "lg' = lg @ [(''INSERT INTO '' @ re_table R @ '' ('' @ go_Join ?cols '','' @ '') VALUES '' @ ?rows, ?vals)]"
    using assms(2,3) e s c by (simp add: rp_BatchCreate_def Let_def rp_Exec_def split: if_splits)
  have ty: "length e = length (re_fields R)" if "e \<in> set ?es" for e
  proof -
    have "Some e \<in> set ents" using that s c(2) by (auto simp: image_iff) (metis option.collapse)
    then show ?thesis using rp_entities_typed[OF assms(1) e] by blast
  qed
  have "length (map (ChField \<circ> snd) (rp_columns ?p (re_fields R) e)) = length ?cols" if "e \<in> set ?es" for e
    using rp_columns_length[OF ty[OF that] ty[of ent], of ?p] by simp
  then have v: "length ?vals = length ?es * length ?cols" by (rule concat_length)
  have "?rows = go_Join (replicate (length ?es) (''('' @ cf_marks (length ?cols) @ '')'')) '',''"
    by (simp only: map_replicate_const)
  then have "count_list ?rows (CHR ''?'') = length ?vals" using count_rows v by metis
  moreover have "length ?es \<le> length dtos" using rp_entities_typed[OF assms(1) e] s by simp
  ultimately show ?thesis using l c(1) v
    by (intro exI[of _ ?cols] exI[of _ ?rows] exI[of _ ?vals] exI[of _ "length ?es"] conjI) simp_all
qed

text \<open>In the view of a tenant nothing of other tenants is deleted.\<close>

lemma rp_Delete_tenant:
  assumes "re_scoped R" "vw_view ctx = VwTenant t" "rp_Delete R D ctx hard lg = (r, lg')"
  shows "lg' = lg \<or> \<not> hard \<and> (\<exists>col. lg' = lg @ [(''ALTER TABLE '' @ re_table R @ '' UPDATE '' @ col @
    '' = now() WHERE 1 AND tenant_id = ?'', [ChUint t])])"
  using assms rp_tenant_view[OF assms(1), of ctx]
  by (auto simp: rp_Delete_def rp_ready_def Let_def rp_Exec_def split: if_splits)

section \<open>Concrete instances\<close>

definition rp_demo_field :: "string \<Rightarrow> string \<Rightarrow> sfield" where
  "rp_demo_field n c = \<lparr>sf_Name = n, sf_exported = True, sf_db = c, sf_ch = '''', sf_json = '''', sf_pk = ''''\<rparr>"

definition rp_demo :: "(nat, nat) ch_repo" where
  "rp_demo = \<lparr>re_client = True, re_table = ''t'', re_struct = True,
     re_fields = [rp_demo_field ''Id'' ''id'', rp_demo_field ''Tenant'' ''tenant_id'', rp_demo_field ''Name'' ''name''],
     re_SetTenantID = Some (\<lambda>tid ent. ent[1 := unat tid]), re_isZero = (\<lambda>v. v = 0), re_elems = (\<lambda>_. None),
     re_ToEntity = (\<lambda>d. Some [d, 0, 5]), re_ToDTO = hd\<rparr>"

definition rp_demo_db :: "nat ch_db" where
  "rp_demo_db = \<lparr>db_Exec = (\<lambda>_. False), db_Query = (\<lambda>_. Some [[1, 7, 5]]), db_Count = (\<lambda>_. CountRow 1), db_Scan = (\<lambda>_. ScanRow)\<rparr>"

definition rp_demo_env :: rp_env where
  "rp_demo_env = \<lparr>en_snake = (\<lambda>s. s), en_qc = \<lparr>qc_snake = (\<lambda>s. s), qc_show = (\<lambda>_. ''''), qc_float = (\<lambda>_. '''')\<rparr>,
     en_unmarshal = (\<lambda>_. Inl ''''), en_aip = (\<lambda>_. Inl ''''), en_strings = (\<lambda>_. Inl ''''), en_order = (\<lambda>_. Inl ''''),
     en_limits = pg_vars0, en_NoPagingMaxLimit = 10000, en_decode = (\<lambda>_. (0, False))\<rparr>"

definition rp_demo_req :: rp_paging where
  "rp_demo_req = \<lparr>rq_Filter = \<lparr>fr_FilterExpr = Some cf_demo_expr, fr_Query = '''', fr_Filter = ''''\<rparr>, rq_FieldMask = Some [''name''],
     rq_Sorting = [(''name'', Sorting_DESC)], rq_OrderBy = '''', rq_NoPaging = False, rq_Page = Some 2, rq_PageSize = Some 10,
     rq_Offset = None, rq_Limit = None, rq_Token = None\<rparr>"

definition rp_demo_reqn :: rp_pagination where
  "rp_demo_reqn = \<lparr>rn_Filter = \<lparr>fr_FilterExpr = None, fr_Query = '''', fr_Filter = ''''\<rparr>, rn_FieldMask = None, rn_Sorting = [],
     rn_OrderBy = '''', rn_Kind = PgUnset\<rparr>"

definition rp_demo_ctx :: go_ctx where
  "rp_demo_ctx = CtxViewer (Some (vw_NewUserContext 1 7 0 [] [])) CtxBackground"

lemma rp_demo_view: "vw_view rp_demo_ctx = VwTenant 7"
  by (simp add: rp_demo_ctx_def vw_view_def vw_NewUserContext_def)

lemma rp_demo_scoped: "re_SetTenantID rp_demo \<noteq> None"
  by (simp add: rp_demo_def)



theorem rp_UpdateX_unguarded_witness:
  "\<exists>sql args rest. snd (rp_Update rp_demo rp_demo_db (\<lambda>ps. ps) rp_demo_ctx (Some 3) None []) =
       (sql @ '' AND tenant_id = ?'', args @ [ChUint 7]) # rest \<and>
     snd (rp_UpdateX rp_demo rp_demo_db (\<lambda>ps. ps) CtxBackground (Some 3) None []) = [(sql, args)]"
proof -
  let ?u = "rp_Update rp_demo rp_demo_db (\<lambda>ps. ps) rp_demo_ctx (Some 3) None []"
  have "snd ?u \<noteq> []" by code_simp
  from rp_UpdateX_unguarded[OF rp_demo_scoped rp_demo_view prod.collapse[symmetric] this, of CtxBackground] show ?thesis by auto
qed

theorem rp_Create_mask_drops_tenant_witness:
  "\<exists>cvs. snd (rp_Create rp_demo rp_demo_db (\<lambda>ps. ps) rp_demo_ctx (Some 3) (Some [''name'']) []) = [rp_insert ''t'' cvs] \<and>
     ''tenant_id'' \<notin> fst ` set cvs"
proof -
  let ?c = "rp_Create rp_demo rp_demo_db (\<lambda>ps. ps) rp_demo_ctx (Some 3) (Some [''name'']) []"
  have m: "fs_MaskSet (fs_NormalizeFieldMaskPaths (\<lambda>ps. ps) (Some [''name''])) = [''name'']" by code_simp
  have "snd ?c \<noteq> []" by code_simp
  moreover have "re_table rp_demo = ''t''" by (simp add: rp_demo_def)
  moreover have "\<forall>sf \<in> set (re_fields rp_demo). rp_col sf = ''tenant_id'' \<longrightarrow> sf_Name sf \<notin> set [''name'']"
    by (simp add: rp_demo_def rp_demo_field_def)
  ultimately show ?thesis
    using rp_Create_mask_drops_tenant[OF prod.collapse[of ?c, symmetric] m[symmetric]] by auto
qed

theorem rp_batch_wf_witness:
  "\<exists>rows vals. snd (the (rp_BatchCreate rp_demo rp_demo_db (\<lambda>ps. ps) rp_demo_ctx [Some 3, None, Some 4] None [])) =
     [(''INSERT INTO t (id,tenant_id,name) VALUES '' @ rows, vals)] \<and> count_list rows (CHR ''?'') = length vals"
proof -
  let ?b = "rp_BatchCreate rp_demo rp_demo_db (\<lambda>ps. ps) rp_demo_ctx [Some 3, None, Some 4] None []"
  have t: "rp_typed rp_demo" by (auto simp: rp_typed_def rp_demo_def)
  have n: "?b \<noteq> None" "snd (the ?b) \<noteq> []" "fst (hd (snd (the ?b))) = ''INSERT INTO t (id,tenant_id,name) VALUES (?,?,?),(?,?,?)''"
    "length (snd (hd (snd (the ?b)))) = 6" by code_simp+
  then have b: "?b = Some (fst (the ?b), snd (the ?b))" by auto
  obtain cols rows vals where "snd (the ?b) = [] @ [(''INSERT INTO '' @ re_table rp_demo @ '' ('' @ go_Join cols '','' @ '') VALUES '' @ rows, vals)]"
    "count_list rows (CHR ''?'') = length vals" using rp_batch_wf[OF t b n(2)] by blast
  then show ?thesis using n by (intro exI[of _ "''(?,?,?),(?,?,?)''"] exI[of _ vals]) auto
qed

end
