(* ===== verification/Authn.thy ===== *)
theory Authn
  imports Go_Encoding Filter_Expr
begin

text \<open>
  \<open>security/authn\<close>: claims, the token in the metadata of a call, and the engines \<open>hmac\<close>, \<open>basicauth\<close>, \<open>apikey\<close>, \<open>presharedkey\<close>, \<open>session\<close>,
  \<open>mtls\<close>, \<open>jwt\<close> and \<open>noop\<close>. The contract of an engine, that it accepts what it issues, is a locale, with the way through the metadata
  as its client. The message authentication code, the JWT library and the callbacks of an application are parameters, the time and the random
  choice of a key arguments. The lemmas show which tokens an engine accepts and that issued tokens are accepted.
\<close>

section \<open>Claims\<close>

datatype an_error =
  ErrorInvalidType | ErrInvalidClaims | ErrInvalidToken | ErrMissingBearerToken | ErrUnauthenticated | ErrTokenExpired
| ErrUnsupportedSigningMethod | ErrMissingKeyFunc | ErrSignTokenFailed | ErrBadAuthorization | AnErr string

text \<open>The HTTP status that each error carries; other errors count as internal ones.\<close>

definition an_code :: "an_error \<Rightarrow> nat" where
  "an_code e =
     (case e of
        ErrInvalidClaims \<Rightarrow> 401 | ErrInvalidToken \<Rightarrow> 401 | ErrMissingBearerToken \<Rightarrow> 401 | ErrUnauthenticated \<Rightarrow> 401
      | ErrTokenExpired \<Rightarrow> 401 | ErrBadAuthorization \<Rightarrow> 401 | _ \<Rightarrow> 500)"

text \<open>
  A claim: what a decoder or an application puts into the map. An integer stands for any of Go's integer types, a \<open>json.Number\<close> is
  the value of \<open>Float64\<close> and whether it has one.
\<close>

datatype claim =
  ClNil | ClStr string | ClStrs "string list" | ClList "claim list" | ClInt int | ClFloat64 float64 | ClFloat32 rat | ClNumber float64 bool | ClOther

type_synonym an_claims = "string \<rightharpoonup> claim"

definition an_parseString :: "string \<Rightarrow> an_claims \<Rightarrow> an_error + string" where
  "an_parseString key c = (case c key of None \<Rightarrow> Inr '''' | Some (ClStr s) \<Rightarrow> Inr s | Some _ \<Rightarrow> Inl ErrorInvalidType)"

fun an_strings :: "claim list \<Rightarrow> an_error + string list" where
  "an_strings [] = Inr []"
| "an_strings (ClStr s # cs) = (case an_strings cs of Inl e \<Rightarrow> Inl e | Inr ss \<Rightarrow> Inr (s # ss))"
| "an_strings (_ # cs) = Inl ErrorInvalidType"

definition an_parseStrings :: "string \<Rightarrow> an_claims \<Rightarrow> an_error + string list" where
  "an_parseStrings key c =
     (case c key of
        Some (ClStr s) \<Rightarrow> Inr [s]
      | Some (ClStrs ss) \<Rightarrow> Inr ss
      | Some (ClList cs) \<Rightarrow> an_strings cs
      | _ \<Rightarrow> Inr [])"

definition an_parseClaimsString :: "string \<Rightarrow> an_claims \<Rightarrow> an_error + string list" where
  "an_parseClaimsString key c =
     (case c key of
        Some (ClStr s) \<Rightarrow> Inr [s]
      | Some (ClStrs ss) \<Rightarrow> Inr ss
      | Some (ClList cs) \<Rightarrow> an_strings cs
      | _ \<Rightarrow> Inr [])"

text \<open>Seconds and nanoseconds; \<open>oor\<close> is the conversion of a number outside the range of int64.\<close>

definition an_newNumericDate :: "(float64 \<Rightarrow> int) \<Rightarrow> float64 \<Rightarrow> int \<times> int" where
  "an_newNumericDate oor f =
     (let round = rat_of_int (rat_trunc f); frac = f - round
      in (f2i oor round, f2i oor (f64 (frac * 1000000000))))"

definition an_parseNumericDate :: "(float64 \<Rightarrow> int) \<Rightarrow> string \<Rightarrow> an_claims \<Rightarrow> an_error + (int \<times> int) option" where
  "an_parseNumericDate oor key c =
     (case c key of
        None \<Rightarrow> Inr None
      | Some (ClFloat64 x) \<Rightarrow> if x = 0 then Inr None else Inr (Some (an_newNumericDate oor x))
      | Some (ClNumber x _) \<Rightarrow> Inr (Some (an_newNumericDate oor x))
      | Some _ \<Rightarrow> Inl ErrorInvalidType)"

text \<open>
  \<open>parseNumber\<close> for an integer type of \<open>w\<close> bits: integers wrap, floats are truncated. The error of a number without a value is that of
  the decoder.
\<close>

definition go_wrap :: "bool \<Rightarrow> nat \<Rightarrow> int \<Rightarrow> int" where
  "go_wrap sgnd w z = (if sgnd then (z + 2 ^ (w - 1)) mod 2 ^ w - 2 ^ (w - 1) else z mod 2 ^ w)"

definition an_floatToInt :: "bool \<Rightarrow> nat \<Rightarrow> (float64 \<Rightarrow> int) \<Rightarrow> rat \<Rightarrow> int" where
  "an_floatToInt sgnd w oor x = (if go_wrap sgnd w (rat_trunc x) = rat_trunc x then rat_trunc x else oor x)"

definition an_parseInt :: "bool \<Rightarrow> nat \<Rightarrow> (float64 \<Rightarrow> int) \<Rightarrow> claim \<Rightarrow> an_error + int" where
  "an_parseInt sgnd w oor v =
     (case v of
        ClNil \<Rightarrow> Inr 0
      | ClFloat32 x \<Rightarrow> Inr (an_floatToInt sgnd w oor x)
      | ClFloat64 x \<Rightarrow> Inr (an_floatToInt sgnd w oor x)
      | ClInt z \<Rightarrow> Inr (go_wrap sgnd w z)
      | ClNumber x ok \<Rightarrow> if \<not> ok then Inl (AnErr ''number'') else Inr (an_floatToInt sgnd w oor x)
      | _ \<Rightarrow> Inl ErrorInvalidType)"

definition an_parseFloat64 :: "claim \<Rightarrow> an_error + float64" where
  "an_parseFloat64 v =
     (case v of
        ClNil \<Rightarrow> Inr 0
      | ClFloat32 x \<Rightarrow> Inr x
      | ClFloat64 x \<Rightarrow> Inr x
      | ClInt z \<Rightarrow> Inr (f64 (rat_of_int z))
      | ClNumber x ok \<Rightarrow> if \<not> ok then Inl (AnErr ''number'') else Inr x
      | _ \<Rightarrow> Inl ErrorInvalidType)"

text \<open>\<open>GetInt\<close>, \<open>GetInt8\<close> and so on up to \<open>GetUint64\<close>, by sign and width.\<close>

definition an_GetInteger :: "bool \<Rightarrow> nat \<Rightarrow> (float64 \<Rightarrow> int) \<Rightarrow> string \<Rightarrow> an_claims \<Rightarrow> an_error + int" where
  "an_GetInteger sgnd w oor key c = (case c key of None \<Rightarrow> Inr 0 | Some raw \<Rightarrow> an_parseInt sgnd w oor raw)"

definition an_GetFloat64 :: "string \<Rightarrow> an_claims \<Rightarrow> an_error + float64" where
  "an_GetFloat64 key c = (case c key of None \<Rightarrow> Inr 0 | Some raw \<Rightarrow> an_parseFloat64 raw)"

definition an_GetSubject :: "an_claims \<Rightarrow> an_error + string" where
  "an_GetSubject c = an_parseString ''sub'' c"

text \<open>The subject as the engines read it, which ignore the error.\<close>

definition an_sub :: "an_claims \<Rightarrow> string" where
  "an_sub c = (case an_GetSubject c of Inl _ \<Rightarrow> '''' | Inr s \<Rightarrow> s)"

section \<open>The token in the metadata\<close>

text \<open>\<open>strings.Cut\<close> at a character, and \<open>strings.EqualFold\<close> on ASCII.\<close>

definition go_Cut :: "char \<Rightarrow> string \<Rightarrow> (string \<times> string) option" where
  "go_Cut c s = (if c \<in> set s then Some (takeWhile (\<lambda>x. x \<noteq> c) s, tl (dropWhile (\<lambda>x. x \<noteq> c) s)) else None)"

definition an_formatToken :: "string \<Rightarrow> string \<Rightarrow> string" where
  "an_formatToken expectedScheme tokenStr = expectedScheme @ '' '' @ tokenStr"

text \<open>The header of the incoming call, empty if there is none.\<close>

definition an_AuthFromMD :: "string \<Rightarrow> string \<Rightarrow> an_error + string" where
  "an_AuthFromMD expectedScheme val =
     (if val = '''' then Inl ErrUnauthenticated
      else case go_Cut (CHR '' '') val of
             None \<Rightarrow> Inl ErrBadAuthorization
           | Some (scheme, token) \<Rightarrow>
               if go_ToLower scheme \<noteq> go_ToLower expectedScheme then Inl ErrUnauthenticated else Inr token)"

text \<open>\<open>Authenticate\<close> of the engines that read a token, and \<open>CreateIdentityWithContext\<close>, whose result is the header of the outgoing call.\<close>

definition an_Authenticate :: "string \<Rightarrow> (string \<Rightarrow> an_error + an_claims) \<Rightarrow> string \<Rightarrow> an_error + an_claims" where
  "an_Authenticate scheme authenticateToken val =
     (case an_AuthFromMD scheme val of Inl _ \<Rightarrow> Inl ErrMissingBearerToken | Inr token \<Rightarrow> authenticateToken token)"

definition an_CreateWithContext :: "string \<Rightarrow> an_error + string \<Rightarrow> an_error + string" where
  "an_CreateWithContext scheme token = (case token of Inl e \<Rightarrow> Inl e | Inr t \<Rightarrow> Inr (an_formatToken scheme t))"

section \<open>hmac\<close>

record hm_options =
  hm_secrets :: "(string \<rightharpoonup> string) option"
  hm_resolver :: "(string \<Rightarrow> string option) option"
  hm_maxSkew :: duration

definition hm_getSecret :: "hm_options \<Rightarrow> string \<Rightarrow> string option" where
  "hm_getSecret opts keyID =
     (case hm_resolver opts of
        Some f \<Rightarrow> f keyID
      | None \<Rightarrow> (case hm_secrets opts of None \<Rightarrow> None | Some m \<Rightarrow> m keyID))"

definition hm_getMaxSkew :: "hm_options \<Rightarrow> duration" where
  "hm_getMaxSkew opts = (if hm_maxSkew opts > 0 then hm_maxSkew opts else 5 * 60 * 1000000000)"

text \<open>\<open>Duration.Seconds\<close> of a duration that is not negative.\<close>

definition go_Seconds :: "duration \<Rightarrow> float64" where
  "go_Seconds d = f64 (rat_of_int (d div 1000000000) + f64 (rat_of_int (d mod 1000000000) / 1000000000))"

definition hm_parseHMACToken :: "string \<Rightarrow> (string \<times> string \<times> string) option" where
  "hm_parseHMACToken token =
     (case go_Cut (CHR ''.'') token of
        None \<Rightarrow> None
      | Some (keyID, rest) \<Rightarrow>
          (case go_Cut (CHR ''.'') rest of
             None \<Rightarrow> None
           | Some (timestamp, signature) \<Rightarrow>
               if keyID = '''' \<or> timestamp = '''' \<or> signature = '''' then None else Some (keyID, timestamp, signature)))"

text \<open>\<open>mac secret msg\<close> is HMAC-SHA256.\<close>

definition hm_computeHMAC :: "(string \<Rightarrow> string \<Rightarrow> 8 word list) \<Rightarrow> string \<Rightarrow> string \<Rightarrow> string \<Rightarrow> string" where
  "hm_computeHMAC mac secret keyID timestamp = go_hex (mac secret (keyID @ ''.'' @ timestamp))"

text \<open>\<open>strconv.ParseInt\<close> with base 10 and 64 bits.\<close>

definition go_digit :: "char \<Rightarrow> bool" where
  "go_digit c \<longleftrightarrow> 48 \<le> (of_char c :: nat) \<and> (of_char c :: nat) \<le> 57"

definition go_number :: "string \<Rightarrow> int" where
  "go_number ds = foldl (\<lambda>a c. 10 * a + (of_char c - 48)) 0 ds"

definition go_ParseInt :: "string \<Rightarrow> int option" where
  "go_ParseInt s =
     (let (neg, ds) = (case s of [] \<Rightarrow> (False, []) | c # cs \<Rightarrow> if c = CHR ''-'' then (True, cs) else if c = CHR ''+'' then (False, cs) else (False, s));
          z = (if neg then - go_number ds else go_number ds)
      in if ds = [] \<or> \<not> list_all go_digit ds \<or> z < min64 \<or> z > max64 then None else Some z)"

text \<open>\<open>now\<close> is the Unix time in seconds; the differences wrap.\<close>

definition hm_AuthenticateToken ::
  "(string \<Rightarrow> string \<Rightarrow> 8 word list) \<Rightarrow> (float64 \<Rightarrow> int) \<Rightarrow> hm_options \<Rightarrow> int \<Rightarrow> string \<Rightarrow> an_error + an_claims" where
  "hm_AuthenticateToken mac oor opts now token =
     (case hm_parseHMACToken token of
        None \<Rightarrow> Inl ErrInvalidToken
      | Some (keyID, timestamp, signature) \<Rightarrow>
          (case go_ParseInt timestamp of
             None \<Rightarrow> Inl ErrInvalidToken
           | Some ts \<Rightarrow>
               (let skew = f2i oor (go_Seconds (hm_getMaxSkew opts))
                in if i64 (now - ts) > skew \<or> i64 (ts - now) > skew then Inl ErrTokenExpired
                   else case hm_getSecret opts keyID of
                          None \<Rightarrow> Inl ErrUnauthenticated
                        | Some secret \<Rightarrow>
                            if signature \<noteq> hm_computeHMAC mac secret keyID timestamp then Inl ErrUnauthenticated
                            else Inr [''sub'' \<mapsto> ClStr keyID])))"

definition hm_CreateIdentity :: "(string \<Rightarrow> string \<Rightarrow> 8 word list) \<Rightarrow> hm_options \<Rightarrow> int \<Rightarrow> an_claims \<Rightarrow> an_error + string" where
  "hm_CreateIdentity mac opts now claims =
     (let keyID = an_sub claims
      in if keyID = '''' then Inl (AnErr ''subject (keyID) is required'')
         else case hm_getSecret opts keyID of
                None \<Rightarrow> Inl (AnErr ''no secret configured for keyID'')
              | Some secret \<Rightarrow>
                  (let timestamp = go_itoa now
                   in Inr (keyID @ ''.'' @ timestamp @ ''.'' @ hm_computeHMAC mac secret keyID timestamp)))"

text \<open>The header of the outgoing call, \<open>None\<close> when it stays as it was.\<close>

definition hm_CreateIdentityWithContext ::
  "(string \<Rightarrow> string \<Rightarrow> 8 word list) \<Rightarrow> hm_options \<Rightarrow> int \<Rightarrow> an_claims \<Rightarrow> an_error + string option" where
  "hm_CreateIdentityWithContext mac opts now claims =
     (case hm_CreateIdentity mac opts now claims of
        Inl e \<Rightarrow> Inl e
      | Inr token \<Rightarrow> if token = '''' then Inr None else Inr (Some (an_formatToken ''Bearer'' token)))"

section \<open>basicauth\<close>

record ba_options =
  ba_users :: "(string \<rightharpoonup> string) option"
  ba_validator :: "(string \<Rightarrow> string \<Rightarrow> bool) option"

definition ba_validate :: "ba_options \<Rightarrow> string \<Rightarrow> string \<Rightarrow> bool" where
  "ba_validate opts username password =
     (case ba_validator opts of
        Some f \<Rightarrow> f username password
      | None \<Rightarrow> (case ba_users opts of None \<Rightarrow> False | Some m \<Rightarrow> (case m username of None \<Rightarrow> False | Some expected \<Rightarrow> expected = password)))"

definition ba_AuthenticateToken :: "ba_options \<Rightarrow> string \<Rightarrow> an_error + an_claims" where
  "ba_AuthenticateToken opts token =
     (case b64_decode token of
        None \<Rightarrow> Inl ErrInvalidToken
      | Some decoded \<Rightarrow>
          (case go_Cut (CHR '':'') (string_of decoded) of
             None \<Rightarrow> Inl ErrInvalidToken
           | Some (username, password) \<Rightarrow>
               if \<not> ba_validate opts username password then Inl ErrUnauthenticated else Inr [''sub'' \<mapsto> ClStr username]))"

definition ba_CreateIdentity :: "ba_options \<Rightarrow> an_claims \<Rightarrow> an_error + string" where
  "ba_CreateIdentity opts claims =
     (let username = an_sub claims
      in if username = '''' then Inl (AnErr ''subject is required in claims'')
         else case (case ba_users opts of None \<Rightarrow> None | Some m \<Rightarrow> m username) of
                None \<Rightarrow> Inl (AnErr ''no password configured for user'')
              | Some password \<Rightarrow> Inr (b64_encode (bytes_of (username @ '':'' @ password))))"

section \<open>apikey and presharedkey\<close>

record ak_options =
  ak_keys :: "string set option"
  ak_claims :: "string \<rightharpoonup> an_claims"
  ak_validator :: "(string \<Rightarrow> an_claims option) option"

definition ak_AuthenticateToken :: "ak_options \<Rightarrow> string \<Rightarrow> an_error + an_claims" where
  "ak_AuthenticateToken opts token =
     (case ak_validator opts of
        Some f \<Rightarrow> (case f token of None \<Rightarrow> Inl ErrUnauthenticated | Some c \<Rightarrow> Inr c)
      | None \<Rightarrow>
          (case ak_keys opts of
             None \<Rightarrow> Inl ErrUnauthenticated
           | Some ks \<Rightarrow>
               if token \<notin> ks then Inl ErrUnauthenticated
               else case ak_claims opts token of Some c \<Rightarrow> Inr c | None \<Rightarrow> Inr Map.empty))"

definition ak_CreateIdentity :: "an_claims \<Rightarrow> an_error + string" where
  "ak_CreateIdentity claims = Inr (an_sub claims)"

text \<open>The keys in the order in which a range visits them.\<close>

definition pk_AuthenticateToken :: "string list \<Rightarrow> string \<Rightarrow> an_error + an_claims" where
  "pk_AuthenticateToken validKeys token =
     (if length validKeys < 1 then Inl (AnErr ''invalid auth configuration, please specify at least one key'')
      else if token \<in> set validKeys then Inr Map.empty else Inl ErrUnauthenticated)"

fun pk_pick :: "nat \<Rightarrow> string list \<Rightarrow> string" where
  "pk_pick idx [] = ''''"
| "pk_pick idx (k # ks) = (if idx = 0 then k else pk_pick (idx - 1) ks)"

text \<open>\<open>rnd\<close> is the number of \<open>rand.Intn\<close>.\<close>

definition pk_getRandomKey :: "string list \<Rightarrow> nat \<Rightarrow> string" where
  "pk_getRandomKey validKeys rnd = (if length validKeys = 0 then '''' else pk_pick (rnd mod length validKeys) validKeys)"

definition pk_CreateIdentity :: "string list \<Rightarrow> nat \<Rightarrow> an_claims \<Rightarrow> an_error + string" where
  "pk_CreateIdentity validKeys rnd claims = Inr (pk_getRandomKey validKeys rnd)"

section \<open>session\<close>

text \<open>The default store and the counter of the package, which starts at zero with the process.\<close>

record ms_store =
  ms_sessions :: "string \<rightharpoonup> an_claims"
  ms_rand :: "64 word"

definition ms_NewMemoryStore :: ms_store where
  "ms_NewMemoryStore = \<lparr>ms_sessions = Map.empty, ms_rand = 0\<rparr>"

definition ms_fastRand :: "64 word \<Rightarrow> nat \<times> 64 word" where
  "ms_fastRand r = (let r = r * 6364136223846793005 + 1442695040888963407 in (unat (drop_bit 32 r), r))"

fun ms_randomString :: "nat \<Rightarrow> 64 word \<Rightarrow> string \<times> 64 word" where
  "ms_randomString 0 r = ([], r)"
| "ms_randomString (Suc n) r =
     (let (x, r) = ms_fastRand r; (s, r) = ms_randomString n r in (''0123456789abcdef'' ! (x mod 16) # s, r))"

definition ms_generateSessionID :: "64 word \<Rightarrow> string \<times> 64 word" where
  "ms_generateSessionID r = ms_randomString 32 r"

definition ms_Get :: "string \<Rightarrow> ms_store \<Rightarrow> an_claims option" where
  "ms_Get sessionID m = ms_sessions m sessionID"

definition ms_Set :: "string \<Rightarrow> an_claims \<Rightarrow> ms_store \<Rightarrow> string \<times> ms_store" where
  "ms_Set sessionID claims m =
     (let (i, r) = (if sessionID = '''' then ms_generateSessionID (ms_rand m) else (sessionID, ms_rand m))
      in (i, m\<lparr>ms_sessions := (ms_sessions m)(i \<mapsto> claims), ms_rand := r\<rparr>))"

definition ms_Delete :: "string \<Rightarrow> ms_store \<Rightarrow> ms_store" where
  "ms_Delete sessionID m = m\<lparr>ms_sessions := (ms_sessions m)(sessionID := None)\<rparr>"

definition sa_AuthenticateToken :: "ms_store \<Rightarrow> string \<Rightarrow> an_error + an_claims" where
  "sa_AuthenticateToken m sessionID =
     (if sessionID = '''' then Inl ErrMissingBearerToken
      else case ms_Get sessionID m of None \<Rightarrow> Inl ErrUnauthenticated | Some c \<Rightarrow> Inr c)"

text \<open>The session ID in the context, if there is one.\<close>

definition sa_Authenticate :: "ms_store \<Rightarrow> string option \<Rightarrow> an_error + an_claims" where
  "sa_Authenticate m ctx =
     (case ctx of None \<Rightarrow> Inl ErrMissingBearerToken | Some i \<Rightarrow> if i = '''' then Inl ErrMissingBearerToken else sa_AuthenticateToken m i)"

definition sa_CreateIdentity :: "an_claims \<Rightarrow> ms_store \<Rightarrow> (an_error + string) \<times> ms_store" where
  "sa_CreateIdentity claims m = (let (i, m) = ms_Set '''' claims m in (Inr i, m))"

section \<open>mtls, jwt and noop\<close>

record mt_options =
  mt_trustedCNs :: "string list"
  mt_validator :: "(string \<Rightarrow> an_claims option) option"

definition mt_isTrusted :: "mt_options \<Rightarrow> string \<Rightarrow> bool" where
  "mt_isTrusted opts subject \<longleftrightarrow> length (mt_trustedCNs opts) = 0 \<or> subject \<in> set (mt_trustedCNs opts)"

definition mt_authenticateSubject :: "mt_options \<Rightarrow> string \<Rightarrow> an_error + an_claims" where
  "mt_authenticateSubject opts subject =
     (case mt_validator opts of
        Some f \<Rightarrow> (case f subject of None \<Rightarrow> Inl ErrUnauthenticated | Some c \<Rightarrow> Inr c)
      | None \<Rightarrow> if \<not> mt_isTrusted opts subject then Inl ErrUnauthenticated else Inr [''sub'' \<mapsto> ClStr subject])"

definition mt_AuthenticateToken :: "mt_options \<Rightarrow> string \<Rightarrow> an_error + an_claims" where
  "mt_AuthenticateToken opts token = (if token = '''' then Inl ErrMissingBearerToken else mt_authenticateSubject opts token)"

definition mt_Authenticate :: "mt_options \<Rightarrow> string option \<Rightarrow> an_error + an_claims" where
  "mt_Authenticate opts peer =
     (case peer of
        None \<Rightarrow> Inl ErrMissingBearerToken
      | Some subject \<Rightarrow> if subject = '''' then Inl ErrMissingBearerToken else mt_authenticateSubject opts subject)"

definition mt_CreateIdentity :: "an_claims \<Rightarrow> an_error + string" where
  "mt_CreateIdentity claims = Inr (an_sub claims)"

definition mt_CreateIdentityWithContext :: "an_claims \<Rightarrow> string option \<Rightarrow> string option" where
  "mt_CreateIdentityWithContext claims peer = (if an_sub claims \<noteq> '''' then Some (an_sub claims) else peer)"

text \<open>
  What \<open>jwt.Parse\<close> returns: no token, or a token with its validity, method and claims (\<open>None\<close> when they are not map claims), and the
  errors that are joined in its error. A method is a name.
\<close>

datatype jw_error = JwMalformed | JwSignatureInvalid | JwExpired | JwNotValidYet | JwOther

record jw_token =
  jw_Valid :: bool
  jw_Method :: string
  jw_Claims :: "an_claims option"

record jw_options =
  jw_signingMethod :: string
  jw_keyFunc :: bool
  jw_signingKey :: bool

definition jw_NewAuthenticator :: "jw_options \<Rightarrow> jw_options" where
  "jw_NewAuthenticator opts = (if jw_signingMethod opts = '''' then opts\<lparr>jw_signingMethod := ''HS256''\<rparr> else opts)"

definition jw_AuthenticateToken ::
  "jw_options \<Rightarrow> (string \<Rightarrow> jw_token option \<times> jw_error set option) \<Rightarrow> string \<Rightarrow> an_error + an_claims" where
  "jw_AuthenticateToken opts parse tokenString =
     (let (tok, err) = (if \<not> jw_keyFunc opts then (None, Some {JwOther}) else parse tokenString)
      in case tok of
           None \<Rightarrow> Inl ErrInvalidToken
         | Some t \<Rightarrow>
             (case err of
                Some es \<Rightarrow>
                  Inl (if JwMalformed \<in> es then ErrInvalidToken
                       else if JwSignatureInvalid \<in> es then ErrSignTokenFailed
                       else if JwExpired \<in> es \<or> JwNotValidYet \<in> es then ErrTokenExpired
                       else ErrInvalidToken)
              | None \<Rightarrow>
                  if \<not> jw_Valid t then Inl ErrInvalidToken
                  else if jw_Method t \<noteq> jw_signingMethod opts then Inl ErrUnsupportedSigningMethod
                  else case jw_Claims t of None \<Rightarrow> Inl ErrInvalidClaims | Some c \<Rightarrow> Inr c))"

text \<open>\<open>sign\<close> is \<open>SignedString\<close> of the library with the configured key.\<close>

definition jw_CreateIdentity :: "jw_options \<Rightarrow> (string \<Rightarrow> an_claims \<Rightarrow> string option) \<Rightarrow> an_claims \<Rightarrow> an_error + string" where
  "jw_CreateIdentity opts sign claims =
     (if \<not> jw_signingKey opts then Inl ErrMissingKeyFunc
      else case sign (jw_signingMethod opts) claims of None \<Rightarrow> Inl ErrSignTokenFailed | Some s \<Rightarrow> Inr s)"

definition nn_AuthenticateToken :: "string \<Rightarrow> an_error + an_claims" where
  "nn_AuthenticateToken token = Inr Map.empty"

definition nn_CreateIdentity :: "an_claims \<Rightarrow> an_error + string" where
  "nn_CreateIdentity claims = Inr ''''"

section \<open>The way through the metadata\<close>

lemma go_Cut_append: "c \<notin> set s \<Longrightarrow> go_Cut c (s @ c # t) = Some (s, t)"
  by (induction s) (auto simp: go_Cut_def)

lemma go_Cut_SomeD: "go_Cut c s = Some (a, b) \<Longrightarrow> s = a @ c # b \<and> c \<notin> set a"
proof -
  assume "go_Cut c s = Some (a, b)"
  then have c: "c \<in> set s" and a: "a = takeWhile (\<lambda>x. x \<noteq> c) s" and b: "b = tl (dropWhile (\<lambda>x. x \<noteq> c) s)"
    by (auto simp: go_Cut_def split: if_splits)
  from c have ne: "dropWhile (\<lambda>x. x \<noteq> c) s \<noteq> []" by simp
  with b hd_dropWhile[OF ne] have "dropWhile (\<lambda>x. x \<noteq> c) s = c # b" by (metis list.collapse)
  with a show ?thesis by (metis (mono_tags, lifting) set_takeWhileD takeWhile_dropWhile_id)
qed

lemma go_Cut_iff: "go_Cut c s = Some (a, b) \<longleftrightarrow> s = a @ c # b \<and> c \<notin> set a"
  using go_Cut_SomeD go_Cut_append by metis

text \<open>
  The contract of an engine: for claims that satisfy \<open>ok\<close> it issues a token, and accepts it with the claims \<open>granted\<close>. Its client is
  the pair of calls with the metadata in between.
\<close>

locale authn_engine =
  fixes scheme :: string
    and create :: "an_claims \<Rightarrow> an_error + string"
    and verify :: "string \<Rightarrow> an_error + an_claims"
    and ok :: "an_claims \<Rightarrow> bool"
    and granted :: "an_claims \<Rightarrow> an_claims"
  assumes word: "CHR '' '' \<notin> set scheme"
    and issued: "ok c \<Longrightarrow> \<exists>tok. create c = Inr tok \<and> verify tok = Inr (granted c)"
begin

lemma token_survives: "an_AuthFromMD scheme (an_formatToken scheme tok) = Inr tok"
  using word by (simp add: an_AuthFromMD_def an_formatToken_def go_Cut_append)

lemma call_accepted:
  "ok c \<Longrightarrow> \<exists>h. an_CreateWithContext scheme (create c) = Inr h \<and> an_Authenticate scheme verify h = Inr (granted c)"
  using issued[of c] token_survives by (auto simp: an_CreateWithContext_def an_Authenticate_def)

text \<open>Nothing but a header of the scheme with an accepted token is let in.\<close>

lemma call_sound:
  "an_Authenticate scheme verify h = Inr c \<Longrightarrow>
   \<exists>s tok. h = s @ '' '' @ tok \<and> go_ToLower s = go_ToLower scheme \<and> verify tok = Inr c"
  by (auto 4 4 simp: an_Authenticate_def an_AuthFromMD_def go_Cut_iff split: sum.splits option.splits if_splits)

end

section \<open>Decimal numbers\<close>

lemma go_digit_char: "d < 10 \<Longrightarrow> go_digit (char_of (48 + d :: nat))"
  by (simp add: go_digit_def of_char_of)

lemma nat_digits_digit: "list_all go_digit (nat_digits n)"
proof (induction n rule: nat_digits.induct)
  case (1 n)
  then show ?case by (simp add: nat_digits.simps[of n] go_digit_char)
qed

lemma nat_digits_ne: "nat_digits n \<noteq> []" by (simp add: nat_digits.simps[of n])

lemma of_char_digit: "d < 10 \<Longrightarrow> (of_char (char_of (48 + d :: nat)) :: int) = 48 + int d"
proof -
  assume "d < 10"
  then have "(of_char (char_of (48 + d :: nat)) :: nat) = 48 + d" by (simp add: of_char_of)
  then show ?thesis by (metis of_nat_add of_nat_numeral of_nat_of_char)
qed

lemma go_number_snoc: "go_number (ds @ [c]) = 10 * go_number ds + (of_char c - 48)" by (simp add: go_number_def)

lemma go_number_digits: "go_number (nat_digits n) = int n"
proof (induction n rule: nat_digits.induct)
  case (1 n)
  then show ?case
    by (auto simp: nat_digits.simps[of n] go_number_snoc of_char_digit go_number_def[of "[_]"])
       (use div_mult_mod_eq[of n 10] in linarith)
qed

lemma digits_no_sign: "list_all go_digit ds \<Longrightarrow> ds \<noteq> [] \<Longrightarrow> hd ds \<noteq> CHR ''-'' \<and> hd ds \<noteq> CHR ''+''"
  by (cases ds) (auto simp: go_digit_def)

lemma go_ParseInt_itoa: "0 \<le> n \<Longrightarrow> n \<le> max64 \<Longrightarrow> go_ParseInt (go_itoa n) = Some n"
proof -
  assume n: "0 \<le> n" "n \<le> max64"
  obtain c cs where c: "nat_digits (nat n) = c # cs" using nat_digits_ne[of "nat n"] by (cases "nat_digits (nat n)") auto
  with nat_digits_digit[of "nat n"] digits_no_sign[of "c # cs"] go_number_digits[of "nat n"] n
  show ?thesis by (auto simp: go_ParseInt_def go_itoa_def)
qed

lemma go_ParseInt_chars: "go_ParseInt t = Some z \<Longrightarrow> t \<noteq> '''' \<and> CHR ''.'' \<notin> set t \<and> min64 \<le> z \<and> z \<le> max64"
  by (cases t) (auto simp: go_ParseInt_def go_digit_def list_all_iff Let_def split: if_splits)

section \<open>The engines accept what they issue\<close>

lemma go_hex_ne: "bs \<noteq> [] \<Longrightarrow> go_hex bs \<noteq> ''''" by (cases bs) (simp_all add: go_hex_def)

lemma hm_parse_iff:
  "hm_parseHMACToken tok = Some (k, t, s) \<longleftrightarrow>
   tok = k @ ''.'' @ t @ ''.'' @ s \<and> CHR ''.'' \<notin> set k \<and> CHR ''.'' \<notin> set t \<and> k \<noteq> '''' \<and> t \<noteq> '''' \<and> s \<noteq> ''''"
proof
  assume "hm_parseHMACToken tok = Some (k, t, s)"
  then show "tok = k @ ''.'' @ t @ ''.'' @ s \<and> CHR ''.'' \<notin> set k \<and> CHR ''.'' \<notin> set t \<and> k \<noteq> '''' \<and> t \<noteq> '''' \<and> s \<noteq> ''''"
    by (auto simp: hm_parseHMACToken_def go_Cut_iff split: option.splits prod.splits if_splits)
next
  assume "tok = k @ ''.'' @ t @ ''.'' @ s \<and> CHR ''.'' \<notin> set k \<and> CHR ''.'' \<notin> set t \<and> k \<noteq> '''' \<and> t \<noteq> '''' \<and> s \<noteq> ''''"
  then show "hm_parseHMACToken tok = Some (k, t, s)" by (simp add: hm_parseHMACToken_def go_Cut_append)
qed

text \<open>A skew of whole seconds reaches the comparison without rounding.\<close>

definition hm_seconds :: "hm_options \<Rightarrow> int" where
  "hm_seconds opts = hm_getMaxSkew opts div 1000000000"

lemma hm_getMaxSkew_pos: "0 < hm_getMaxSkew opts" by (simp add: hm_getMaxSkew_def)

lemma hm_skew:
  assumes "hm_getMaxSkew opts \<le> max64" "hm_getMaxSkew opts mod 1000000000 = 0"
  shows "f2i oor (go_Seconds (hm_getMaxSkew opts)) = hm_seconds opts" "0 \<le> hm_seconds opts" "hm_seconds opts < 2 ^ 34"
proof -
  show b: "0 \<le> hm_seconds opts" "hm_seconds opts < 2 ^ 34"
    using assms hm_getMaxSkew_pos[of opts] by (simp_all add: hm_seconds_def)
  have "go_Seconds (hm_getMaxSkew opts) = rat_of_int (hm_seconds opts)"
    using assms b by (simp add: go_Seconds_def hm_seconds_def f64_of_int)
  with b show "f2i oor (go_Seconds (hm_getMaxSkew opts)) = hm_seconds opts" by (simp add: f2i_def rat_trunc_def)
qed

text \<open>
  The two wrapping comparisons say that the timestamp is at most the skew away from the clock, or exactly \<open>2\<^sup>6\<^sup>3\<close> seconds before it: that
  difference is its own negation.
\<close>

lemma hm_fresh:
  assumes "0 \<le> now" "now \<le> 2 ^ 62" "min64 \<le> ts" "ts \<le> max64" "0 \<le> k" "k < 2 ^ 34"
  shows "\<not> (i64 (now - ts) > k \<or> i64 (ts - now) > k) \<longleftrightarrow> \<bar>now - ts\<bar> \<le> k \<or> now - ts = 2 ^ 63"
proof (cases "now - ts < 2 ^ 63")
  case True
  with assms have "i64 (now - ts) = now - ts" "i64 (ts - now) = ts - now" by (auto intro!: i64_id)
  with assms True show ?thesis by auto
next
  case False
  define d where "d = now - ts"
  from assms False have d: "2 ^ 63 \<le> d" "d \<le> 2 ^ 63 + 2 ^ 62" by (auto simp: d_def)
  have "(d + 2 ^ 63) mod 2 ^ 64 = d + 2 ^ 63 - 2 ^ 64" using d by (simp add: mod_pos_geq)
  then have "i64 d = d - 2 ^ 64" by (simp add: i64_def)
  moreover have "i64 (- d) = (if d = 2 ^ 63 then - d else 2 ^ 64 - d)"
  proof (cases "d = 2 ^ 63")
    case False
    have "(- d + 2 ^ 63) mod 2 ^ 64 = (- d + 2 ^ 63 + 2 ^ 64) mod 2 ^ 64" by (rule mod_add_self2[symmetric])
    also have "\<dots> = - d + 2 ^ 63 + 2 ^ 64" using d False by (intro mod_pos_pos_trivial) auto
    finally show ?thesis using False by (simp add: i64_def)
  qed (simp add: i64_def)
  moreover have "ts - now = - d" by (simp add: d_def)
  ultimately show ?thesis using d assms unfolding d_def[symmetric] by auto
qed

text \<open>
  C16: the HMAC engine accepts exactly the tokens \<open>keyID.timestamp.signature\<close> whose key has a secret, whose signature is the code of the
  first two parts under it, and whose timestamp is at most the skew away from the clock, with the key as the subject. The check of the
  timestamp is on wrapping differences, so that the timestamp \<open>2\<^sup>6\<^sup>3\<close> seconds before the clock passes too; no other does.
\<close>

theorem hm_accepts_iff:
  assumes "0 \<le> now" "now \<le> 2 ^ 62" "hm_getMaxSkew opts \<le> max64" "hm_getMaxSkew opts mod 1000000000 = 0"
  shows "hm_AuthenticateToken mac oor opts now tok = Inr c \<longleftrightarrow>
         (\<exists>keyID t ts secret.
            tok = keyID @ ''.'' @ t @ ''.'' @ go_hex (mac secret (keyID @ ''.'' @ t)) \<and>
            keyID \<noteq> '''' \<and> CHR ''.'' \<notin> set keyID \<and> mac secret (keyID @ ''.'' @ t) \<noteq> [] \<and>
            go_ParseInt t = Some ts \<and> (\<bar>now - ts\<bar> \<le> hm_seconds opts \<or> now - ts = 2 ^ 63) \<and>
            hm_getSecret opts keyID = Some secret \<and> c = [''sub'' \<mapsto> ClStr keyID])" (is "?lhs \<longleftrightarrow> ?rhs")
proof -
  note skew = hm_skew[OF assms(3,4)]
  have fresh: "go_ParseInt t = Some ts \<Longrightarrow>
      \<not> (i64 (now - ts) > hm_seconds opts \<or> i64 (ts - now) > hm_seconds opts) \<longleftrightarrow> \<bar>now - ts\<bar> \<le> hm_seconds opts \<or> now - ts = 2 ^ 63" for t ts
    using hm_fresh[OF assms(1,2) _ _ skew(2,3), of ts] go_ParseInt_chars[of t ts] by blast
  have "?lhs \<longleftrightarrow> (\<exists>keyID t sg ts secret. hm_parseHMACToken tok = Some (keyID, t, sg) \<and> go_ParseInt t = Some ts \<and>
      \<not> (i64 (now - ts) > hm_seconds opts \<or> i64 (ts - now) > hm_seconds opts) \<and> hm_getSecret opts keyID = Some secret \<and>
      sg = go_hex (mac secret (keyID @ ''.'' @ t)) \<and> c = [''sub'' \<mapsto> ClStr keyID])"
    unfolding hm_AuthenticateToken_def hm_computeHMAC_def skew(1)
    by (auto simp: Let_def not_less split: option.splits prod.splits if_splits)
  also have "\<dots> \<longleftrightarrow> ?rhs"
    unfolding hm_parse_iff using fresh go_ParseInt_chars go_hex_ne
    by (smt (verit, ccfv_threshold) concat.simps(1) go_hex_def list.simps(8))
  finally show ?thesis .
qed

text \<open>
  When the HMAC engine issues a token that it takes: the subject has a secret and no dot, and the clock of the receiver is at most the skew
  away from that of the sender. The code of SHA256 is not empty.
\<close>

definition hm_ok :: "(string \<Rightarrow> string \<Rightarrow> 8 word list) \<Rightarrow> hm_options \<Rightarrow> int \<Rightarrow> int \<Rightarrow> an_claims \<Rightarrow> bool" where
  "hm_ok mac opts now now' c \<longleftrightarrow>
     an_sub c \<noteq> '''' \<and> CHR ''.'' \<notin> set (an_sub c) \<and>
     (case hm_getSecret opts (an_sub c) of None \<Rightarrow> False | Some secret \<Rightarrow> mac secret (an_sub c @ ''.'' @ go_itoa now) \<noteq> []) \<and>
     hm_getMaxSkew opts \<le> max64 \<and> hm_getMaxSkew opts mod 1000000000 = 0 \<and>
     0 \<le> now \<and> now \<le> 2 ^ 62 \<and> 0 \<le> now' \<and> now' \<le> 2 ^ 62 \<and> \<bar>now' - now\<bar> \<le> hm_seconds opts"

lemma hm_issued:
  assumes "hm_ok mac opts now now' c"
  shows "\<exists>tok. hm_CreateIdentity mac opts now c = Inr tok \<and> hm_AuthenticateToken mac oor opts now' tok = Inr [''sub'' \<mapsto> ClStr (an_sub c)]"
proof -
  from assms obtain secret where s: "hm_getSecret opts (an_sub c) = Some secret" "mac secret (an_sub c @ ''.'' @ go_itoa now) \<noteq> []"
    by (auto simp: hm_ok_def split: option.splits)
  note ok = assms[unfolded hm_ok_def]
  from ok have t: "go_ParseInt (go_itoa now) = Some now" by (intro go_ParseInt_itoa) auto
  from ok have k: "hm_getMaxSkew opts \<le> max64" "hm_getMaxSkew opts mod 1000000000 = 0" by auto
  have "\<not> (i64 (now' - now) > hm_seconds opts \<or> i64 (now - now') > hm_seconds opts)"
    using ok hm_fresh[of now' now, OF _ _ _ _ hm_skew(2,3)[OF k]] by auto
  then show ?thesis using s ok t go_ParseInt_chars[OF t] go_hex_ne[OF s(2)] hm_skew(1)[OF k]
    by (auto simp: hm_CreateIdentity_def hm_AuthenticateToken_def hm_computeHMAC_def Let_def hm_parse_iff
        hm_parse_iff[of _ "an_sub c" "go_itoa now", simplified, THEN iffD2])
qed

theorem hm_accepts_iff_witness:
  "hm_AuthenticateToken (\<lambda>s m. [1]) (\<lambda>x. 0) \<lparr>hm_secrets = Some [''k'' \<mapsto> ''x''], hm_resolver = None, hm_maxSkew = 0\<rparr> 1000 ''k.900.01'' =
     Inr [''sub'' \<mapsto> ClStr ''k'']"
proof -
  let ?opts = "\<lparr>hm_secrets = Some [''k'' \<mapsto> ''x''], hm_resolver = None, hm_maxSkew = 0\<rparr>"
  have "\<exists>keyID t ts secret.
      ''k.900.01'' = keyID @ ''.'' @ t @ ''.'' @ go_hex [1 :: 8 word] \<and> keyID \<noteq> '''' \<and> CHR ''.'' \<notin> set keyID \<and> [1 :: 8 word] \<noteq> [] \<and>
      go_ParseInt t = Some ts \<and> (\<bar>1000 - ts\<bar> \<le> hm_seconds ?opts \<or> 1000 - ts = 2 ^ 63) \<and>
      hm_getSecret ?opts keyID = Some secret \<and> [''sub'' \<mapsto> ClStr ''k''] = [''sub'' \<mapsto> ClStr keyID]"
    by (rule exI[of _ "''k''"], rule exI[of _ "''900''"], rule exI[of _ 900], rule exI[of _ "''x''"])
       (simp add: hm_seconds_def hm_getMaxSkew_def hm_getSecret_def go_hex_def go_hexdigit_def go_ParseInt_def go_digit_def go_number_def, code_simp)
  then show ?thesis
    using hm_accepts_iff[of 1000 ?opts "\<lambda>s m. [1]" "\<lambda>x. 0" "''k.900.01''" "[''sub'' \<mapsto> ClStr ''k'']"] by (simp add: hm_getMaxSkew_def)
qed

interpretation hm: authn_engine "''Bearer''" "hm_CreateIdentity mac opts now" "hm_AuthenticateToken mac oor opts now'"
  "hm_ok mac opts now now'" "\<lambda>c. [''sub'' \<mapsto> ClStr (an_sub c)]" for mac oor opts now now'
  by unfold_locales (simp, rule hm_issued)

text \<open>Basic credentials: the subject is a user of the map, has no colon, and no other check is configured.\<close>

definition ba_ok :: "ba_options \<Rightarrow> an_claims \<Rightarrow> bool" where
  "ba_ok opts c \<longleftrightarrow>
     an_sub c \<noteq> '''' \<and> CHR '':'' \<notin> set (an_sub c) \<and>
     (case ba_users opts of
        None \<Rightarrow> False
      | Some m \<Rightarrow> (case m (an_sub c) of None \<Rightarrow> False | Some p \<Rightarrow> (case ba_validator opts of None \<Rightarrow> True | Some f \<Rightarrow> f (an_sub c) p)))"

lemma ba_issued:
  "ba_ok opts c \<Longrightarrow> \<exists>tok. ba_CreateIdentity opts c = Inr tok \<and> ba_AuthenticateToken opts tok = Inr [''sub'' \<mapsto> ClStr (an_sub c)]"
proof -
  assume ok: "ba_ok opts c"
  then obtain m p where m: "ba_users opts = Some m" "m (an_sub c) = Some p" and k: "an_sub c \<noteq> ''''" "CHR '':'' \<notin> set (an_sub c)"
    and v: "ba_validate opts (an_sub c) p" by (auto simp: ba_ok_def ba_validate_def split: option.splits)
  from m k have "ba_CreateIdentity opts c = Inr (b64_encode (bytes_of (an_sub c @ '':'' @ p)))" by (simp add: ba_CreateIdentity_def)
  moreover from k v have "ba_AuthenticateToken opts (b64_encode (bytes_of (an_sub c @ '':'' @ p))) = Inr [''sub'' \<mapsto> ClStr (an_sub c)]"
    by (simp add: ba_AuthenticateToken_def b64_roundtrip go_Cut_append)
  ultimately show ?thesis by blast
qed

interpretation ba: authn_engine "''Basic''" "ba_CreateIdentity opts" "ba_AuthenticateToken opts" "ba_ok opts"
  "\<lambda>c. [''sub'' \<mapsto> ClStr (an_sub c)]" for opts
  by unfold_locales (simp, rule ba_issued)

text \<open>An API key is the subject of the claims; it has to be one of the keys.\<close>

definition ak_ok :: "ak_options \<Rightarrow> an_claims \<Rightarrow> bool" where
  "ak_ok opts c \<longleftrightarrow> ak_validator opts = None \<and> (case ak_keys opts of None \<Rightarrow> False | Some ks \<Rightarrow> an_sub c \<in> ks)"

definition ak_granted :: "ak_options \<Rightarrow> an_claims \<Rightarrow> an_claims" where
  "ak_granted opts c = (case ak_claims opts (an_sub c) of Some d \<Rightarrow> d | None \<Rightarrow> Map.empty)"

interpretation ak: authn_engine "''Bearer''" ak_CreateIdentity "ak_AuthenticateToken opts" "ak_ok opts" "ak_granted opts" for opts
  by unfold_locales
     (simp, auto simp: ak_ok_def ak_granted_def ak_CreateIdentity_def ak_AuthenticateToken_def split: option.splits)

lemma pk_pick_in: "idx < length ks \<Longrightarrow> pk_pick idx ks \<in> set ks"
  by (induction idx ks rule: pk_pick.induct) auto

interpretation pk: authn_engine "''Bearer''" "pk_CreateIdentity ks rnd" "pk_AuthenticateToken ks" "\<lambda>c. ks \<noteq> []" "\<lambda>c. Map.empty" for ks rnd
  by unfold_locales (simp, auto simp: pk_CreateIdentity_def pk_getRandomKey_def pk_AuthenticateToken_def Suc_le_eq intro!: pk_pick_in)

text \<open>A JWT: what the library signs, it parses, as a valid token of the method with the claims.\<close>

definition jw_ok :: "jw_options \<Rightarrow> (string \<Rightarrow> jw_token option \<times> jw_error set option) \<Rightarrow> (string \<Rightarrow> an_claims \<Rightarrow> string option) \<Rightarrow> an_claims \<Rightarrow> bool" where
  "jw_ok opts parse sign c \<longleftrightarrow>
     jw_keyFunc opts \<and> jw_signingKey opts \<and>
     (case sign (jw_signingMethod opts) c of
        None \<Rightarrow> False
      | Some s \<Rightarrow> parse s = (Some \<lparr>jw_Valid = True, jw_Method = jw_signingMethod opts, jw_Claims = Some c\<rparr>, None))"

interpretation jw: authn_engine "''Bearer''" "jw_CreateIdentity opts sign" "jw_AuthenticateToken opts parse" "jw_ok opts parse sign" "\<lambda>c. c"
  for opts parse sign
  by unfold_locales (simp, auto simp: jw_ok_def jw_CreateIdentity_def jw_AuthenticateToken_def split: option.splits)

text \<open>
  C17: a caller that the HMAC engine of the sender gave a header is let in by the engine of the receiver, as its own subject, and through the
  metadata of the call: the subject has a secret and no dot, and the clocks are at most the skew apart.
\<close>

theorem hm_call_accepted:
  assumes "hm_ok mac opts now now' c"
  shows "\<exists>h. hm_CreateIdentityWithContext mac opts now c = Inr (Some h) \<and>
         an_Authenticate ''Bearer'' (hm_AuthenticateToken mac oor opts now') h = Inr [''sub'' \<mapsto> ClStr (an_sub c)]"
  using hm.call_accepted[OF assms, of oor]
  by (auto simp: hm_CreateIdentityWithContext_def an_CreateWithContext_def hm_CreateIdentity_def Let_def split: sum.splits option.splits if_splits)

theorem hm_call_accepted_witness:
  "\<exists>h. hm_CreateIdentityWithContext (\<lambda>s m. [1]) \<lparr>hm_secrets = Some [''k'' \<mapsto> ''x''], hm_resolver = None, hm_maxSkew = 0\<rparr> 900
         [''sub'' \<mapsto> ClStr ''k''] = Inr (Some h) \<and>
       an_Authenticate ''Bearer''
         (hm_AuthenticateToken (\<lambda>s m. [1]) (\<lambda>x. 0) \<lparr>hm_secrets = Some [''k'' \<mapsto> ''x''], hm_resolver = None, hm_maxSkew = 0\<rparr> 1000) h =
         Inr [''sub'' \<mapsto> ClStr ''k'']"
proof -
  let ?opts = "\<lparr>hm_secrets = Some [''k'' \<mapsto> ''x''], hm_resolver = None, hm_maxSkew = 0\<rparr>"
  have "hm_ok (\<lambda>s m. [1]) ?opts 900 1000 [''sub'' \<mapsto> ClStr ''k'']"
    by (simp add: hm_ok_def an_sub_def an_GetSubject_def an_parseString_def hm_getSecret_def hm_getMaxSkew_def hm_seconds_def)
  from hm_call_accepted[OF this, of "\<lambda>x. 0"] show ?thesis by (simp add: an_sub_def an_GetSubject_def an_parseString_def)
qed

section \<open>Session IDs\<close>

text \<open>The operations of the store, in the order in which its lock admits them.\<close>

datatype ms_op = MsSet string an_claims | MsDelete string

fun ms_op_step :: "ms_op \<Rightarrow> ms_store \<Rightarrow> ms_store" where
  "ms_op_step (MsSet i c) m = snd (ms_Set i c m)"
| "ms_op_step (MsDelete i) m = ms_Delete i m"



fun ms_creates :: "ms_op \<Rightarrow> bool" where
  "ms_creates (MsSet i c) \<longleftrightarrow> i = ''''"
| "ms_creates (MsDelete i) \<longleftrightarrow> False"

text \<open>The \<open>k\<close>-th ID that a process generates; nothing of the process is in it.\<close>

fun ms_nth_rand :: "nat \<Rightarrow> 64 word" where
  "ms_nth_rand 0 = 0"
| "ms_nth_rand (Suc k) = snd (ms_generateSessionID (ms_nth_rand k))"

definition ms_nth :: "nat \<Rightarrow> string" where
  "ms_nth k = fst (ms_generateSessionID (ms_nth_rand k))"

lemma ms_randomString_length: "length (fst (ms_randomString n r)) = n"
  by (induction n arbitrary: r) (simp_all add: ms_fastRand_def Let_def case_prod_beta)

lemma ms_nth_ne: "ms_nth k \<noteq> ''''"
  using ms_randomString_length[of 32 "ms_nth_rand k"] by (auto simp: ms_nth_def ms_generateSessionID_def)

text \<open>The generator on integers, on which it is evaluated.\<close>

fun ms_digits :: "nat \<Rightarrow> int \<Rightarrow> string" where
  "ms_digits 0 z = []"
| "ms_digits (Suc n) z =
     (let z = (z * 6364136223846793005 + 1442695040888963407) mod 2 ^ 64
      in ''0123456789abcdef'' ! nat (z div 2 ^ 32 mod 16) # ms_digits n z)"

lemma ms_fastRand_int:
  fixes z :: int
  defines "y \<equiv> (z * 6364136223846793005 + 1442695040888963407) mod 2 ^ 64"
  shows "ms_fastRand (word_of_int z) = (nat (y div 2 ^ 32), word_of_int y)"
proof -
  have "word_of_int z * 6364136223846793005 + 1442695040888963407 =
      (word_of_int (z * 6364136223846793005 + 1442695040888963407) :: 64 word)" by simp
  also have "\<dots> = word_of_int y" by (simp only: y_def word_of_int_eq_iff take_bit_eq_mod) simp
  finally have y: "word_of_int z * 6364136223846793005 + 1442695040888963407 = (word_of_int y :: 64 word)" .
  have "0 \<le> y" "y < 2 ^ 64" by (simp_all add: y_def)
  then have "unat (word_of_int y :: 64 word) = nat y" by (simp add: unsigned_of_int take_bit_int_eq_self)
  then have "unat (drop_bit 32 (word_of_int y :: 64 word)) = nat (y div 2 ^ 32)"
    using \<open>0 \<le> y\<close> unfolding unat_drop_bit_eq by (simp add: drop_bit_eq_div nat_div_distrib)
  with y show ?thesis by (simp add: ms_fastRand_def Let_def)
qed

lemma ms_randomString_int: "fst (ms_randomString n (word_of_int z)) = ms_digits n z"
proof (induction n arbitrary: z)
  case (Suc n)
  have "nat (y div 2 ^ 32) mod 16 = nat (y div 2 ^ 32 mod 16)" if "0 \<le> y" for y :: int
    using that by (simp add: nat_mod_distrib)
  with Suc show ?case by (simp add: ms_fastRand_int Let_def case_prod_beta)
qed simp

lemma ms_nth_0: "ms_nth 0 = ''e129a60e17e4da8c3477daf5a62e7c20''"
proof -
  have "ms_nth 0 = ms_digits 32 0" using ms_randomString_int[of 32 0] by (simp add: ms_nth_def ms_generateSessionID_def)
  also have "\<dots> = ''e129a60e17e4da8c3477daf5a62e7c20''" by code_simp
  finally show ?thesis .
qed

lemma ms_op_rand:
  "ms_rand m = ms_nth_rand k \<Longrightarrow> ms_rand (ms_op_step x m) = ms_nth_rand (if ms_creates x then Suc k else k)"
  by (cases x) (auto simp: ms_Set_def ms_Delete_def split: prod.splits)

lemma ms_run_rand:
  "ms_rand m = ms_nth_rand k \<Longrightarrow> ms_rand (fold ms_op_step xs m) = ms_nth_rand (k + length (filter ms_creates xs))"
proof (induction xs arbitrary: m k)
  case (Cons x xs)
  from Cons.IH[OF ms_op_rand[OF Cons.prems, of x]] show ?case by simp
qed simp

text \<open>
  C18: session IDs are predictable. In a process whose store has served any sequence of operations, \<open>k\<close> of which created a session, the next
  session has the ID \<open>ms_nth k\<close>, a function of \<open>k\<close> alone, and whoever presents that string is let in with the claims of the session. The
  first ID of every process is the same constant.
\<close>

theorem ms_predictable:
  "(\<exists>m. sa_CreateIdentity c (fold ms_op_step xs ms_NewMemoryStore) = (Inr (ms_nth (length (filter ms_creates xs))), m) \<and>
        sa_AuthenticateToken m (ms_nth (length (filter ms_creates xs))) = Inr c) \<and>
   ms_nth 0 = ''e129a60e17e4da8c3477daf5a62e7c20''"
proof -
  define k where "k = length (filter ms_creates xs)"
  have "ms_rand (fold ms_op_step xs ms_NewMemoryStore) = ms_nth_rand k"
    using ms_run_rand[of ms_NewMemoryStore 0 xs] by (simp add: k_def ms_NewMemoryStore_def)
  then show ?thesis
    using ms_nth_ne[of k] ms_nth_0 unfolding k_def[symmetric] by (auto simp: sa_CreateIdentity_def sa_AuthenticateToken_def ms_Set_def ms_Get_def ms_nth_def split: prod.splits)
qed

section \<open>Borders of the other engines\<close>

text \<open>The list of trusted names that is empty trusts every certificate, and no other list does.\<close>

lemma mt_accepts_iff:
  "mt_validator opts = None \<Longrightarrow>
   mt_Authenticate opts (Some s) = Inr c \<longleftrightarrow>
     s \<noteq> '''' \<and> (mt_trustedCNs opts = [] \<or> s \<in> set (mt_trustedCNs opts)) \<and> c = [''sub'' \<mapsto> ClStr s]"
  by (auto simp: mt_Authenticate_def mt_authenticateSubject_def mt_isTrusted_def)

text \<open>A JWT is accepted only when the library found no error, and the token is valid and of the configured method.\<close>

lemma jw_accepts_iff:
  "jw_AuthenticateToken opts parse s = Inr c \<longleftrightarrow>
   jw_keyFunc opts \<and> (\<exists>t. parse s = (Some t, None) \<and> jw_Valid t \<and> jw_Method t = jw_signingMethod opts \<and> jw_Claims t = Some c)"
  by (auto simp: jw_AuthenticateToken_def split: prod.splits option.splits)

text \<open>A forged signature is answered with the status of a failure of the server.\<close>

lemma jw_forged_is_500:
  assumes "jw_keyFunc opts" "parse s = (Some t, Some es)" "JwSignatureInvalid \<in> es" "JwMalformed \<notin> es"
  shows "\<exists>e. jw_AuthenticateToken opts parse s = Inl e \<and> an_code e = 500"
  using assms by (simp add: jw_AuthenticateToken_def an_code_def)

text \<open>A user name with a colon: its credential is that of another user.\<close>

lemma ba_colon_confusion:
  "ba_users opts = Some [''a:b'' \<mapsto> ''c'', ''a'' \<mapsto> ''b:c''] \<Longrightarrow> ba_validator opts = None \<Longrightarrow>
   \<exists>tok. ba_CreateIdentity opts [''sub'' \<mapsto> ClStr ''a:b''] = Inr tok \<and> ba_AuthenticateToken opts tok = Inr [''sub'' \<mapsto> ClStr ''a'']"
  by (simp add: ba_CreateIdentity_def ba_AuthenticateToken_def an_sub_def an_GetSubject_def an_parseString_def b64_roundtrip ba_validate_def
      go_Cut_append[of "CHR '':''" "''a''" "''b:c''", simplified])

text \<open>Integer claims fit the type they are read at, and are unchanged when they did before.\<close>

lemma go_wrap_range: "0 < w \<Longrightarrow> go_wrap True w z \<in> {- (2 ^ (w - 1)) ..< 2 ^ (w - 1)}" "go_wrap False w z \<in> {0 ..< 2 ^ w}"
proof -
  show "go_wrap False w z \<in> {0 ..< 2 ^ w}" by (simp add: go_wrap_def)
  assume "0 < w"
  then have p: "(2 :: int) ^ w = 2 * 2 ^ (w - 1)" by (cases w) simp_all
  have "0 \<le> (z + 2 ^ (w - 1)) mod 2 ^ w" "(z + 2 ^ (w - 1)) mod 2 ^ w < 2 ^ w" by simp_all
  with p show "go_wrap True w z \<in> {- (2 ^ (w - 1)) ..< 2 ^ (w - 1)}" by (simp add: go_wrap_def)
qed

lemma go_wrap_id: "0 \<le> z \<Longrightarrow> z < 2 ^ (w - 1) \<Longrightarrow> 0 < w \<Longrightarrow> go_wrap sgnd w z = z"
proof -
  assume z: "0 \<le> z" "z < 2 ^ (w - 1)" and "0 < w"
  then have p: "(2 :: int) ^ w = 2 * 2 ^ (w - 1)" by (cases w) simp_all
  from z p show ?thesis by (simp add: go_wrap_def mod_pos_pos_trivial)
qed

lemma an_GetInteger_int:
  assumes "0 < w" "c key = Some (ClInt z)"
  shows "\<exists>y. an_GetInteger sgnd w oor key c = Inr y \<and> (0 \<le> z \<and> z < 2 ^ (w - 1) \<longrightarrow> y = z) \<and>
         (if sgnd then - (2 ^ (w - 1)) \<le> y \<and> y < 2 ^ (w - 1) else 0 \<le> y \<and> y < 2 ^ w)"
  using assms go_wrap_range[of w z] by (auto simp: an_GetInteger_def an_parseInt_def go_wrap_id)

end
