(* ===== verification/Spec2Isabelle.thy ===== *)
theory Spec2Isabelle
  imports Hystrix Sres Vegas Token_Bucket Bbr Retry Selector Saga_Tcc Xa Authz Rbac Iam
    Paginator Page_Tree Broker Outbox Relay Inbox Cache_Local Health Token_Codec
    Tcp_Frame Hptimer Sse_Server Filter_Gorm Filter_Convert Tenant Ch_Repository Authn
begin

text \<open>
  Verification of the core of \<open>go-wind-plugins\<close>, a collection of Go packages for building services:
  fault tolerance, transactions, authentication, authorization, data access, messaging, server-sent events, caching and health checks.
  Every package is one component with a small interface; the components are composed by the
  application, which wraps a call in a circuit breaker, a limiter and a retrier, picks a node with a
  selector, writes its events to the outbox and publishes them through a broker.

  \<^bold>\<open>Theories and sources\<close> (paths under \<open>src/\<close>)

  \<^item> \<^verbatim>\<open>Go_Float\<close>, \<^verbatim>\<open>Go_Prelude\<close>, \<^verbatim>\<open>Go_Bytes\<close>: the parts of the language and its standard library that
    the components use: float64 as rationals with rounding after every operation, int64 with
    wrap-around, truncating division, times and durations, slices with bounds checks, byte printing.
  \<^item> \<^verbatim>\<open>Ring_Window\<close>: the sliding window of buckets that the breakers and the BBR limiter each carry.
  \<^item> \<^verbatim>\<open>Circuit_Breaker\<close>: the contract of \<open>circuitbreaker\<close> as a locale, with \<open>Execute\<close> as its client;
    \<^verbatim>\<open>Hystrix\<close>, \<^verbatim>\<open>Sres\<close> and \<^verbatim>\<open>Vegas\<close> model \<open>circuitbreaker/hystrix\<close>, \<open>circuitbreaker/sres\<close> and
    \<open>circuitbreaker/vegas\<close> and interpret it.
  \<^item> \<^verbatim>\<open>Rate_Limit\<close>: the contract of \<open>ratelimit\<close>; \<^verbatim>\<open>Token_Bucket\<close> and \<^verbatim>\<open>Bbr\<close> model
    \<open>ratelimit/tokenbucket\<close> and \<open>ratelimit/bbr\<close>.
  \<^item> \<^verbatim>\<open>Retry\<close> (\<open>retry\<close>), \<^verbatim>\<open>Selector\<close> (\<open>selector\<close>).
  \<^item> \<^verbatim>\<open>Saga_Tcc\<close> (\<open>transaction/saga\<close>, \<open>transaction/tcc\<close>), \<^verbatim>\<open>Xa\<close> (\<open>transaction/xa\<close>).
  \<^item> \<^verbatim>\<open>Outbox\<close>, \<^verbatim>\<open>Relay\<close>, \<^verbatim>\<open>Inbox\<close> (\<open>transaction/outbox\<close>): producer and SQL store, the relay on top of the
    interface \<open>Store\<close> (a locale, interpreted on the SQL store), and the consumers.
  \<^item> \<^verbatim>\<open>Authz\<close>: the contract of \<open>security/authz\<close> and \<open>security/authz/acl\<close>; \<^verbatim>\<open>Rbac\<close> and \<^verbatim>\<open>Iam\<close>:
    \<open>security/authz/rbac\<close> and \<open>security/authz/awsiam\<close>, interpreting it.
  \<^item> \<^verbatim>\<open>Paginator\<close> (\<open>crud/pagination/paginator\<close>), \<^verbatim>\<open>Page_Tree\<close> (\<open>crud/pagination/tree.go\<close>,
    \<open>crud/pagination/utils.go\<close>).
  \<^item> \<^verbatim>\<open>Broker\<close> (\<open>broker\<close>): messages, middlewares, the subscriber map, request and reply.
  \<^item> \<^verbatim>\<open>Cache_Local\<close> (\<open>cache/local\<close>), \<^verbatim>\<open>Health\<close> (\<open>health\<close>).
  \<^item> \<^verbatim>\<open>Go_Encoding\<close> and \<^verbatim>\<open>Token_Codec\<close>: base64, varints and the signed page tokens of
    \<open>crud/pagination/token_codec.go\<close> and \<open>token_secret.go\<close>; \<^verbatim>\<open>Tcp_Frame\<close>: the message framing and the
    session table of \<open>transport/tcp\<close>.
  \<^item> \<^verbatim>\<open>Go_Heap\<close> (\<open>container/heap\<close>) and \<^verbatim>\<open>Hptimer\<close> (\<open>transport/hptimer\<close>): the timer's heap and index, its loop and the
    interleavings of the loop with calls of the server.
  \<^item> \<^verbatim>\<open>Filter_Expr\<close>: the filter messages and operators; \<^verbatim>\<open>Filter_Convert\<close>: the JSON and AIP filter strings of
    \<open>crud/pagination/filter\<close> and the order-by strings of \<open>crud/pagination/sorting\<close>; \<^verbatim>\<open>Sql_Text\<close>: the names and
    the grammar of SQL conditions; \<^verbatim>\<open>Filter_Gorm\<close>: the SQL conditions of \<open>crud/gorm/filter\<close>.
  \<^item> \<^verbatim>\<open>Viewer\<close> (\<open>crud/viewer\<close>): who asks, and which tenant is enforced; \<^verbatim>\<open>Tenant\<close>: the guards of the stores
    (\<open>tenant_enforce.go\<close> in \<open>crud/cassandra\<close>, \<open>mongodb\<close>, \<open>gorm\<close>, \<open>neo4j\<close>, \<open>qdrant\<close>, \<open>weaviate\<close>, \<open>milvus\<close>), with the contract of
    a guard as a locale that the stores and the ClickHouse builder interpret.
  \<^item> \<^verbatim>\<open>Ch_Query\<close>, \<^verbatim>\<open>Ch_Filter\<close>, \<^verbatim>\<open>Ch_Repository\<close>: \<open>crud/clickhouse\<close>, the query builder with sorting, field masks and
    pages; the filter; and the repository, whose operations append the statements they send to a log from which the connection answers.
  \<^item> \<^verbatim>\<open>Sse_Wire\<close>, \<^verbatim>\<open>Sse_Stream\<close>, \<^verbatim>\<open>Sse_Server\<close> (\<open>transport/sse\<close>): the text of events, its reader and the replay log; the loop of a stream
    with its publishers and clients as a step relation; and the table of streams, the handler and the operations of the server.
  \<^item> \<^verbatim>\<open>Authn\<close> (\<open>security/authn\<close>): claims, the token in the metadata of a call, and the engines, with the contract of an engine, that it accepts
    what it issues, as a locale that \<open>hmac\<close>, \<open>basicauth\<close>, \<open>apikey\<close>, \<open>presharedkey\<close> and \<open>jwt\<close> interpret.

  \<^bold>\<open>Conventions.\<close> A struct is a record whose fields carry a prefix of the component, an enumeration or
  a set of functional options a datatype, a method a function from the receiver's state to its
  results and the new state, with the name of the Go method after the prefix. A method that holds
  the component's mutex is one step; goroutines are sequences or interleavings of such steps. What comes from
  outside is an argument: readings of the clock, random numbers, the state of a context, the
  answers of a library, of a database or of a user's function. An error is a value of a datatype or of
  \<open>option\<close>; a run-time panic is \<open>None\<close>. Numbers that clients supply wrap at 64 bits; counters that only
  count calls are unbounded. Floating-point values are finite: infinities, NaN and subnormal numbers are not
  modelled. A Go map is a partial function or an association list whose order stands for the unspecified
  order of a range.

  \<^bold>\<open>What the lemmas show.\<close> The breakers trip exactly at their thresholds, admit one trial call when half
  open and recover; the limiters keep their token and in-flight bounds; a retrier makes the calls and
  delays of its policy; round robin is fair; sagas and XA transactions end in one of the
  permitted call sequences, with every completed step compensated or rolled back; the
  authorization engines decide by the stated rules, and role resolution terminates on cyclic
  hierarchies; page lengths stay bounded and pages partition the rows; the relay loses no event under any
  pattern of failures, and a transactional consumer applies each event once; the verdict of a health check
  does not depend on the order of arrival; a page token decodes to what was encoded and only under its secret;
  frames survive any fragmentation of the stream; the timer's heap and index agree in every reachable state, and a removed
  task never runs again; the SQL of a filter carries names that passed the validator and placeholders only, and its text, read
  with SQL's precedences, means what the filter means; a list query of the ClickHouse repository returns rows of the viewer's tenant that
  satisfy the filter, for every request, and fails before it sends anything when there is no viewer; in every interleaving a subscriber of a
  stream gets its replay and then every event once and in order, and a client that reconnects misses none; what the writer of events writes
  the reader reads; the HMAC engine accepts exactly fresh signed tokens, and a caller who was given one. Several theorems prove that a routine deviates from what its
  documentation says: they are stated about the code as it is.

  \<^bold>\<open>Bounds and fuel.\<close> Loops over data are structural recursions. The rings of the windows have the
  length that the constructor gives them. \<open>rl_poll\<close> counts the polls of the relay, because \<open>Run\<close> ends only with its
  context; its theorems hold for every count. Role resolution is bounded by the number of roles, which is
  proved to be enough.

  \<^bold>\<open>Not modelled.\<close> Adapters that forward to third-party systems: the broker drivers, \<open>cache/redis\<close>,
  \<open>circuitbreaker/sentinel\<close>, \<open>ratelimit/sentinel\<close>, \<open>transaction/dtm\<close>, the external authorization engines,
  \<open>oauth2\<close> and \<open>oidc\<close> of \<open>security/authn\<close>, \<open>registry\<close>, \<open>config\<close>, \<open>oss\<close>, \<open>metrics\<close>, \<open>tracer\<close>, \<open>log\<close>, \<open>workflow\<close>, \<open>ai\<close>; the database clients of
  \<open>crud\<close> and the repositories over ORMs and drivers other than ClickHouse (the query, filter and sorting packages of Doris are
  copies of the ClickHouse ones); the network servers of \<open>transport\<close> apart from framing, sessions, the timer and server-sent events; generated code. What these
  packages do is mostly done by the libraries they call.
\<close>

section \<open>From the outbox to the consumer\<close>

lemma rl_pub_ID: "i \<noteq> [] \<Longrightarrow> msg_ID m = i \<Longrightarrow> in_EventID (Some (tp, Some m)) = i"
  by (simp add: in_EventID_def in_eventID_def)

text \<open>
  C1: the outbox pattern end to end. A relay runs on an outbox table with failures anywhere, and the
  broker hands the messages it accepted to a consumer behind \<open>Barrier\<close>, in any order and any number of times, with
  failures there too. Every event that was undelivered is still undelivered or was published under
  its own ID; the consumer's state is the result of events with distinct IDs, all of them published ones; and
  every event whose delivery the consumer acknowledged is among them.
\<close>

theorem outbox_end_to_end:
  assumes "rl_Run n (ob_NewStore cfg locked) un C E w = (r, w')" "rw_pub w = []"
    "set evs \<subseteq> (\<lambda>(tp, m). Some (tp, Some m)) ` set (rw_pub w')"
    "in_deliver (in_Barrier ccfg unm ma name h) evs cw = (rs, cw')" "in_ids ccfg name (iw_db cw) = {}"
  shows "(\<forall>i \<in> ob_live (cf_outboxTable cfg) (rw_store w) - {[]}. i \<in> ob_live (cf_outboxTable cfg) (rw_store w') \<or>
      (\<exists>(tp, m) \<in> set (rw_pub w'). in_EventID (Some (tp, Some m)) = i)) \<and>
    (\<exists>es. fold_opt (in_effect h) es (iw_biz cw) = Some (iw_biz cw') \<and> distinct (map fst es) \<and>
      (\<forall>i \<in> fst ` set es. \<exists>(tp, m) \<in> set (rw_pub w'). in_EventID (Some (tp, Some m)) = i) \<and>
      (\<forall>(evt, a) \<in> set (zip evs rs). a = Some None \<longrightarrow> in_EventID evt \<in> fst ` set es))"
proof (intro conjI ballI)
  fix i assume i: "i \<in> ob_live (cf_outboxTable cfg) (rw_store w) - {[]}"
  then have "i \<in> sql.safe cfg w'" using sql.safe_Run[OF assms(1)] by (auto simp: sql.safe_def)
  then show "i \<in> ob_live (cf_outboxTable cfg) (rw_store w') \<or>
      (\<exists>(tp, m) \<in> set (rw_pub w'). in_EventID (Some (tp, Some m)) = i)"
    using i rl_pub_ID[of i] by (fastforce simp: sql.safe_def)
next
  from in_Barrier_run[OF assms(4)] assms(5) obtain es where
    es: "fold_opt (in_effect h) es (iw_biz cw) = Some (iw_biz cw')" "distinct (map fst es)"
    "in_ids ccfg name (iw_db cw') = fst ` set es"
    "\<forall>(i, p) \<in> set es. \<exists>evt \<in> set evs. in_EventID evt = i \<and> in_decodePayload unm ma evt = Inr p"
    "\<forall>(evt, a) \<in> set (zip evs rs). a = Some None \<longrightarrow> in_EventID evt \<in> in_ids ccfg name (iw_db cw')" by auto
  have "\<exists>(tp, m) \<in> set (rw_pub w'). in_EventID (Some (tp, Some m)) = fst ip" if "ip \<in> set es" for ip
    using es(4) assms(3) that by fastforce
  then show "\<exists>es. fold_opt (in_effect h) es (iw_biz cw) = Some (iw_biz cw') \<and> distinct (map fst es) \<and>
      (\<forall>i \<in> fst ` set es. \<exists>(tp, m) \<in> set (rw_pub w'). in_EventID (Some (tp, Some m)) = i) \<and>
      (\<forall>(evt, a) \<in> set (zip evs rs). a = Some None \<longrightarrow> in_EventID evt \<in> fst ` set es)"
    using es(1-3,5) by (intro exI[of _ es]) auto
qed

text \<open>One event, published by the relay, delivered twice.\<close>

definition e2e_world :: "(ob_db, unit, unit) rl_world" where
  "e2e_world = snd (rl_Run 5 (ob_NewStore rl_demo_cfg []) (\<lambda>_. None) (rl_New int []) rl_demo_env (rl_demo_world rl_demo_db))"

definition e2e_events :: "(unit, unit) br_event list" where
  "e2e_events = map (\<lambda>(tp, m). Some (tp, Some m)) (rw_pub e2e_world @ rw_pub e2e_world)"

definition e2e_consumer :: "(unit, unit) br_event \<Rightarrow> nat in_world \<Rightarrow> ob_error option option \<times> nat in_world" where
  "e2e_consumer = in_Barrier rl_demo_cfg (\<lambda>_. Inr ()) (\<lambda>_. Inl []) ''billing'' (\<lambda>_ b. Inr (b + 1))"

theorem outbox_end_to_end_witness:
  "length e2e_events = 2 \<and> iw_biz (snd (in_deliver e2e_consumer e2e_events in_demo_world)) = 1 \<and>
   (\<exists>es :: (string \<times> unit) list. fold_opt (in_effect (\<lambda>_ b. Inr (b + 1))) es 0 = Some (1 :: nat) \<and> distinct (map fst es) \<and>
     (\<forall>i \<in> fst ` set es. \<exists>(tp, m) \<in> set (rw_pub e2e_world). in_EventID (Some (tp, Some m)) = i))"
proof -
  obtain r where R: "rl_Run 5 (ob_NewStore rl_demo_cfg []) (\<lambda>_. None) (rl_New int []) rl_demo_env (rl_demo_world rl_demo_db) = (r, e2e_world)"
    unfolding e2e_world_def by (metis prod.collapse)
  obtain rs cw' where D: "in_deliver (in_Barrier rl_demo_cfg (\<lambda>_. Inr ()) (\<lambda>_. Inl []) ''billing'' (\<lambda>_ b. Inr (b + 1)))
      e2e_events in_demo_world = (rs, cw')" by fastforce
  have b: "iw_biz (snd (in_deliver e2e_consumer e2e_events in_demo_world)) = 1" by code_simp
  have l: "length e2e_events = 2" by code_simp
  have c: "iw_biz cw' = 1" using b D by (simp add: e2e_consumer_def)
  have p: "rw_pub (rl_demo_world rl_demo_db) = []" by (simp add: rl_demo_world_def)
  have v: "set e2e_events \<subseteq> (\<lambda>(tp, m). Some (tp, Some m)) ` set (rw_pub e2e_world)" by (simp add: e2e_events_def)
  have "db_inbox (iw_db in_demo_world) (cf_inboxTable rl_demo_cfg) = Some []" by code_simp
  then have i: "in_ids rl_demo_cfg ''billing'' (iw_db in_demo_world) = {}" by (simp add: in_ids_def in_key_def)
  have z: "iw_biz in_demo_world = 0" by (simp add: in_demo_world_def)
  from conjunct2[OF outbox_end_to_end[OF R p v D i]] obtain es :: "(string \<times> unit) list" where
    "fold_opt (in_effect (\<lambda>_ b. Inr (b + 1))) es 0 = Some (1 :: nat)" "distinct (map fst es)"
    "\<forall>i \<in> fst ` set es. \<exists>(tp, m) \<in> set (rw_pub e2e_world). in_EventID (Some (tp, Some m)) = i"
    unfolding c z by (elim exE conjE)
  with l b show ?thesis by (intro conjI exI[of _ es])
qed

section \<open>From a query to SQL\<close>


text \<open>
  A query on a key inside a JSON column is lost between the two parts: \<open>ParseQuery\<close> stores its value as a
  JSON value, which the SQL builder does not read, so the query succeeds and no clause restricts it.
\<close>

theorem json_key_query_unfiltered:
  assumes "qc_splitQueryKey k = [k]" "k \<noteq> ''''" "qc_isJsonFieldKey k" "qc_splitJsonFieldKey k = [a, b]"
    "CHR ''.'' \<notin> set a" "isValidFieldExpr (snake a)"
  shows "\<exists>e. qc_parseRawQuery E (FilterExpr ExprType_AND [] []) (JObj [(k, v)]) = Inr e \<and>
    fg_closure G snake e (Some db) = Some db"
proof -
  let ?c = "qc_cond0\<lparr>fc_Op := EQ, fc_Field := a, fc_JsonPath := Some b, fc_Value := FV_Json v\<rparr>"
  have "k \<noteq> QueryAnd" "k \<noteq> QueryOr" using assms(3) by (auto simp: qc_isJsonFieldKey_def go_Contains_def sublist_code)
  then have "qc_parseRawQuery E (FilterExpr ExprType_AND [] []) (JObj [(k, v)]) = Inr (FilterExpr ExprType_AND [?c] [])"
    using assms(1-4) by (simp add: qc_MakeFieldFilter_def qc_condition_def qc_field_def fx_addCondition_def)
  moreover have "fg_condExpr G snake db ?c = Inr None"
    by (rule fg_json_value_skipped) (use assms(5,6) in \<open>auto simp: fg_condField_def fg_requiresValue_def\<close>)
  ultimately show ?thesis by (simp add: fg_closure_def)
qed


theorem json_key_query_unfiltered_witness:
  "\<exists>e. qc_parseRawQuery qc_demo_env (FilterExpr ExprType_AND [] []) (JObj [(''dept.name'', JStr ''x'')]) = Inr e \<and>
     fg_closure fg_demo_env (\<lambda>s. s) e (Some fg_demo_db) = Some fg_demo_db"
proof -
  have "qc_splitQueryKey ''dept.name'' = [''dept.name'']" "qc_isJsonFieldKey ''dept.name''"
    "qc_splitJsonFieldKey ''dept.name'' = [''dept'', ''name'']" "isValidFieldExpr ''dept''" by code_simp+
  then show ?thesis by (intro json_key_query_unfiltered[where a = "''dept''" and b = "''name''"]) simp_all
qed

end
